(* ===== verification/Kd39_Prelude.thy ===== *)
theory Kd39_Prelude
  imports Main "HOL-Library.AList" "HOL-Library.Multiset" "HOL-Library.Word"
begin

text \<open>
  Shared vocabulary of the development: exceptions as values, the C++ standard containers the
  program uses, and the generic lemmas the component theories rest on.

  \<^item> A C++ call that may throw returns \<open>exn + 'a\<close>: \<open>Inl e\<close> is the exception, \<open>Inr a\<close> the
    value. A stateful call that may throw returns the pair of that value and the state it
    leaves, since a C++ exception does not undo the writes made before it.
  \<^item> \<open>std::unordered_map<std::string, V>\<close> is a function \<open>string \<rightharpoonup> 'v\<close> where the program only
    looks keys up, and the association list \<open>'v umap\<close> where it also iterates. The order of
    an iteration is unspecified in C++: every iterating operation takes it as an argument, a
    permutation of the entries (\<open>traversal\<close>).
  \<^item> A time point of \<open>std::chrono::steady_clock\<close> is its count of nanoseconds, an \<open>int\<close>.
\<close>

section \<open>Exceptions\<close>

datatype exn =
    Std_invalid_argument
  | Std_out_of_range
  | Json_type_error
  | Std_exception string

named_theorems res_simps

definition res_bind :: "exn + 'a \<Rightarrow> ('a \<Rightarrow> exn + 'b) \<Rightarrow> exn + 'b" where
  "res_bind r f = (case r of Inl e \<Rightarrow> Inl e | Inr a \<Rightarrow> f a)"

lemma res_bind_simps [simp, res_simps]:
  "res_bind (Inl e) f = Inl e"
  "res_bind (Inr a) f = f a"
  by (simp_all add: res_bind_def)

lemma res_bind_eq_Inl [res_simps]:
  "res_bind r f = Inl e \<longleftrightarrow> r = Inl e \<or> (\<exists>a. r = Inr a \<and> f a = Inl e)"
  by (cases r) simp_all

lemma res_bind_eq_Inr [res_simps]:
  "res_bind r f = Inr b \<longleftrightarrow> (\<exists>a. r = Inr a \<and> f a = Inr b)"
  by (cases r) simp_all

section \<open>Time\<close>

type_synonym time_ns = int

abbreviation seconds :: "int \<Rightarrow> time_ns" where
  "seconds n \<equiv> n * 1000000000"

abbreviation milliseconds :: "int \<Rightarrow> time_ns" where
  "milliseconds n \<equiv> n * 1000000"

section \<open>Strings\<close>

text \<open>\<open>s.rfind(p, 0) == 0\<close> and \<open>s.starts_with(p)\<close>.\<close>

definition starts_with :: "string \<Rightarrow> string \<Rightarrow> bool" where
  "starts_with p s \<longleftrightarrow> take (length p) s = p"

lemma starts_with_append [simp]: "starts_with p (p @ s)"
  by (simp add: starts_with_def)

lemma starts_with_iff: "starts_with p s \<longleftrightarrow> (\<exists>r. s = p @ r)"
  by (metis append_take_drop_id starts_with_append starts_with_def)

lemma starts_with_Nil [simp]: "starts_with [] s"
  by (simp add: starts_with_def)

lemma starts_with_Cons [simp]:
  "starts_with (c # p) (d # s) \<longleftrightarrow> c = d \<and> starts_with p s"
  "\<not> starts_with (c # p) []"
  by (auto simp: starts_with_def)

text \<open>\<open>s.find(c, i)\<close>: the first position from \<open>i\<close> on that holds \<open>c\<close>, \<open>None\<close> for \<open>npos\<close>.\<close>

fun find_char :: "char \<Rightarrow> string \<Rightarrow> nat option" where
  "find_char c [] = None"
| "find_char c (d # s) = (if c = d then Some 0 else map_option Suc (find_char c s))"

definition find_char_from :: "char \<Rightarrow> nat \<Rightarrow> string \<Rightarrow> nat option" where
  "find_char_from c i s = map_option (\<lambda>k. i + k) (find_char c (drop i s))"

lemma find_char_None: "find_char c s = None \<longleftrightarrow> c \<notin> set s"
  by (induction s) auto

lemma find_char_Some:
  "find_char c s = Some i \<longleftrightarrow> i < length s \<and> s ! i = c \<and> c \<notin> set (take i s)"
proof (induction s arbitrary: i)
  case Nil
  then show ?case by simp
next
  case (Cons d s)
  show ?case by (cases i) (auto simp: Cons.IH)
qed

lemma find_char_append:
  "c \<notin> set p \<Longrightarrow> find_char c (p @ c # r) = Some (length p)"
  by (induction p) auto

lemma find_char_split:
  assumes "find_char c s = Some i"
  shows "s = take i s @ c # drop (Suc i) s" and "c \<notin> set (take i s)"
  using assms by (auto simp: find_char_Some id_take_nth_drop)

text \<open>Text joined by a separator comes apart in one way when the parts before it are free of it.\<close>

lemma split_at_sep:
  "c \<notin> set v \<Longrightarrow> c \<notin> set w \<Longrightarrow> v @ c # r = w @ c # s \<longleftrightarrow> v = w \<and> r = s"
proof (induction v arbitrary: w)
  case Nil
  then show ?case by (cases w) auto
next
  case (Cons a v)
  then show ?case by (cases w) auto
qed

section \<open>std::unordered\_map\<close>

named_theorems umap_simps

type_synonym 'v umap = "(string \<times> 'v) list"

definition um_find :: "'v umap \<Rightarrow> string \<Rightarrow> 'v option" where
  "um_find m k = map_of m k"

definition um_put :: "string \<Rightarrow> 'v \<Rightarrow> 'v umap \<Rightarrow> 'v umap" where
  "um_put k v m = AList.update k v m"

definition um_erase :: "string \<Rightarrow> 'v umap \<Rightarrow> 'v umap" where
  "um_erase k m = AList.delete k m"

text \<open>A container holds every key once.\<close>

definition um_ok :: "'v umap \<Rightarrow> bool" where
  "um_ok m \<longleftrightarrow> distinct (map fst m)"

text \<open>What an iteration visits: every entry exactly once, in an order C++ leaves open.\<close>

definition traversal :: "('a list \<Rightarrow> 'a list) \<Rightarrow> bool" where
  "traversal ord \<longleftrightarrow> (\<forall>xs. mset (ord xs) = mset xs)"

lemma um_find_Nil [simp, umap_simps]: "um_find [] k = None"
  by (simp add: um_find_def)

lemma um_find_put [simp, umap_simps]:
  "um_find (um_put k v m) k' = (if k' = k then Some v else um_find m k')"
  by (simp add: um_find_def um_put_def update_conv)

lemma um_find_erase [simp, umap_simps]:
  "um_find (um_erase k m) k' = (if k' = k then None else um_find m k')"
  by (simp add: um_find_def um_erase_def delete_conv)

lemma um_ok_Nil [simp, umap_simps]: "um_ok []"
  by (simp add: um_ok_def)

lemma um_ok_put [simp, umap_simps]: "um_ok m \<Longrightarrow> um_ok (um_put k v m)"
  by (simp add: um_ok_def um_put_def distinct_update)

lemma um_ok_erase [simp, umap_simps]: "um_ok m \<Longrightarrow> um_ok (um_erase k m)"
  by (simp add: um_ok_def um_erase_def distinct_delete)

lemma um_find_in_set: "um_ok m \<Longrightarrow> um_find m k = Some v \<longleftrightarrow> (k, v) \<in> set m"
  by (simp add: um_ok_def um_find_def map_of_eq_Some_iff)

lemma um_put_same [umap_simps]: "um_find m k = Some v \<Longrightarrow> um_put k v m = m"
  by (simp add: um_find_def um_put_def AList.update_triv)

lemma set_um_put:
  "um_ok m \<Longrightarrow> set (um_put k v m) = {(k', v'). (k', v') \<in> set m \<and> k' \<noteq> k} \<union> {(k, v)}"
  by (auto simp: um_ok_put simp flip: um_find_in_set split: if_splits)

lemma set_um_erase:
  "um_ok m \<Longrightarrow> set (um_erase k m) = {(k', v'). (k', v') \<in> set m \<and> k' \<noteq> k}"
  by (auto simp: um_ok_erase simp flip: um_find_in_set split: if_splits)

lemma traversal_set: "traversal ord \<Longrightarrow> set (ord xs) = set xs"
  by (metis traversal_def set_mset_mset)

lemma traversal_mset: "traversal ord \<Longrightarrow> mset (ord xs) = mset xs"
  by (simp add: traversal_def)

lemma traversal_length: "traversal ord \<Longrightarrow> length (ord xs) = length xs"
  by (metis traversal_def size_mset)

lemma traversal_Nil [simp]: "traversal ord \<Longrightarrow> ord [] = []"
  by (metis traversal_length length_0_conv)

lemma traversal_distinct: "traversal ord \<Longrightarrow> distinct (map fst (ord xs)) = distinct (map fst xs)"
  by (metis traversal_def mset_map mset_eq_imp_distinct_iff)

lemma traversal_id [simp]: "traversal (\<lambda>xs. xs)"
  by (simp add: traversal_def)

lemma traversal_rev [simp]: "traversal rev"
  by (simp add: traversal_def)

section \<open>Codecs\<close>

text \<open>
  The program has several pairs of an encoder and a decoder (decimal text, base64url, rows,
  cached documents, metadata headers). What a caller relies on is always the same law.
\<close>

locale codec =
  fixes valid :: "'a \<Rightarrow> bool"
    and encode :: "'a \<Rightarrow> 'b"
    and decode :: "'b \<Rightarrow> 'a option"
  assumes decode_encode: "valid a \<Longrightarrow> decode (encode a) = Some a"
begin

lemma encode_inj: "valid a \<Longrightarrow> valid b \<Longrightarrow> encode a = encode b \<longleftrightarrow> a = b"
  by (metis decode_encode option.inject)

lemma inj_on_encode: "inj_on encode {a. valid a}"
  by (auto simp: inj_on_def encode_inj)

lemma distinct_encode: "\<forall>a \<in> set xs. valid a \<Longrightarrow> distinct (map encode xs) = distinct xs"
  by (induction xs) (auto simp: encode_inj)

end

end
