(* ===== verification/Std_Text.thy ===== *)
theory Std_Text
  imports Kd39_Prelude
begin

text \<open>
  The text functions of the C++ standard library the program uses, in the "C" locale:
  \<open>std::tolower\<close>, \<open>std::isalnum\<close>, \<open>std::to_string\<close> and the \<open>std::stoi\<close>/\<open>std::stoll\<close> family.
  Characters are bytes. The decimal printer and reader are a codec on the values of
  \<open>long long\<close>.
\<close>

named_theorems text_simps

section \<open>Character classes\<close>

abbreviation code :: "char \<Rightarrow> nat" where
  "code c \<equiv> of_char c"

definition to_lower :: "char \<Rightarrow> char" where
  "to_lower c = (if 65 \<le> code c \<and> code c \<le> 90 then char_of (code c + 32) else c)"

definition to_lower_ascii :: "string \<Rightarrow> string" where
  "to_lower_ascii s = map to_lower s"

definition is_alnum :: "char \<Rightarrow> bool" where
  "is_alnum c \<longleftrightarrow> (48 \<le> code c \<and> code c \<le> 57) \<or> (65 \<le> code c \<and> code c \<le> 90) \<or>
     (97 \<le> code c \<and> code c \<le> 122)"

definition is_digit :: "char \<Rightarrow> bool" where
  "is_digit c \<longleftrightarrow> 48 \<le> code c \<and> code c \<le> 57"

definition is_cspace :: "char \<Rightarrow> bool" where
  "is_cspace c \<longleftrightarrow> code c = 32 \<or> (9 \<le> code c \<and> code c \<le> 13)"

lemma code_char_of: "n < 256 \<Longrightarrow> code (char_of n) = n"
  by simp

lemma to_lower_idem [simp, text_simps]: "to_lower (to_lower c) = to_lower c"
  by (simp add: to_lower_def)

lemma to_lower_ascii_idem [simp, text_simps]: "to_lower_ascii (to_lower_ascii s) = to_lower_ascii s"
  by (simp add: to_lower_ascii_def)

lemma length_to_lower_ascii [simp, text_simps]: "length (to_lower_ascii s) = length s"
  by (simp add: to_lower_ascii_def)

lemma to_lower_ascii_append [simp, text_simps]:
  "to_lower_ascii (s @ t) = to_lower_ascii s @ to_lower_ascii t"
  by (simp add: to_lower_ascii_def)

section \<open>Decimal text\<close>

definition digit_char :: "nat \<Rightarrow> char" where
  "digit_char d = char_of (48 + d)"

definition digit_value :: "char \<Rightarrow> nat" where
  "digit_value c = code c - 48"

fun dec_nat :: "nat \<Rightarrow> string" where
  "dec_nat n = (if n < 10 then [digit_char n] else dec_nat (n div 10) @ [digit_char (n mod 10)])"

declare dec_nat.simps [simp del]

definition to_string :: "int \<Rightarrow> string" where
  "to_string n = (if n < 0 then CHR ''-'' # dec_nat (nat (- n)) else dec_nat (nat n))"

definition digits_value :: "string \<Rightarrow> nat" where
  "digits_value ds = foldl (\<lambda>acc c. acc * 10 + digit_value c) 0 ds"

text \<open>
  \<open>strtoll(s, ..., 10)\<close>: leading white space, one optional sign, then as many digits as there
  are; the rest of the text is ignored. \<open>None\<close> where there is no digit.
\<close>

definition scan_int :: "string \<Rightarrow> int option" where
  "scan_int s =
     (let s1 = dropWhile is_cspace s;
          neg = (s1 \<noteq> [] \<and> hd s1 = CHR ''-'');
          s2 = (if s1 \<noteq> [] \<and> (hd s1 = CHR ''-'' \<or> hd s1 = CHR ''+'') then tl s1 else s1);
          ds = takeWhile is_digit s2
      in if ds = [] then None
         else Some (if neg then - int (digits_value ds) else int (digits_value ds)))"

definition std_sto :: "int \<Rightarrow> int \<Rightarrow> string \<Rightarrow> exn + int" where
  "std_sto lo hi s =
     (case scan_int s of
        None \<Rightarrow> Inl Std_invalid_argument
      | Some n \<Rightarrow> if lo \<le> n \<and> n \<le> hi then Inr n else Inl Std_out_of_range)"

abbreviation int32_range :: "int \<Rightarrow> bool" where
  "int32_range n \<equiv> - (2 ^ 31) \<le> n \<and> n \<le> 2 ^ 31 - 1"

abbreviation int64_range :: "int \<Rightarrow> bool" where
  "int64_range n \<equiv> - (2 ^ 63) \<le> n \<and> n \<le> 2 ^ 63 - 1"

definition stoi :: "string \<Rightarrow> exn + int" where
  "stoi s = std_sto (- (2 ^ 31)) (2 ^ 31 - 1) s"

definition stoll :: "string \<Rightarrow> exn + int" where
  "stoll s = std_sto (- (2 ^ 63)) (2 ^ 63 - 1) s"

section \<open>Reading back what was printed\<close>

lemma digit_char_props [simp, text_simps]:
  assumes "d < 10"
  shows "is_digit (digit_char d)" "digit_value (digit_char d) = d"
    "\<not> is_cspace (digit_char d)" "digit_char d \<noteq> CHR ''-''" "digit_char d \<noteq> CHR ''+''"
proof -
  have c: "code (digit_char d) = 48 + d"
    using assms by (simp add: digit_char_def)
  show "is_digit (digit_char d)" "digit_value (digit_char d) = d" "\<not> is_cspace (digit_char d)"
    using assms c by (auto simp: is_digit_def digit_value_def is_cspace_def)
  show "digit_char d \<noteq> CHR ''-''" "digit_char d \<noteq> CHR ''+''"
    using c by auto
qed

lemma dec_nat_digits: "\<forall>c \<in> set (dec_nat n). is_digit c"
proof (induction n rule: dec_nat.induct)
  case (1 n)
  then show ?case by (subst dec_nat.simps) auto
qed

lemma dec_nat_nonempty [simp]: "dec_nat n \<noteq> []"
  by (subst dec_nat.simps) simp

lemma digits_value_dec_nat: "digits_value (dec_nat n) = n"
proof (induction n rule: dec_nat.induct)
  case (1 n)
  show ?case
  proof (cases "n < 10")
    case True
    then show ?thesis by (subst dec_nat.simps) (simp add: digits_value_def)
  next
    case False
    with 1 have "digits_value (dec_nat (n div 10)) = n div 10" by simp
    with False show ?thesis by (subst dec_nat.simps) (simp add: digits_value_def)
  qed
qed

lemma is_digit_not:
  "is_digit c \<Longrightarrow> \<not> is_cspace c" "is_digit c \<Longrightarrow> c \<noteq> CHR ''-''" "is_digit c \<Longrightarrow> c \<noteq> CHR ''+''"
  "is_digit c \<Longrightarrow> c \<noteq> CHR ''|''" "is_digit c \<Longrightarrow> c \<noteq> CHR '':''"
  by (auto simp: is_digit_def is_cspace_def)

lemma hd_dec_nat: "is_digit (hd (dec_nat n))"
  using dec_nat_digits [of n] by simp

lemma dropWhile_dec_nat: "dropWhile is_cspace (dec_nat n) = dec_nat n"
  using hd_dec_nat [of n] by (cases "dec_nat n") (auto dest: is_digit_not)

lemma takeWhile_dec_nat: "takeWhile is_digit (dec_nat n) = dec_nat n"
  using dec_nat_digits [of n] by (simp add: takeWhile_eq_all_conv)

lemma scan_int_to_string [simp, text_simps]: "scan_int (to_string n) = Some n"
proof (cases "n < 0")
  case True
  then show ?thesis
    by (simp add: scan_int_def to_string_def is_cspace_def takeWhile_dec_nat digits_value_dec_nat)
next
  case False
  have "hd (dec_nat (nat n)) \<noteq> CHR ''-''" "hd (dec_nat (nat n)) \<noteq> CHR ''+''"
    using hd_dec_nat [of "nat n"] by (auto dest: is_digit_not)
  with False show ?thesis
    by (simp add: scan_int_def to_string_def dropWhile_dec_nat takeWhile_dec_nat
        digits_value_dec_nat)
qed

lemma stoll_to_string [simp, text_simps]: "int64_range n \<Longrightarrow> stoll (to_string n) = Inr n"
  by (simp add: stoll_def std_sto_def)

lemma stoi_to_string [simp, text_simps]: "int32_range n \<Longrightarrow> stoi (to_string n) = Inr n"
  by (simp add: stoi_def std_sto_def)

lemma stoi_range: "stoi s = Inr n \<Longrightarrow> int32_range n"
  by (auto simp: stoi_def std_sto_def split: option.splits if_splits)

lemma stoll_range: "stoll s = Inr n \<Longrightarrow> int64_range n"
  by (auto simp: stoll_def std_sto_def split: option.splits if_splits)

definition read_int64 :: "string \<Rightarrow> int option" where
  "read_int64 s = (case stoll s of Inl _ \<Rightarrow> None | Inr n \<Rightarrow> Some n)"

definition read_int32 :: "string \<Rightarrow> int option" where
  "read_int32 s = (case stoi s of Inl _ \<Rightarrow> None | Inr n \<Rightarrow> Some n)"

interpretation int64_text: codec "\<lambda>n. int64_range n" to_string read_int64
  by unfold_locales (simp add: read_int64_def)

interpretation int32_text: codec "\<lambda>n. int32_range n" to_string read_int32
  by unfold_locales (simp add: read_int32_def)

lemma to_string_inj [simp, text_simps]: "to_string m = to_string n \<longleftrightarrow> m = n"
  by (metis option.inject scan_int_to_string)

lemma to_string_chars: "c \<in> set (to_string n) \<Longrightarrow> is_digit c \<or> c = CHR ''-''"
  using dec_nat_digits by (auto simp: to_string_def split: if_splits)

lemma to_string_nonempty [simp]: "to_string n \<noteq> []"
  by (simp add: to_string_def)

end
