(* ===== verification/Governance.thy ===== *)
theory Governance
  imports Std_Text
begin

text \<open>
  \<open>framework/governance\<close>: the circuit breaker, the retry policy and the traffic router, and the
  service instance record of \<open>infrastructure/coordination\<close> the router selects from. The clock
  is an argument of every operation that reads it. The breaker is specified over its whole
  history of events and proved to refine that specification. The failure count, an \<open>int\<close> in the code, is an
  integer here: it is back at 0 with every success and would need \<open>2^31\<close> failures in a row to overflow.
\<close>

section \<open>Circuit breaker\<close>

datatype cb_state = KClosed | KOpen | KHalfOpen

record circuit_breaker =
  cb_state :: cb_state
  failure_threshold :: int
  failure_count :: int
  cool_down :: time_ns
  opened_at :: time_ns

definition CircuitBreaker :: "int \<Rightarrow> time_ns \<Rightarrow> circuit_breaker" where
  "CircuitBreaker threshold cool =
     \<lparr>cb_state = KClosed, failure_threshold = threshold, failure_count = 0,
      cool_down = cool, opened_at = 0\<rparr>"

definition AllowRequest :: "time_ns \<Rightarrow> circuit_breaker \<Rightarrow> bool \<times> circuit_breaker" where
  "AllowRequest now b =
     (if cb_state b = KClosed \<or> cb_state b = KHalfOpen then (True, b)
      else if now - opened_at b \<ge> cool_down b then (True, b\<lparr>cb_state := KHalfOpen\<rparr>)
      else (False, b))"

definition RecordSuccess :: "circuit_breaker \<Rightarrow> circuit_breaker" where
  "RecordSuccess b = b\<lparr>failure_count := 0, cb_state := KClosed\<rparr>"

definition RecordFailure :: "time_ns \<Rightarrow> circuit_breaker \<Rightarrow> circuit_breaker" where
  "RecordFailure now b =
     (let b1 = b\<lparr>failure_count := failure_count b + 1\<rparr>
      in if failure_count b1 \<ge> failure_threshold b1
         then b1\<lparr>cb_state := KOpen, opened_at := now\<rparr> else b1)"

text \<open>A history of calls, the latest first, each with the clock it read.\<close>

datatype cb_event = AllowAt time_ns | Succeeded | FailedAt time_ns

fun cb_step :: "circuit_breaker \<Rightarrow> cb_event \<Rightarrow> circuit_breaker" where
  "cb_step b (AllowAt t) = snd (AllowRequest t b)"
| "cb_step b Succeeded = RecordSuccess b"
| "cb_step b (FailedAt t) = RecordFailure t b"

fun cb_after :: "circuit_breaker \<Rightarrow> cb_event list \<Rightarrow> circuit_breaker" where
  "cb_after b [] = b"
| "cb_after b (e # h) = cb_step (cb_after b h) e"

text \<open>
  The specification speaks of the history only: how many failures there were since the last
  success, when the last of them was, and whether a request has been let through since, as a
  probe, after the cool-down.
\<close>

fun failures_since :: "cb_event list \<Rightarrow> nat" where
  "failures_since [] = 0"
| "failures_since (AllowAt t # h) = failures_since h"
| "failures_since (Succeeded # h) = 0"
| "failures_since (FailedAt t # h) = Suc (failures_since h)"

fun last_failure :: "cb_event list \<Rightarrow> time_ns" where
  "last_failure [] = 0"
| "last_failure (AllowAt t # h) = last_failure h"
| "last_failure (Succeeded # h) = last_failure h"
| "last_failure (FailedAt t # h) = t"

fun probed_since :: "time_ns \<Rightarrow> cb_event list \<Rightarrow> bool" where
  "probed_since cool [] = False"
| "probed_since cool (AllowAt t # h) = (probed_since cool h \<or> t - last_failure h \<ge> cool)"
| "probed_since cool (Succeeded # h) = False"
| "probed_since cool (FailedAt t # h) = False"

definition must_refuse :: "int \<Rightarrow> time_ns \<Rightarrow> time_ns \<Rightarrow> cb_event list \<Rightarrow> bool" where
  "must_refuse threshold cool now h \<longleftrightarrow>
     threshold \<le> int (failures_since h) \<and> \<not> probed_since cool h \<and> now - last_failure h < cool"

definition cb_rel :: "int \<Rightarrow> time_ns \<Rightarrow> cb_event list \<Rightarrow> circuit_breaker \<Rightarrow> bool" where
  "cb_rel threshold cool h b \<longleftrightarrow>
     failure_threshold b = threshold \<and> cool_down b = cool \<and>
     failure_count b = int (failures_since h) \<and>
     (if int (failures_since h) < threshold then cb_state b = KClosed
      else opened_at b = last_failure h \<and>
        cb_state b = (if probed_since cool h then KHalfOpen else KOpen))"

lemma cb_rel_init: "1 \<le> threshold \<Longrightarrow> cb_rel threshold cool [] (CircuitBreaker threshold cool)"
  by (simp add: cb_rel_def CircuitBreaker_def)

lemma cb_rel_step:
  "1 \<le> threshold \<Longrightarrow> cb_rel threshold cool h b \<Longrightarrow> cb_rel threshold cool (e # h) (cb_step b e)"
  by (cases e)
    (auto simp: cb_rel_def AllowRequest_def RecordSuccess_def RecordFailure_def Let_def
      split: if_splits)

lemma cb_rel_after:
  "1 \<le> threshold \<Longrightarrow> cb_rel threshold cool h (cb_after (CircuitBreaker threshold cool) h)"
  by (induction h) (simp_all add: cb_rel_init cb_rel_step)

lemma AllowRequest_refines:
  "cb_rel threshold cool h b \<Longrightarrow> fst (AllowRequest now b) = (\<not> must_refuse threshold cool now h)"
  by (auto simp: cb_rel_def AllowRequest_def must_refuse_def split: if_splits)

text \<open>
  C4: the circuit breaker does what its specification over the history says: a request is refused
  exactly when at least \<open>failure_threshold\<close> failures were recorded since the last success, less
  than \<open>cool_down\<close> has passed since the last of them, and no probe has been let through since.
\<close>

theorem breaker_refuses_iff:
  assumes "1 \<le> threshold"
  shows "fst (AllowRequest now (cb_after (CircuitBreaker threshold cool) h)) =
    (\<not> must_refuse threshold cool now h)"
  by (rule AllowRequest_refines [OF cb_rel_after [OF assms]])

theorem breaker_refuses_iff_witness:
  "\<not> fst (AllowRequest (seconds 4) (cb_after (CircuitBreaker 2 (seconds 5)) [FailedAt 1, FailedAt 0]))"
  using breaker_refuses_iff [of 2 "seconds 4" "seconds 5" "[FailedAt 1, FailedAt 0]"]
  by (simp add: must_refuse_def)

section \<open>Retry policy\<close>

record retry_policy =
  max_attempts :: int
  backoff :: time_ns

definition RetryPolicy :: "int \<Rightarrow> time_ns \<Rightarrow> retry_policy" where
  "RetryPolicy n b = \<lparr>max_attempts = n, backoff = b\<rparr>"

text \<open>
  The loop of \<open>RetryPolicy::Run\<close>. The callback reads and writes a state of its own; the result
  carries that state and the sleeps that were made, in order.
\<close>

function retry_loop ::
  "int \<Rightarrow> time_ns \<Rightarrow> ('s \<Rightarrow> bool \<times> 's) \<Rightarrow> int \<Rightarrow> 's \<Rightarrow> time_ns list \<Rightarrow> bool \<times> 's \<times> time_ns list" where
  "retry_loop n b fn attempt s slept =
     (if attempt \<le> n then
        (let (ok, s') = fn s in
         if ok then (True, s', slept)
         else retry_loop n b fn (attempt + 1) s' (if attempt < n then slept @ [b] else slept))
      else (False, s, slept))"
  by pat_completeness auto
termination
  by (relation "measure (\<lambda>(n, b, fn, attempt, s, slept). nat (n - attempt + 1))") auto

declare retry_loop.simps [simp del]

definition Run :: "retry_policy \<Rightarrow> ('s \<Rightarrow> bool \<times> 's) \<Rightarrow> 's \<Rightarrow> bool \<times> 's \<times> time_ns list" where
  "Run p fn s = retry_loop (max_attempts p) (backoff p) fn 1 s []"

text \<open>The callback's state after \<open>k\<close> calls.\<close>

definition after_calls :: "('s \<Rightarrow> bool \<times> 's) \<Rightarrow> 's \<Rightarrow> nat \<Rightarrow> 's" where
  "after_calls fn s k = ((\<lambda>s. snd (fn s)) ^^ k) s"

lemma after_calls_0 [simp]: "after_calls fn s 0 = s"
  by (simp add: after_calls_def)

lemma after_calls_Suc: "after_calls fn s (Suc k) = after_calls fn (snd (fn s)) k"
  by (simp add: after_calls_def funpow_Suc_right del: funpow.simps)

lemma retry_loop_fails:
  "\<forall>k < m. \<not> fst (fn (after_calls fn s k)) \<Longrightarrow> int m = n - attempt + 1 \<Longrightarrow>
   retry_loop n b fn attempt s slept =
     (False, after_calls fn s m, slept @ replicate (m - 1) b)"
proof (induction m arbitrary: attempt s slept)
  case 0
  then show ?case by (subst retry_loop.simps) simp
next
  case (Suc m)
  have first: "\<not> fst (fn s)" using Suc.prems(1) by force
  have rest: "\<forall>k < m. \<not> fst (fn (after_calls fn (snd (fn s)) k))"
    using Suc.prems(1) by (metis Suc_less_eq after_calls_Suc)
  have "int m = n - (attempt + 1) + 1" using Suc.prems(2) by simp
  note IH = Suc.IH [OF rest this]
  show ?case
  proof (cases m)
    case 0
    with first Suc.prems(2) show ?thesis
      by (subst retry_loop.simps)
        (simp add: split_beta after_calls_Suc retry_loop.simps [of attempt b fn "attempt + 1"])
  next
    case (Suc m')
    with first Suc.prems(2) show ?thesis
      by (subst retry_loop.simps) (simp add: split_beta IH after_calls_Suc)
  qed
qed

lemma retry_loop_succeeds:
  "\<forall>j < k. \<not> fst (fn (after_calls fn s j)) \<Longrightarrow> fst (fn (after_calls fn s k)) \<Longrightarrow>
   attempt + int k \<le> n \<Longrightarrow>
   retry_loop n b fn attempt s slept =
     (True, after_calls fn s (Suc k), slept @ replicate k b)"
proof (induction k arbitrary: attempt s slept)
  case 0
  then show ?case
    by (subst retry_loop.simps) (simp add: split_beta after_calls_Suc)
next
  case (Suc k)
  have first: "\<not> fst (fn s)" using Suc.prems(1) by force
  have rest: "\<forall>j < k. \<not> fst (fn (after_calls fn (snd (fn s)) j))"
    using Suc.prems(1) by (metis Suc_less_eq after_calls_Suc)
  have ok: "fst (fn (after_calls fn (snd (fn s)) k))"
    using Suc.prems(2) by (simp add: after_calls_Suc)
  note IH = Suc.IH [OF rest ok, of "attempt + 1"]
  from first Suc.prems(3) show ?case
    by (subst retry_loop.simps) (simp add: split_beta IH after_calls_Suc)
qed

text \<open>
  \<open>RetryPolicy::Run\<close> calls its function until it first succeeds, at most \<open>max_attempts\<close> times,
  and sleeps the back-off once between two calls: if the \<open>k\<close>-th call is the first to succeed it
  returns true after \<open>k\<close> sleeps, and if none of the \<open>max_attempts\<close> calls succeeds it returns
  false after exactly that many calls, with no sleep after the last.
\<close>

theorem Run_first_success:
  assumes "\<forall>j < k. \<not> fst (fn (after_calls fn s j))"
    and "int k < n \<Longrightarrow> fst (fn (after_calls fn s k))"
    and "int k \<le> max 0 n"
  shows "Run (RetryPolicy n b) fn s =
    (if int k < n then (True, after_calls fn s (Suc k), replicate k b)
     else (False, after_calls fn s k, replicate (k - 1) b))"
proof (cases "int k < n")
  case True
  with assms retry_loop_succeeds [of k fn s 1 n b "[]"] show ?thesis
    by (simp add: Run_def RetryPolicy_def)
next
  case False
  show ?thesis
  proof (cases "n \<le> 0")
    case True
    with assms(3) show ?thesis
      by (simp add: Run_def RetryPolicy_def retry_loop.simps)
  next
    case pos: False
    with False assms(3) have "int k = n - 1 + 1" by simp
    with False assms(1) retry_loop_fails [of k fn s n 1 b "[]"] show ?thesis
      by (simp add: Run_def RetryPolicy_def)
  qed
qed

theorem Run_first_success_witness:
  "Run (RetryPolicy 3 5) (\<lambda>n. (n = (1::nat), Suc n)) 0 = (True, 2, [5])"
  using Run_first_success [of 1 "\<lambda>n. (n = (1::nat), Suc n)" 0 3 5]
  by (simp add: after_calls_def)

section \<open>Service instances and the traffic router\<close>

record service_instance =
  service_name :: string
  instance_id :: string
  host :: string
  port :: "16 word"
  protocol :: string
  version_tag :: string
  zone_name :: string

definition empty_instance :: service_instance where
  "empty_instance = \<lparr>service_name = [], instance_id = [], host = [], port = 0, protocol = [],
     version_tag = [], zone_name = []\<rparr>"

definition Select :: "service_instance list \<Rightarrow> string \<Rightarrow> service_instance" where
  "Select instances traffic_tag = (if instances = [] then empty_instance else hd instances)"

lemma Select_in: "instances \<noteq> [] \<Longrightarrow> Select instances tag \<in> set instances"
  by (simp add: Select_def)

lemma Select_ignores_tag: "Select instances tag = Select instances tag'"
  by (simp add: Select_def)

end
