(* ===== verification/Rate_Limiter.thy ===== *)
theory Rate_Limiter
  imports Kd39_Prelude Complex_Main
begin

text \<open>
  \<open>framework/governance/rate_limiter.cpp\<close>: the token bucket, with its arithmetic on C++ doubles.
  A double is the rational number it denotes, and every operation rounds its exact result by
  \<open>rnd\<close>, an argument of the model. What is assumed of the rounding (\<open>binary_rounding\<close>) holds of
  IEEE 754 binary64 in round-to-nearest: it is monotone and idempotent, exact on integers up to
  \<open>2^53\<close>, and errs by at most a relative \<open>u\<close> and an absolute \<open>e\<close> (the standard model).
  The time difference in nanoseconds becomes seconds as \<open>std::chrono::duration<double>\<close> computes
  it: the count converted to double, then divided by \<open>10^9\<close>.
\<close>

definition binary_rounding :: "(rat \<Rightarrow> rat) \<Rightarrow> rat \<Rightarrow> rat \<Rightarrow> bool" where
  "binary_rounding rnd u e \<longleftrightarrow>
     mono rnd \<and> (\<forall>x. rnd (rnd x) = rnd x) \<and>
     (\<forall>n. \<bar>n\<bar> \<le> 2 ^ 53 \<longrightarrow> rnd (of_int n) = of_int n) \<and>
     0 \<le> u \<and> 0 \<le> e \<and> (\<forall>x \<ge> 0. rnd x \<le> x * (1 + u) + e)"

record token_bucket =
  tokens :: rat
  rate_per_second :: rat
  burst_capacity :: rat
  last_refill :: time_ns

definition TokenBucketRateLimiter :: "rat \<Rightarrow> rat \<Rightarrow> time_ns \<Rightarrow> token_bucket" where
  "TokenBucketRateLimiter rate burst now =
     \<lparr>tokens = burst, rate_per_second = rate, burst_capacity = burst, last_refill = now\<rparr>"

definition elapsed_seconds :: "(rat \<Rightarrow> rat) \<Rightarrow> time_ns \<Rightarrow> rat" where
  "elapsed_seconds rnd d = rnd (rnd (of_int d) / 1000000000)"

definition refill :: "(rat \<Rightarrow> rat) \<Rightarrow> rat \<Rightarrow> time_ns \<Rightarrow> rat" where
  "refill rnd rate d = rnd (elapsed_seconds rnd d * rate)"

definition filled_tokens :: "(rat \<Rightarrow> rat) \<Rightarrow> time_ns \<Rightarrow> token_bucket \<Rightarrow> rat" where
  "filled_tokens rnd now l =
     min (burst_capacity l)
       (rnd (tokens l + refill rnd (rate_per_second l) (now - last_refill l)))"

definition Allow :: "(rat \<Rightarrow> rat) \<Rightarrow> time_ns \<Rightarrow> token_bucket \<Rightarrow> bool \<times> token_bucket" where
  "Allow rnd now l =
     (let l1 = l\<lparr>tokens := filled_tokens rnd now l, last_refill := now\<rparr>
      in if tokens l1 < 1 then (False, l1) else (True, l1\<lparr>tokens := rnd (tokens l1 - 1)\<rparr>))"

section \<open>The rounding\<close>

lemma rounding_mono: "binary_rounding rnd u e \<Longrightarrow> x \<le> y \<Longrightarrow> rnd x \<le> rnd y"
  by (simp add: binary_rounding_def mono_def)

lemma rounding_idem: "binary_rounding rnd u e \<Longrightarrow> rnd (rnd x) = rnd x"
  by (simp add: binary_rounding_def)

lemma rounding_int:
  "binary_rounding rnd u e \<Longrightarrow> \<bar>n\<bar> \<le> 2 ^ 53 \<Longrightarrow> rnd (of_int n) = of_int n"
  by (simp add: binary_rounding_def)

lemma rounding_0 [simp]: "binary_rounding rnd u e \<Longrightarrow> rnd 0 = 0"
  using rounding_int [of rnd u e 0] by simp

lemma rounding_nonneg: "binary_rounding rnd u e \<Longrightarrow> 0 \<le> x \<Longrightarrow> 0 \<le> rnd x"
  using rounding_mono [of rnd u e 0 x] by simp

lemma rounding_upper: "binary_rounding rnd u e \<Longrightarrow> 0 \<le> x \<Longrightarrow> rnd x \<le> x * (1 + u) + e"
  by (simp add: binary_rounding_def)

text \<open>A rounding to multiples of \<open>2^-20\<close>, towards minus infinity, that satisfies the laws.\<close>

definition fixed20 :: "rat \<Rightarrow> rat" where
  "fixed20 x = of_int \<lfloor>x * 1048576\<rfloor> / 1048576"

lemma fixed20_rounding: "binary_rounding fixed20 0 0"
proof -
  have "mono fixed20"
    by (rule monoI) (simp add: fixed20_def divide_right_mono floor_mono)
  moreover have "fixed20 (of_int n) = of_int n" for n
  proof -
    have "\<lfloor>(of_int n :: rat) * 1048576\<rfloor> = n * 1048576"
      by (metis floor_of_int of_int_mult of_int_numeral)
    then show ?thesis by (simp add: fixed20_def)
  qed
  moreover have "fixed20 x \<le> x" for x
    using of_int_floor_le [of "x * 1048576"] by (simp add: fixed20_def divide_le_eq)
  ultimately show ?thesis
    by (simp add: binary_rounding_def) (simp add: fixed20_def)
qed

section \<open>The bucket stays within its bounds\<close>

definition bucket_ok :: "(rat \<Rightarrow> rat) \<Rightarrow> token_bucket \<Rightarrow> bool" where
  "bucket_ok rnd l \<longleftrightarrow>
     0 \<le> tokens l \<and> tokens l \<le> burst_capacity l \<and> 0 \<le> rate_per_second l \<and>
     rnd (tokens l) = tokens l \<and> rnd (burst_capacity l) = burst_capacity l"

lemma bucket_ok_init:
  "binary_rounding rnd u e \<Longrightarrow> 0 \<le> rate \<Longrightarrow> 0 \<le> burst \<Longrightarrow> rnd burst = burst \<Longrightarrow>
   bucket_ok rnd (TokenBucketRateLimiter rate burst now)"
  by (simp add: bucket_ok_def TokenBucketRateLimiter_def)

lemma refill_nonneg:
  "binary_rounding rnd u e \<Longrightarrow> 0 \<le> rate \<Longrightarrow> 0 \<le> d \<Longrightarrow> 0 \<le> refill rnd rate d"
  by (simp add: refill_def elapsed_seconds_def rounding_nonneg)

lemma refill_0 [simp]: "binary_rounding rnd u e \<Longrightarrow> refill rnd rate 0 = 0"
  by (simp add: refill_def elapsed_seconds_def)

lemma Allow_frame [simp]:
  "rate_per_second (snd (Allow rnd now l)) = rate_per_second l"
  "burst_capacity (snd (Allow rnd now l)) = burst_capacity l"
  "last_refill (snd (Allow rnd now l)) = now"
  by (simp_all add: Allow_def Let_def)

lemma filled_tokens_ok:
  assumes r: "binary_rounding rnd u e" and ok: "bucket_ok rnd l" and t: "last_refill l \<le> now"
  shows "0 \<le> filled_tokens rnd now l" "filled_tokens rnd now l \<le> burst_capacity l"
    "rnd (filled_tokens rnd now l) = filled_tokens rnd now l"
proof -
  have "0 \<le> tokens l + refill rnd (rate_per_second l) (now - last_refill l)"
    using refill_nonneg [OF r] ok t by (simp add: bucket_ok_def add_nonneg_nonneg)
  then show "0 \<le> filled_tokens rnd now l"
    using ok rounding_nonneg [OF r] by (simp add: bucket_ok_def filled_tokens_def)
  show "rnd (filled_tokens rnd now l) = filled_tokens rnd now l"
    using ok rounding_idem [OF r] by (auto simp: bucket_ok_def filled_tokens_def min_def)
qed (simp add: filled_tokens_def)

lemma bucket_ok_Allow:
  assumes r: "binary_rounding rnd u e" and ok: "bucket_ok rnd l" and t: "last_refill l \<le> now"
  shows "bucket_ok rnd (snd (Allow rnd now l))"
proof -
  note f = filled_tokens_ok [OF r ok t]
  have "rnd (filled_tokens rnd now l - 1) \<le> burst_capacity l"
    using rounding_mono [OF r, of "filled_tokens rnd now l - 1" "filled_tokens rnd now l"] f
    by linarith
  moreover have "1 \<le> filled_tokens rnd now l \<Longrightarrow> 0 \<le> rnd (filled_tokens rnd now l - 1)"
    by (rule rounding_nonneg [OF r]) simp
  ultimately show ?thesis
    using ok f rounding_idem [OF r] by (simp add: bucket_ok_def Allow_def Let_def)
qed

section \<open>How many requests are let through\<close>

text \<open>A run of calls at the given clock readings: the number let through, and the bucket left.\<close>

fun allow_run :: "(rat \<Rightarrow> rat) \<Rightarrow> time_ns list \<Rightarrow> token_bucket \<Rightarrow> nat \<times> token_bucket" where
  "allow_run rnd [] l = (0, l)"
| "allow_run rnd (t # ts) l =
     (let (ok, l1) = Allow rnd t l; (n, l2) = allow_run rnd ts l1
      in ((if ok then Suc n else n), l2))"

text \<open>
  Whatever the sequence of calls and the rounding, the bucket of a limiter never holds a
  negative number of tokens and never more than its burst capacity.
\<close>

theorem allow_run_bounds:
  assumes r: "binary_rounding rnd u e" and ok: "bucket_ok rnd l"
    and t: "sorted (last_refill l # ts)"
  shows "bucket_ok rnd (snd (allow_run rnd ts l))"
  using ok t
proof (induction ts arbitrary: l)
  case Nil
  then show ?case by simp
next
  case (Cons s ts)
  have "bucket_ok rnd (snd (Allow rnd s l))"
    using bucket_ok_Allow [OF r Cons.prems(1)] Cons.prems(2) by simp
  moreover have "sorted (last_refill (snd (Allow rnd s l)) # ts)"
    using Cons.prems(2) by simp
  ultimately have "bucket_ok rnd (snd (allow_run rnd ts (snd (Allow rnd s l))))"
    by (rule Cons.IH)
  then show ?case by (simp add: split_beta)
qed

theorem allow_run_bounds_witness:
  "bucket_ok fixed20 (snd (allow_run fixed20 [1, 5] (TokenBucketRateLimiter 2 3 0)))"
proof (rule allow_run_bounds [OF fixed20_rounding])
  show "bucket_ok fixed20 (TokenBucketRateLimiter 2 3 0)"
    by (rule bucket_ok_init [OF fixed20_rounding]) (simp_all add: fixed20_def)
qed (simp add: TokenBucketRateLimiter_def)

text \<open>
  The most a call can add, by the standard model of rounding: the exact \<open>rate * d / 10^9\<close> under
  three relative and four absolute errors.
\<close>

definition refill_slope :: "rat \<Rightarrow> rat \<Rightarrow> rat" where
  "refill_slope u rate = rate * (1 + u) ^ 3 / 1000000000"

definition refill_slack :: "rat \<Rightarrow> rat \<Rightarrow> rat \<Rightarrow> rat" where
  "refill_slack u e rate = (e * (1 + u) ^ 2 / 1000000000 + e * (1 + u)) * rate + e"

lemma refill_upper:
  assumes r: "binary_rounding rnd u e" and rate: "0 \<le> rate" and d: "0 \<le> d"
  shows "refill rnd rate d \<le> refill_slope u rate * of_int d + refill_slack u e rate"
proof -
  have u: "0 \<le> u" and e: "0 \<le> e" using r by (simp_all add: binary_rounding_def)
  let ?a = "rnd (of_int d)" and ?b = "elapsed_seconds rnd d"
  have a0: "0 \<le> ?a" and b0: "0 \<le> ?b"
    using d by (simp_all add: elapsed_seconds_def rounding_nonneg [OF r])
  have a: "?a \<le> of_int d * (1 + u) + e" using rounding_upper [OF r] d by simp
  have "?b \<le> ?a / 1000000000 * (1 + u) + e"
    unfolding elapsed_seconds_def by (rule rounding_upper [OF r]) (use a0 in simp)
  also have "\<dots> \<le> (of_int d * (1 + u) + e) / 1000000000 * (1 + u) + e"
    using a u by (intro add_right_mono mult_right_mono divide_right_mono) simp_all
  finally have b: "?b \<le> (of_int d * (1 + u) + e) / 1000000000 * (1 + u) + e" .
  have "refill rnd rate d \<le> ?b * rate * (1 + u) + e"
    using rounding_upper [OF r] b0 rate by (simp add: refill_def)
  also have "\<dots> \<le> ((of_int d * (1 + u) + e) / 1000000000 * (1 + u) + e) * rate * (1 + u) + e"
    using b u rate by (intro add_right_mono mult_right_mono) simp_all
  also have "\<dots> = refill_slope u rate * of_int d + (e * (1 + u) / 1000000000 + e) * rate * (1 + u) + e"
    by (simp add: refill_slope_def power3_eq_cube field_simps)
  also have "\<dots> = refill_slope u rate * of_int d + refill_slack u e rate"
    by (simp add: refill_slack_def power2_eq_square algebra_simps)
  finally show ?thesis .
qed

lemma Allow_spends:
  assumes r: "binary_rounding rnd u e" and ok: "bucket_ok rnd l" and t: "last_refill l \<le> now"
  shows "tokens (snd (Allow rnd now l)) + (if fst (Allow rnd now l) then 1 else 0) \<le>
    tokens l + refill rnd (rate_per_second l) (now - last_refill l) +
    2 * (u * burst_capacity l + e)"
proof -
  let ?f = "filled_tokens rnd now l" and ?B = "burst_capacity l"
  let ?y = "tokens l + refill rnd (rate_per_second l) (now - last_refill l)"
  have u: "0 \<le> u" and e: "0 \<le> e" using r by (simp_all add: binary_rounding_def)
  have B: "0 \<le> ?B" using ok by (auto simp: bucket_ok_def)
  note f = filled_tokens_ok [OF r ok t]
  have uB: "0 \<le> u * ?B" using u B by simp
  have y0: "0 \<le> ?y" using refill_nonneg [OF r] ok t by (simp add: bucket_ok_def add_nonneg_nonneg)
  have fy: "?f \<le> ?y + (u * ?B + e)"
  proof (cases "?y \<le> ?B")
    case True
    then have "?y * u \<le> u * ?B" using u by (simp add: mult.commute mult_left_mono)
    moreover have "?f \<le> ?y * (1 + u) + e"
      using rounding_upper [OF r y0] by (simp add: filled_tokens_def)
    ultimately show ?thesis by (simp add: algebra_simps)
  next
    case False
    then show ?thesis using f uB e by linarith
  qed
  have "1 \<le> ?f \<Longrightarrow> rnd (?f - 1) \<le> ?f - 1 + (u * ?B + e)"
  proof -
    assume "1 \<le> ?f"
    then have "rnd (?f - 1) \<le> (?f - 1) * (1 + u) + e" by (intro rounding_upper [OF r]) simp
    moreover have "(?f - 1) * u \<le> u * ?B"
      using mult_left_mono [of "?f - 1" ?B u] f u by (simp add: mult.commute)
    ultimately show ?thesis by (simp add: algebra_simps)
  qed
  with fy uB e show ?thesis by (auto simp: Allow_def Let_def)
qed

text \<open>
  The limiter limits. In any run of calls, at whatever clock readings, the number of requests
  let through is at most the tokens held at the start plus the rate times the time that passed
  (with the relative error of three roundings), plus a rounding allowance per call. With exact
  arithmetic this is \<open>tokens + rate * seconds\<close>.
\<close>

theorem allow_run_rate:
  assumes r: "binary_rounding rnd u e" and ok: "bucket_ok rnd l"
    and t: "sorted (last_refill l # ts)"
  shows "of_nat (fst (allow_run rnd ts l)) \<le>
    tokens l +
    refill_slope u (rate_per_second l) * of_int (last (last_refill l # ts) - last_refill l) +
    of_nat (length ts) *
      (refill_slack u e (rate_per_second l) + 2 * (u * burst_capacity l + e))"
  using ok t
proof (induction ts arbitrary: l)
  case Nil
  then show ?case by (simp add: bucket_ok_def)
next
  case (Cons s ts)
  let ?l1 = "snd (Allow rnd s l)" and ?B = "burst_capacity l" and ?p = "rate_per_second l"
  let ?per = "refill_slack u e ?p + 2 * (u * ?B + e)"
  have ok1: "bucket_ok rnd ?l1"
    using bucket_ok_Allow [OF r Cons.prems(1)] Cons.prems(2) by simp
  have "sorted (last_refill ?l1 # ts)" using Cons.prems(2) by simp
  note IH = Cons.IH [OF ok1 this]
  have "refill rnd ?p (s - last_refill l) \<le>
      refill_slope u ?p * of_int (s - last_refill l) + refill_slack u e ?p"
    by (rule refill_upper [OF r]) (use Cons.prems in \<open>auto simp: bucket_ok_def\<close>)
  moreover have "tokens ?l1 + (if fst (Allow rnd s l) then 1 else 0) \<le>
      tokens l + refill rnd ?p (s - last_refill l) + 2 * (u * ?B + e)"
    by (rule Allow_spends [OF r Cons.prems(1)]) (use Cons.prems(2) in simp)
  moreover have "of_nat (fst (allow_run rnd (s # ts) l)) =
      (if fst (Allow rnd s l) then 1 else 0) + (of_nat (fst (allow_run rnd ts ?l1)) :: rat)"
    by (simp add: split_beta)
  ultimately have "of_nat (fst (allow_run rnd (s # ts) l)) \<le>
      tokens l + refill_slope u ?p * of_int (s - last_refill l) + ?per +
      refill_slope u ?p * of_int (last (s # ts) - s) + of_nat (length ts) * ?per"
    using IH [unfolded Allow_frame] by linarith
  also have "\<dots> = tokens l + refill_slope u ?p * of_int (last (s # ts) - last_refill l) +
      of_nat (length (s # ts)) * ?per"
    by (simp add: algebra_simps del: last.simps)
  finally show ?case by simp
qed

theorem allow_run_rate_witness:
  "of_nat (fst (allow_run fixed20 [0, 0, seconds 1] (TokenBucketRateLimiter 2 3 0))) \<le> (5 :: rat)"
  using allow_run_rate [OF fixed20_rounding, of "TokenBucketRateLimiter 2 3 0" "[0, 0, seconds 1]"]
    bucket_ok_init [OF fixed20_rounding, of 2 3 0]
  by (simp add: TokenBucketRateLimiter_def refill_slope_def refill_slack_def fixed20_def)

lemma burst_step:
  assumes r: "binary_rounding rnd u e" and l: "last_refill l = now" "burst_capacity l = of_nat b"
    "tokens l = of_nat k" and k: "k \<le> b" and b: "b \<le> 2 ^ 53"
  shows "Allow rnd now l = (0 < k, l\<lparr>tokens := of_nat (k - 1)\<rparr>)"
proof -
  have i: "rnd (of_nat n) = of_nat n" if "n \<le> b" for n
    using rounding_int [OF r, of "int n"] that b by simp
  have f: "filled_tokens rnd now l = of_nat k"
    using l k i [of k] r by (simp add: filled_tokens_def)
  show ?thesis
  proof (cases k)
    case 0
    with f l show ?thesis by (simp add: Allow_def)
  next
    case (Suc m)
    with f l k i [of m] show ?thesis by (simp add: Allow_def Let_def)
  qed
qed

text \<open>
  A burst. Of \<open>n\<close> requests that arrive at one instant at a fresh limiter whose capacity is the
  whole number \<open>b\<close>, exactly \<open>min n b\<close> are let through; the gateway's limiters have \<open>b = 1000\<close>.
\<close>

theorem burst_exact:
  assumes r: "binary_rounding rnd u e" and b: "b \<le> 2 ^ 53"
  shows "fst (allow_run rnd (replicate n now) (TokenBucketRateLimiter rate (of_nat b) now)) = min n b"
proof -
  have "fst (allow_run rnd (replicate n now) l) = min n k"
    if "last_refill l = now" "burst_capacity l = of_nat b" "tokens l = of_nat k" "k \<le> b" for l k
    using that
  proof (induction n arbitrary: l k)
    case 0
    then show ?case by simp
  next
    case (Suc n)
    note step = burst_step [OF r Suc.prems b]
    have "fst (allow_run rnd (replicate n now) (l\<lparr>tokens := of_nat (k - 1)\<rparr>)) = min n (k - 1)"
      by (rule Suc.IH) (use Suc.prems in auto)
    then show ?case by (cases k) (auto simp: step split_beta)
  qed
  from this [of "TokenBucketRateLimiter rate (of_nat b) now" b] show ?thesis
    by (simp add: TokenBucketRateLimiter_def)
qed

theorem burst_exact_witness:
  "fst (allow_run fixed20 (replicate 1500 0) (TokenBucketRateLimiter 500 (of_nat 1000) 0)) = 1000"
  using burst_exact [OF fixed20_rounding, of 1000 1500 0 500] by simp

end
