(* ===== verification/Request_Context.thy ===== *)
theory Request_Context
  imports Std_Text "HOL-Library.List_Lexorder" "HOL-Library.Char_ord"
begin

text \<open>
  \<open>common/error\<close>, \<open>common/context\<close> and \<open>framework/rpc\<close>: error codes, the request context, its
  thread-local store with the scoped guard, and the two interceptors that carry a context over
  gRPC metadata. A \<open>std::multimap\<close> is the list of its entries in insertion order; it iterates by
  key, entries with equal keys in insertion order, which is the stable sort of that list.
\<close>

section \<open>Error codes\<close>

datatype error_code =
    KOk | KUnknown | KInvalidArgument | KNotFound | KAlreadyExists
  | KPermissionDenied | KUnauthenticated | KInternal | KUnavailable | KTimeout

fun error_code_value :: "error_code \<Rightarrow> int" where
  "error_code_value KOk = 0"
| "error_code_value KUnknown = 1"
| "error_code_value KInvalidArgument = 2"
| "error_code_value KNotFound = 3"
| "error_code_value KAlreadyExists = 4"
| "error_code_value KPermissionDenied = 5"
| "error_code_value KUnauthenticated = 6"
| "error_code_value KInternal = 7"
| "error_code_value KUnavailable = 8"
| "error_code_value KTimeout = 9"

text \<open>The argument is the underlying \<open>int32_t\<close>: an enumeration of C++ may hold any of them.\<close>

definition ErrorCodeToString :: "int \<Rightarrow> string" where
  "ErrorCodeToString c =
     (if c = error_code_value KOk then ''OK''
      else if c = error_code_value KUnknown then ''UNKNOWN''
      else if c = error_code_value KInvalidArgument then ''INVALID_ARGUMENT''
      else if c = error_code_value KNotFound then ''NOT_FOUND''
      else if c = error_code_value KAlreadyExists then ''ALREADY_EXISTS''
      else if c = error_code_value KPermissionDenied then ''PERMISSION_DENIED''
      else if c = error_code_value KUnauthenticated then ''UNAUTHENTICATED''
      else if c = error_code_value KInternal then ''INTERNAL''
      else if c = error_code_value KUnavailable then ''UNAVAILABLE''
      else if c = error_code_value KTimeout then ''TIMEOUT''
      else ''UNKNOWN'')"

instantiation error_code :: linorder
begin

definition less_eq_error_code :: "error_code \<Rightarrow> error_code \<Rightarrow> bool" where
  "less_eq_error_code a b \<longleftrightarrow> error_code_value a \<le> error_code_value b"

definition less_error_code :: "error_code \<Rightarrow> error_code \<Rightarrow> bool" where
  "less_error_code a b \<longleftrightarrow> error_code_value a < error_code_value b"

instance
proof
  fix a b :: error_code
  show "a \<le> b \<Longrightarrow> b \<le> a \<Longrightarrow> a = b"
    by (cases a; cases b; simp add: less_eq_error_code_def)
qed (auto simp: less_eq_error_code_def less_error_code_def)

end

lemma ErrorCodeToString_inj: "inj (\<lambda>c. ErrorCodeToString (error_code_value c))"
proof (rule injI)
  fix a b
  assume "ErrorCodeToString (error_code_value a) = ErrorCodeToString (error_code_value b)"
  then show "a = b" by (cases a; cases b; simp add: ErrorCodeToString_def)
qed

section \<open>The request context\<close>

record request_context =
  request_id :: string
  trace_id :: string
  user_id :: string
  traffic_tag :: string
  client_version :: string
  zone :: string

definition empty_context :: request_context where
  "empty_context = \<lparr>request_id = [], trace_id = [], user_id = [], traffic_tag = [],
     client_version = [], zone = []\<rparr>"

definition ctx_empty :: "request_context \<Rightarrow> bool" where
  "ctx_empty c \<longleftrightarrow> request_id c = [] \<and> trace_id c = [] \<and> user_id c = [] \<and>
     traffic_tag c = [] \<and> client_version c = [] \<and> zone c = []"

definition kMetaRequestId :: string where
  "kMetaRequestId = ''x-request-id''"

definition kMetaTraceId :: string where
  "kMetaTraceId = ''x-trace-id''"

definition kMetaUserId :: string where
  "kMetaUserId = ''x-user-id''"

definition kMetaTrafficTag :: string where
  "kMetaTrafficTag = ''x-traffic-tag''"

definition kMetaClientVersion :: string where
  "kMetaClientVersion = ''x-client-version''"

definition kMetaZone :: string where
  "kMetaZone = ''x-zone''"

lemmas meta_key_defs = kMetaRequestId_def kMetaTraceId_def kMetaUserId_def kMetaTrafficTag_def kMetaClientVersion_def kMetaZone_def

lemma meta_keys_distinct [simp]:
  "kMetaRequestId \<noteq> kMetaTraceId" "kMetaRequestId \<noteq> kMetaUserId" "kMetaRequestId \<noteq> kMetaTrafficTag" "kMetaRequestId \<noteq> kMetaClientVersion" "kMetaRequestId \<noteq> kMetaZone"
  "kMetaTraceId \<noteq> kMetaRequestId" "kMetaTraceId \<noteq> kMetaUserId" "kMetaTraceId \<noteq> kMetaTrafficTag" "kMetaTraceId \<noteq> kMetaClientVersion" "kMetaTraceId \<noteq> kMetaZone"
  "kMetaUserId \<noteq> kMetaRequestId" "kMetaUserId \<noteq> kMetaTraceId" "kMetaUserId \<noteq> kMetaTrafficTag" "kMetaUserId \<noteq> kMetaClientVersion" "kMetaUserId \<noteq> kMetaZone"
  "kMetaTrafficTag \<noteq> kMetaRequestId" "kMetaTrafficTag \<noteq> kMetaTraceId" "kMetaTrafficTag \<noteq> kMetaUserId" "kMetaTrafficTag \<noteq> kMetaClientVersion" "kMetaTrafficTag \<noteq> kMetaZone"
  "kMetaClientVersion \<noteq> kMetaRequestId" "kMetaClientVersion \<noteq> kMetaTraceId" "kMetaClientVersion \<noteq> kMetaUserId" "kMetaClientVersion \<noteq> kMetaTrafficTag" "kMetaClientVersion \<noteq> kMetaZone"
  "kMetaZone \<noteq> kMetaRequestId" "kMetaZone \<noteq> kMetaTraceId" "kMetaZone \<noteq> kMetaUserId" "kMetaZone \<noteq> kMetaTrafficTag" "kMetaZone \<noteq> kMetaClientVersion"
  by (simp_all add: meta_key_defs)

lemma ctx_empty_iff: "ctx_empty c \<longleftrightarrow> c = empty_context"
  by (cases c) (auto simp: ctx_empty_def empty_context_def)

section \<open>The thread-local store\<close>

type_synonym context_store = "request_context option"

definition HasCurrentRequestContext :: "context_store \<Rightarrow> bool" where
  "HasCurrentRequestContext g \<longleftrightarrow> g \<noteq> None"

definition GetCurrentRequestContext :: "context_store \<Rightarrow> request_context" where
  "GetCurrentRequestContext g = (case g of Some c \<Rightarrow> c | None \<Rightarrow> empty_context)"

definition SetCurrentRequestContext :: "request_context \<Rightarrow> context_store \<Rightarrow> context_store" where
  "SetCurrentRequestContext ctx g = Some ctx"

definition ClearCurrentRequestContext :: "context_store \<Rightarrow> context_store" where
  "ClearCurrentRequestContext g = None"

record scoped_context =
  had_previous :: bool
  previous :: request_context

definition ScopedRequestContext ::
  "request_context \<Rightarrow> context_store \<Rightarrow> scoped_context \<times> context_store" where
  "ScopedRequestContext ctx g =
     (\<lparr>had_previous = (g \<noteq> None), previous = GetCurrentRequestContext g\<rparr>, Some ctx)"

definition ScopedRequestContext_destroy :: "scoped_context \<Rightarrow> context_store \<Rightarrow> context_store" where
  "ScopedRequestContext_destroy s g = (if had_previous s then Some (previous s) else None)"

text \<open>
  A thread's actions on its store. Guards are automatic variables, so they are destroyed in the
  reverse order of their construction: a stack.
\<close>

datatype scope_action =
    Enter request_context
  | Leave
  | SetCtx request_context
  | ClearCtx

fun scope_step :: "scope_action \<Rightarrow> scoped_context list \<times> context_store \<Rightarrow>
    scoped_context list \<times> context_store" where
  "scope_step (Enter ctx) (gs, g) =
     (let (s, g') = ScopedRequestContext ctx g in (s # gs, g'))"
| "scope_step Leave (gs, g) =
     (case gs of [] \<Rightarrow> ([], g) | s # gs' \<Rightarrow> (gs', ScopedRequestContext_destroy s g))"
| "scope_step (SetCtx ctx) (gs, g) = (gs, SetCurrentRequestContext ctx g)"
| "scope_step ClearCtx (gs, g) = (gs, ClearCurrentRequestContext g)"

text \<open>
  Block structure at depth \<open>d\<close>: what is entered is left, and the store is only written inside a
  scope.
\<close>

fun well_scoped :: "nat \<Rightarrow> scope_action list \<Rightarrow> bool" where
  "well_scoped d [] = (d = 0)"
| "well_scoped d (Enter ctx # as) = well_scoped (Suc d) as"
| "well_scoped d (Leave # as) = (case d of 0 \<Rightarrow> False | Suc d' \<Rightarrow> well_scoped d' as)"
| "well_scoped d (SetCtx ctx # as) = (0 < d \<and> well_scoped d as)"
| "well_scoped d (ClearCtx # as) = (0 < d \<and> well_scoped d as)"

text \<open>What a stack of guards restores once all of the inner ones have been destroyed.\<close>

definition restores :: "scoped_context list \<Rightarrow> context_store \<Rightarrow> context_store" where
  "restores inner g = (if inner = [] then g else ScopedRequestContext_destroy (last inner) g)"

lemma destroy_scoped [simp]:
  "ScopedRequestContext_destroy (fst (ScopedRequestContext ctx g)) g' = g"
  by (cases g) (auto simp: ScopedRequestContext_destroy_def ScopedRequestContext_def
      GetCurrentRequestContext_def)

lemma destroy_const: "ScopedRequestContext_destroy s g = ScopedRequestContext_destroy s g'"
  by (simp add: ScopedRequestContext_destroy_def)

lemma scoped_run:
  "well_scoped (length inner) as \<Longrightarrow>
   fold scope_step as (inner @ outer, g) = (outer, restores inner g)"
proof (induction as arbitrary: inner g)
  case Nil
  then show ?case by (simp add: restores_def)
next
  case (Cons a as)
  show ?case
  proof (cases a)
    case (Enter ctx)
    let ?s = "fst (ScopedRequestContext ctx g)"
    have "fold scope_step as ((?s # inner) @ outer, Some ctx) = (outer, restores (?s # inner) (Some ctx))"
      by (rule Cons.IH) (use Cons.prems Enter in simp)
    then show ?thesis
      using Enter destroy_const by (auto simp: restores_def split_beta ScopedRequestContext_def
          ScopedRequestContext_destroy_def GetCurrentRequestContext_def split: option.splits)
  next
    case Leave
    then obtain s inner' where i: "inner = s # inner'"
      using Cons.prems by (cases inner) auto
    have "fold scope_step as (inner' @ outer, ScopedRequestContext_destroy s g) =
        (outer, restores inner' (ScopedRequestContext_destroy s g))"
      by (rule Cons.IH) (use Cons.prems Leave i in simp)
    then show ?thesis
      using Leave i destroy_const by (auto simp: restores_def)
  next
    case (SetCtx ctx)
    have "fold scope_step as (inner @ outer, Some ctx) = (outer, restores inner (Some ctx))"
      by (rule Cons.IH) (use Cons.prems SetCtx in simp)
    then show ?thesis
      using SetCtx Cons.prems destroy_const by (auto simp: restores_def SetCurrentRequestContext_def)
  next
    case ClearCtx
    have "fold scope_step as (inner @ outer, None) = (outer, restores inner None)"
      by (rule Cons.IH) (use Cons.prems ClearCtx in simp)
    then show ?thesis
      using ClearCtx Cons.prems destroy_const
      by (auto simp: restores_def ClearCurrentRequestContext_def)
  qed
qed

text \<open>
  A scoped request context is undone: after any properly nested run of scopes, whatever was
  set or cleared inside them, the thread's store and its guards are what they were before.
\<close>

theorem scoped_context_restores:
  assumes "well_scoped 0 as"
  shows "fold scope_step as (gs, g) = (gs, g)"
  using scoped_run [of "[]" as gs g] assms by (simp add: restores_def)

theorem scoped_context_restores_witness:
  "fold scope_step
     [Enter empty_context, ClearCtx, Enter empty_context, Leave, SetCtx empty_context, Leave]
     ([], Some (empty_context\<lparr>user_id := ''u''\<rparr>)) =
   ([], Some (empty_context\<lparr>user_id := ''u''\<rparr>))"
  by (rule scoped_context_restores) simp

section \<open>Interceptors\<close>

type_synonym metadata = "(string \<times> string) list"

definition md_emplace :: "string \<Rightarrow> string \<Rightarrow> metadata \<Rightarrow> metadata" where
  "md_emplace k v md = md @ [(k, v)]"

definition md_iterate :: "metadata \<Rightarrow> metadata" where
  "md_iterate md = sort_key fst md"

definition emplace_unless_empty :: "string \<Rightarrow> string \<Rightarrow> metadata \<Rightarrow> metadata" where
  "emplace_unless_empty k v md = (if v \<noteq> [] then md_emplace k v md else md)"

text \<open>
  \<open>MetadataClientInterceptor::Intercept\<close>: whether the hook point is the sending of the initial
  metadata, the thread's store, and the metadata (\<open>None\<close> for a null pointer).
\<close>

definition client_intercept ::
  "bool \<Rightarrow> context_store \<Rightarrow> metadata option \<Rightarrow> metadata option" where
  "client_intercept pre_send_initial_metadata g md =
     (if pre_send_initial_metadata then
        (let ctx = GetCurrentRequestContext g in
         case md of
           None \<Rightarrow> None
         | Some m \<Rightarrow>
             Some (emplace_unless_empty kMetaZone (zone ctx)
               (emplace_unless_empty kMetaClientVersion (client_version ctx)
               (emplace_unless_empty kMetaTrafficTag (traffic_tag ctx)
               (emplace_unless_empty kMetaUserId (user_id ctx)
               (emplace_unless_empty kMetaTraceId (trace_id ctx)
               (emplace_unless_empty kMetaRequestId (request_id ctx) m)))))))
      else md)"

definition take_entry :: "string \<times> string \<Rightarrow> request_context \<Rightarrow> request_context" where
  "take_entry p ctx =
     (let key = fst p; v = snd p in
      if key = kMetaRequestId then ctx\<lparr>request_id := v\<rparr>
      else if key = kMetaTraceId then ctx\<lparr>trace_id := v\<rparr>
      else if key = kMetaUserId then ctx\<lparr>user_id := v\<rparr>
      else if key = kMetaTrafficTag then ctx\<lparr>traffic_tag := v\<rparr>
      else if key = kMetaClientVersion then ctx\<lparr>client_version := v\<rparr>
      else if key = kMetaZone then ctx\<lparr>zone := v\<rparr>
      else ctx)"

text \<open>\<open>MetadataServerInterceptor::Intercept\<close>, with its two hook points.\<close>

definition server_intercept ::
  "bool \<Rightarrow> bool \<Rightarrow> metadata option \<Rightarrow> context_store \<Rightarrow> context_store" where
  "server_intercept post_recv_initial_metadata pre_send_status md g =
     (let g1 = (if post_recv_initial_metadata then
                  SetCurrentRequestContext
                    (case md of
                       None \<Rightarrow> empty_context
                     | Some m \<Rightarrow> fold take_entry (md_iterate m) empty_context) g
                else g)
      in if pre_send_status then ClearCurrentRequestContext g1 else g1)"

subsection \<open>What the server reads\<close>

definition context_keys :: "string list" where
  "context_keys = [kMetaRequestId, kMetaTraceId, kMetaUserId, kMetaTrafficTag,
     kMetaClientVersion, kMetaZone]"

text \<open>The last of the entries with a key, the empty string where there is none.\<close>

definition last_value :: "string \<Rightarrow> metadata \<Rightarrow> string" where
  "last_value k md =
     (let es = filter (\<lambda>p. fst p = k) md in if es = [] then [] else snd (last es))"

definition read_context :: "metadata \<Rightarrow> request_context" where
  "read_context md =
     \<lparr>request_id = last_value kMetaRequestId md, trace_id = last_value kMetaTraceId md,
      user_id = last_value kMetaUserId md, traffic_tag = last_value kMetaTrafficTag md,
      client_version = last_value kMetaClientVersion md, zone = last_value kMetaZone md\<rparr>"

lemma last_value_Nil [simp]: "last_value k [] = []"
  by (simp add: last_value_def)

lemma last_value_snoc [simp]:
  "last_value k (md @ [(k', v)]) = (if k' = k then v else last_value k md)"
  by (simp add: last_value_def Let_def)

lemma last_value_cong:
  "filter (\<lambda>p. fst p = k) md = filter (\<lambda>p. fst p = k) md' \<Longrightarrow> last_value k md = last_value k md'"
  by (simp add: last_value_def)

lemma take_entry_read: "take_entry (k, v) (read_context md) = read_context (md @ [(k, v)])"
  by (simp add: take_entry_def read_context_def)

lemma take_entries: "fold take_entry md empty_context = read_context md"
proof (induction md rule: rev_induct)
  case Nil
  then show ?case by (simp add: read_context_def empty_context_def)
next
  case (snoc p md)
  then show ?case by (cases p) (simp add: take_entry_read)
qed

lemma last_value_iterate [simp]: "last_value k (md_iterate md) = last_value k md"
  by (rule last_value_cong) (simp add: md_iterate_def sort_key_stable)

lemma server_reads:
  "server_intercept True False (Some md) g = Some (read_context md)"
  by (simp add: server_intercept_def SetCurrentRequestContext_def take_entries)
    (simp add: read_context_def)

lemma last_value_emplace [simp]:
  "last_value k (emplace_unless_empty k' v md) = (if k' = k \<and> v \<noteq> [] then v else last_value k md)"
  by (simp add: emplace_unless_empty_def md_emplace_def)

lemma last_value_emplace_fresh:
  "last_value k md = [] \<Longrightarrow> last_value k (emplace_unless_empty k v md) = v"
  "k' \<noteq> k \<Longrightarrow> last_value k (emplace_unless_empty k' v md) = last_value k md"
  by simp_all

lemma client_sends:
  assumes "\<forall>k \<in> set context_keys. last_value k md = []"
  shows "\<exists>md'. client_intercept True (Some ctx) (Some md) = Some md' \<and> read_context md' = ctx"
proof -
  have "\<forall>k \<in> {kMetaRequestId, kMetaTraceId, kMetaUserId, kMetaTrafficTag, kMetaClientVersion,
      kMetaZone}. last_value k md = []"
    using assms by (simp add: context_keys_def)
  then show ?thesis
    by (simp add: client_intercept_def GetCurrentRequestContext_def read_context_def Let_def
        last_value_emplace_fresh del: last_value_emplace)
qed

text \<open>
  What is assumed of gRPC's transport, as its HTTP/2 protocol documents it: metadata whose keys are legal and not
  reserved (lower case letters, digits, underscore, dash and dot, not beginning with \<open>grpc-\<close>), whose values are printable ASCII
  with no blank at either end, and which are not larger than the peer accepts, arrive under each of
  the context keys as they were sent, in that order. Of other metadata nothing is assumed (a call with it may fail, blanks may be stripped), and
  the transport may add metadata of its own under other keys, and reorder between keys.
\<close>

definition plain_value :: "string \<Rightarrow> bool" where
  "plain_value v \<longleftrightarrow> v \<noteq> [] \<and> hd v \<noteq> CHR '' '' \<and> last v \<noteq> CHR '' '' \<and>
     list_all (\<lambda>c. 32 \<le> (of_char c :: nat) \<and> of_char c \<le> (126 :: nat)) v"

definition metadata_key :: "string \<Rightarrow> bool" where
  "metadata_key k \<longleftrightarrow> k \<noteq> [] \<and> take 5 k \<noteq> ''grpc-'' \<and>
     list_all (\<lambda>c. (97 \<le> (of_char c :: nat) \<and> of_char c \<le> (122 :: nat)) \<or> (48 \<le> (of_char c :: nat) \<and> of_char c \<le> (57 :: nat)) \<or>
       c \<in> {CHR ''_'', CHR ''-'', CHR ''.''}) k"

definition legal_metadata :: "metadata \<Rightarrow> bool" where
  "legal_metadata md \<longleftrightarrow> list_all (\<lambda>p. metadata_key (fst p) \<and> plain_value (snd p)) md"

text \<open>The size as HTTP/2 counts it.\<close>

definition metadata_size :: "metadata \<Rightarrow> nat" where
  "metadata_size md = sum_list (map (\<lambda>p. length (fst p) + length (snd p) + 32) md)"

definition transports_context :: "nat \<Rightarrow> (metadata \<Rightarrow> metadata) \<Rightarrow> bool" where
  "transports_context limit deliver \<longleftrightarrow>
     (\<forall>md. legal_metadata md \<and> metadata_size md \<le> limit \<longrightarrow>
        (\<forall>k \<in> set context_keys. filter (\<lambda>p. fst p = k) (deliver md) = filter (\<lambda>p. fst p = k) md))"

lemma read_context_deliver:
  assumes "transports_context limit deliver" and "legal_metadata md" and "metadata_size md \<le> limit"
  shows "read_context (deliver md) = read_context md"
proof -
  have "\<forall>k \<in> set context_keys. last_value k (deliver md) = last_value k md"
    using assms by (blast intro: last_value_cong dest: transports_context_def [THEN iffD1])
  then show ?thesis by (simp add: read_context_def context_keys_def)
qed

text \<open>The fields of a context that metadata can carry.\<close>

definition plain_context :: "request_context \<Rightarrow> bool" where
  "plain_context ctx \<longleftrightarrow>
     list_all (\<lambda>v. v = [] \<or> plain_value v)
       [request_id ctx, trace_id ctx, user_id ctx, traffic_tag ctx, client_version ctx, zone ctx]"

lemma legal_emplace:
  "metadata_key k \<Longrightarrow> v = [] \<or> plain_value v \<Longrightarrow> legal_metadata md \<Longrightarrow> legal_metadata (emplace_unless_empty k v md)"
  by (auto simp: legal_metadata_def emplace_unless_empty_def md_emplace_def)

lemma context_keys_legal:
  "metadata_key kMetaRequestId" "metadata_key kMetaTraceId" "metadata_key kMetaUserId"
  "metadata_key kMetaTrafficTag" "metadata_key kMetaClientVersion" "metadata_key kMetaZone"
  by (simp_all add: metadata_key_def meta_key_defs)

lemma client_sends_legal:
  "plain_context ctx \<Longrightarrow> legal_metadata md \<Longrightarrow> client_intercept True (Some ctx) (Some md) = Some sent \<Longrightarrow> legal_metadata sent"
  by (auto simp: client_intercept_def GetCurrentRequestContext_def plain_context_def Let_def
      intro!: legal_emplace context_keys_legal)

text \<open>
  C30: the two interceptors carry a request context across a call. A context whose values gRPC can carry (each empty, or
  printable ASCII with no blank at either end) and that the caller's thread holds is what the server's
  thread holds once the initial metadata has been received, and none once the status is sent,
  whatever other legal metadata the call has under other keys, as long as all of it fits the limit of the peer.
\<close>

theorem context_crosses_call:
  assumes "transports_context limit deliver" and "plain_context ctx"
    and "legal_metadata md" and "\<forall>k \<in> set context_keys. k \<notin> fst ` set md"
    and "client_intercept True (Some ctx) (Some md) = Some sent" and "metadata_size sent \<le> limit"
  shows "server_intercept True False (Some (deliver sent)) g = Some ctx \<and>
    server_intercept False True None (Some ctx) = None"
proof -
  have "last_value k md = []" if "k \<in> set context_keys" for k
  proof -
    have "filter (\<lambda>p. fst p = k) md = []" using assms(4) that by (auto simp: filter_empty_conv)
    then show ?thesis by (simp add: last_value_def)
  qed
  then have "read_context sent = ctx" using client_sends [of md ctx] assms(5) by auto
  moreover have "read_context (deliver sent) = read_context sent"
    by (rule read_context_deliver [OF assms(1) client_sends_legal [OF assms(2,3,5)] assms(6)])
  ultimately show ?thesis
    by (simp add: server_reads) (simp add: server_intercept_def ClearCurrentRequestContext_def)
qed

definition sample_context :: request_context where
  "sample_context = \<lparr>request_id = ''r1'', trace_id = ''t1'', user_id = ''u1'', traffic_tag = [],
     client_version = ''2'', zone = []\<rparr>"

definition sample_transport :: "metadata \<Rightarrow> metadata" where
  "sample_transport md = (''user-agent'', ''grpc-c++'') # md"

theorem context_crosses_call_witness:
  "server_intercept True False
     (Some (sample_transport (the (client_intercept True (Some sample_context) (Some [(''x-tenant'', ''blue'')]))))) None =
   Some sample_context"
proof -
  let ?md = "[(''x-tenant'', ''blue'')]"
  have t: "transports_context 8192 sample_transport"
    by (simp add: transports_context_def context_keys_def meta_key_defs sample_transport_def)
  have c: "plain_context sample_context" by (simp add: plain_context_def plain_value_def sample_context_def)
  have m: "legal_metadata ?md" "\<forall>k \<in> set context_keys. k \<notin> fst ` set ?md"
    by (simp_all add: legal_metadata_def metadata_key_def plain_value_def context_keys_def meta_key_defs)
  have sent: "client_intercept True (Some sample_context) (Some ?md) =
      Some (the (client_intercept True (Some sample_context) (Some ?md)))"
    by (simp add: client_intercept_def Let_def)
  have "metadata_size (the (client_intercept True (Some sample_context) (Some ?md))) \<le> 8192"
    by (simp add: client_intercept_def Let_def GetCurrentRequestContext_def sample_context_def
        emplace_unless_empty_def md_emplace_def metadata_size_def meta_key_defs)
  with context_crosses_call [OF t c m sent] show ?thesis by blast
qed

interpretation context_metadata: codec "\<lambda>_. True"
  "\<lambda>ctx. the (client_intercept True (Some ctx) (Some []))"
  "\<lambda>md. server_intercept True False (Some md) None"
proof
  fix ctx :: request_context
  obtain md' where "client_intercept True (Some ctx) (Some []) = Some md'" "read_context md' = ctx"
    using client_sends [of "[]" ctx] by auto
  then show "server_intercept True False (Some (the (client_intercept True (Some ctx) (Some [])))) None
      = Some ctx"
    by (simp add: server_reads)
qed

end
