(* ===== verification/Shared_State.thy ===== *)
theory Shared_State
  imports Kd39_Prelude
begin

text \<open>
  The process-wide backends of \<open>infrastructure\<close>. The Redis client, the MySQL pool and the etcd
  adapters each keep a static map from a key to a \<open>std::weak_ptr\<close> to a shared state, and lock
  the pointer or create a new state when it has expired. What a state lives by is its use count:
  the model keeps the live objects by address, each with the number of \<open>std::shared_ptr\<close>s to it,
  and drops an object when the last of them is destroyed.
\<close>

named_theorems shared_simps

record 'a shared_states =
  weak :: "string \<rightharpoonup> nat"
  objs :: "nat \<rightharpoonup> 'a \<times> nat"
  next_addr :: nat

definition no_states :: "'a shared_states" where
  "no_states = \<lparr>weak = (\<lambda>_. None), objs = (\<lambda>_. None), next_addr = 0\<rparr>"

text \<open>\<open>weak_ptr::lock\<close>, without the count: the address if the object still lives.\<close>

definition lock_weak :: "string \<Rightarrow> 'a shared_states \<Rightarrow> nat option" where
  "lock_weak key ss =
     (case weak ss key of
        None \<Rightarrow> None
      | Some a \<Rightarrow> if objs ss a = None then None else Some a)"

definition retain :: "nat \<Rightarrow> 'a shared_states \<Rightarrow> 'a shared_states" where
  "retain a ss =
     (case objs ss a of
        None \<Rightarrow> ss
      | Some (v, n) \<Rightarrow> ss\<lparr>objs := (objs ss)(a \<mapsto> (v, Suc n))\<rparr>)"

definition release :: "nat \<Rightarrow> 'a shared_states \<Rightarrow> 'a shared_states" where
  "release a ss =
     (case objs ss a of
        None \<Rightarrow> ss
      | Some (v, n) \<Rightarrow>
          ss\<lparr>objs := (objs ss)(a := (if n \<le> 1 then None else Some (v, n - 1)))\<rparr>)"

text \<open>The function all three files have: the state for a key, created when there is none.\<close>

definition shared_state_for :: "'a \<Rightarrow> string \<Rightarrow> 'a shared_states \<Rightarrow> nat \<times> 'a shared_states" where
  "shared_state_for fresh key ss =
     (case lock_weak key ss of
        Some a \<Rightarrow> (a, retain a ss)
      | None \<Rightarrow>
          (let a = next_addr ss in
           (a, ss\<lparr>weak := (weak ss)(key \<mapsto> a), objs := (objs ss)(a \<mapsto> (fresh, 1)),
                 next_addr := Suc a\<rparr>)))"

definition write_object :: "nat \<Rightarrow> 'a \<Rightarrow> 'a shared_states \<Rightarrow> 'a shared_states" where
  "write_object a v' ss =
     (case objs ss a of
        None \<Rightarrow> ss
      | Some (v, n) \<Rightarrow> ss\<lparr>objs := (objs ss)(a \<mapsto> (v', n))\<rparr>)"

section \<open>Owners\<close>

text \<open>
  Who holds a \<open>shared_ptr\<close>: the multiset of the keys and addresses the holders obtained. A step
  is one holder obtaining, using or destroying its pointer; any interleaving of holders is a
  sequence of these.
\<close>

type_synonym 'a owned = "'a shared_states \<times> (string \<times> nat) multiset"

inductive owner_step :: "'a \<Rightarrow> 'a owned \<Rightarrow> 'a owned \<Rightarrow> bool" for fresh :: 'a where
  obtain_state: "shared_state_for fresh key ss = (a, ss') \<Longrightarrow>
     owner_step fresh (ss, H) (ss', add_mset (key, a) H)"
| use_state: "(key, a) \<in># H \<Longrightarrow> owner_step fresh (ss, H) (write_object a v ss, H)"
| destroy_state: "(key, a) \<in># H \<Longrightarrow>
     owner_step fresh (ss, H) (release a ss, H - {#(key, a)#})"

inductive owner_reachable :: "'a \<Rightarrow> 'a owned \<Rightarrow> bool" for fresh :: 'a where
  start: "owner_reachable fresh (no_states, {#})"
| step: "owner_reachable fresh s \<Longrightarrow> owner_step fresh s t \<Longrightarrow> owner_reachable fresh t"

inductive_cases owner_stepE: "owner_step fresh (ss, H) t"

definition use_count :: "nat \<Rightarrow> 'a shared_states \<Rightarrow> nat" where
  "use_count a ss = (case objs ss a of None \<Rightarrow> 0 | Some (v, n) \<Rightarrow> n)"

definition holders :: "nat \<Rightarrow> (string \<times> nat) multiset \<Rightarrow> nat" where
  "holders a H = size (filter_mset (\<lambda>p. snd p = a) H)"

definition owners_ok :: "'a owned \<Rightarrow> bool" where
  "owners_ok s \<longleftrightarrow>
     (\<forall>a. use_count a (fst s) = holders a (snd s)) \<and>
     (\<forall>a v n. objs (fst s) a = Some (v, n) \<longrightarrow> 0 < n \<and> a < next_addr (fst s)) \<and>
     (\<forall>key a. weak (fst s) key = Some a \<longrightarrow> a < next_addr (fst s)) \<and>
     (\<forall>key a. (key, a) \<in># snd s \<longrightarrow> weak (fst s) key = Some a)"

lemma holders_simps [simp, shared_simps]:
  "holders a {#} = 0"
  "holders a (add_mset (key, b) H) = (if b = a then Suc (holders a H) else holders a H)"
  by (simp_all add: holders_def)

lemma holders_remove [shared_simps]:
  assumes "(key, b) \<in># H"
  shows "holders a (H - {#(key, b)#}) = (if b = a then holders a H - 1 else holders a H)"
proof -
  from assms obtain H' where "H = add_mset (key, b) H'" by (blast dest: multi_member_split)
  then show ?thesis by simp
qed

lemma holders_pos: "(key, a) \<in># H \<Longrightarrow> 0 < holders a H"
  by (auto dest: multi_member_split)

lemma use_count_simps [simp, shared_simps]:
  "objs ss a = None \<Longrightarrow> use_count a ss = 0"
  "objs ss a = Some (v, n) \<Longrightarrow> use_count a ss = n"
  by (simp_all add: use_count_def)

lemma use_count_update [simp, shared_simps]:
  "use_count b (ss\<lparr>objs := (objs ss)(a := x)\<rparr>) =
     (if b = a then (case x of None \<Rightarrow> 0 | Some (v, n) \<Rightarrow> n) else use_count b ss)"
  by (simp add: use_count_def)

lemma owners_okD:
  assumes "owners_ok (ss, H)"
  shows "use_count a ss = holders a H"
    and "objs ss a = Some (v, n) \<Longrightarrow> 0 < n"
    and "objs ss a = Some (v, n) \<Longrightarrow> a < next_addr ss"
    and "weak ss key = Some a \<Longrightarrow> a < next_addr ss"
    and "(key, a) \<in># H \<Longrightarrow> weak ss key = Some a"
  using assms by (simp_all add: owners_ok_def)

lemma owner_alive:
  assumes "owners_ok (ss, H)" and "(key, a) \<in># H"
  shows "\<exists>v n. objs ss a = Some (v, n)"
proof (cases "objs ss a")
  case None
  then show ?thesis using owners_okD(1) [OF assms(1), of a] holders_pos [OF assms(2)] by simp
next
  case (Some p)
  then show ?thesis by (cases p) simp
qed

lemma owners_ok_retain:
  assumes ok: "owners_ok (ss, H)" and w: "weak ss key = Some a" and a: "objs ss a = Some (v, n)"
  shows "owners_ok (ss\<lparr>objs := (objs ss)(a \<mapsto> (v, Suc n))\<rparr>, add_mset (key, a) H)"
proof -
  have "n = holders a H" using owners_okD(1) [OF ok, of a] a by simp
  with ok w show ?thesis by (simp add: owners_ok_def)
qed

lemma owners_ok_create:
  assumes ok: "owners_ok (ss, H)" and a: "a = next_addr ss" and dead: "lock_weak key ss = None"
  shows "owners_ok (ss\<lparr>weak := (weak ss)(key \<mapsto> a), objs := (objs ss)(a \<mapsto> (v, 1)),
    next_addr := Suc a\<rparr>, add_mset (key, a) H)"
proof -
  have unused: "objs ss a = None"
    using owners_okD(3) [OF ok, of a] a by (cases "objs ss a") auto
  then have none: "holders a H = 0" using owners_okD(1) [OF ok, of a] by simp
  have "(key, b) \<notin># H" for b
  proof
    assume h: "(key, b) \<in># H"
    with owner_alive [OF ok h] owners_okD(5) [OF ok h] dead show False
      by (auto simp: lock_weak_def)
  qed
  moreover have "holders b H = use_count b (ss\<lparr>weak := (weak ss)(key \<mapsto> a),
      objs := (objs ss)(a \<mapsto> (v, 1)), next_addr := Suc a\<rparr>)" if "b \<noteq> a" for b
    using that owners_okD(1) [OF ok, of b] by (simp add: use_count_def)
  ultimately show ?thesis
    using ok a none by (auto simp: owners_ok_def use_count_def less_Suc_eq)
qed

lemma owners_ok_obtain:
  assumes ok: "owners_ok (ss, H)" and s: "shared_state_for fresh key ss = (a, ss')"
  shows "owners_ok (ss', add_mset (key, a) H)"
proof (cases "lock_weak key ss")
  case None
  with s owners_ok_create [OF ok] show ?thesis
    by (auto simp: shared_state_for_def Let_def)
next
  case (Some b)
  then obtain v n where b: "weak ss key = Some b" "objs ss b = Some (v, n)"
    by (auto simp: lock_weak_def split: option.splits if_splits)
  with s Some owners_ok_retain [OF ok b] show ?thesis
    by (auto simp: shared_state_for_def retain_def)
qed

lemma owners_ok_use:
  assumes ok: "owners_ok (ss, H)" and h: "(key, a) \<in># H"
  shows "owners_ok (write_object a v' ss, H)"
proof -
  obtain v n where a: "objs ss a = Some (v, n)" using owner_alive [OF ok h] by blast
  have "n = holders a H" using owners_okD(1) [OF ok, of a] a by simp
  with ok a show ?thesis by (auto simp: owners_ok_def write_object_def)
qed

lemma owners_ok_destroy:
  assumes ok: "owners_ok (ss, H)" and h: "(key, a) \<in># H"
  shows "owners_ok (release a ss, H - {#(key, a)#})"
proof -
  obtain v n where a: "objs ss a = Some (v, n)" using owner_alive [OF ok h] by blast
  have n: "n = holders a H" using a owners_okD(1) [OF ok, of a] by simp
  have "use_count b (release a ss) = holders b (H - {#(key, a)#})" for b
    using a n owners_okD(1) [OF ok, of b] by (auto simp: release_def holders_remove [OF h])
  then show ?thesis
    using ok a by (auto simp: owners_ok_def release_def split: if_splits dest: in_diffD)
qed

lemma reachable_owners_ok: "owner_reachable fresh s \<Longrightarrow> owners_ok s"
proof (induction rule: owner_reachable.induct)
  case start
  show ?case by (simp add: owners_ok_def no_states_def use_count_def)
next
  case (step s t)
  from step.hyps(2) step.IH show ?case
    by (cases rule: owner_step.cases)
      (auto intro: owners_ok_obtain owners_ok_use owners_ok_destroy)
qed

lemma shared_while_owned:
  assumes "owners_ok (ss, H)" and "(key, a) \<in># H"
  shows "fst (shared_state_for fresh key ss) = a"
proof -
  have "weak ss key = Some a" using assms by (simp add: owners_ok_def)
  with owner_alive [OF assms] show ?thesis
    by (auto simp: shared_state_for_def lock_weak_def)
qed

lemma unowned_dead:
  assumes ok: "owners_ok (ss, {#})"
  shows "objs ss = (\<lambda>_. None)" and "lock_weak key ss = None"
proof -
  have "objs ss a = None" for a
  proof (cases "objs ss a")
    case (Some p)
    then show ?thesis
      using owners_okD(1) [OF ok, of a] owners_okD(2) [OF ok, of a] by (cases p) auto
  qed
  then show "objs ss = (\<lambda>_. None)" by auto
  then show "lock_weak key ss = None" by (simp add: lock_weak_def split: option.splits)
qed

text \<open>
  A backend is shared for as long as it is held: in every state that any interleaving of
  clients can reach, as long as one client holds the backend of a key, every other client that
  asks for that key gets that very object; and once the last holder is gone the object is gone
  with all that was stored in it, so that the next client starts from an empty backend.
\<close>

theorem shared_backend_lifetime:
  assumes "owner_reachable fresh (ss, H)"
  shows "(\<forall>a. (key, a) \<in># H \<longrightarrow> fst (shared_state_for fresh key ss) = a) \<and>
    (H = {#} \<longrightarrow> (\<exists>a ss'. shared_state_for fresh key ss = (a, ss') \<and> objs ss' = [a \<mapsto> (fresh, 1)]))"
proof -
  have ok: "owners_ok (ss, H)" using reachable_owners_ok [OF assms] .
  moreover have "H = {#} \<Longrightarrow> objs ss = (\<lambda>_. None) \<and> lock_weak key ss = None"
    using ok unowned_dead by metis
  ultimately show ?thesis
    using shared_while_owned [OF ok] by (auto simp: shared_state_for_def Let_def)
qed

theorem shared_backend_lifetime_witness:
  "\<exists>a ss'. shared_state_for (0 :: nat) ''k'' (release 0 (snd (shared_state_for 0 ''k'' no_states))) = (a, ss')
     \<and> objs ss' = [a \<mapsto> (0, 1)]"
proof -
  have "owner_step (0 :: nat) (no_states, {#})
      (snd (shared_state_for 0 ''k'' no_states), add_mset (''k'', 0) {#})"
    by (rule obtain_state) (simp add: shared_state_for_def lock_weak_def no_states_def)
  then have 1: "owner_reachable (0 :: nat)
      (snd (shared_state_for 0 ''k'' no_states), add_mset (''k'', 0) {#})"
    by (rule owner_reachable.step [OF owner_reachable.start])
  have "owner_reachable (0 :: nat)
      (release 0 (snd (shared_state_for 0 ''k'' no_states)), add_mset (''k'', 0) {#} - {#(''k'', 0)#})"
    by (rule owner_reachable.step [OF 1 destroy_state]) simp
  then have "owner_reachable (0 :: nat) (release 0 (snd (shared_state_for 0 ''k'' no_states)), {#})"
    by simp
  from shared_backend_lifetime [OF this, of "''k''"] show ?thesis by simp
qed

end
