(* ===== verification/Store_Interfaces.thy ===== *)
theory Store_Interfaces
  imports Kd39_Prelude
begin

text \<open>
  The contracts the services rely on, as locales: a cache whose entries may expire, and a stream
  of messages by topic. The components that provide them interpret them on their own operations;
  what the clients need is proved once here.
\<close>

section \<open>Runs of operations\<close>

text \<open>A run of look-ups (\<open>None\<close>) and writes, each at its time, over a cache's two operations.\<close>

fun cache_run :: "(time_ns \<Rightarrow> string \<Rightarrow> 's \<Rightarrow> string option \<times> 's) \<Rightarrow> (string \<Rightarrow> string \<Rightarrow> 's \<Rightarrow> bool \<times> 's) \<Rightarrow>
    (time_ns \<times> string \<times> string option) list \<Rightarrow> 's \<Rightarrow> 's" where
  "cache_run cget cset [] s = s"
| "cache_run cget cset ((t, k, None) # as) s = cache_run cget cset as (snd (cget t k s))"
| "cache_run cget cset ((t, k, Some v) # as) s = cache_run cget cset as (snd (cset k v s))"

fun last_write :: "string \<Rightarrow> (time_ns \<times> string \<times> string option) list \<Rightarrow> string option" where
  "last_write k [] = None"
| "last_write k ((t, k', w) # as) =
     (case last_write k as of
        Some v \<Rightarrow> Some v
      | None \<Rightarrow> (if k' = k then w else None))"

text \<open>
  Any interleaving of producers and consumers is a list of their actions: a published message,
  or a read of at most so many. The run returns what was read, with its topic, in order.
\<close>

fun stream_run :: "(string \<Rightarrow> string \<Rightarrow> 's \<Rightarrow> 's) \<Rightarrow> (string \<Rightarrow> nat \<Rightarrow> 's \<Rightarrow> string list \<times> 's) \<Rightarrow>
    (string \<times> (string + nat)) list \<Rightarrow> 's \<Rightarrow> (string \<times> string) list \<times> 's" where
  "stream_run publish pop [] s = ([], s)"
| "stream_run publish pop ((t, Inl p) # as) s = stream_run publish pop as (publish t p s)"
| "stream_run publish pop ((t, Inr n) # as) s =
     (let (ps, s1) = pop t n s; (out, s2) = stream_run publish pop as s1
      in (map (Pair t) ps @ out, s2))"

definition read_from :: "string \<Rightarrow> (string \<times> string) list \<Rightarrow> string list" where
  "read_from t out = map snd (filter (\<lambda>m. fst m = t) out)"

fun published_to :: "string \<Rightarrow> (string \<times> (string + nat)) list \<Rightarrow> string list" where
  "published_to t [] = []"
| "published_to t ((t', Inl p) # as) = (if t' = t then p # published_to t as else published_to t as)"
| "published_to t ((t', Inr n) # as) = published_to t as"

lemma read_from_append [simp]: "read_from t (xs @ ys) = read_from t xs @ read_from t ys"
  by (simp add: read_from_def)

lemma read_from_Nil [simp]: "read_from t [] = []"
  by (simp add: read_from_def)

lemma read_from_topic [simp]: "read_from t (map (Pair t') ps) = (if t' = t then ps else [])"
  by (induction ps) (auto simp: read_from_def)

section \<open>Caches\<close>

text \<open>
  \<open>view t s\<close> is what the cache holds at time \<open>t\<close>. A look-up returns it and may purge, but never
  changes what is held; a write makes its value visible at every time and touches nothing else.
\<close>

locale ttl_cache =
  fixes cget :: "time_ns \<Rightarrow> string \<Rightarrow> 's \<Rightarrow> string option \<times> 's"
    and cset :: "string \<Rightarrow> string \<Rightarrow> 's \<Rightarrow> bool \<times> 's"
    and view :: "time_ns \<Rightarrow> 's \<Rightarrow> string \<rightharpoonup> string"
  assumes get_view: "fst (cget t k s) = view t s k"
    and get_keeps: "t \<le> t' \<Longrightarrow> view t' (snd (cget t k s)) = view t' s"
    and set_view: "view t (snd (cset k v s)) = (view t s)(k \<mapsto> v)"
begin

lemma get_set [simp]: "fst (cget t k (snd (cset k v s))) = Some v"
  by (simp add: get_view set_view)

lemma get_set_other [simp]: "k' \<noteq> k \<Longrightarrow> fst (cget t k' (snd (cset k v s))) = fst (cget t k' s)"
  by (simp add: get_view set_view)

lemma get_after_get: "t \<le> t' \<Longrightarrow> fst (cget t' k' (snd (cget t k s))) = view t' s k'"
  by (simp add: get_view get_keeps)

lemma cache_run_view:
  "\<forall>a \<in> set as. fst a \<le> t \<Longrightarrow>
   view t (cache_run cget cset as s) k = (case last_write k as of Some v \<Rightarrow> Some v | None \<Rightarrow> view t s k)"
proof (induction as arbitrary: s)
  case Nil
  then show ?case by simp
next
  case (Cons a as)
  obtain t' k' w where a: "a = (t', k', w)" by (cases a)
  show ?case
    using Cons a by (cases w) (auto simp: get_keeps set_view split: option.splits)
qed

end

section \<open>Streams\<close>

locale fifo_stream =
  fixes publish :: "string \<Rightarrow> string \<Rightarrow> 's \<Rightarrow> 's"
    and pop :: "string \<Rightarrow> nat \<Rightarrow> 's \<Rightarrow> string list \<times> 's"
    and queue :: "'s \<Rightarrow> string \<Rightarrow> string list"
  assumes publish_queue: "queue (publish t p s) = (queue s)(t := queue s t @ [p])"
    and pop_out: "fst (pop t n s) = take n (queue s t)"
    and pop_queue: "queue (snd (pop t n s)) = (queue s)(t := drop n (queue s t))"
begin

lemma stream_conserved:
  "read_from t (fst (stream_run publish pop as s)) @ queue (snd (stream_run publish pop as s)) t =
   queue s t @ published_to t as"
proof (induction as arbitrary: s)
  case Nil
  then show ?case by simp
next
  case (Cons a as)
  obtain t' x where a: "a = (t', x)" by (cases a)
  show ?case
  proof (cases x)
    case (Inl p)
    then show ?thesis using Cons.IH by (simp add: a publish_queue)
  next
    case (Inr n)
    then show ?thesis
      using Cons.IH [of "snd (pop t' n s)"] by (simp add: a split_beta pop_out pop_queue)
  qed
qed

lemma publish_many: "queue (fold (publish t) ps s) t = queue s t @ ps"
  by (induction ps arbitrary: s) (simp_all add: publish_queue)

lemma publish_then_pop:
  "queue s t = [] \<Longrightarrow> fst (pop t (length ps) (fold (publish t) ps s)) = ps"
  by (simp add: pop_out publish_many)

end

section \<open>Layered look-ups\<close>

text \<open>
  The read path two services share: the cache, then the database, then the table in memory; the
  first that has the entry answers, and an exception in one ends the look-up.
\<close>

definition layered_find ::
  "('k \<Rightarrow> 's \<Rightarrow> (exn + 'p option) \<times> 's) \<Rightarrow> ('k \<Rightarrow> 's \<Rightarrow> (exn + 'p option) \<times> 's) \<Rightarrow>
   ('s \<Rightarrow> 'k \<Rightarrow> 'p option) \<Rightarrow> 'k \<Rightarrow> 's \<Rightarrow> (exn + 'p option) \<times> 's" where
  "layered_find cached stored memory k s =
     (let (r1, s1) = cached k s
      in case r1 of
           Inl e \<Rightarrow> (Inl e, s1)
         | Inr (Some p) \<Rightarrow> (Inr (Some p), s1)
         | Inr None \<Rightarrow>
             (let (r2, s2) = stored k s1
              in case r2 of
                   Inl e \<Rightarrow> (Inl e, s2)
                 | Inr (Some p) \<Rightarrow> (Inr (Some p), s2)
                 | Inr None \<Rightarrow> (Inr (memory s2 k), s2)))"

text \<open>
  The contract of the layers: under the invariant no layer throws, a layer answers only with the
  abstract value, a miss is allowed in the first two, and none changes the abstract map.
\<close>

locale layered_store =
  fixes cached stored :: "'k \<Rightarrow> 's \<Rightarrow> (exn + 'p option) \<times> 's"
    and memory :: "'s \<Rightarrow> 'k \<Rightarrow> 'p option"
    and inv :: "'s \<Rightarrow> bool"
    and abs :: "'s \<Rightarrow> 'k \<rightharpoonup> 'p"
    and key_ok :: "'k \<Rightarrow> bool"
  assumes cached_sound: "inv s \<Longrightarrow> key_ok k \<Longrightarrow>
      (fst (cached k s) = Inr None \<or> fst (cached k s) = Inr (abs s k)) \<and>
      inv (snd (cached k s)) \<and> abs (snd (cached k s)) = abs s"
    and stored_sound: "inv s \<Longrightarrow> key_ok k \<Longrightarrow>
      (fst (stored k s) = Inr None \<or> fst (stored k s) = Inr (abs s k)) \<and>
      inv (snd (stored k s)) \<and> abs (snd (stored k s)) = abs s"
    and memory_abs: "inv s \<Longrightarrow> key_ok k \<Longrightarrow> memory s k = abs s k"
begin

lemma layered_find_abs:
  assumes "inv s" and "key_ok k"
  shows "fst (layered_find cached stored memory k s) = Inr (abs s k)"
    and "inv (snd (layered_find cached stored memory k s))"
    and "abs (snd (layered_find cached stored memory k s)) = abs s"
proof -
  note c = cached_sound [OF assms]
  note st = stored_sound [OF c [THEN conjunct2, THEN conjunct1] assms(2)]
  have m: "memory (snd (stored k (snd (cached k s)))) k = abs s k"
    using st c memory_abs assms(2) by metis
  show "fst (layered_find cached stored memory k s) = Inr (abs s k)"
    and "inv (snd (layered_find cached stored memory k s))"
    and "abs (snd (layered_find cached stored memory k s)) = abs s"
    using c st m
    by (auto simp: layered_find_def split_beta split: option.splits sum.splits)
qed

end

end
