(* ===== verification/Redis_Client.thy ===== *)
theory Redis_Client
  imports Std_Text Shared_State Store_Interfaces
begin

text \<open>
  \<open>infrastructure/storage/redis\<close>: the in-memory Redis backend, its keys with their expiry times
  and its streams, and the shared state of the clients with the same host, port and database.
  Every operation runs under the backend's mutex, so it is one step on the backend. The clock is
  an argument; purging is lazy, done by \<open>Get\<close> alone.
\<close>

record redis_config =
  rc_host :: string
  rc_port :: "16 word"
  rc_password :: string
  rc_db :: int
  rc_pool_size :: int

record value_entry =
  entry_value :: string
  expires_at :: "time_ns option"

record stream_message =
  msg_id :: string
  msg_payload :: string

record redis_backend =
  kv :: "string \<rightharpoonup> value_entry"
  streams :: "string \<rightharpoonup> stream_message list"
  next_stream_id :: "64 word"

definition redis_empty :: redis_backend where
  "redis_empty = \<lparr>kv = (\<lambda>_. None), streams = (\<lambda>_. None), next_stream_id = 1\<rparr>"

definition redis_state_key :: "redis_config \<Rightarrow> string" where
  "redis_state_key cfg =
     rc_host cfg @ '':'' @ to_string (uint (rc_port cfg)) @ ''/'' @ to_string (rc_db cfg)"

definition Redis_SharedStateFor ::
  "redis_config \<Rightarrow> redis_backend shared_states \<Rightarrow> nat \<times> redis_backend shared_states" where
  "Redis_SharedStateFor cfg = shared_state_for redis_empty (redis_state_key cfg)"

section \<open>Operations\<close>

definition PurgeExpired :: "time_ns \<Rightarrow> string \<Rightarrow> redis_backend \<Rightarrow> redis_backend" where
  "PurgeExpired now key b =
     (case kv b key of
        None \<Rightarrow> b
      | Some e \<Rightarrow>
          (case expires_at e of
             None \<Rightarrow> b
           | Some t \<Rightarrow> if now \<ge> t then b\<lparr>kv := (kv b)(key := None)\<rparr> else b))"

definition Set :: "string \<Rightarrow> string \<Rightarrow> redis_backend \<Rightarrow> bool \<times> redis_backend" where
  "Set key v b = (True, b\<lparr>kv := (kv b)(key \<mapsto> \<lparr>entry_value = v, expires_at = None\<rparr>)\<rparr>)"

definition Get :: "time_ns \<Rightarrow> string \<Rightarrow> redis_backend \<Rightarrow> string option \<times> redis_backend" where
  "Get now key b =
     (let b1 = PurgeExpired now key b
      in (case kv b1 key of Some e \<Rightarrow> (Some (entry_value e), b1) | None \<Rightarrow> (None, b1)))"

definition Del :: "string \<Rightarrow> redis_backend \<Rightarrow> bool \<times> redis_backend" where
  "Del key b = (kv b key \<noteq> None, b\<lparr>kv := (kv b)(key := None)\<rparr>)"

definition Expire :: "time_ns \<Rightarrow> string \<Rightarrow> int \<Rightarrow> redis_backend \<Rightarrow> bool \<times> redis_backend" where
  "Expire now key ttl_seconds b =
     (case kv b key of
        Some e \<Rightarrow>
          (True, b\<lparr>kv := (kv b)(key \<mapsto> e\<lparr>expires_at := Some (now + seconds ttl_seconds)\<rparr>)\<rparr>)
      | None \<Rightarrow> (False, b))"

definition XAdd :: "string \<Rightarrow> string \<Rightarrow> redis_backend \<Rightarrow> string \<times> redis_backend" where
  "XAdd stream payload b =
     (let i = to_string (uint (next_stream_id b)) @ ''-0'';
          old = (case streams b stream of None \<Rightarrow> [] | Some q \<Rightarrow> q)
      in (i, b\<lparr>next_stream_id := next_stream_id b + 1,
               streams := (streams b)(stream \<mapsto> old @ [\<lparr>msg_id = i, msg_payload = payload\<rparr>])\<rparr>))"

text \<open>The loop of \<open>XRead\<close>: the messages not yet read, and the result so far.\<close>

fun xread_loop :: "nat \<Rightarrow> stream_message list \<Rightarrow> string list \<Rightarrow> string list \<times> stream_message list" where
  "xread_loop max_count [] result = (result, [])"
| "xread_loop max_count (m # q) result =
     (if length result < max_count then xread_loop max_count q (result @ [msg_payload m])
      else (result, m # q))"

definition XRead :: "string \<Rightarrow> nat \<Rightarrow> redis_backend \<Rightarrow> string list \<times> redis_backend" where
  "XRead stream max_count b =
     (let q = (case streams b stream of None \<Rightarrow> [] | Some q \<Rightarrow> q);
          (result, q') = xread_loop max_count q []
      in (result, b\<lparr>streams := (streams b)(stream \<mapsto> q')\<rparr>))"

section \<open>The cache contract\<close>

definition expired :: "time_ns \<Rightarrow> value_entry \<Rightarrow> bool" where
  "expired now e \<longleftrightarrow> (case expires_at e of None \<Rightarrow> False | Some t \<Rightarrow> t \<le> now)"

text \<open>What the store holds at a time: the entries whose expiry has not been reached.\<close>

definition live :: "time_ns \<Rightarrow> redis_backend \<Rightarrow> string \<rightharpoonup> string" where
  "live now b k =
     (case kv b k of None \<Rightarrow> None | Some e \<Rightarrow> if expired now e then None else Some (entry_value e))"

lemma kv_PurgeExpired:
  "kv (PurgeExpired now key b) k =
     (case kv b k of
        None \<Rightarrow> None
      | Some e \<Rightarrow> if k = key \<and> expired now e then None else Some e)"
  by (auto simp: PurgeExpired_def expired_def split: option.splits)

lemma kv_Get: "kv (snd (Get now key b)) = kv (PurgeExpired now key b)"
  by (simp add: Get_def Let_def split: option.splits)

lemma expired_mono: "expired t e \<Longrightarrow> t \<le> t' \<Longrightarrow> expired t' e"
  by (auto simp: expired_def split: option.splits)

interpretation redis_cache: ttl_cache Get Set live
proof
  fix t t' :: time_ns and k v :: string and s :: redis_backend
  show "fst (Get t k s) = live t s k"
    by (auto simp: Get_def Let_def live_def kv_PurgeExpired split: option.splits)
  show "live t' (snd (Get t k s)) = live t' s" if "t \<le> t'"
    using expired_mono [OF _ that]
    by (auto simp: live_def kv_Get kv_PurgeExpired split: option.splits)
  show "live t (snd (Set k v s)) = (live t s)(k \<mapsto> v)"
    by (auto simp: live_def Set_def expired_def)
qed

lemma live_Del: "live now (snd (Del k b)) = (live now b)(k := None)"
  by (auto simp: Del_def live_def)

lemma live_Expire_at:
  "live t (snd (Expire now k ttl b)) k' =
     (if k' = k then (if t < now + seconds ttl then map_option entry_value (kv b k) else None)
      else live t b k')"
  by (auto simp: Expire_def live_def expired_def split: option.splits)

text \<open>
  C31: the cache contract. After any run of reads and writes at times up to \<open>t\<close>, a \<open>Get\<close> at \<open>t\<close>
  returns the value last written to the key, whatever had been stored or was about to expire
  before; a key not written by the run reads as it did at the start.
\<close>

theorem redis_read_your_writes:
  assumes "\<forall>a \<in> set as. fst a \<le> t"
  shows "fst (Get t k (cache_run Get Set as b)) =
    (case last_write k as of Some v \<Rightarrow> Some v | None \<Rightarrow> live t b k)"
  by (simp add: redis_cache.get_view redis_cache.cache_run_view [OF assms])

theorem redis_read_your_writes_witness:
  "fst (Get 9 ''a'' (cache_run Get Set
     [(3, ''a'', Some ''x''), (5, ''b'', None), (7, ''a'', Some ''y'')] redis_empty)) = Some ''y''"
  using redis_read_your_writes
    [of "[(3, ''a'', Some ''x''), (5, ''b'', None), (7, ''a'', Some ''y'')]" 9 "''a''" redis_empty]
  by simp

text \<open>
  A key with a time to live is readable exactly until it runs out: after \<open>Expire\<close> at \<open>now\<close> on a
  stored key, a \<open>Get\<close> at \<open>t\<close> returns its value if \<open>t < now + ttl\<close> and nothing from then on, and a
  later \<open>Set\<close> removes the limit.
\<close>

theorem redis_expiry:
  assumes "live now b k = Some v"
  shows "fst (Expire now k ttl b) \<and>
    fst (Get t k (snd (Expire now k ttl b))) = (if t < now + seconds ttl then Some v else None) \<and>
    fst (Get t k (snd (Set k v' (snd (Expire now k ttl b))))) = Some v'"
proof -
  from assms obtain e where e: "kv b k = Some e" "entry_value e = v"
    by (auto simp: live_def split: option.splits if_splits)
  then have "fst (Expire now k ttl b)" by (simp add: Expire_def)
  moreover have "fst (Get t k (snd (Expire now k ttl b))) =
      (if t < now + seconds ttl then Some v else None)"
    using e by (simp add: redis_cache.get_view live_Expire_at)
  ultimately show ?thesis by simp
qed

theorem redis_expiry_witness:
  "fst (Get (seconds 2) ''k'' (snd (Expire 0 ''k'' 1 (snd (Set ''k'' ''v'' redis_empty))))) = None"
  using redis_expiry [of 0 "snd (Set ''k'' ''v'' redis_empty)" "''k''" "''v''" 1 "seconds 2" "[]"]
  by (simp add: redis_cache.set_view)

text \<open>
  An entry that has run out but has not been looked up since is still there for \<open>Expire\<close> and
  \<open>Del\<close>, which do not purge: \<open>Expire\<close> reports success and brings the dead value back for the new
  time to live, and \<open>Del\<close> reports that it deleted a key no reader could see.
\<close>

theorem redis_expire_revives:
  assumes "kv b k = Some e" and "live now b k = None" and "0 < ttl"
  shows "fst (Get now k b) = None \<and> fst (Del k b) \<and> fst (Expire now k ttl b) \<and>
    fst (Get now k (snd (Expire now k ttl b))) = Some (entry_value e)"
proof -
  have "fst (Expire now k ttl b)" and "fst (Del k b)"
    using assms(1) by (simp_all add: Expire_def Del_def)
  with assms show ?thesis by (simp add: redis_cache.get_view live_Expire_at)
qed

theorem redis_expire_revives_witness:
  "fst (Get (seconds 5) ''k''
     (snd (Expire (seconds 5) ''k'' 9 (snd (Expire 0 ''k'' 1 (snd (Set ''k'' ''v'' redis_empty)))))))
   = Some ''v''"
  using redis_expire_revives
    [of "snd (Expire 0 ''k'' 1 (snd (Set ''k'' ''v'' redis_empty)))" "''k''"
      "\<lparr>entry_value = ''v'', expires_at = Some (seconds 1)\<rparr>" "seconds 5" 9]
  by (simp add: live_Expire_at) (simp add: Expire_def Set_def)

section \<open>The stream contract\<close>

definition stream_queue :: "redis_backend \<Rightarrow> string \<Rightarrow> string list" where
  "stream_queue b stream =
     (case streams b stream of None \<Rightarrow> [] | Some q \<Rightarrow> map msg_payload q)"

lemma xread_loop_spec:
  "xread_loop n q result =
     (result @ map msg_payload (take (n - length result) q), drop (n - length result) q)"
  by (induction n q result rule: xread_loop.induct) (auto simp: Suc_diff_Suc [symmetric])

interpretation redis_stream: fifo_stream "\<lambda>t p b. snd (XAdd t p b)" XRead stream_queue
proof
  fix t p :: string and n :: nat and s :: redis_backend
  show "stream_queue (snd (XAdd t p s)) = (stream_queue s)(t := stream_queue s t @ [p])"
    by (auto simp: stream_queue_def XAdd_def Let_def split: option.splits)
  show "fst (XRead t n s) = take n (stream_queue s t)"
    by (simp add: stream_queue_def XRead_def Let_def xread_loop_spec take_map split: option.splits)
  show "stream_queue (snd (XRead t n s)) = (stream_queue s)(t := drop n (stream_queue s t))"
    by (auto simp: stream_queue_def XRead_def Let_def xread_loop_spec drop_map split: option.splits)
qed

text \<open>
  A Redis stream is a queue, each message read once. In any interleaving of \<open>XAdd\<close> and
  \<open>XRead\<close> over any streams, what was read from a stream followed by what is still in it is what
  was in it followed by what was added, in that order.
\<close>

theorem redis_stream_fifo:
  "let (out, b') = stream_run (\<lambda>t p b. snd (XAdd t p b)) XRead as b
   in read_from t out @ stream_queue b' t = stream_queue b t @ published_to t as"
  using redis_stream.stream_conserved by (simp add: split_beta Let_def)

end
