(* ===== verification/Mysql_Pool.thy ===== *)
theory Mysql_Pool
  imports Std_Text Shared_State
begin

text \<open>
  \<open>infrastructure/storage/mysql\<close>: the in-memory tables behind the connection pool. A row is an
  \<open>unordered_map\<close> from columns to text, a table an \<open>unordered_map\<close> from a composite key to rows;
  the operations that scan a table take the order of the iteration as an argument. Each runs under
  the backend's mutex.
\<close>

record mysql_config =
  mc_host :: string
  mc_port :: "16 word"
  mc_user :: string
  mc_passwd :: string
  mc_db :: string
  mc_pool_size :: int

type_synonym query_row = "string umap"

type_synonym table_state = "query_row umap"

record mysql_backend =
  tables :: "string \<rightharpoonup> table_state"

definition mysql_empty :: mysql_backend where
  "mysql_empty = \<lparr>tables = (\<lambda>_. None)\<rparr>"

definition mysql_state_key :: "mysql_config \<Rightarrow> string" where
  "mysql_state_key cfg =
     mc_host cfg @ '':'' @ to_string (uint (mc_port cfg)) @ ''/'' @ mc_db cfg @ ''/'' @ mc_user cfg"

definition Mysql_SharedStateFor ::
  "mysql_config \<Rightarrow> mysql_backend shared_states \<Rightarrow> nat \<times> mysql_backend shared_states" where
  "Mysql_SharedStateFor cfg = shared_state_for mysql_empty (mysql_state_key cfg)"

section \<open>Operations\<close>

fun composite_loop :: "query_row \<Rightarrow> string list \<Rightarrow> string \<Rightarrow> string" where
  "composite_loop row [] result = result"
| "composite_loop row (field # cols) result =
     (let r1 = (if result \<noteq> [] then result @ ''|'' else result);
          r2 = (case um_find row field of None \<Rightarrow> r1 | Some v \<Rightarrow> r1 @ v)
      in composite_loop row cols r2)"

definition BuildCompositeKey :: "query_row \<Rightarrow> string list \<Rightarrow> string" where
  "BuildCompositeKey row key_fields = composite_loop row key_fields []"

definition Matches :: "query_row \<Rightarrow> query_row \<Rightarrow> bool" where
  "Matches row filters \<longleftrightarrow>
     (\<forall>(key, v) \<in> set filters. case um_find row key of None \<Rightarrow> False | Some v' \<Rightarrow> v' = v)"

definition Execute :: "string \<Rightarrow> bool" where
  "Execute sql = True"

definition Query :: "string \<Rightarrow> query_row list" where
  "Query sql = []"

definition UpsertRow ::
  "string \<Rightarrow> query_row \<Rightarrow> string list \<Rightarrow> mysql_backend \<Rightarrow> bool \<times> mysql_backend" where
  "UpsertRow table row key_fields b =
     (let rows = (case tables b table of None \<Rightarrow> [] | Some t \<Rightarrow> t)
      in (True, b\<lparr>tables := (tables b)(table \<mapsto> um_put (BuildCompositeKey row key_fields) row rows)\<rparr>))"

definition GetRow :: "((string \<times> query_row) list \<Rightarrow> (string \<times> query_row) list) \<Rightarrow>
    string \<Rightarrow> string \<Rightarrow> string \<Rightarrow> mysql_backend \<Rightarrow> query_row option" where
  "GetRow ord table key_field key_value b =
     (case tables b table of
        None \<Rightarrow> None
      | Some t \<Rightarrow>
          map_option snd (find (\<lambda>(_, row). um_find row key_field = Some key_value) (ord t)))"

definition FindRows :: "((string \<times> query_row) list \<Rightarrow> (string \<times> query_row) list) \<Rightarrow>
    string \<Rightarrow> query_row \<Rightarrow> mysql_backend \<Rightarrow> query_row list" where
  "FindRows ord table filters b =
     (case tables b table of
        None \<Rightarrow> []
      | Some t \<Rightarrow> map snd (filter (\<lambda>(_, row). Matches row filters) (ord t)))"

section \<open>Composite keys\<close>

fun join_bar :: "string list \<Rightarrow> string" where
  "join_bar [] = []"
| "join_bar [v] = v"
| "join_bar (v # w # vs) = v @ ''|'' @ join_bar (w # vs)"

definition key_values :: "query_row \<Rightarrow> string list \<Rightarrow> string list" where
  "key_values row cols = map (\<lambda>f. case um_find row f of None \<Rightarrow> [] | Some v \<Rightarrow> v) cols"

lemma composite_loop_join:
  "result \<noteq> [] \<Longrightarrow> composite_loop row cols result = join_bar (result # key_values row cols)"
proof (induction cols arbitrary: result)
  case Nil
  then show ?case by (simp add: key_values_def)
next
  case (Cons f cols)
  have "join_bar ((result @ ''|'' @ v) # vs) = join_bar (result # v # vs)" for v vs
    by (cases vs) auto
  with Cons show ?case by (simp add: key_values_def Let_def split: option.split)
qed

text \<open>The key is the values joined by bars, once the empty ones at the front are dropped.\<close>

lemma BuildCompositeKey_join:
  "BuildCompositeKey row cols = join_bar (dropWhile (\<lambda>v. v = []) (key_values row cols))"
proof -
  have "composite_loop row cols [] = join_bar (dropWhile (\<lambda>v. v = []) (key_values row cols))"
  proof (induction cols)
    case Nil
    then show ?case by (simp add: key_values_def)
  next
    case (Cons f cols)
    then show ?case
      using composite_loop_join [of _ row cols]
      by (auto simp: key_values_def Let_def split: option.split)
  qed
  then show ?thesis by (simp add: BuildCompositeKey_def)
qed

lemma join_bar_inj:
  "\<forall>v \<in> set vs \<union> set ws. CHR ''|'' \<notin> set v \<Longrightarrow> length vs = length ws \<Longrightarrow>
   join_bar vs = join_bar ws \<Longrightarrow> vs = ws"
proof (induction vs arbitrary: ws rule: join_bar.induct)
  case (3 v v' vs)
  then obtain w w' ws' where ws: "ws = w # w' # ws'"
    by (cases ws rule: join_bar.cases) auto
  from 3(3,4) have "v @ CHR ''|'' # join_bar (v' # vs) = w @ CHR ''|'' # join_bar (w' # ws')"
    by (simp add: ws)
  with 3(2) have "v = w" "join_bar (v' # vs) = join_bar (w' # ws')"
    by (simp_all add: ws split_at_sep)
  moreover have "v' # vs = w' # ws'"
    by (rule 3(1)) (use 3(2,3) ws calculation in auto)
  ultimately show ?case by (simp add: ws)
next
  case (2 v)
  then obtain w where "ws = [w]" by (cases ws) auto
  with 2 show ?case by simp
qed simp

section \<open>Tables with a primary key\<close>

text \<open>
  A row is clean for its key cols when it has them all, none of the values contains the bar, and
  the first is not empty.
\<close>

definition clean_row :: "string list \<Rightarrow> query_row \<Rightarrow> bool" where
  "clean_row cols row \<longleftrightarrow>
     (\<forall>f \<in> set cols. \<exists>v. um_find row f = Some v \<and> CHR ''|'' \<notin> set v) \<and>
     cols \<noteq> [] \<and> um_find row (hd cols) \<noteq> Some []"

definition table_ok :: "string list \<Rightarrow> table_state \<Rightarrow> bool" where
  "table_ok cols t \<longleftrightarrow>
     um_ok t \<and> (\<forall>(k, row) \<in> set t. clean_row cols row \<and> k = BuildCompositeKey row cols)"

lemma clean_key: "clean_row cols row \<Longrightarrow> BuildCompositeKey row cols = join_bar (key_values row cols)"
  by (cases cols) (auto simp: BuildCompositeKey_join clean_row_def key_values_def)

lemma clean_key_inj:
  assumes "clean_row cols r" and "clean_row cols r'"
    and "BuildCompositeKey r cols = BuildCompositeKey r' cols"
  shows "\<forall>f \<in> set cols. um_find r f = um_find r' f"
proof -
  have "key_values r cols = key_values r' cols"
    by (rule join_bar_inj)
      (use assms in \<open>auto simp: clean_key clean_row_def key_values_def split: option.splits\<close>)
  then show ?thesis
    using assms(1,2) by (fastforce simp: key_values_def clean_row_def)
qed

lemma table_ok_put:
  "table_ok cols t \<Longrightarrow> clean_row cols row \<Longrightarrow>
   table_ok cols (um_put (BuildCompositeKey row cols) row t)"
  by (auto simp: table_ok_def set_um_put)

definition key_filter :: "query_row \<Rightarrow> string list \<Rightarrow> query_row" where
  "key_filter row cols = map (\<lambda>f. (f, the (um_find row f))) cols"

lemma Matches_key_filter:
  "clean_row cols row \<Longrightarrow>
   Matches r (key_filter row cols) = (\<forall>f \<in> set cols. um_find r f = um_find row f)"
  by (fastforce simp: Matches_def key_filter_def clean_row_def split: option.splits)

lemma filter_unique:
  "distinct xs \<Longrightarrow> x \<in> set xs \<Longrightarrow> (\<And>y. y \<in> set xs \<Longrightarrow> P y \<longleftrightarrow> y = x) \<Longrightarrow> filter P xs = [x]"
  by (induction xs) (auto simp: filter_empty_conv)

lemma table_lookup:
  assumes t: "table_ok cols t" and row: "(k, row) \<in> set t" and ord: "traversal ord"
  shows "map snd (filter (\<lambda>(_, r). Matches r (key_filter row cols)) (ord t)) = [row]"
proof -
  have k: "k = BuildCompositeKey row cols" and c: "clean_row cols row"
    using t row by (auto simp: table_ok_def)
  have "filter (\<lambda>(_, r). Matches r (key_filter row cols)) (ord t) = [(k, row)]"
  proof (rule filter_unique)
    show "distinct (ord t)"
      using t traversal_distinct [OF ord, of t]
      by (auto simp: table_ok_def um_ok_def dest: distinct_map [THEN iffD1])
    show "(k, row) \<in> set (ord t)" using row by (simp add: traversal_set [OF ord])
    fix p assume p: "p \<in> set (ord t)"
    obtain k' r where kr: "p = (k', r)" by (cases p)
    have r: "(k', r) \<in> set t" using p kr by (simp add: traversal_set [OF ord])
    then have k': "k' = join_bar (key_values r cols)" and cr: "clean_row cols r"
      using t by (auto simp: table_ok_def clean_key)
    have "p = (k, row)" if "Matches r (key_filter row cols)"
    proof -
      have "key_values r cols = key_values row cols"
        using that by (simp add: key_values_def Matches_key_filter [OF c])
      then have "k' = k" using k k' clean_key [OF c] by simp
      with r row t show ?thesis using um_find_in_set kr by (metis option.inject table_ok_def)
    qed
    then show "(case p of (_, r) \<Rightarrow> Matches r (key_filter row cols)) \<longleftrightarrow> p = (k, row)"
      using kr by (auto simp: Matches_key_filter [OF c])
  qed
  then show ?thesis by simp
qed

text \<open>The tables of a backend, each kept under its key cols.\<close>

definition table_of :: "mysql_backend \<Rightarrow> string \<Rightarrow> table_state" where
  "table_of b table = (case tables b table of None \<Rightarrow> [] | Some t \<Rightarrow> t)"

lemma table_of_Upsert [simp]:
  "table_of (snd (UpsertRow table row cols b)) table' =
     (if table' = table then um_put (BuildCompositeKey row cols) row (table_of b table)
      else table_of b table')"
  by (auto simp: table_of_def UpsertRow_def Let_def)

lemma FindRows_table_of:
  "traversal ord \<Longrightarrow>
   FindRows ord table filters b =
     map snd (filter (\<lambda>(_, row). Matches row filters) (ord (table_of b table)))"
  by (simp add: FindRows_def table_of_def split: option.split)

text \<open>A table with a single key field is indexed by the values of that field.\<close>

lemma single_key: "clean_row [f] row \<Longrightarrow> um_find row f = Some (BuildCompositeKey row [f])"
  by (auto simp: clean_row_def BuildCompositeKey_def)

lemma GetRow_primary:
  assumes t: "table_ok [f] (table_of b table)" and ord: "traversal ord"
  shows "GetRow ord table f v b = um_find (table_of b table) v"
proof -
  let ?t = "table_of b table" and ?P = "\<lambda>(_, row). um_find row f = Some v"
  have g: "GetRow ord table f v b = map_option snd (find ?P (ord ?t))"
    using ord by (simp add: GetRow_def table_of_def split: option.split)
  have P: "?P (k, row) \<longleftrightarrow> k = v" if "(k, row) \<in> set (ord ?t)" for k row
    using that t single_key [of f row] by (auto simp: traversal_set [OF ord] table_ok_def)
  have um: "um_ok ?t" using t by (simp add: table_ok_def)
  show ?thesis
  proof (cases "find ?P (ord ?t)")
    case None
    then have "(v, row) \<notin> set ?t" for row
      using P [of v row] by (auto simp: find_None_iff traversal_set [OF ord])
    then show ?thesis using None g um_find_in_set [OF um] by (cases "um_find ?t v") auto
  next
    case (Some p)
    obtain k row where p: "p = (k, row)" by (cases p)
    have mem: "(k, row) \<in> set (ord ?t)" using Some p by (metis find_Some_iff nth_mem)
    have "um_find row f = Some v" using Some p by (auto simp: find_Some_iff)
    then have "k = v" using P [OF mem] by simp
    then have "(v, row) \<in> set ?t" using mem by (simp add: traversal_set [OF ord])
    then have "um_find ?t v = Some row" by (simp add: um_find_in_set [OF um])
    then show ?thesis using Some p g by simp
  qed
qed

text \<open>
  An upsert is by primary key. In a table whose rows have separator-free key cols, after
  \<open>UpsertRow\<close> of a row, \<open>FindRows\<close> on the values of its key cols returns exactly that row, in
  whatever order the table is scanned; the row of any other key that was found before is still
  found; and the table keeps its invariant.
\<close>

theorem upsert_by_primary_key:
  assumes t: "table_ok cols (table_of b table)" and row: "clean_row cols row"
    and ord: "traversal ord"
  shows "let b' = snd (UpsertRow table row cols b) in
    table_ok cols (table_of b' table) \<and>
    FindRows ord table (key_filter row cols) b' = [row] \<and>
    (\<forall>(k, r) \<in> set (table_of b table). k \<noteq> BuildCompositeKey row cols \<longrightarrow>
       FindRows ord table (key_filter r cols) b' = [r])"
proof -
  let ?t = "um_put (BuildCompositeKey row cols) row (table_of b table)"
  have ok: "table_ok cols ?t" by (rule table_ok_put [OF t row])
  have um: "um_ok (table_of b table)" using t by (simp add: table_ok_def)
  have "map snd (filter (\<lambda>(_, r'). Matches r' (key_filter r cols)) (ord ?t)) = [r]"
    if "(k, r) \<in> set ?t" for k r
    by (rule table_lookup [OF ok that ord])
  with ok show ?thesis
    by (auto simp: Let_def FindRows_table_of [OF ord] set_um_put [OF um])
qed

definition sample_row :: query_row where
  "sample_row = [(''ns'', ''a''), (''key'', ''k''), (''value'', ''1'')]"

theorem upsert_by_primary_key_witness:
  "FindRows rev ''t'' (key_filter sample_row [''ns'', ''key''])
     (snd (UpsertRow ''t'' sample_row [''ns'', ''key''] mysql_empty)) = [sample_row]"
  using upsert_by_primary_key [of "[''ns'', ''key'']" mysql_empty "''t''" sample_row rev]
  by (simp add: Let_def table_of_def mysql_empty_def table_ok_def clean_row_def sample_row_def
      um_find_def)

text \<open>
  The composite key does not separate its parts: the values are joined with bars that are not
  escaped, so two rows with different keys whose values contain the bar get the same composite
  key, and the second upsert replaces the first row.
\<close>

theorem composite_key_collision:
  fixes r1 r2 :: query_row
  assumes "um_find r1 f1 = Some (x @ ''|'' @ y)" and "um_find r1 f2 = Some z"
    and "um_find r2 f1 = Some x" and "um_find r2 f2 = Some (y @ ''|'' @ z)" and "x \<noteq> []"
  shows "let b' = snd (UpsertRow table r2 [f1, f2] (snd (UpsertRow table r1 [f1, f2] b))) in
    r1 \<noteq> r2 \<and> BuildCompositeKey r1 [f1, f2] = BuildCompositeKey r2 [f1, f2] \<and>
    um_find (table_of b' table) (BuildCompositeKey r1 [f1, f2]) = Some r2"
proof -
  have "BuildCompositeKey r1 [f1, f2] = BuildCompositeKey r2 [f1, f2]"
    using assms by (simp add: BuildCompositeKey_def)
  moreover have "r1 \<noteq> r2" using assms(1,3) by auto
  ultimately show ?thesis by (simp add: Let_def)
qed

theorem composite_key_collision_witness:
  "let b' = snd (UpsertRow ''t'' [(''ns'', ''a''), (''key'', ''b|c'')] [''ns'', ''key'']
     (snd (UpsertRow ''t'' [(''ns'', ''a|b''), (''key'', ''c'')] [''ns'', ''key''] mysql_empty))) in
   um_find (table_of b' ''t'') ''a|b|c'' = Some [(''ns'', ''a''), (''key'', ''b|c'')]"
  using composite_key_collision [of "[(''ns'', ''a|b''), (''key'', ''c'')]" "''ns''" "''a''" "''b''"
      "''key''" "''c''" "[(''ns'', ''a''), (''key'', ''b|c'')]" "''t''" mysql_empty]
  by (simp add: Let_def um_find_def BuildCompositeKey_def)

end
