(* ===== verification/Message_Queue.thy ===== *)
theory Message_Queue
  imports Store_Interfaces
begin

text \<open>
  \<open>infrastructure/mq\<close>: the in-process bus (\<open>local_bus.h\<close>), the producer and the consumer with its
  worker loop. \<open>Publish\<close> and \<open>Pop\<close> each change one topic's queue under that queue's mutex, so each
  is one step on the bus. A handler is an identifier; what the worker does is the list of the
  handler calls it makes.
\<close>

section \<open>The bus\<close>

record local_bus =
  topics :: "string \<rightharpoonup> string list"

definition empty_bus :: local_bus where
  "empty_bus = \<lparr>topics = (\<lambda>_. None)\<rparr>"

definition QueueFor :: "string \<Rightarrow> local_bus \<Rightarrow> string list \<times> local_bus" where
  "QueueFor topic bus =
     (case topics bus topic of
        Some q \<Rightarrow> (q, bus)
      | None \<Rightarrow> ([], bus\<lparr>topics := (topics bus)(topic \<mapsto> [])\<rparr>))"

definition bus_Publish :: "string \<Rightarrow> string \<Rightarrow> local_bus \<Rightarrow> local_bus" where
  "bus_Publish topic payload bus =
     (let (q, bus1) = QueueFor topic bus
      in bus1\<lparr>topics := (topics bus1)(topic \<mapsto> q @ [payload])\<rparr>)"

text \<open>The loop of \<open>Pop\<close>: the messages still queued and the ones already taken.\<close>

fun pop_loop :: "nat \<Rightarrow> string list \<Rightarrow> string list \<Rightarrow> string list \<times> string list" where
  "pop_loop max_count [] out = (out, [])"
| "pop_loop max_count (m # q) out =
     (if length out < max_count then pop_loop max_count q (out @ [m]) else (out, m # q))"

definition Pop :: "string \<Rightarrow> nat \<Rightarrow> local_bus \<Rightarrow> string list \<times> local_bus" where
  "Pop topic max_count bus =
     (let (q, bus1) = QueueFor topic bus;
          (out, q') = pop_loop max_count q []
      in (out, bus1\<lparr>topics := (topics bus1)(topic \<mapsto> q')\<rparr>))"

text \<open>\<open>RedisStreamsProducer::Publish\<close>, which always reports success.\<close>

definition producer_Publish :: "string \<Rightarrow> string \<Rightarrow> local_bus \<Rightarrow> bool \<times> local_bus" where
  "producer_Publish topic payload bus = (True, bus_Publish topic payload bus)"

definition bus_queue :: "local_bus \<Rightarrow> string \<Rightarrow> string list" where
  "bus_queue bus topic = (case topics bus topic of None \<Rightarrow> [] | Some q \<Rightarrow> q)"

lemma pop_loop_spec:
  "pop_loop n q out = (out @ take (n - length out) q, drop (n - length out) q)"
  by (induction n q out rule: pop_loop.induct) (auto simp: Suc_diff_Suc [symmetric])

interpretation bus_stream: fifo_stream bus_Publish Pop bus_queue
proof
  fix t p :: string and n :: nat and s :: local_bus
  show "bus_queue (bus_Publish t p s) = (bus_queue s)(t := bus_queue s t @ [p])"
    by (auto simp: bus_queue_def bus_Publish_def QueueFor_def split: option.splits)
  show "fst (Pop t n s) = take n (bus_queue s t)"
    by (simp add: bus_queue_def Pop_def QueueFor_def pop_loop_spec split: option.splits)
  show "bus_queue (snd (Pop t n s)) = (bus_queue s)(t := drop n (bus_queue s t))"
    by (auto simp: bus_queue_def Pop_def QueueFor_def pop_loop_spec split: option.splits)
qed

text \<open>
  The bus loses, repeats and reorders nothing: in any interleaving of publishing and reading
  threads over any topics, what was read from a topic followed by what is still queued is what was
  queued followed by what was published, in that order.
\<close>

theorem bus_fifo:
  "let (out, bus') = stream_run bus_Publish Pop as bus
   in read_from t out @ bus_queue bus' t = bus_queue bus t @ published_to t as"
  using bus_stream.stream_conserved by (simp add: split_beta Let_def)

section \<open>The consumer\<close>

record 'h consumer =
  uri :: string
  group :: string
  consumer_name :: string
  running :: bool
  worker_joinable :: bool
  subscriptions :: "'h umap"

definition CreateRedisStreamsConsumer :: "string \<Rightarrow> string \<Rightarrow> string \<Rightarrow> 'h consumer" where
  "CreateRedisStreamsConsumer u g n =
     \<lparr>uri = u, group = g, consumer_name = n, running = False, worker_joinable = False,
      subscriptions = []\<rparr>"

definition Subscribe :: "string \<Rightarrow> 'h \<Rightarrow> 'h consumer \<Rightarrow> 'h consumer" where
  "Subscribe topic handler c = c\<lparr>subscriptions := um_put topic handler (subscriptions c)\<rparr>"

definition consumer_Start :: "'h consumer \<Rightarrow> 'h consumer" where
  "consumer_Start c = (if running c then c else c\<lparr>running := True, worker_joinable := True\<rparr>)"

definition consumer_Stop :: "'h consumer \<Rightarrow> 'h consumer" where
  "consumer_Stop c =
     (if \<not> running c then c
      else if worker_joinable c then c\<lparr>running := False, worker_joinable := False\<rparr>
      else c\<lparr>running := False\<rparr>)"

text \<open>One pass of the worker over its subscriptions: the handler calls it makes, in order.\<close>

fun poll_subscriptions :: "(string \<times> 'h) list \<Rightarrow> local_bus \<Rightarrow> (string \<times> 'h \<times> string) list \<times> local_bus" where
  "poll_subscriptions [] bus = ([], bus)"
| "poll_subscriptions ((topic, handler) # subs) bus =
     (let (ps, bus1) = Pop topic 32 bus;
          (calls, bus2) = poll_subscriptions subs bus1
      in (map (\<lambda>p. (topic, handler, p)) ps @ calls, bus2))"

text \<open>
  The worker thread for as many iterations as start before \<open>Stop\<close>: the handler calls, the number
  of 50 ms sleeps (one per pass in which nothing was handled), and the bus it leaves.
\<close>

fun worker_loop :: "((string \<times> 'h) list \<Rightarrow> (string \<times> 'h) list) \<Rightarrow> 'h consumer \<Rightarrow> nat \<Rightarrow> local_bus \<Rightarrow>
    (string \<times> 'h \<times> string) list \<times> nat \<times> local_bus" where
  "worker_loop ord c 0 bus = ([], 0, bus)"
| "worker_loop ord c (Suc n) bus =
     (let (calls, bus1) = poll_subscriptions (ord (subscriptions c)) bus;
          handled = (calls \<noteq> []);
          (calls', sleeps, bus2) = worker_loop ord c n bus1
      in (calls @ calls', (if handled then sleeps else Suc sleeps), bus2))"

definition handled_on :: "string \<Rightarrow> 'h \<Rightarrow> (string \<times> 'h \<times> string) list \<Rightarrow> string list" where
  "handled_on t h calls = map (snd \<circ> snd) (filter (\<lambda>(t', h', _). t' = t \<and> h' = h) calls)"

lemma handled_on_append [simp]: "handled_on t h (xs @ ys) = handled_on t h xs @ handled_on t h ys"
  by (simp add: handled_on_def)

lemma handled_on_Nil [simp]: "handled_on t h [] = []"
  by (simp add: handled_on_def)

lemma handled_on_map [simp]:
  "handled_on t h (map (\<lambda>p. (t', h', p)) ps) = (if t' = t \<and> h' = h then ps else [])"
  by (induction ps) (auto simp: handled_on_def)

lemma poll_other:
  "t \<notin> fst ` set subs \<Longrightarrow>
   handled_on t h (fst (poll_subscriptions subs bus)) = [] \<and>
   bus_queue (snd (poll_subscriptions subs bus)) t = bus_queue bus t"
proof (induction subs arbitrary: bus)
  case (Cons s subs)
  then show ?case by (cases s) (auto simp: split_beta bus_stream.pop_queue)
qed simp

lemma poll_topic:
  "distinct (map fst subs) \<Longrightarrow> (t, h) \<in> set subs \<Longrightarrow>
   handled_on t h (fst (poll_subscriptions subs bus)) = take 32 (bus_queue bus t) \<and>
   bus_queue (snd (poll_subscriptions subs bus)) t = drop 32 (bus_queue bus t)"
proof (induction subs arbitrary: bus)
  case Nil
  then show ?case by simp
next
  case (Cons s subs)
  obtain t' h' where s: "s = (t', h')" by (cases s)
  show ?case
  proof (cases "t' = t")
    case True
    then have "h' = h" and "t \<notin> fst ` set subs"
      using Cons.prems s by (auto simp: image_iff)
    then show ?thesis
      using True s poll_other [of t subs h "snd (Pop t 32 bus)"]
      by (simp add: split_beta bus_stream.pop_out bus_stream.pop_queue)
  next
    case False
    then show ?thesis
      using Cons s by (auto simp: split_beta bus_stream.pop_queue)
  qed
qed

lemma worker_other:
  assumes ord: "traversal ord" and t: "um_find (subscriptions c) t = None"
  shows "bus_queue (snd (snd (worker_loop ord c n bus))) t = bus_queue bus t"
proof (induction n arbitrary: bus)
  case 0
  then show ?case by simp
next
  case (Suc n)
  have "t \<notin> fst ` set (ord (subscriptions c))"
    using t by (simp add: traversal_set [OF ord] um_find_def map_of_eq_None_iff)
  with Suc.IH show ?case by (simp add: split_beta Let_def poll_other)
qed

lemma worker_topic:
  assumes ok: "um_ok (subscriptions c)" and ord: "traversal ord"
    and sub: "um_find (subscriptions c) t = Some h"
  shows "handled_on t h (fst (worker_loop ord c n bus)) = take (32 * n) (bus_queue bus t) \<and>
    bus_queue (snd (snd (worker_loop ord c n bus))) t = drop (32 * n) (bus_queue bus t)"
proof (induction n arbitrary: bus)
  case 0
  then show ?case by simp
next
  case (Suc n)
  let ?p = "poll_subscriptions (ord (subscriptions c)) bus"
  have d: "distinct (map fst (ord (subscriptions c)))"
    using ok traversal_distinct [OF ord] by (simp add: um_ok_def)
  have m: "(t, h) \<in> set (ord (subscriptions c))"
    using sub ok by (simp add: traversal_set [OF ord] um_find_in_set)
  note p = poll_topic [OF d m, of bus]
  have "take (32 * Suc n) q = take 32 q @ take (32 * n) (drop 32 q)" for q :: "string list"
    by (simp add: take_add)
  with Suc.IH [of "snd ?p"] p show ?case
    by (simp add: split_beta Let_def add.commute)
qed

text \<open>
  The worker drains its topics in order: after \<open>n\<close> passes with no new messages, the handler of
  a subscribed topic has been called on exactly the first \<open>32 n\<close> messages of its queue, in order,
  and those are gone from the queue; so a backlog of \<open>m\<close> messages is handled whole in
  \<open>\<lceil>m / 32\<rceil>\<close> passes. Topics without a subscription are left alone.
\<close>

theorem worker_drains:
  assumes ok: "um_ok (subscriptions c)" and ord: "traversal ord"
    and sub: "um_find (subscriptions c) t = Some h"
  shows "let (calls, sleeps, bus') = worker_loop ord c n bus in
    handled_on t h calls = take (32 * n) (bus_queue bus t) \<and>
    bus_queue bus' t = drop (32 * n) (bus_queue bus t) \<and>
    (\<forall>t'. um_find (subscriptions c) t' = None \<longrightarrow> bus_queue bus' t' = bus_queue bus t')"
  using worker_topic [OF assms] worker_other [OF ord] by (simp add: split_beta Let_def)

theorem worker_drains_witness:
  "handled_on ''t'' (0 :: nat)
     (fst (worker_loop rev (Subscribe ''t'' 0 (CreateRedisStreamsConsumer [] [] [])) 1
       (bus_Publish ''t'' ''b'' (bus_Publish ''t'' ''a'' empty_bus)))) = [''a'', ''b'']"
  using worker_drains [of "Subscribe ''t'' (0 :: nat) (CreateRedisStreamsConsumer [] [] [])" rev "''t''" 0
      1 "bus_Publish ''t'' ''b'' (bus_Publish ''t'' ''a'' empty_bus)"]
  by (simp add: Subscribe_def CreateRedisStreamsConsumer_def split_beta Let_def
      bus_stream.publish_queue) (simp add: bus_queue_def empty_bus_def)

lemma Start_Stop: "\<not> running c \<Longrightarrow> \<not> worker_joinable c \<Longrightarrow> consumer_Stop (consumer_Start c) = c"
  by (cases c) (simp add: consumer_Start_def consumer_Stop_def)

end
