(* ===== verification/Etcd_Coordination.thy ===== *)
theory Etcd_Coordination
  imports Governance Shared_State
begin

text \<open>
  \<open>infrastructure/coordination/impl/etcd\<close>: the shared state of the etcd adapters and the calls of
  the registry, the resolver, the config provider, the lock and the election. A call obtains the
  state of its endpoints (\<open>GetState\<close>), works on it under its mutex, and drops its pointer when it
  returns: no adapter keeps one. What a call does to the state is its body; \<open>with_state\<close> puts the
  life of the pointer around it. A callback is an identifier, and a body returns the callback
  invocations it makes, in order, with its result.
\<close>

record etcd_state =
  ekv :: "string umap"
  services :: "service_instance umap"
  config_watchers :: "(string \<times> nat) list"
  service_watchers :: "(string \<times> nat) list"
  locks :: "string \<rightharpoonup> string"
  leaders :: "string \<rightharpoonup> string"

definition etcd_empty :: etcd_state where
  "etcd_empty = \<lparr>ekv = [], services = [], config_watchers = [], service_watchers = [],
     locks = (\<lambda>_. None), leaders = (\<lambda>_. None)\<rparr>"

datatype notice =
    ServiceNotice nat "service_instance list"
  | ConfigNotice nat string string
  | LeaderNotice nat bool

text \<open>The orders in which the two iterated maps are visited.\<close>

record scan_order =
  ord_kv :: "(string \<times> string) list \<Rightarrow> (string \<times> string) list"
  ord_services :: "(string \<times> service_instance) list \<Rightarrow> (string \<times> service_instance) list"

definition scan_ok :: "scan_order \<Rightarrow> bool" where
  "scan_ok sc \<longleftrightarrow> traversal (ord_kv sc) \<and> traversal (ord_services sc)"

section \<open>The bodies\<close>

definition SnapshotInstances :: "scan_order \<Rightarrow> etcd_state \<Rightarrow> string \<Rightarrow> service_instance list" where
  "SnapshotInstances sc st name =
     filter (\<lambda>i. service_name i = name) (map snd (ord_services sc (services st)))"

definition NotifyServiceWatchers :: "scan_order \<Rightarrow> etcd_state \<Rightarrow> string \<Rightarrow> notice list" where
  "NotifyServiceWatchers sc st name =
     (let snapshot = SnapshotInstances sc st name
      in map (\<lambda>(_, cb). ServiceNotice cb snapshot)
           (filter (\<lambda>(watched, _). watched = name) (service_watchers st)))"

definition NotifyConfigWatchers :: "etcd_state \<Rightarrow> string \<Rightarrow> string \<Rightarrow> notice list" where
  "NotifyConfigWatchers st key v =
     map (\<lambda>(_, cb). ConfigNotice cb key v)
       (filter (\<lambda>(pre, _). starts_with pre key) (config_watchers st))"

definition instance_key :: "string \<Rightarrow> string \<Rightarrow> string" where
  "instance_key name inst_id = name @ ''/'' @ inst_id"

definition Register_body ::
  "scan_order \<Rightarrow> service_instance \<Rightarrow> etcd_state \<Rightarrow> (bool \<times> notice list) \<times> etcd_state" where
  "Register_body sc inst st =
     (let st1 = st\<lparr>services :=
            um_put (instance_key (service_name inst) (instance_id inst)) inst (services st)\<rparr>
      in ((True, NotifyServiceWatchers sc st1 (service_name inst)), st1))"

definition Deregister_body ::
  "scan_order \<Rightarrow> string \<Rightarrow> string \<Rightarrow> etcd_state \<Rightarrow> (bool \<times> notice list) \<times> etcd_state" where
  "Deregister_body sc name inst_id st =
     (let st1 = st\<lparr>services := um_erase (instance_key name inst_id) (services st)\<rparr>
      in ((True, NotifyServiceWatchers sc st1 name), st1))"

definition Resolve_body :: "scan_order \<Rightarrow> string \<Rightarrow> etcd_state \<Rightarrow> service_instance list \<times> etcd_state" where
  "Resolve_body sc name st = (SnapshotInstances sc st name, st)"

definition WatchService_body :: "scan_order \<Rightarrow> string \<Rightarrow> nat \<Rightarrow> etcd_state \<Rightarrow> notice list \<times> etcd_state" where
  "WatchService_body sc name cb st =
     (let st1 = st\<lparr>service_watchers := service_watchers st @ [(name, cb)]\<rparr>
      in ([ServiceNotice cb (SnapshotInstances sc st1 name)], st1))"

definition ConfigGet_body :: "string \<Rightarrow> etcd_state \<Rightarrow> string \<times> etcd_state" where
  "ConfigGet_body key st = ((case um_find (ekv st) key of Some v \<Rightarrow> v | None \<Rightarrow> []), st)"

definition WatchConfig_body :: "scan_order \<Rightarrow> string \<Rightarrow> nat \<Rightarrow> etcd_state \<Rightarrow> notice list \<times> etcd_state" where
  "WatchConfig_body sc pre cb st =
     (let st1 = st\<lparr>config_watchers := config_watchers st @ [(pre, cb)]\<rparr>
      in (map (\<lambda>(key, v). ConfigNotice cb key v)
            (filter (\<lambda>(key, _). starts_with pre key) (ord_kv sc (ekv st1))), st1))"

definition Put_body :: "string \<Rightarrow> string \<Rightarrow> etcd_state \<Rightarrow> notice list \<times> etcd_state" where
  "Put_body key v st =
     (let st1 = st\<lparr>ekv := um_put key v (ekv st)\<rparr> in (NotifyConfigWatchers st1 key v, st1))"

definition TryLock_body :: "string \<Rightarrow> int \<Rightarrow> etcd_state \<Rightarrow> bool \<times> etcd_state" where
  "TryLock_body resource ttl st =
     (if locks st resource \<noteq> None then (False, st)
      else (True, st\<lparr>locks := (locks st)(resource \<mapsto> to_string ttl)\<rparr>))"

definition Unlock_body :: "string \<Rightarrow> etcd_state \<Rightarrow> unit \<times> etcd_state" where
  "Unlock_body resource st = ((), st\<lparr>locks := (locks st)(resource := None)\<rparr>)"

definition Campaign_body :: "string \<Rightarrow> string \<Rightarrow> nat \<Rightarrow> etcd_state \<Rightarrow> notice list \<times> etcd_state" where
  "Campaign_body election candidate cb st =
     (let current = (case leaders st election of Some l \<Rightarrow> l | None \<Rightarrow> []);
          leader = (if current = [] then candidate else current)
      in ([LeaderNotice cb (leader = candidate)], st\<lparr>leaders := (leaders st)(election \<mapsto> leader)\<rparr>))"

section \<open>The calls\<close>

datatype etcd_call =
    Register service_instance int
  | Deregister string string
  | Resolve string
  | WatchService string nat
  | ConfigGet string
  | WatchConfigKey string nat
  | Put string string
  | TryLock string int
  | Unlock string
  | Campaign string string nat
  | Resign

datatype reply =
    Done "notice list"
  | Answer bool "notice list"
  | Instances "service_instance list"
  | Value string

fun call_body :: "scan_order \<Rightarrow> etcd_call \<Rightarrow> etcd_state \<Rightarrow> reply \<times> etcd_state" where
  "call_body sc (Register inst ttl) st =
     (let ((r, ns), st1) = Register_body sc inst st in (Answer r ns, st1))"
| "call_body sc (Deregister name i) st =
     (let ((r, ns), st1) = Deregister_body sc name i st in (Answer r ns, st1))"
| "call_body sc (Resolve name) st =
     (let (is, st1) = Resolve_body sc name st in (Instances is, st1))"
| "call_body sc (WatchService name cb) st =
     (let (ns, st1) = WatchService_body sc name cb st in (Done ns, st1))"
| "call_body sc (ConfigGet key) st =
     (let (v, st1) = ConfigGet_body key st in (Value v, st1))"
| "call_body sc (WatchConfigKey pre cb) st =
     (let (ns, st1) = WatchConfig_body sc pre cb st in (Done ns, st1))"
| "call_body sc (Put key v) st = (let (ns, st1) = Put_body key v st in (Done ns, st1))"
| "call_body sc (TryLock r ttl) st = (let (ok, st1) = TryLock_body r ttl st in (Answer ok [], st1))"
| "call_body sc (Unlock r) st = (Done [], snd (Unlock_body r st))"
| "call_body sc (Campaign e c cb) st =
     (let (ns, st1) = Campaign_body e c cb st in (Done ns, st1))"
| "call_body sc Resign st = (Done [], st)"

definition GetState :: "string \<Rightarrow> etcd_state shared_states \<Rightarrow> nat \<times> etcd_state shared_states" where
  "GetState endpoints = shared_state_for etcd_empty endpoints"

definition read_object :: "nat \<Rightarrow> etcd_state shared_states \<Rightarrow> etcd_state" where
  "read_object a ss = (case objs ss a of Some (v, n) \<Rightarrow> v | None \<Rightarrow> etcd_empty)"

definition with_state ::
  "string \<Rightarrow> (etcd_state \<Rightarrow> 'r \<times> etcd_state) \<Rightarrow> etcd_state shared_states \<Rightarrow>
   'r \<times> etcd_state shared_states" where
  "with_state endpoints body ss =
     (let (a, ss1) = GetState endpoints ss;
          (r, st) = body (read_object a ss1)
      in (r, release a (write_object a st ss1)))"

definition etcd_call_on :: "scan_order \<Rightarrow> string \<Rightarrow> etcd_call \<Rightarrow> etcd_state shared_states \<Rightarrow>
    reply \<times> etcd_state shared_states" where
  "etcd_call_on sc endpoints c = with_state endpoints (call_body sc c)"

fun etcd_run :: "scan_order \<Rightarrow> (string \<times> etcd_call) list \<Rightarrow> etcd_state shared_states \<Rightarrow>
    reply list \<times> etcd_state shared_states" where
  "etcd_run sc [] ss = ([], ss)"
| "etcd_run sc ((endpoints, c) # cs) ss =
     (let (r, ss1) = etcd_call_on sc endpoints c ss; (rs, ss2) = etcd_run sc cs ss1
      in (r # rs, ss2))"

section \<open>Nothing outlives a call\<close>

definition quiet :: "'a shared_states \<Rightarrow> bool" where
  "quiet ss \<longleftrightarrow> (\<forall>a. objs ss a = None)"

lemma quiet_no_states [simp]: "quiet no_states"
  by (simp add: quiet_def no_states_def)

lemma with_state_quiet:
  assumes "quiet ss"
  shows "fst (with_state endpoints body ss) = fst (body etcd_empty)"
    and "quiet (snd (with_state endpoints body ss))"
proof -
  have "lock_weak endpoints ss = None"
    using assms by (simp add: lock_weak_def quiet_def split: option.split)
  then show "fst (with_state endpoints body ss) = fst (body etcd_empty)"
    and "quiet (snd (with_state endpoints body ss))"
    using assms
    by (simp_all add: with_state_def GetState_def shared_state_for_def Let_def read_object_def
        write_object_def release_def quiet_def split_beta)
qed

text \<open>
  C32: the etcd adapters have no memory between calls. Every adapter holds the endpoints only, so
  the shared state is destroyed when the call that created it returns: in any sequence of calls,
  to any endpoints, each call answers as if it were the first ever made.
\<close>

theorem etcd_forgets:
  assumes "quiet ss"
  shows "fst (etcd_run sc cs ss) = map (\<lambda>(_, c). fst (call_body sc c etcd_empty)) cs"
  using assms
proof (induction cs arbitrary: ss)
  case Nil
  then show ?case by simp
next
  case (Cons x cs)
  then show ?case
    by (cases x) (simp add: etcd_call_on_def split_beta with_state_quiet)
qed

definition sample_scan :: scan_order where
  "sample_scan = \<lparr>ord_kv = (\<lambda>xs. xs), ord_services = rev\<rparr>"

definition sample_instance :: service_instance where
  "sample_instance = \<lparr>service_name = ''game'', instance_id = ''game-1'', host = ''10.0.0.1'',
     port = 50053, protocol = ''grpc'', version_tag = ''v1'', zone_name = ''default''\<rparr>"

theorem etcd_forgets_witness:
  "fst (etcd_run sample_scan
     [(''e'', Register sample_instance 30), (''e'', Resolve ''game''),
      (''e'', TryLock ''r'' 5), (''e'', TryLock ''r'' 5),
      (''e'', Put ''k'' ''v''), (''e'', ConfigGet ''k''),
      (''e'', Campaign ''c'' ''a'' 1), (''e'', Campaign ''c'' ''b'' 2)] no_states) =
   [Answer True [], Instances [], Answer True [], Answer True [], Done [], Value [],
    Done [LeaderNotice 1 True], Done [LeaderNotice 2 True]]"
  by (subst etcd_forgets)
    (simp_all add: Register_body_def Resolve_body_def TryLock_body_def Put_body_def
      ConfigGet_body_def Campaign_body_def etcd_empty_def SnapshotInstances_def
      NotifyServiceWatchers_def NotifyConfigWatchers_def sample_scan_def um_put_def Let_def)

section \<open>On a state that is kept\<close>

text \<open>The calls as they would behave on one state that lives on: what the bodies promise.\<close>

fun body_run :: "scan_order \<Rightarrow> etcd_call list \<Rightarrow> etcd_state \<Rightarrow> reply list \<times> etcd_state" where
  "body_run sc [] st = ([], st)"
| "body_run sc (c # cs) st =
     (let (r, st1) = call_body sc c st; (rs, st2) = body_run sc cs st1 in (r # rs, st2))"

text \<open>
  If somebody keeps a pointer to the state of the endpoints, a call works on that state and leaves
  it alive: the refinement of the calls to their bodies.
\<close>

lemma with_state_held:
  assumes w: "weak ss endpoints = Some a" and a: "objs ss a = Some (v, n)" and n: "0 < n"
  shows "with_state endpoints body ss =
    (fst (body v), ss\<lparr>objs := (objs ss)(a \<mapsto> (snd (body v), n))\<rparr>)"
  using assms
  by (simp add: with_state_def GetState_def shared_state_for_def lock_weak_def retain_def
      read_object_def write_object_def release_def split_beta)

text \<open>
  With a state that is kept alive the calls do what their bodies say, one after the other: any
  sequence of calls to its endpoints returns the replies of the bodies run on the state, and leaves
  the state they leave.
\<close>

theorem etcd_held_refines:
  assumes "weak ss endpoints = Some a" and "objs ss a = Some (v, n)" and "0 < n"
  shows "let (rs, ss') = etcd_run sc (map (Pair endpoints) cs) ss; (rs', v') = body_run sc cs v
    in rs = rs' \<and> objs ss' a = Some (v', n)"
  using assms
proof (induction cs arbitrary: ss v)
  case Nil
  then show ?case by simp
next
  case (Cons c cs)
  let ?ss1 = "ss\<lparr>objs := (objs ss)(a \<mapsto> (snd (call_body sc c v), n))\<rparr>"
  have "weak ?ss1 endpoints = Some a" "objs ?ss1 a = Some (snd (call_body sc c v), n)"
    using Cons.prems by simp_all
  from Cons.IH [OF this Cons.prems(3)] show ?case
    by (simp add: etcd_call_on_def split_beta Let_def with_state_held [OF Cons.prems])
qed

theorem etcd_held_refines_witness:
  "fst (etcd_run sample_scan [(''e'', TryLock ''r'' 5), (''e'', TryLock ''r'' 5)]
     (snd (GetState ''e'' no_states))) = [Answer True [], Answer False []]"
  using etcd_held_refines [of "snd (GetState ''e'' no_states)" "''e''" 0 etcd_empty 1 sample_scan
      "[TryLock ''r'' 5, TryLock ''r'' 5]"]
  by (simp add: GetState_def shared_state_for_def lock_weak_def no_states_def split_beta Let_def
      TryLock_body_def) (simp add: etcd_empty_def)

subsection \<open>Locks\<close>

lemma call_keeps_lock:
  "locks st r = Some x \<Longrightarrow> c \<noteq> Unlock r \<Longrightarrow> locks (snd (call_body sc c st)) r = Some x"
  by (cases c)
    (auto simp: Register_body_def Deregister_body_def Resolve_body_def WatchService_body_def
      ConfigGet_body_def WatchConfig_body_def Put_body_def TryLock_body_def Unlock_body_def
      Campaign_body_def Let_def)

text \<open>
  On a kept state the lock is exclusive and does not expire: from the moment a resource is
  locked, as long as the calls that follow do not unlock it, every \<open>TryLock\<close> of it is refused,
  whatever the time to live it was taken with; and once unlocked it can be taken again.
\<close>

theorem lock_exclusive:
  assumes "fst (TryLock_body r ttl st)" and "\<forall>c \<in> set cs. c \<noteq> Unlock r"
  shows "(\<forall>i < length cs. \<forall>t. cs ! i = TryLock r t \<longrightarrow>
      fst (body_run sc cs (snd (TryLock_body r ttl st))) ! i = Answer False []) \<and>
    fst (TryLock_body r ttl (snd (Unlock_body r (snd (body_run sc cs (snd (TryLock_body r ttl st)))))))"
proof -
  have l: "locks (snd (TryLock_body r ttl st)) r = Some (to_string ttl)"
    using assms(1) by (simp add: TryLock_body_def split: if_splits)
  have "\<forall>i < length cs. \<forall>t. cs ! i = TryLock r t \<longrightarrow> fst (body_run sc cs s) ! i = Answer False []"
    if "locks s r = Some x" for s x
    using that assms(2)
  proof (induction cs arbitrary: s)
    case Nil
    then show ?case by simp
  next
    case (Cons c cs)
    have "locks (snd (call_body sc c s)) r = Some x"
      using Cons.prems by (intro call_keeps_lock) auto
    from Cons.IH [OF this] Cons.prems show ?case
      by (auto simp: split_beta nth_Cons TryLock_body_def split: nat.split)
  qed
  from this [OF l] show ?thesis
    by (simp add: TryLock_body_def Unlock_body_def)
qed

theorem lock_exclusive_witness:
  "fst (body_run sample_scan [Put ''k'' ''v'', TryLock ''r'' 1]
     (snd (TryLock_body ''r'' 9 etcd_empty))) ! 1 = Answer False []"
proof -
  have "fst (TryLock_body ''r'' 9 etcd_empty)" by (simp add: TryLock_body_def etcd_empty_def)
  moreover have "\<forall>c \<in> set [Put ''k'' ''v'', TryLock ''r'' 1]. c \<noteq> Unlock ''r''" by simp
  ultimately show ?thesis
    using lock_exclusive [of "''r''" 9 etcd_empty "[Put ''k'' ''v'', TryLock ''r'' 1]" sample_scan]
    by simp
qed

subsection \<open>Registry\<close>

definition services_ok :: "etcd_state \<Rightarrow> bool" where
  "services_ok st \<longleftrightarrow> um_ok (services st)"

lemma set_Snapshot:
  "scan_ok sc \<Longrightarrow>
   set (SnapshotInstances sc st name) = {i. service_name i = name \<and> i \<in> snd ` set (services st)}"
  by (auto simp: SnapshotInstances_def scan_ok_def traversal_set)

text \<open>
  On a kept state the registry resolves what is registered: after \<open>Register\<close> of an instance,
  the instances of its service are that instance and those of the others that were there under
  another key; after \<open>Deregister\<close>, those that were there under another key; and every watcher of the
  service is told exactly the new list.
\<close>

theorem registry_resolves:
  assumes "services_ok st" and "scan_ok sc"
  shows "(let ((ok, ns), st') = Register_body sc inst st; name = service_name inst in
      ok \<and> services_ok st' \<and>
      set (fst (Resolve_body sc name st')) = {inst} \<union>
        {i. \<exists>k. (k, i) \<in> set (services st) \<and> service_name i = name \<and>
          k \<noteq> instance_key name (instance_id inst)} \<and>
      (\<forall>cb. (name, cb) \<in> set (service_watchers st) \<longrightarrow>
        ServiceNotice cb (fst (Resolve_body sc name st')) \<in> set ns)) \<and>
    (let ((ok, ns), st') = Deregister_body sc name inst_id st in
      ok \<and> services_ok st' \<and>
      set (fst (Resolve_body sc name st')) =
        {i. \<exists>k. (k, i) \<in> set (services st) \<and> service_name i = name \<and>
          k \<noteq> instance_key name inst_id} \<and>
      (\<forall>cb. (name, cb) \<in> set (service_watchers st) \<longrightarrow>
        ServiceNotice cb (fst (Resolve_body sc name st')) \<in> set ns))"
  using assms
  by (auto simp: Register_body_def Deregister_body_def Resolve_body_def Let_def services_ok_def
      set_Snapshot set_um_put set_um_erase NotifyServiceWatchers_def image_iff)

theorem registry_resolves_witness:
  "set (fst (Resolve_body sample_scan ''game''
     (snd (Register_body sample_scan sample_instance etcd_empty)))) = {sample_instance}"
  using registry_resolves [of etcd_empty sample_scan sample_instance]
  by (simp add: services_ok_def etcd_empty_def scan_ok_def sample_scan_def Let_def split_beta
      sample_instance_def)

end
