(* ===== verification/External_Apis.thy ===== *)
theory External_Apis
  imports Std_Text "HOL-Library.Countable"
begin

text \<open>
  The two libraries the program talks to and whose code is not part of it. nlohmann::json is a
  record of the functions the program calls, an argument \<open>J\<close> of every definition that uses them;
  what is relied on is stated as the hypothesis \<open>json_laws J\<close>. Of gRPC, the status codes with
  their wire values, and a status as a code with a message.
\<close>

section \<open>nlohmann::json\<close>

text \<open>
  \<open>json_parse\<close> is \<open>parse(text, nullptr, false)\<close>, \<open>None\<close> for a discarded value. \<open>json_find\<close> is
  \<open>find\<close> and \<open>contains\<close> (\<open>None\<close> for \<open>end()\<close>, also on a value that is no object). The
  \<open>json_as\<close> readers are \<open>is_string()\<close> with \<open>get<std::string>()\<close>, and so on. The
  \<open>json_value\<close> readers are \<open>value(key, fallback)\<close>, which throws a type error on a value that is
  no object and on an entry of another type. \<open>json_dump\<close> is \<open>dump()\<close>, which throws on text that
  is not UTF-8 (\<open>json_utf8\<close>).
\<close>

record 'j json_api =
  json_parse :: "string \<Rightarrow> 'j option"
  json_dump :: "'j \<Rightarrow> exn + string"
  json_object :: "(string \<times> 'j) list \<Rightarrow> 'j"
  json_array :: "'j list \<Rightarrow> 'j"
  json_string :: "string \<Rightarrow> 'j"
  json_int :: "int \<Rightarrow> 'j"
  json_bool :: "bool \<Rightarrow> 'j"
  json_find :: "'j \<Rightarrow> string \<Rightarrow> 'j option"
  json_is_object :: "'j \<Rightarrow> bool"
  json_items :: "'j \<Rightarrow> (string \<times> 'j) list"
  json_as_string :: "'j \<Rightarrow> string option"
  json_as_integer :: "'j \<Rightarrow> int option"
  json_as_array :: "'j \<Rightarrow> 'j list option"
  json_value_string :: "'j \<Rightarrow> string \<Rightarrow> string \<Rightarrow> exn + string"
  json_value_int :: "'j \<Rightarrow> string \<Rightarrow> int \<Rightarrow> exn + int"
  json_value_int64 :: "'j \<Rightarrow> string \<Rightarrow> int \<Rightarrow> exn + int"
  json_get_int :: "'j \<Rightarrow> exn + int"
  json_utf8 :: "string \<Rightarrow> bool"

text \<open>A flat document: text and 64-bit numbers under distinct keys.\<close>

definition flat_document :: "'j json_api \<Rightarrow> (string \<times> 'j) list \<Rightarrow> bool" where
  "flat_document J kvs \<longleftrightarrow>
     distinct (map fst kvs) \<and>
     (\<forall>(k, v) \<in> set kvs. json_utf8 J k \<and>
        ((\<exists>t. v = json_string J t \<and> json_utf8 J t) \<or> (\<exists>n. v = json_int J n \<and> int64_range n)))"

text \<open>
  The documented behaviour that is relied on: a flat document can be dumped; its dump parses, and
  the parsed value reads back every entry of the document; and ASCII text is UTF-8.
\<close>

definition reads_back :: "'j json_api \<Rightarrow> (string \<times> 'j) list \<Rightarrow> 'j \<Rightarrow> bool" where
  "reads_back J kvs j \<longleftrightarrow>
     (\<forall>k t d. map_of kvs k = Some (json_string J t) \<longrightarrow> json_value_string J j k d = Inr t) \<and>
     (\<forall>k n d. map_of kvs k = Some (json_int J n) \<longrightarrow> int64_range n \<longrightarrow>
        json_value_int64 J j k d = Inr n \<and> (int32_range n \<longrightarrow> json_value_int J j k d = Inr n))"

definition json_laws :: "'j json_api \<Rightarrow> bool" where
  "json_laws J \<longleftrightarrow>
     (\<forall>kvs. flat_document J kvs \<longrightarrow>
        (\<exists>s. json_dump J (json_object J kvs) = Inr s \<and>
           (\<exists>j. json_parse J s = Some j \<and> reads_back J kvs j))) \<and>
     (\<forall>s. (\<forall>c \<in> set s. of_char c < (128 :: nat)) \<longrightarrow> json_utf8 J s)"

lemma json_laws_document:
  assumes "json_laws J" and "flat_document J kvs"
  obtains s j where "json_dump J (json_object J kvs) = Inr s" "json_parse J s = Some j"
    "reads_back J kvs j"
  using assms unfolding json_laws_def by blast

lemma json_laws_ascii: "json_laws J \<Longrightarrow> \<forall>c \<in> set s. of_char c < (128 :: nat) \<Longrightarrow> json_utf8 J s"
  by (simp add: json_laws_def)

lemma reads_back_string:
  "reads_back J kvs j \<Longrightarrow> map_of kvs k = Some (json_string J t) \<Longrightarrow> json_value_string J j k d = Inr t"
  by (simp add: reads_back_def)

lemma reads_back_int64:
  "reads_back J kvs j \<Longrightarrow> map_of kvs k = Some (json_int J n) \<Longrightarrow> int64_range n \<Longrightarrow>
   json_value_int64 J j k d = Inr n"
  by (simp add: reads_back_def)

lemma reads_back_int:
  "reads_back J kvs j \<Longrightarrow> map_of kvs k = Some (json_int J n) \<Longrightarrow> int32_range n \<Longrightarrow>
   json_value_int J j k d = Inr n"
  by (simp add: reads_back_def)

subsection \<open>An instance\<close>

text \<open>
  A concrete library that satisfies the laws, for the examples: documents are numbered, and a
  document's text is the successor of its number in unary.
\<close>

datatype document =
    DText string
  | DNum int
  | DBool bool
  | DList "document list"
  | DObject "(string \<times> document) list"

instance document :: countable
  by countable_datatype

fun doc_find :: "document \<Rightarrow> string \<Rightarrow> document option" where
  "doc_find (DObject kvs) k = map_of kvs k"
| "doc_find _ k = None"

fun doc_value_string :: "document \<Rightarrow> string \<Rightarrow> string \<Rightarrow> exn + string" where
  "doc_value_string (DObject kvs) k d =
     (case map_of kvs k of
        None \<Rightarrow> Inr d | Some (DText t) \<Rightarrow> Inr t | Some _ \<Rightarrow> Inl Json_type_error)"
| "doc_value_string _ k d = Inl Json_type_error"

fun doc_value_int :: "document \<Rightarrow> string \<Rightarrow> int \<Rightarrow> exn + int" where
  "doc_value_int (DObject kvs) k d =
     (case map_of kvs k of
        None \<Rightarrow> Inr d | Some (DNum n) \<Rightarrow> Inr n | Some _ \<Rightarrow> Inl Json_type_error)"
| "doc_value_int _ k d = Inl Json_type_error"

definition sample_json :: "document json_api" where
  "sample_json =
     \<lparr>json_parse = (\<lambda>s. Some (from_nat (length s - 1))),
      json_dump = (\<lambda>j. Inr (replicate (Suc (to_nat j)) (CHR ''1''))),
      json_object = DObject, json_array = DList, json_string = DText, json_int = DNum,
      json_bool = DBool, json_find = doc_find,
      json_is_object = (\<lambda>j. case j of DObject _ \<Rightarrow> True | _ \<Rightarrow> False),
      json_items = (\<lambda>j. case j of DObject kvs \<Rightarrow> kvs | _ \<Rightarrow> []),
      json_as_string = (\<lambda>j. case j of DText t \<Rightarrow> Some t | _ \<Rightarrow> None),
      json_as_integer = (\<lambda>j. case j of DNum n \<Rightarrow> Some n | _ \<Rightarrow> None),
      json_as_array = (\<lambda>j. case j of DList js \<Rightarrow> Some js | _ \<Rightarrow> None),
      json_value_string = doc_value_string, json_value_int = doc_value_int,
      json_value_int64 = doc_value_int,
      json_get_int = (\<lambda>j. case j of DNum n \<Rightarrow> Inr n | _ \<Rightarrow> Inl Json_type_error),
      json_utf8 = (\<lambda>s. True)\<rparr>"

lemma sample_json_laws: "json_laws sample_json"
  by (auto simp: json_laws_def sample_json_def reads_back_def)

lemma sample_json_utf8 [simp]: "json_utf8 sample_json s"
  by (simp add: sample_json_def)

section \<open>gRPC status\<close>

datatype grpc_code =
    OK | CANCELLED | UNKNOWN | INVALID_ARGUMENT | DEADLINE_EXCEEDED | NOT_FOUND | ALREADY_EXISTS
  | PERMISSION_DENIED | RESOURCE_EXHAUSTED | FAILED_PRECONDITION | ABORTED | OUT_OF_RANGE
  | UNIMPLEMENTED | INTERNAL | UNAVAILABLE | DATA_LOSS | UNAUTHENTICATED

fun grpc_code_value :: "grpc_code \<Rightarrow> int" where
  "grpc_code_value OK = 0"
| "grpc_code_value CANCELLED = 1"
| "grpc_code_value UNKNOWN = 2"
| "grpc_code_value INVALID_ARGUMENT = 3"
| "grpc_code_value DEADLINE_EXCEEDED = 4"
| "grpc_code_value NOT_FOUND = 5"
| "grpc_code_value ALREADY_EXISTS = 6"
| "grpc_code_value PERMISSION_DENIED = 7"
| "grpc_code_value RESOURCE_EXHAUSTED = 8"
| "grpc_code_value FAILED_PRECONDITION = 9"
| "grpc_code_value ABORTED = 10"
| "grpc_code_value OUT_OF_RANGE = 11"
| "grpc_code_value UNIMPLEMENTED = 12"
| "grpc_code_value INTERNAL = 13"
| "grpc_code_value UNAVAILABLE = 14"
| "grpc_code_value DATA_LOSS = 15"
| "grpc_code_value UNAUTHENTICATED = 16"

record grpc_status =
  error_code_of :: grpc_code
  error_message :: string

definition status_ok :: grpc_status where
  "status_ok = \<lparr>error_code_of = OK, error_message = []\<rparr>"

definition status_error :: "grpc_code \<Rightarrow> string \<Rightarrow> grpc_status" where
  "status_error c m = \<lparr>error_code_of = c, error_message = m\<rparr>"

definition is_ok :: "grpc_status \<Rightarrow> bool" where
  "is_ok st \<longleftrightarrow> error_code_of st = OK"

lemma is_ok_simps [simp]:
  "is_ok status_ok" "is_ok (status_error c m) \<longleftrightarrow> c = OK"
  "error_code_of (status_error c m) = c" "error_message (status_error c m) = m"
  "error_code_of status_ok = OK"
  by (simp_all add: is_ok_def status_ok_def status_error_def)

end
