(* ===== verification/User_Service.thy ===== *)
theory User_Service
  imports Redis_Client Mysql_Pool External_Apis
begin

text \<open>
  \<open>services/user_service\<close>: the profiles, their two stored forms (a cached document and a table
  row), the layered look-up and the two RPCs. The state is the service's own table and counter and
  the backends its two dependencies point to, \<open>None\<close> for a null pointer. An operation returns its
  result, or the exception it throws, and the state it leaves. Refinement: the service is a map
  from ids to profiles.
\<close>

record user_profile =
  up_user_id :: string
  nickname :: string
  avatar :: string
  level :: int
  created_at :: int

definition default_profile :: user_profile where
  "default_profile = \<lparr>up_user_id = [], nickname = [], avatar = [], level = 0, created_at = 0\<rparr>"

record user_service =
  us_mysql :: "mysql_backend option"
  us_redis :: "redis_backend option"
  users :: "string \<rightharpoonup> user_profile"
  next_user_id :: "64 word"

definition UserServiceImpl :: "mysql_backend option \<Rightarrow> redis_backend option \<Rightarrow> user_service" where
  "UserServiceImpl my re =
     \<lparr>us_mysql = my, us_redis = re, users = (\<lambda>_. None), next_user_id = 1\<rparr>"

section \<open>Stored forms\<close>

definition user_BuildCacheKey :: "string \<Rightarrow> string" where
  "user_BuildCacheKey uid = ''user:'' @ uid"

definition profile_document :: "'j json_api \<Rightarrow> user_profile \<Rightarrow> (string \<times> 'j) list" where
  "profile_document J p =
     [(''user_id'', json_string J (up_user_id p)),
      (''nickname'', json_string J (nickname p)),
      (''avatar'', json_string J (avatar p)),
      (''level'', json_int J (level p)),
      (''created_at'', json_int J (created_at p))]"

definition SerializeProfile :: "'j json_api \<Rightarrow> user_profile \<Rightarrow> exn + string" where
  "SerializeProfile J p = json_dump J (json_object J (profile_document J p))"

text \<open>\<open>Inr None\<close> is the \<open>false\<close> of the code; a reader of the wrong type throws.\<close>

definition DeserializeProfile :: "'j json_api \<Rightarrow> string \<Rightarrow> exn + user_profile option" where
  "DeserializeProfile J payload =
     (case json_parse J payload of
        None \<Rightarrow> Inr None
      | Some json \<Rightarrow>
          res_bind (json_value_string J json ''user_id'' []) (\<lambda>i.
          res_bind (json_value_string J json ''nickname'' []) (\<lambda>n.
          res_bind (json_value_string J json ''avatar'' []) (\<lambda>a.
          res_bind (json_value_int J json ''level'' 1) (\<lambda>l.
          res_bind (json_value_int64 J json ''created_at'' 0) (\<lambda>c.
          Inr (Some \<lparr>up_user_id = i, nickname = n, avatar = a, level = l, created_at = c\<rparr>)))))))"

definition user_ToMysqlRow :: "user_profile \<Rightarrow> query_row" where
  "user_ToMysqlRow p =
     [(''user_id'', up_user_id p), (''nickname'', nickname p), (''avatar'', avatar p),
      (''level'', to_string (level p)), (''created_at'', to_string (created_at p))]"

definition user_FromMysqlRow :: "query_row \<Rightarrow> exn + user_profile" where
  "user_FromMysqlRow row =
     (let p0 = default_profile;
          p1 = (case um_find row ''user_id'' of None \<Rightarrow> p0 | Some v \<Rightarrow> p0\<lparr>up_user_id := v\<rparr>);
          p2 = (case um_find row ''nickname'' of None \<Rightarrow> p1 | Some v \<Rightarrow> p1\<lparr>nickname := v\<rparr>);
          p3 = (case um_find row ''avatar'' of None \<Rightarrow> p2 | Some v \<Rightarrow> p2\<lparr>avatar := v\<rparr>)
      in res_bind (case um_find row ''level'' of
                     None \<Rightarrow> Inr p3
                   | Some v \<Rightarrow> res_bind (stoi v) (\<lambda>l. Inr (p3\<lparr>level := l\<rparr>))) (\<lambda>p4.
         (case um_find row ''created_at'' of
            None \<Rightarrow> Inr p4
          | Some v \<Rightarrow> res_bind (stoll v) (\<lambda>c. Inr (p4\<lparr>created_at := c\<rparr>)))))"

section \<open>Operations\<close>

definition cached_user ::
  "'j json_api \<Rightarrow> time_ns \<Rightarrow> string \<Rightarrow> user_service \<Rightarrow> (exn + user_profile option) \<times> user_service" where
  "cached_user J now uid s =
     (case us_redis s of
        None \<Rightarrow> (Inr None, s)
      | Some r \<Rightarrow>
          (let (cached, r') = Get now (user_BuildCacheKey uid) r;
               s' = s\<lparr>us_redis := Some r'\<rparr>
           in case cached of
                None \<Rightarrow> (Inr None, s')
              | Some payload \<Rightarrow> (DeserializeProfile J payload, s')))"

definition stored_user ::
  "'j json_api \<Rightarrow> ((string \<times> query_row) list \<Rightarrow> (string \<times> query_row) list) \<Rightarrow> string \<Rightarrow>
   user_service \<Rightarrow> (exn + user_profile option) \<times> user_service" where
  "stored_user J ord uid s =
     (case us_mysql s of
        None \<Rightarrow> (Inr None, s)
      | Some my \<Rightarrow>
          (case GetRow ord ''users'' ''user_id'' uid my of
             None \<Rightarrow> (Inr None, s)
           | Some row \<Rightarrow>
               (case user_FromMysqlRow row of
                  Inl e \<Rightarrow> (Inl e, s)
                | Inr p \<Rightarrow>
                    (case us_redis s of
                       None \<Rightarrow> (Inr (Some p), s\<lparr>users := (users s)(uid \<mapsto> p)\<rparr>)
                     | Some r \<Rightarrow>
                         (case SerializeProfile J p of
                            Inl e \<Rightarrow> (Inl e, s)
                          | Inr t \<Rightarrow>
                              (Inr (Some p),
                               s\<lparr>us_redis := Some (snd (Set (user_BuildCacheKey uid) t r)),
                                 users := (users s)(uid \<mapsto> p)\<rparr>))))))"

definition FindUser ::
  "'j json_api \<Rightarrow> ((string \<times> query_row) list \<Rightarrow> (string \<times> query_row) list) \<Rightarrow> time_ns \<Rightarrow> string \<Rightarrow>
   user_service \<Rightarrow> (exn + user_profile option) \<times> user_service" where
  "FindUser J ord now = layered_find (cached_user J now) (stored_user J ord) users"

definition GetUser ::
  "'j json_api \<Rightarrow> ((string \<times> query_row) list \<Rightarrow> (string \<times> query_row) list) \<Rightarrow> time_ns \<Rightarrow> string \<Rightarrow>
   user_service \<Rightarrow> (exn + grpc_status \<times> user_profile option) \<times> user_service" where
  "GetUser J ord now uid s =
     (let (r, s') = FindUser J ord now uid s
      in case r of
           Inl e \<Rightarrow> (Inl e, s')
         | Inr None \<Rightarrow> (Inr (status_error NOT_FOUND ''user not found'', None), s')
         | Inr (Some p) \<Rightarrow> (Inr (status_ok, Some p), s'))"

definition user_id_of :: "64 word \<Rightarrow> string" where
  "user_id_of n = ''user_'' @ to_string (sint n)"

definition CreateUser ::
  "'j json_api \<Rightarrow> int \<Rightarrow> string \<Rightarrow> user_service \<Rightarrow>
   (exn + grpc_status \<times> user_profile) \<times> user_service" where
  "CreateUser J wall_clock name s =
     (let p = \<lparr>up_user_id = user_id_of (next_user_id s),
               nickname = (if name = [] then ''anonymous'' else name),
               avatar = [], level = 1, created_at = wall_clock\<rparr>;
          s1 = s\<lparr>next_user_id := next_user_id s + 1\<rparr>;
          s2 = s1\<lparr>users := (users s1)(up_user_id p \<mapsto> p)\<rparr>;
          s3 = (case us_mysql s2 of
                  None \<Rightarrow> s2
                | Some my \<Rightarrow>
                    s2\<lparr>us_mysql := Some (snd (UpsertRow ''users'' (user_ToMysqlRow p) [''user_id''] my))\<rparr>)
      in case us_redis s3 of
           None \<Rightarrow> (Inr (status_ok, p), s3)
         | Some r \<Rightarrow>
             (case SerializeProfile J p of
                Inl e \<Rightarrow> (Inl e, s3)
              | Inr t \<Rightarrow>
                  (Inr (status_ok, p),
                   s3\<lparr>us_redis := Some (snd (Set (user_BuildCacheKey (up_user_id p)) t r))\<rparr>)))"

section \<open>The stored forms are codecs\<close>

definition profile_ok :: "user_profile \<Rightarrow> bool" where
  "profile_ok p \<longleftrightarrow> int32_range (level p) \<and> int64_range (created_at p)"

lemma user_row_roundtrip: "profile_ok p \<Longrightarrow> user_FromMysqlRow (user_ToMysqlRow p) = Inr p"
  by (cases p) (simp add: user_FromMysqlRow_def user_ToMysqlRow_def profile_ok_def um_find_def Let_def)

interpretation user_row: codec profile_ok user_ToMysqlRow
  "\<lambda>row. case user_FromMysqlRow row of Inl e \<Rightarrow> None | Inr p \<Rightarrow> Some p"
  by unfold_locales (simp add: user_row_roundtrip)

definition profile_text :: "'j json_api \<Rightarrow> user_profile \<Rightarrow> bool" where
  "profile_text J p \<longleftrightarrow> json_utf8 J (up_user_id p) \<and> json_utf8 J (nickname p) \<and> json_utf8 J (avatar p)"

lemma profile_flat:
  assumes "json_laws J" and "profile_ok p" and "profile_text J p"
  shows "flat_document J (profile_document J p)"
proof -
  have "json_utf8 J ''user_id''" "json_utf8 J ''nickname''" "json_utf8 J ''avatar''"
    "json_utf8 J ''level''" "json_utf8 J ''created_at''"
    using assms(1) by (simp_all add: json_laws_ascii)
  moreover have "int64_range (level p)" using assms(2) by (auto simp: profile_ok_def)
  ultimately show ?thesis
    using assms(2,3) by (auto simp: flat_document_def profile_document_def profile_ok_def profile_text_def)
qed

lemma profile_document_roundtrip:
  assumes "json_laws J" and "profile_ok p" and "profile_text J p"
  obtains t where "SerializeProfile J p = Inr t" "DeserializeProfile J t = Inr (Some p)"
proof -
  obtain t j where t: "json_dump J (json_object J (profile_document J p)) = Inr t"
    and j: "json_parse J t = Some j" and rb: "reads_back J (profile_document J p) j"
    using json_laws_document [OF assms(1) profile_flat [OF assms]] by blast
  have "json_value_string J j ''user_id'' [] = Inr (up_user_id p)"
    "json_value_string J j ''nickname'' [] = Inr (nickname p)"
    "json_value_string J j ''avatar'' [] = Inr (avatar p)"
    by (rule reads_back_string [OF rb], simp add: profile_document_def)+
  moreover have "json_value_int J j ''level'' 1 = Inr (level p)"
    by (rule reads_back_int [OF rb]) (use assms(2) in \<open>simp_all add: profile_document_def profile_ok_def\<close>)
  moreover have "json_value_int64 J j ''created_at'' 0 = Inr (created_at p)"
    by (rule reads_back_int64 [OF rb]) (use assms(2) in \<open>simp_all add: profile_document_def profile_ok_def\<close>)
  ultimately have "DeserializeProfile J t = Inr (Some p)"
    using j by (simp add: DeserializeProfile_def)
  then show thesis using that t by (simp add: SerializeProfile_def)
qed

section \<open>The layers agree\<close>

text \<open>
  What the service keeps true of its own table and the two backends: the table is the truth, every
  cached document under one of its keys and every row of the \<open>users\<close> table reads back as the
  profile the table holds.
\<close>

definition cache_agrees :: "'j json_api \<Rightarrow> (string \<rightharpoonup> user_profile) \<Rightarrow> redis_backend \<Rightarrow> bool" where
  "cache_agrees J U r \<longleftrightarrow>
     (\<forall>uid e. kv r (user_BuildCacheKey uid) = Some e \<longrightarrow>
        (\<exists>p. U uid = Some p \<and> DeserializeProfile J (entry_value e) = Inr (Some p)))"

definition rows_agree :: "(string \<rightharpoonup> user_profile) \<Rightarrow> mysql_backend \<Rightarrow> bool" where
  "rows_agree U my \<longleftrightarrow>
     table_ok [''user_id''] (table_of my ''users'') \<and>
     (\<forall>uid row. um_find (table_of my ''users'') uid = Some row \<longrightarrow>
        (\<exists>p. U uid = Some p \<and> user_FromMysqlRow row = Inr p))"

definition profiles_ok :: "'j json_api \<Rightarrow> (string \<rightharpoonup> user_profile) \<Rightarrow> bool" where
  "profiles_ok J U \<longleftrightarrow>
     (\<forall>uid p. U uid = Some p \<longrightarrow> up_user_id p = uid \<and> profile_ok p \<and> profile_text J p)"

definition user_inv :: "'j json_api \<Rightarrow> user_service \<Rightarrow> bool" where
  "user_inv J s \<longleftrightarrow>
     profiles_ok J (users s) \<and>
     (\<forall>r. us_redis s = Some r \<longrightarrow> cache_agrees J (users s) r) \<and>
     (\<forall>my. us_mysql s = Some my \<longrightarrow> rows_agree (users s) my)"

lemma cache_agrees_Get: "cache_agrees J U r \<Longrightarrow> cache_agrees J U (snd (Get now k r))"
  unfolding cache_agrees_def kv_Get kv_PurgeExpired by (auto split: option.splits)

lemma cache_agrees_Set:
  assumes "cache_agrees J U r" and "DeserializeProfile J t = Inr (Some p)"
  shows "cache_agrees J (U(uid \<mapsto> p)) (snd (Set (user_BuildCacheKey uid) t r))"
  using assms by (auto simp: cache_agrees_def Set_def user_BuildCacheKey_def)

lemma cached_user_sound:
  assumes "user_inv J s"
  shows "(fst (cached_user J now uid s) = Inr None \<or> fst (cached_user J now uid s) = Inr (users s uid)) \<and>
    user_inv J (snd (cached_user J now uid s)) \<and> users (snd (cached_user J now uid s)) = users s"
proof (cases "us_redis s")
  case None
  then show ?thesis using assms by (simp add: cached_user_def)
next
  case (Some r)
  let ?k = "user_BuildCacheKey uid"
  have c: "cache_agrees J (users s) r" using assms Some by (simp add: user_inv_def)
  have st: "snd (cached_user J now uid s) = s\<lparr>us_redis := Some (snd (Get now ?k r))\<rparr>"
    using Some by (simp add: cached_user_def split_beta Let_def split: option.split)
  have "DeserializeProfile J t = Inr (users s uid)" if "fst (Get now ?k r) = Some t" for t
    using that c
    by (fastforce simp: redis_cache.get_view live_def cache_agrees_def split: option.splits if_splits)
  then have "fst (cached_user J now uid s) = Inr None \<or> fst (cached_user J now uid s) = Inr (users s uid)"
    using Some by (auto simp: cached_user_def split_beta Let_def split: option.split)
  then show ?thesis
    using assms c st cache_agrees_Get [OF c] by (simp add: user_inv_def)
qed

lemma stored_user_sound:
  assumes J: "json_laws J" and ord: "traversal ord" and inv: "user_inv J s"
  shows "(fst (stored_user J ord uid s) = Inr None \<or> fst (stored_user J ord uid s) = Inr (users s uid)) \<and>
    user_inv J (snd (stored_user J ord uid s)) \<and> users (snd (stored_user J ord uid s)) = users s"
proof (cases "us_mysql s")
  case None
  then show ?thesis using inv by (simp add: stored_user_def)
next
  case (Some my)
  have rows: "rows_agree (users s) my" using inv Some by (simp add: user_inv_def)
  then have g: "GetRow ord ''users'' ''user_id'' uid my = um_find (table_of my ''users'') uid"
    by (simp add: rows_agree_def GetRow_primary ord)
  show ?thesis
  proof (cases "um_find (table_of my ''users'') uid")
    case None
    then show ?thesis using inv Some g by (simp add: stored_user_def)
  next
    case (Some row)
    then obtain p where p: "users s uid = Some p" "user_FromMysqlRow row = Inr p"
      using rows by (auto simp: rows_agree_def)
    then have same: "(users s)(uid \<mapsto> p) = users s" by auto
    obtain t where t: "SerializeProfile J p = Inr t" "DeserializeProfile J t = Inr (Some p)"
      using profile_document_roundtrip [OF J] inv p(1) by (metis user_inv_def profiles_ok_def)
    have "cache_agrees J (users s) (snd (Set (user_BuildCacheKey uid) t r))" if "us_redis s = Some r" for r
      using cache_agrees_Set [of J "users s" r t p uid] that inv t(2) same by (simp add: user_inv_def)
    then show ?thesis
      using inv \<open>us_mysql s = Some my\<close> Some g p t(1) same
      by (auto simp: stored_user_def user_inv_def split: option.splits)
  qed
qed

interpretation user_layers: layered_store "cached_user J now" "stored_user J ord" users
  "\<lambda>s. json_laws J \<and> traversal ord \<and> user_inv J s" users "\<lambda>uid. True"
  for J now ord
  by unfold_locales (simp_all add: cached_user_sound stored_user_sound)

lemma GetUser_reads_table:
  assumes "json_laws J" and "traversal ord" and "user_inv J s"
  shows "fst (GetUser J ord now uid s) =
      Inr (case users s uid of
             None \<Rightarrow> (status_error NOT_FOUND ''user not found'', None) | Some p \<Rightarrow> (status_ok, Some p))"
    and "user_inv J (snd (GetUser J ord now uid s))"
    and "users (snd (GetUser J ord now uid s)) = users s"
  using user_layers.layered_find_abs [of J ord s now uid] assms
  by (auto simp: GetUser_def FindUser_def split_beta Let_def split: option.splits)

section \<open>The service is a map\<close>

lemma to_string_ascii: "c \<in> set (to_string n) \<Longrightarrow> of_char c < (128 :: nat)"
  using to_string_chars [of c n] by (auto simp: is_digit_def)

definition new_profile :: "string \<Rightarrow> int \<Rightarrow> string \<Rightarrow> user_profile" where
  "new_profile uid wall_clock name =
     \<lparr>up_user_id = uid, nickname = (if name = [] then ''anonymous'' else name), avatar = [],
      level = 1, created_at = wall_clock\<rparr>"

lemma new_profile_simps [simp]:
  "up_user_id (new_profile uid wall_clock name) = uid"
  "nickname (new_profile uid wall_clock name) = (if name = [] then ''anonymous'' else name)"
  by (simp_all add: new_profile_def)

lemma new_profile_ok:
  assumes "json_laws J" and "int64_range wall_clock" and "json_utf8 J name"
  shows "profile_ok (new_profile (user_id_of n) wall_clock name)"
    and "profile_text J (new_profile (user_id_of n) wall_clock name)"
proof -
  show "profile_ok (new_profile (user_id_of n) wall_clock name)"
    using assms(2) by (simp add: profile_ok_def new_profile_def)
  have "json_utf8 J (user_id_of n)"
    by (rule json_laws_ascii [OF assms(1)]) (auto simp: user_id_of_def dest: to_string_ascii)
  moreover have "json_utf8 J ''anonymous''" and "json_utf8 J []"
    by (rule json_laws_ascii [OF assms(1)], simp)+
  ultimately show "profile_text J (new_profile (user_id_of n) wall_clock name)"
    using assms(3) by (simp add: profile_text_def new_profile_def)
qed

lemma clean_user_row:
  "clean_row [''user_id''] (user_ToMysqlRow (new_profile (user_id_of n) wall_clock name))"
proof -
  have "CHR ''|'' \<notin> set (to_string (sint n))"
    using to_string_chars [of "CHR ''|''" "sint n"] by (auto simp: is_digit_def)
  then show ?thesis
    by (simp add: clean_row_def user_ToMysqlRow_def um_find_def new_profile_def user_id_of_def)
qed

lemma rows_agree_Upsert:
  assumes rows: "rows_agree U my" and "profile_ok (new_profile (user_id_of n) wall_clock name)"
  shows "rows_agree (U(user_id_of n \<mapsto> new_profile (user_id_of n) wall_clock name))
    (snd (UpsertRow ''users'' (user_ToMysqlRow (new_profile (user_id_of n) wall_clock name))
       [''user_id''] my))"
proof -
  let ?p = "new_profile (user_id_of n) wall_clock name"
  let ?row = "user_ToMysqlRow ?p"
  have clean: "clean_row [''user_id''] ?row" by (rule clean_user_row)
  have "um_find ?row ''user_id'' = Some (user_id_of n)"
    by (simp add: user_ToMysqlRow_def um_find_def new_profile_def)
  then have k: "BuildCompositeKey ?row [''user_id''] = user_id_of n"
    using single_key [OF clean] by simp
  have "table_ok [''user_id''] (um_put (user_id_of n) ?row (table_of my ''users''))"
    using table_ok_put [OF _ clean] rows k by (metis rows_agree_def)
  then show ?thesis
    using rows k user_row_roundtrip [OF assms(2)] by (simp add: rows_agree_def)
qed

lemma CreateUser_writes_table:
  assumes J: "json_laws J" and inv: "user_inv J s" and now: "int64_range wall_clock"
    and name: "json_utf8 J name"
  defines "p \<equiv> new_profile (user_id_of (next_user_id s)) wall_clock name"
  shows "fst (CreateUser J wall_clock name s) = Inr (status_ok, p)"
    and "user_inv J (snd (CreateUser J wall_clock name s))"
    and "users (snd (CreateUser J wall_clock name s)) = (users s)(up_user_id p \<mapsto> p)"
    and "next_user_id (snd (CreateUser J wall_clock name s)) = next_user_id s + 1"
proof -
  note ok = new_profile_ok [OF J now name, of "next_user_id s"]
  obtain t where t: "SerializeProfile J p = Inr t" "DeserializeProfile J t = Inr (Some p)"
    using profile_document_roundtrip [OF J ok] unfolding p_def by blast
  have uid: "up_user_id p = user_id_of (next_user_id s)" by (simp add: p_def new_profile_def)
  let ?my = "\<lambda>my. snd (UpsertRow ''users'' (user_ToMysqlRow p) [''user_id''] my)"
  let ?re = "\<lambda>r. snd (Set (user_BuildCacheKey (up_user_id p)) t r)"
  have c: "CreateUser J wall_clock name s = (Inr (status_ok, p),
      s\<lparr>next_user_id := next_user_id s + 1, users := (users s)(up_user_id p \<mapsto> p),
        us_mysql := map_option ?my (us_mysql s), us_redis := map_option ?re (us_redis s)\<rparr>)"
    using t(1) unfolding CreateUser_def new_profile_def [symmetric] p_def [symmetric] Let_def
    by (cases "us_mysql s"; cases "us_redis s") simp_all
  show "fst (CreateUser J wall_clock name s) = Inr (status_ok, p)"
    and "users (snd (CreateUser J wall_clock name s)) = (users s)(up_user_id p \<mapsto> p)"
    and "next_user_id (snd (CreateUser J wall_clock name s)) = next_user_id s + 1"
    by (simp_all add: c)
  have "profiles_ok J ((users s)(up_user_id p \<mapsto> p))"
    using inv ok by (auto simp: user_inv_def profiles_ok_def p_def)
  moreover have "cache_agrees J ((users s)(up_user_id p \<mapsto> p)) (?re r)" if "us_redis s = Some r" for r
    by (rule cache_agrees_Set [OF _ t(2)]) (use that inv in \<open>simp add: user_inv_def\<close>)
  moreover have "rows_agree ((users s)(up_user_id p \<mapsto> p)) (?my my)" if "us_mysql s = Some my" for my
    unfolding uid unfolding p_def
    by (rule rows_agree_Upsert [OF _ ok(1)]) (use that inv in \<open>simp add: user_inv_def\<close>)
  ultimately show "user_inv J (snd (CreateUser J wall_clock name s))"
    by (auto simp: c user_inv_def)
qed

section \<open>Runs of requests\<close>

datatype user_request =
    URCreate int string
  | URGet time_ns "(string \<times> query_row) list \<Rightarrow> (string \<times> query_row) list" string

datatype user_reply =
    UCreated grpc_status user_profile
  | UGot grpc_status "user_profile option"
  | UThrew exn

definition user_step :: "'j json_api \<Rightarrow> user_request \<Rightarrow> user_service \<Rightarrow> user_reply \<times> user_service" where
  "user_step J req s =
     (case req of
        URCreate wall_clock name \<Rightarrow>
          (let (r, s') = CreateUser J wall_clock name s
           in (case r of Inl e \<Rightarrow> UThrew e | Inr (st, p) \<Rightarrow> UCreated st p, s'))
      | URGet now ord uid \<Rightarrow>
          (let (r, s') = GetUser J ord now uid s
           in (case r of Inl e \<Rightarrow> UThrew e | Inr (st, p) \<Rightarrow> UGot st p, s')))"

fun user_run :: "'j json_api \<Rightarrow> user_request list \<Rightarrow> user_service \<Rightarrow> user_reply list \<times> user_service" where
  "user_run J [] s = ([], s)"
| "user_run J (req # reqs) s =
     (let (rep, s1) = user_step J req s; (reps, s2) = user_run J reqs s1 in (rep # reps, s2))"

text \<open>The specification: a map and a counter, no cache, no database, no clock.\<close>

fun map_run :: "user_request list \<Rightarrow> (string \<rightharpoonup> user_profile) \<Rightarrow> 64 word \<Rightarrow>
    user_reply list \<times> (string \<rightharpoonup> user_profile)" where
  "map_run [] U n = ([], U)"
| "map_run (URCreate wall_clock name # reqs) U n =
     (let p = new_profile (user_id_of n) wall_clock name;
          (reps, U') = map_run reqs (U(user_id_of n \<mapsto> p)) (n + 1)
      in (UCreated status_ok p # reps, U'))"
| "map_run (URGet now ord uid # reqs) U n =
     (let (reps, U') = map_run reqs U n
      in ((case U uid of
             None \<Rightarrow> UGot (status_error NOT_FOUND ''user not found'') None
           | Some p \<Rightarrow> UGot status_ok (Some p)) # reps, U'))"

fun user_request_ok :: "'j json_api \<Rightarrow> user_request \<Rightarrow> bool" where
  "user_request_ok J (URCreate wall_clock name) = (int64_range wall_clock \<and> json_utf8 J name)"
| "user_request_ok J (URGet now ord uid) = traversal ord"

lemma GetUser_counter: "next_user_id (snd (GetUser J ord now uid s)) = next_user_id s"
  by (simp add: GetUser_def FindUser_def layered_find_def cached_user_def stored_user_def split_beta
      Let_def split: option.split sum.split)

lemma user_run_map_run:
  assumes "json_laws J" and "\<forall>req \<in> set reqs. user_request_ok J req" and "user_inv J s"
  shows "fst (user_run J reqs s) = fst (map_run reqs (users s) (next_user_id s)) \<and>
    users (snd (user_run J reqs s)) = snd (map_run reqs (users s) (next_user_id s)) \<and>
    user_inv J (snd (user_run J reqs s))"
  using assms(2,3)
proof (induction reqs arbitrary: s)
  case Nil
  then show ?case by simp
next
  case (Cons req reqs)
  show ?case
  proof (cases req)
    case (URCreate wall_clock name)
    then have r: "int64_range wall_clock" "json_utf8 J name" using Cons.prems(1) by simp_all
    note c = CreateUser_writes_table [OF assms(1) Cons.prems(2) r]
    show ?thesis
      using Cons.IH [of "snd (CreateUser J wall_clock name s)", OF _ c(2), unfolded c(3,4)]
        Cons.prems(1) c(1)
      by (simp add: URCreate user_step_def split_beta Let_def fun_upd_def)
  next
    case (URGet now ord uid)
    then have ord: "traversal ord" using Cons.prems(1) by simp
    note g = GetUser_reads_table [OF assms(1) ord Cons.prems(2)]
    show ?thesis
      using Cons.IH [of "snd (GetUser J ord now uid s)"] Cons.prems(1) g
      by (simp add: URGet user_step_def split_beta Let_def GetUser_counter split: option.split)
  qed
qed

lemma fresh_user_inv:
  assumes "my = None \<or> my = Some mysql_empty" and "re = None \<or> re = Some redis_empty"
  shows "user_inv J (UserServiceImpl my re)"
  using assms
  by (auto simp: user_inv_def UserServiceImpl_def profiles_ok_def cache_agrees_def rows_agree_def
      mysql_empty_def redis_empty_def table_of_def table_ok_def)

lemma user_id_of_inj: "user_id_of m = user_id_of n \<longleftrightarrow> m = n"
  by (simp add: user_id_of_def signed_word_eqI) (metis signed_word_eqI)

fun creates :: "user_request list \<Rightarrow> nat" where
  "creates [] = 0"
| "creates (URCreate w name # reqs) = Suc (creates reqs)"
| "creates (URGet now ord uid # reqs) = creates reqs"

lemma word_ahead:
  fixes n :: "64 word"
  assumes "0 < i" and "i < 2 ^ 64"
  shows "n + of_nat i \<noteq> n"
  using assms by (simp add: word_of_nat_eq_0_iff nat_dvd_not_less)

lemma map_run_keeps:
  "\<forall>i < creates reqs. m \<noteq> n + of_nat i \<Longrightarrow>
   snd (map_run reqs U n) (user_id_of m) = U (user_id_of m)"
proof (induction reqs U n rule: map_run.induct)
  case (2 w name reqs U n)
  have "m \<noteq> n" using 2(2) by (auto dest: spec [of _ 0])
  moreover have "\<forall>i < creates reqs. m \<noteq> n + 1 + of_nat i"
    using 2(2) by (auto simp: add.assoc simp flip: of_nat_Suc)
  ultimately show ?case using 2(1) by (simp add: split_beta Let_def user_id_of_inj fun_upd_def)
qed (simp_all add: split_beta Let_def)

text \<open>
  C6: the user service is a map. Whatever mix of \<open>CreateUser\<close> and \<open>GetUser\<close> calls a fresh service
  receives, with or without a database and a cache behind it, at whatever times and whatever the
  order its table is scanned in, every reply is the reply of a plain map from ids to profiles:
  the cached documents, the rows and the table in memory never disagree, and no call throws.
\<close>

theorem user_service_refines_map:
  assumes "json_laws J" and "\<forall>req \<in> set reqs. user_request_ok J req"
    and "my = None \<or> my = Some mysql_empty" and "re = None \<or> re = Some redis_empty"
  shows "fst (user_run J reqs (UserServiceImpl my re)) = fst (map_run reqs (\<lambda>_. None) 1)"
  using user_run_map_run [OF assms(1,2) fresh_user_inv [OF assms(3,4)]]
  by (simp add: UserServiceImpl_def)

definition sample_user_requests :: "user_request list" where
  "sample_user_requests =
     [URCreate 1700 ''ann'', URGet 5 rev ''user_1'', URGet 6 (\<lambda>xs. xs) ''user_2'']"

lemma user_id_one: "user_id_of 1 = ''user_1''"
  by code_simp

theorem user_service_refines_map_witness:
  "fst (user_run sample_json sample_user_requests
      (UserServiceImpl (Some mysql_empty) (Some redis_empty))) =
    (let p = \<lparr>up_user_id = ''user_1'', nickname = ''ann'', avatar = [], level = 1, created_at = 1700\<rparr>
     in [UCreated status_ok p, UGot status_ok (Some p),
         UGot (status_error NOT_FOUND ''user not found'') None])"
  using user_service_refines_map [OF sample_json_laws,
      of sample_user_requests "Some mysql_empty" "Some redis_empty"]
  by (simp add: sample_user_requests_def new_profile_def user_id_one Let_def)

text \<open>
  A created user is found. The profile \<open>CreateUser\<close> returns is what every later \<open>GetUser\<close> of
  its id returns, after any further calls, until \<open>2^64\<close> users have been created and the counter
  comes round to the same id again.
\<close>

theorem created_user_is_found:
  assumes "json_laws J" and "\<forall>req \<in> set (earlier @ later). user_request_ok J req"
    and "int64_range wall_clock" and "json_utf8 J name" and "traversal ord"
    and "my = None \<or> my = Some mysql_empty" and "re = None \<or> re = Some redis_empty"
    and "creates later < 2 ^ 64 - 1"
  shows "let s1 = snd (user_run J earlier (UserServiceImpl my re));
             (rep, s2) = user_step J (URCreate wall_clock name) s1;
             s3 = snd (user_run J later s2)
         in \<exists>p. rep = UCreated status_ok p \<and> (name \<noteq> [] \<longrightarrow> nickname p = name) \<and>
              fst (user_step J (URGet now ord (up_user_id p)) s3) = UGot status_ok (Some p)"
proof -
  define s1 where "s1 = snd (user_run J earlier (UserServiceImpl my re))"
  have e: "\<forall>req \<in> set earlier. user_request_ok J req" and l: "\<forall>req \<in> set later. user_request_ok J req"
    using assms(2) by auto
  have i1: "user_inv J s1"
    using user_run_map_run [OF assms(1) e fresh_user_inv [OF assms(6,7)]] by (simp add: s1_def)
  define n where "n = next_user_id s1"
  define s2 where "s2 = snd (CreateUser J wall_clock name s1)"
  note c = CreateUser_writes_table [OF assms(1) i1 assms(3,4), folded n_def s2_def]
  define s3 where "s3 = snd (user_run J later s2)"
  have i3: "user_inv J s3" and u3: "users s3 = snd (map_run later (users s2) (n + 1))"
    using user_run_map_run [OF assms(1) l c(2)] c(4) by (simp_all add: s3_def)
  have "n \<noteq> n + 1 + of_nat i" if "i < creates later" for i
    using word_ahead [of "Suc i" n] that assms(8) by (simp add: add.assoc)
  then have "users s3 (user_id_of n) = Some (new_profile (user_id_of n) wall_clock name)"
    using map_run_keeps [of later n "n + 1" "users s2"] c(3) by (simp add: u3)
  then show ?thesis
    using c(1) GetUser_reads_table(1) [OF assms(1,5) i3, of now "user_id_of n"]
    by (simp add: user_step_def split_beta Let_def flip: s1_def s2_def s3_def)
qed

theorem created_user_is_found_witness:
  "let (rep, s2) = user_step sample_json (URCreate 1700 ''ann'')
         (UserServiceImpl (Some mysql_empty) (Some redis_empty));
       s3 = snd (user_run sample_json [URCreate 1800 ''bob'', URGet 5 rev ''user_1''] s2)
   in \<exists>p. rep = UCreated status_ok p \<and> nickname p = ''ann'' \<and>
        fst (user_step sample_json (URGet 9 rev (up_user_id p)) s3) = UGot status_ok (Some p)"
  using created_user_is_found [OF sample_json_laws, of "[]"
      "[URCreate 1800 ''bob'', URGet 5 rev ''user_1'']" 1700 "''ann''" rev
      "Some mysql_empty" "Some redis_empty" 9]
  by (simp add: split_beta Let_def)

end
