(* ===== verification/Config_Service.thy ===== *)
theory Config_Service
  imports Redis_Client Mysql_Pool Etcd_Coordination Message_Queue External_Apis
begin

text \<open>
  \<open>services/config_service\<close>: configuration entries by environment, namespace and key, their stored
  forms, the layered look-up and the four RPCs. The state is the service's table and version
  counter and the backends its dependencies point to, \<open>None\<close> for a null pointer; the config
  provider is its endpoints with the process-wide etcd states. The table is iterated, so it is an
  association list, and the iterating operations take the order as an argument.
\<close>

record config_entry =
  namespace_name :: string
  ckey :: string
  cvalue :: string
  cversion :: int
  environment :: string

definition default_entry :: config_entry where
  "default_entry = \<lparr>namespace_name = [], ckey = [], cvalue = [], cversion = 0, environment = []\<rparr>"

record config_service =
  cs_mysql :: "mysql_backend option"
  cs_redis :: "redis_backend option"
  cs_provider :: "(string \<times> etcd_state shared_states) option"
  cs_producer :: "local_bus option"
  entries :: "config_entry umap"
  next_version :: "64 word"

definition ConfigServiceImpl :: "mysql_backend option \<Rightarrow> redis_backend option \<Rightarrow>
    (string \<times> etcd_state shared_states) option \<Rightarrow> local_bus option \<Rightarrow> config_service" where
  "ConfigServiceImpl my re pr mq =
     \<lparr>cs_mysql = my, cs_redis = re, cs_provider = pr, cs_producer = mq, entries = [], next_version = 1\<rparr>"

section \<open>Keys and stored forms\<close>

definition DefaultEnv :: "string \<Rightarrow> string" where
  "DefaultEnv env = (if env = [] then ''dev'' else env)"

definition BuildStoreKey :: "string \<Rightarrow> string \<Rightarrow> string \<Rightarrow> string" where
  "BuildStoreKey ns key env = env @ ''|'' @ ns @ ''|'' @ key"

definition BuildCacheKey :: "string \<Rightarrow> string \<Rightarrow> string \<Rightarrow> string" where
  "BuildCacheKey ns key env = ''config:'' @ env @ '':'' @ ns @ '':'' @ key"

definition BuildEtcdKey :: "string \<Rightarrow> string \<Rightarrow> string \<Rightarrow> string" where
  "BuildEtcdKey ns key env = ''/config/'' @ env @ ''/'' @ ns @ ''/'' @ key"

definition entry_document :: "'j json_api \<Rightarrow> config_entry \<Rightarrow> (string \<times> 'j) list" where
  "entry_document J e =
     [(''namespace_name'', json_string J (namespace_name e)),
      (''key'', json_string J (ckey e)),
      (''value'', json_string J (cvalue e)),
      (''version'', json_int J (cversion e)),
      (''environment'', json_string J (environment e))]"

definition SerializeEntry :: "'j json_api \<Rightarrow> config_entry \<Rightarrow> exn + string" where
  "SerializeEntry J e = json_dump J (json_object J (entry_document J e))"

definition DeserializeEntry :: "'j json_api \<Rightarrow> string \<Rightarrow> exn + config_entry option" where
  "DeserializeEntry J payload =
     (case json_parse J payload of
        None \<Rightarrow> Inr None
      | Some json \<Rightarrow>
          res_bind (json_value_string J json ''namespace_name'' []) (\<lambda>ns.
          res_bind (json_value_string J json ''key'' []) (\<lambda>k.
          res_bind (json_value_string J json ''value'' []) (\<lambda>v.
          res_bind (json_value_int64 J json ''version'' 0) (\<lambda>ver.
          res_bind (json_value_string J json ''environment'' ''dev'') (\<lambda>env.
          Inr (Some \<lparr>namespace_name = ns, ckey = k, cvalue = v, cversion = ver, environment = env\<rparr>)))))))"

definition config_ToMysqlRow :: "config_entry \<Rightarrow> query_row" where
  "config_ToMysqlRow e =
     [(''namespace_name'', namespace_name e), (''key'', ckey e), (''value'', cvalue e),
      (''version'', to_string (cversion e)), (''environment'', environment e)]"

definition config_FromMysqlRow :: "query_row \<Rightarrow> exn + config_entry" where
  "config_FromMysqlRow row =
     (let e0 = default_entry;
          e1 = (case um_find row ''namespace_name'' of None \<Rightarrow> e0 | Some v \<Rightarrow> e0\<lparr>namespace_name := v\<rparr>);
          e2 = (case um_find row ''key'' of None \<Rightarrow> e1 | Some v \<Rightarrow> e1\<lparr>ckey := v\<rparr>);
          e3 = (case um_find row ''value'' of None \<Rightarrow> e2 | Some v \<Rightarrow> e2\<lparr>cvalue := v\<rparr>)
      in res_bind (case um_find row ''version'' of
                     None \<Rightarrow> Inr e3
                   | Some v \<Rightarrow> res_bind (stoll v) (\<lambda>n. Inr (e3\<lparr>cversion := n\<rparr>))) (\<lambda>e4.
         Inr (case um_find row ''environment'' of None \<Rightarrow> e4 | Some v \<Rightarrow> e4\<lparr>environment := v\<rparr>)))"

section \<open>Operations\<close>

type_synonym entry_key = "string \<times> string \<times> string"

definition cached_entry :: "'j json_api \<Rightarrow> time_ns \<Rightarrow> entry_key \<Rightarrow> config_service \<Rightarrow>
    (exn + config_entry option) \<times> config_service" where
  "cached_entry J now k s =
     (case k of (ns, key, env_name) \<Rightarrow>
      case cs_redis s of
        None \<Rightarrow> (Inr None, s)
      | Some r \<Rightarrow>
          (let (cached, r') = Get now (BuildCacheKey ns key env_name) r;
               s' = s\<lparr>cs_redis := Some r'\<rparr>
           in case cached of
                None \<Rightarrow> (Inr None, s')
              | Some payload \<Rightarrow> (DeserializeEntry J payload, s')))"

definition stored_entry ::
  "'j json_api \<Rightarrow> ((string \<times> query_row) list \<Rightarrow> (string \<times> query_row) list) \<Rightarrow> entry_key \<Rightarrow>
   config_service \<Rightarrow> (exn + config_entry option) \<times> config_service" where
  "stored_entry J ord k s =
     (case k of (ns, key, env_name) \<Rightarrow>
      case cs_mysql s of
        None \<Rightarrow> (Inr None, s)
      | Some my \<Rightarrow>
          (case FindRows ord ''config_entries''
                  [(''namespace_name'', ns), (''key'', key), (''environment'', env_name)] my of
             [] \<Rightarrow> (Inr None, s)
           | row # _ \<Rightarrow>
               (case config_FromMysqlRow row of
                  Inl e \<Rightarrow> (Inl e, s)
                | Inr entry \<Rightarrow>
                    (case cs_redis s of
                       None \<Rightarrow>
                         (Inr (Some entry),
                          s\<lparr>entries := um_put (BuildStoreKey ns key env_name) entry (entries s)\<rparr>)
                     | Some r \<Rightarrow>
                         (case SerializeEntry J entry of
                            Inl e \<Rightarrow> (Inl e, s)
                          | Inr t \<Rightarrow>
                              (Inr (Some entry),
                               s\<lparr>cs_redis := Some (snd (Set (BuildCacheKey ns key env_name) t r)),
                                 entries := um_put (BuildStoreKey ns key env_name) entry (entries s)\<rparr>))))))"

definition memory_entry :: "config_service \<Rightarrow> entry_key \<Rightarrow> config_entry option" where
  "memory_entry s k = (case k of (ns, key, env) \<Rightarrow> um_find (entries s) (BuildStoreKey ns key env))"

definition FindEntry ::
  "'j json_api \<Rightarrow> ((string \<times> query_row) list \<Rightarrow> (string \<times> query_row) list) \<Rightarrow> time_ns \<Rightarrow>
   string \<Rightarrow> string \<Rightarrow> string \<Rightarrow> config_service \<Rightarrow> (exn + config_entry option) \<times> config_service" where
  "FindEntry J ord now ns key env =
     layered_find (cached_entry J now) (stored_entry J ord) memory_entry (ns, key, DefaultEnv env)"

definition CollectNamespace :: "((string \<times> config_entry) list \<Rightarrow> (string \<times> config_entry) list) \<Rightarrow>
    string \<Rightarrow> int \<Rightarrow> config_service \<Rightarrow> config_entry list" where
  "CollectNamespace ord ns since_version s =
     filter (\<lambda>e. namespace_name e = ns \<and> cversion e > since_version) (map snd (ord (entries s)))"

definition GetConfig ::
  "'j json_api \<Rightarrow> ((string \<times> query_row) list \<Rightarrow> (string \<times> query_row) list) \<Rightarrow> time_ns \<Rightarrow>
   string \<Rightarrow> string \<Rightarrow> config_service \<Rightarrow>
   (exn + grpc_status \<times> config_entry option) \<times> config_service" where
  "GetConfig J ord now ns key s =
     (let (r, s') = FindEntry J ord now ns key ''dev'' s
      in case r of
           Inl e \<Rightarrow> (Inl e, s')
         | Inr None \<Rightarrow> (Inr (status_error NOT_FOUND ''config not found'', None), s')
         | Inr (Some entry) \<Rightarrow> (Inr (status_ok, Some entry), s'))"

definition BatchGetConfig :: "((string \<times> config_entry) list \<Rightarrow> (string \<times> config_entry) list) \<Rightarrow>
    string \<Rightarrow> config_service \<Rightarrow> grpc_status \<times> config_entry list" where
  "BatchGetConfig ord ns s = (status_ok, CollectNamespace ord ns (- 1) s)"

text \<open>The responses \<open>WatchConfig\<close> writes to the stream before it ends it.\<close>

definition WatchConfig :: "((string \<times> config_entry) list \<Rightarrow> (string \<times> config_entry) list) \<Rightarrow>
    string \<Rightarrow> int \<Rightarrow> config_service \<Rightarrow> grpc_status \<times> config_entry list list" where
  "WatchConfig ord ns since_version s =
     (let updates = CollectNamespace ord ns since_version s
      in (status_ok, if updates \<noteq> [] then [updates] else []))"

text \<open>
  The five writes of \<open>PublishConfig\<close>, in order. Serialisation comes after the table and the
  database are written, and is done once for the cache and once for the message.
\<close>

definition publish_memory :: "config_entry \<Rightarrow> config_service \<Rightarrow> config_service" where
  "publish_memory e s =
     s\<lparr>entries := um_put (BuildStoreKey (namespace_name e) (ckey e) (environment e)) e (entries s)\<rparr>"

definition publish_mysql :: "config_entry \<Rightarrow> config_service \<Rightarrow> config_service" where
  "publish_mysql e s =
     (case cs_mysql s of
        None \<Rightarrow> s
      | Some my \<Rightarrow>
          s\<lparr>cs_mysql := Some (snd (UpsertRow ''config_entries'' (config_ToMysqlRow e)
             [''namespace_name'', ''key'', ''environment''] my))\<rparr>)"

definition publish_redis :: "'j json_api \<Rightarrow> config_entry \<Rightarrow> config_service \<Rightarrow> (exn + unit) \<times> config_service" where
  "publish_redis J e s =
     (case cs_redis s of
        None \<Rightarrow> (Inr (), s)
      | Some r \<Rightarrow>
          (case SerializeEntry J e of
             Inl x \<Rightarrow> (Inl x, s)
           | Inr t \<Rightarrow>
               (Inr (), s\<lparr>cs_redis := Some
                  (snd (Set (BuildCacheKey (namespace_name e) (ckey e) (environment e)) t r))\<rparr>)))"

definition publish_etcd :: "scan_order \<Rightarrow> config_entry \<Rightarrow> config_service \<Rightarrow> config_service" where
  "publish_etcd sc e s =
     (case cs_provider s of
        None \<Rightarrow> s
      | Some (endpoints, ss) \<Rightarrow>
          s\<lparr>cs_provider := Some (endpoints,
             snd (etcd_call_on sc endpoints
                    (Put (BuildEtcdKey (namespace_name e) (ckey e) (environment e)) (cvalue e)) ss))\<rparr>)"

definition publish_mq :: "'j json_api \<Rightarrow> config_entry \<Rightarrow> config_service \<Rightarrow> (exn + unit) \<times> config_service" where
  "publish_mq J e s =
     (case cs_producer s of
        None \<Rightarrow> (Inr (), s)
      | Some bus \<Rightarrow>
          (case SerializeEntry J e of
             Inl x \<Rightarrow> (Inl x, s)
           | Inr t \<Rightarrow>
               (Inr (), s\<lparr>cs_producer := Some (snd (producer_Publish ''config.changed'' t bus))\<rparr>)))"

definition PublishConfig :: "'j json_api \<Rightarrow> scan_order \<Rightarrow> config_entry \<Rightarrow> config_service \<Rightarrow>
    (exn + grpc_status \<times> int option) \<times> config_service" where
  "PublishConfig J sc request s =
     (if namespace_name request = [] \<or> ckey request = [] then
        (Inr (status_error INVALID_ARGUMENT ''namespace and key are required'', None), s)
      else
        (let e = request\<lparr>environment := DefaultEnv (environment request),
                         cversion := sint (next_version s)\<rparr>;
             s1 = s\<lparr>next_version := next_version s + 1\<rparr>;
             s2 = publish_memory e s1;
             s3 = publish_mysql e s2;
             (r4, s4) = publish_redis J e s3
         in case r4 of
              Inl x \<Rightarrow> (Inl x, s4)
            | Inr _ \<Rightarrow>
                (let s5 = publish_etcd sc e s4;
                     (r6, s6) = publish_mq J e s5
                 in case r6 of
                      Inl x \<Rightarrow> (Inl x, s6)
                    | Inr _ \<Rightarrow> (Inr (status_ok, Some (cversion e)), s6))))"

section \<open>Well-formed entries\<close>

text \<open>
  The names the joined keys tell apart: no bar and no colon in any of the three parts, and a
  namespace and an environment that are not empty.
\<close>

definition plain_name :: "string \<Rightarrow> bool" where
  "plain_name s \<longleftrightarrow> CHR ''|'' \<notin> set s \<and> CHR '':'' \<notin> set s"

fun key_ok :: "entry_key \<Rightarrow> bool" where
  "key_ok (ns, key, env) =
     (plain_name ns \<and> plain_name key \<and> plain_name env \<and> ns \<noteq> [] \<and> env \<noteq> [])"

definition entry_triple :: "config_entry \<Rightarrow> entry_key" where
  "entry_triple e = (namespace_name e, ckey e, environment e)"

definition entry_ok :: "'j json_api \<Rightarrow> config_entry \<Rightarrow> bool" where
  "entry_ok J e \<longleftrightarrow>
     key_ok (entry_triple e) \<and> int64_range (cversion e) \<and> json_utf8 J (namespace_name e) \<and>
     json_utf8 J (ckey e) \<and> json_utf8 J (cvalue e) \<and> json_utf8 J (environment e)"

fun store_key :: "entry_key \<Rightarrow> string" where
  "store_key (ns, key, env) = BuildStoreKey ns key env"

fun cache_key :: "entry_key \<Rightarrow> string" where
  "cache_key (ns, key, env) = BuildCacheKey ns key env"

lemma store_key_inj: "key_ok k \<Longrightarrow> key_ok k' \<Longrightarrow> store_key k = store_key k' \<longleftrightarrow> k = k'"
  by (cases k; cases k') (auto simp: BuildStoreKey_def plain_name_def split_at_sep)

lemma cache_key_inj: "key_ok k \<Longrightarrow> key_ok k' \<Longrightarrow> cache_key k = cache_key k' \<longleftrightarrow> k = k'"
  by (cases k; cases k') (auto simp: BuildCacheKey_def plain_name_def split_at_sep)

section \<open>The stored forms are codecs\<close>

lemma config_row_roundtrip:
  "int64_range (cversion e) \<Longrightarrow> config_FromMysqlRow (config_ToMysqlRow e) = Inr e"
  by (cases e) (simp add: config_FromMysqlRow_def config_ToMysqlRow_def um_find_def Let_def)

interpretation config_row: codec "\<lambda>e. int64_range (cversion e)" config_ToMysqlRow
  "\<lambda>row. case config_FromMysqlRow row of Inl e \<Rightarrow> None | Inr e \<Rightarrow> Some e"
  by unfold_locales (simp add: config_row_roundtrip)

lemma entry_flat:
  assumes "json_laws J" and "entry_ok J e"
  shows "flat_document J (entry_document J e)"
proof -
  have "json_utf8 J ''namespace_name''" "json_utf8 J ''key''" "json_utf8 J ''value''"
    "json_utf8 J ''version''" "json_utf8 J ''environment''"
    using assms(1) by (simp_all add: json_laws_ascii)
  then show ?thesis
    using assms(2) by (auto simp: flat_document_def entry_document_def entry_ok_def)
qed

lemma entry_document_roundtrip:
  assumes "json_laws J" and "entry_ok J e"
  obtains t where "SerializeEntry J e = Inr t" "DeserializeEntry J t = Inr (Some e)"
proof -
  obtain t j where t: "json_dump J (json_object J (entry_document J e)) = Inr t"
    and j: "json_parse J t = Some j" and rb: "reads_back J (entry_document J e) j"
    using json_laws_document [OF assms(1) entry_flat [OF assms]] by blast
  have "json_value_string J j ''namespace_name'' [] = Inr (namespace_name e)"
    "json_value_string J j ''key'' [] = Inr (ckey e)"
    "json_value_string J j ''value'' [] = Inr (cvalue e)"
    "json_value_string J j ''environment'' ''dev'' = Inr (environment e)"
    by (rule reads_back_string [OF rb], simp add: entry_document_def)+
  moreover have "json_value_int64 J j ''version'' 0 = Inr (cversion e)"
    by (rule reads_back_int64 [OF rb]) (use assms(2) in \<open>simp_all add: entry_document_def entry_ok_def\<close>)
  ultimately have "DeserializeEntry J t = Inr (Some e)"
    using j by (simp add: DeserializeEntry_def)
  then show thesis using that t by (simp add: SerializeEntry_def)
qed

section \<open>The layers agree\<close>

abbreviation config_cols :: "string list" where
  "config_cols \<equiv> [''namespace_name'', ''key'', ''environment'']"

definition cached_entries_agree :: "'j json_api \<Rightarrow> (entry_key \<Rightarrow> config_entry option) \<Rightarrow> redis_backend \<Rightarrow> bool" where
  "cached_entries_agree J M r \<longleftrightarrow>
     (\<forall>k v. key_ok k \<longrightarrow> kv r (cache_key k) = Some v \<longrightarrow>
        (\<exists>e. M k = Some e \<and> DeserializeEntry J (entry_value v) = Inr (Some e)))"

definition entry_rows_agree :: "'j json_api \<Rightarrow> (entry_key \<Rightarrow> config_entry option) \<Rightarrow> mysql_backend \<Rightarrow> bool" where
  "entry_rows_agree J M my \<longleftrightarrow>
     table_ok config_cols (table_of my ''config_entries'') \<and>
     (\<forall>(bk, row) \<in> set (table_of my ''config_entries'').
        \<exists>e. row = config_ToMysqlRow e \<and> entry_ok J e \<and> M (entry_triple e) = Some e)"

definition entries_ok :: "'j json_api \<Rightarrow> config_entry umap \<Rightarrow> bool" where
  "entries_ok J m \<longleftrightarrow>
     um_ok m \<and> (\<forall>(k, e) \<in> set m. entry_ok J e \<and> k = store_key (entry_triple e))"

definition config_inv :: "'j json_api \<Rightarrow> config_service \<Rightarrow> bool" where
  "config_inv J s \<longleftrightarrow>
     entries_ok J (entries s) \<and>
     (\<forall>r. cs_redis s = Some r \<longrightarrow> cached_entries_agree J (memory_entry s) r) \<and>
     (\<forall>my. cs_mysql s = Some my \<longrightarrow> entry_rows_agree J (memory_entry s) my)"

lemma memory_entry_find: "memory_entry s k = um_find (entries s) (store_key k)"
  by (cases k) (simp add: memory_entry_def)

lemma memory_entry_backends [simp]:
  "memory_entry (s\<lparr>cs_redis := a\<rparr>) = memory_entry s"
  "memory_entry (s\<lparr>cs_mysql := b\<rparr>) = memory_entry s"
  "memory_entry (s\<lparr>cs_provider := c\<rparr>) = memory_entry s"
  "memory_entry (s\<lparr>cs_producer := d\<rparr>) = memory_entry s"
  "memory_entry (s\<lparr>next_version := n\<rparr>) = memory_entry s"
  by (simp_all add: fun_eq_iff memory_entry_def)

lemma memory_entry_ok:
  assumes "entries_ok J (entries s)" and "key_ok k" and "memory_entry s k = Some e"
  shows "entry_ok J e" and "entry_triple e = k"
proof -
  have "(store_key k, e) \<in> set (entries s)"
    using assms by (simp add: entries_ok_def memory_entry_find um_find_in_set)
  then have e: "entry_ok J e" "store_key k = store_key (entry_triple e)"
    using assms(1) by (auto simp: entries_ok_def)
  then show "entry_ok J e" by simp
  show "entry_triple e = k"
    using e assms(2) store_key_inj [of k "entry_triple e"] by (simp add: entry_ok_def)
qed

lemma config_clean_row: "entry_ok J e \<Longrightarrow> clean_row config_cols (config_ToMysqlRow e)"
  by (auto simp: clean_row_def config_ToMysqlRow_def um_find_def entry_ok_def entry_triple_def
      plain_name_def)

lemma FindRows_entry:
  assumes ord: "traversal ord" and rows: "entry_rows_agree J M my"
  shows "FindRows ord ''config_entries''
      [(''namespace_name'', ns), (''key'', key), (''environment'', env)] my = [] \<or>
    (\<exists>e. FindRows ord ''config_entries''
        [(''namespace_name'', ns), (''key'', key), (''environment'', env)] my = [config_ToMysqlRow e] \<and>
      entry_ok J e \<and> M (ns, key, env) = Some e)"
    (is "?rows = [] \<or> _")
proof (cases "?rows = []")
  case False
  let ?t = "table_of my ''config_entries''"
  and ?f = "[(''namespace_name'', ns), (''key'', key), (''environment'', env)]"
  have "?rows = map snd (filter (\<lambda>(_, row). Matches row ?f) (ord ?t))"
    by (rule FindRows_table_of [OF ord])
  with False obtain bk row where row: "(bk, row) \<in> set ?t" and m: "Matches row ?f"
    by (fastforce simp: filter_empty_conv traversal_set [OF ord])
  then obtain e where e: "row = config_ToMysqlRow e" "entry_ok J e" "M (entry_triple e) = Some e"
    using rows by (auto simp: entry_rows_agree_def)
  have k: "ns = namespace_name e" "key = ckey e" "env = environment e"
    using m by (auto simp: e(1) Matches_def config_ToMysqlRow_def um_find_def)
  then have "?f = key_filter row config_cols"
    by (simp add: key_filter_def e(1) config_ToMysqlRow_def um_find_def)
  moreover have "FindRows ord ''config_entries'' (key_filter row config_cols) my = [row]"
    using table_lookup [OF _ row ord] rows
    by (simp add: FindRows_table_of [OF ord] entry_rows_agree_def)
  ultimately show ?thesis using e k by (auto simp: entry_triple_def)
qed simp

lemma cached_entries_Get:
  "cached_entries_agree J M r \<Longrightarrow> cached_entries_agree J M (snd (Get now k r))"
  unfolding cached_entries_agree_def kv_Get kv_PurgeExpired by (auto split: option.splits)

lemma cached_entries_Set:
  assumes "cached_entries_agree J M r" and "key_ok k" and "DeserializeEntry J t = Inr (Some e)"
  shows "cached_entries_agree J (M(k \<mapsto> e)) (snd (Set (cache_key k) t r))"
  using assms by (auto simp: cached_entries_agree_def Set_def cache_key_inj)

lemma cached_entry_sound:
  assumes inv: "config_inv J s" and k: "key_ok k"
  shows "(fst (cached_entry J now k s) = Inr None \<or> fst (cached_entry J now k s) = Inr (memory_entry s k)) \<and>
    config_inv J (snd (cached_entry J now k s)) \<and>
    memory_entry (snd (cached_entry J now k s)) = memory_entry s"
proof (cases "cs_redis s")
  case None
  then show ?thesis using inv by (cases k) (simp add: cached_entry_def)
next
  case (Some r)
  have c: "cached_entries_agree J (memory_entry s) r" using inv Some by (simp add: config_inv_def)
  have st: "snd (cached_entry J now k s) = s\<lparr>cs_redis := Some (snd (Get now (cache_key k) r))\<rparr>"
    using Some by (cases k) (simp add: cached_entry_def split_beta Let_def split: option.split)
  have "DeserializeEntry J t = Inr (memory_entry s k)" if hit: "fst (Get now (cache_key k) r) = Some t" for t
  proof -
    obtain v where v: "kv r (cache_key k) = Some v" "entry_value v = t"
      using hit by (auto simp: redis_cache.get_view live_def split: option.splits if_splits)
    then obtain e where "memory_entry s k = Some e" "DeserializeEntry J t = Inr (Some e)"
      using c k unfolding cached_entries_agree_def by blast
    then show ?thesis by simp
  qed
  then have "fst (cached_entry J now k s) = Inr None \<or> fst (cached_entry J now k s) = Inr (memory_entry s k)"
    using Some by (cases k) (auto simp: cached_entry_def split_beta Let_def split: option.split)
  then show ?thesis
    using inv c st cached_entries_Get [OF c] by (simp add: config_inv_def)
qed

lemma stored_entry_sound:
  assumes J: "json_laws J" and ord: "traversal ord" and inv: "config_inv J s" and k: "key_ok k"
  shows "(fst (stored_entry J ord k s) = Inr None \<or> fst (stored_entry J ord k s) = Inr (memory_entry s k)) \<and>
    config_inv J (snd (stored_entry J ord k s)) \<and>
    memory_entry (snd (stored_entry J ord k s)) = memory_entry s"
proof -
  obtain ns key env where kk: "k = (ns, key, env)" by (cases k)
  show ?thesis
  proof (cases "cs_mysql s")
    case None
    then show ?thesis using inv by (simp add: stored_entry_def kk)
  next
    case (Some my)
    let ?rows = "FindRows ord ''config_entries''
      [(''namespace_name'', ns), (''key'', key), (''environment'', env)] my"
    have "entry_rows_agree J (memory_entry s) my" using inv Some by (simp add: config_inv_def)
    from FindRows_entry [OF ord this, of ns key env]
    show ?thesis
    proof
      assume "?rows = []"
      then show ?thesis using inv Some by (simp add: stored_entry_def kk)
    next
      assume "\<exists>e. ?rows = [config_ToMysqlRow e] \<and> entry_ok J e \<and> memory_entry s (ns, key, env) = Some e"
      then obtain e where e: "?rows = [config_ToMysqlRow e]" "entry_ok J e" "memory_entry s k = Some e"
        using kk by auto
      have f: "config_FromMysqlRow (config_ToMysqlRow e) = Inr e"
        using e(2) by (simp add: config_row_roundtrip entry_ok_def)
      have m: "um_find (entries s) (BuildStoreKey ns key env) = Some e"
        using e(3) by (simp add: memory_entry_def kk)
      then have same: "um_put (BuildStoreKey ns key env) e (entries s) = entries s"
        by (rule um_put_same)
      obtain t where t: "SerializeEntry J e = Inr t" "DeserializeEntry J t = Inr (Some e)"
        by (rule entry_document_roundtrip [OF J e(2)])
      have "(memory_entry s)(k \<mapsto> e) = memory_entry s" using e(3) by auto
      then have "cached_entries_agree J (memory_entry s) (snd (Set (BuildCacheKey ns key env) t r))"
        if "cs_redis s = Some r" for r
        using cached_entries_Set [of J "memory_entry s" r k t e] that inv k t(2)
        by (simp add: config_inv_def kk)
      then show ?thesis
        using inv Some e f t(1) same
        by (auto simp: stored_entry_def config_inv_def kk split: option.splits)
    qed
  qed
qed

interpretation config_layers: layered_store "cached_entry J now" "stored_entry J ord" memory_entry
  "\<lambda>s. json_laws J \<and> traversal ord \<and> config_inv J s" memory_entry key_ok
  for J now ord
  by unfold_locales (simp_all add: cached_entry_sound stored_entry_sound)

lemma GetConfig_reads_table:
  assumes "json_laws J" and "traversal ord" and "config_inv J s"
    and "plain_name ns" and "plain_name key" and "ns \<noteq> []"
  shows "fst (GetConfig J ord now ns key s) =
      Inr (case memory_entry s (ns, key, ''dev'') of
             None \<Rightarrow> (status_error NOT_FOUND ''config not found'', None)
           | Some e \<Rightarrow> (status_ok, Some e))"
    and "config_inv J (snd (GetConfig J ord now ns key s))"
    and "memory_entry (snd (GetConfig J ord now ns key s)) = memory_entry s"
proof -
  have "key_ok (ns, key, ''dev'')" using assms(4-6) by (simp add: plain_name_def)
  note f = config_layers.layered_find_abs [of J ord s "(ns, key, ''dev'')" now, OF _ this]
  show "fst (GetConfig J ord now ns key s) =
      Inr (case memory_entry s (ns, key, ''dev'') of
             None \<Rightarrow> (status_error NOT_FOUND ''config not found'', None)
           | Some e \<Rightarrow> (status_ok, Some e))"
    and "config_inv J (snd (GetConfig J ord now ns key s))"
    and "memory_entry (snd (GetConfig J ord now ns key s)) = memory_entry s"
    using f assms(1-3)
    by (auto simp: GetConfig_def FindEntry_def DefaultEnv_def split_beta Let_def split: option.splits)
qed

section \<open>Publishing\<close>

lemma composite_key_triple:
  "entry_triple e = entry_triple e' \<Longrightarrow>
   BuildCompositeKey (config_ToMysqlRow e) config_cols = BuildCompositeKey (config_ToMysqlRow e') config_cols"
  by (simp add: BuildCompositeKey_def um_find_def config_ToMysqlRow_def entry_triple_def)

lemma entry_rows_Upsert:
  assumes rows: "entry_rows_agree J M my" and e: "entry_ok J e"
  shows "entry_rows_agree J (M(entry_triple e \<mapsto> e))
    (snd (UpsertRow ''config_entries'' (config_ToMysqlRow e) config_cols my))"
proof -
  let ?t = "table_of my ''config_entries''" and ?k = "BuildCompositeKey (config_ToMysqlRow e) config_cols"
  have ok: "table_ok config_cols ?t" using rows by (simp add: entry_rows_agree_def)
  then have um: "um_ok ?t" by (simp add: table_ok_def)
  have "\<exists>e'. row = config_ToMysqlRow e' \<and> entry_ok J e' \<and> (M(entry_triple e \<mapsto> e)) (entry_triple e') = Some e'"
    if "(bk, row) \<in> set (um_put ?k (config_ToMysqlRow e) ?t)" for bk row
  proof (cases "(bk, row) = (?k, config_ToMysqlRow e)")
    case True
    then show ?thesis using e by auto
  next
    case False
    with that have old: "(bk, row) \<in> set ?t" "bk \<noteq> ?k" by (auto simp: set_um_put [OF um])
    then obtain e' where e': "row = config_ToMysqlRow e'" "entry_ok J e'" "M (entry_triple e') = Some e'"
      using rows by (auto simp: entry_rows_agree_def)
    have "bk = BuildCompositeKey row config_cols" using old(1) ok by (auto simp: table_ok_def)
    then have "entry_triple e' \<noteq> entry_triple e"
      using old(2) e'(1) composite_key_triple [of e' e] by auto
    then show ?thesis using e' by auto
  qed
  then have "\<forall>(bk, row) \<in> set (um_put ?k (config_ToMysqlRow e) ?t).
      \<exists>e'. row = config_ToMysqlRow e' \<and> entry_ok J e' \<and> (M(entry_triple e \<mapsto> e)) (entry_triple e') = Some e'"
    by blast
  moreover have "table_ok config_cols (um_put ?k (config_ToMysqlRow e) ?t)"
    by (rule table_ok_put [OF ok config_clean_row [OF e]])
  ultimately show ?thesis
    by (simp only: entry_rows_agree_def table_of_Upsert simp_thms if_True)
qed

lemma entries_ok_put:
  "entries_ok J m \<Longrightarrow> entry_ok J e \<Longrightarrow> entries_ok J (um_put (store_key (entry_triple e)) e m)"
  by (auto simp: entries_ok_def set_um_put)

text \<open>The entry a request asks for, once it is accepted with a version.\<close>

definition accepted :: "config_entry \<Rightarrow> 64 word \<Rightarrow> config_entry" where
  "accepted request n =
     request\<lparr>environment := DefaultEnv (environment request), cversion := sint n\<rparr>"

definition publish_ok :: "'j json_api \<Rightarrow> config_entry \<Rightarrow> bool" where
  "publish_ok J e \<longleftrightarrow>
     plain_name (namespace_name e) \<and> plain_name (ckey e) \<and> plain_name (environment e) \<and>
     json_utf8 J (namespace_name e) \<and> json_utf8 J (ckey e) \<and> json_utf8 J (cvalue e) \<and>
     json_utf8 J (environment e)"

definition rejected :: "config_entry \<Rightarrow> bool" where
  "rejected e \<longleftrightarrow> namespace_name e = [] \<or> ckey e = []"

lemma accepted_ok:
  assumes "json_laws J" and "publish_ok J e" and "\<not> rejected e"
  shows "entry_ok J (accepted e n)"
proof -
  have "json_utf8 J ''dev''" by (simp add: json_laws_ascii [OF assms(1)])
  moreover have "int64_range (sint n)"
    using sint_range_size [of n] by (simp add: word_size)
  ultimately show ?thesis
    using assms(2,3)
    by (auto simp: entry_ok_def accepted_def publish_ok_def rejected_def entry_triple_def DefaultEnv_def
        plain_name_def)
qed

lemma PublishConfig_accepts:
  assumes J: "json_laws J" and inv: "config_inv J s" and req: "publish_ok J request" and ne: "\<not> rejected request"
  defines "e \<equiv> accepted request (next_version s)"
  shows "fst (PublishConfig J sc request s) = Inr (status_ok, Some (cversion e))"
    and "config_inv J (snd (PublishConfig J sc request s))"
    and "memory_entry (snd (PublishConfig J sc request s)) k =
           (if store_key k = store_key (entry_triple e) then Some e else memory_entry s k)"
    and "next_version (snd (PublishConfig J sc request s)) = next_version s + 1"
    and "cs_producer (snd (PublishConfig J sc request s)) =
           map_option (bus_Publish ''config.changed'' (projr (SerializeEntry J e))) (cs_producer s)"
proof -
  have ok: "entry_ok J e" unfolding e_def by (rule accepted_ok [OF J req ne])
  then have kok: "key_ok (entry_triple e)" by (simp add: entry_ok_def)
  obtain t where t: "SerializeEntry J e = Inr t" "DeserializeEntry J t = Inr (Some e)"
    by (rule entry_document_roundtrip [OF J ok])
  let ?my = "\<lambda>my. snd (UpsertRow ''config_entries'' (config_ToMysqlRow e) config_cols my)"
  let ?re = "\<lambda>r. snd (Set (cache_key (entry_triple e)) t r)"
  let ?pr = "\<lambda>(ep, ss). (ep, snd (etcd_call_on sc ep
      (Put (BuildEtcdKey (namespace_name e) (ckey e) (environment e)) (cvalue e)) ss))"
  let ?mem = "um_put (store_key (entry_triple e)) e (entries s)"
  have P: "PublishConfig J sc request s = (Inr (status_ok, Some (cversion e)),
      s\<lparr>next_version := next_version s + 1, entries := ?mem,
        cs_mysql := map_option ?my (cs_mysql s), cs_redis := map_option ?re (cs_redis s),
        cs_provider := map_option ?pr (cs_provider s),
        cs_producer := map_option (bus_Publish ''config.changed'' t) (cs_producer s)\<rparr>)"
    using ne t(1) unfolding PublishConfig_def rejected_def accepted_def [symmetric] e_def [symmetric] Let_def
    by (cases "cs_mysql s"; cases "cs_redis s"; cases "cs_provider s"; cases "cs_producer s")
      (simp_all add: publish_memory_def publish_mysql_def publish_redis_def publish_etcd_def
        publish_mq_def producer_Publish_def entry_triple_def split_beta)
  show "fst (PublishConfig J sc request s) = Inr (status_ok, Some (cversion e))"
    and "next_version (snd (PublishConfig J sc request s)) = next_version s + 1"
    and "memory_entry (snd (PublishConfig J sc request s)) k =
           (if store_key k = store_key (entry_triple e) then Some e else memory_entry s k)"
    and "cs_producer (snd (PublishConfig J sc request s)) =
           map_option (bus_Publish ''config.changed'' (projr (SerializeEntry J e))) (cs_producer s)"
    by (simp_all add: P memory_entry_find t(1))
  define M where "M = memory_entry (s\<lparr>entries := ?mem\<rparr>)"
  have M: "M k = ((memory_entry s)(entry_triple e \<mapsto> e)) k" if "key_ok k" for k
    using store_key_inj [OF that kok] by (simp add: M_def memory_entry_find)
  have "cached_entries_agree J M (?re r)" if "cs_redis s = Some r" for r
    using cached_entries_Set [OF _ kok t(2), of "memory_entry s" r] that inv M
    unfolding config_inv_def cached_entries_agree_def by (metis (no_types, lifting))
  moreover have "entry_rows_agree J M (?my my)" if "cs_mysql s = Some my" for my
  proof -
    have "entry_rows_agree J ((memory_entry s)(entry_triple e \<mapsto> e)) (?my my)"
      by (rule entry_rows_Upsert [OF _ ok]) (use that inv in \<open>simp add: config_inv_def\<close>)
    moreover have "M (entry_triple e') = Some e'"
      if "entry_ok J e'" "((memory_entry s)(entry_triple e \<mapsto> e)) (entry_triple e') = Some e'" for e'
      using that M [of "entry_triple e'"] by (simp add: entry_ok_def)
    ultimately show ?thesis unfolding entry_rows_agree_def by fastforce
  qed
  moreover have "entries_ok J ?mem"
    by (rule entries_ok_put [OF _ ok]) (use inv in \<open>simp add: config_inv_def\<close>)
  moreover have "memory_entry (snd (PublishConfig J sc request s)) = M"
    by (simp add: fun_eq_iff P M_def memory_entry_find)
  ultimately show "config_inv J (snd (PublishConfig J sc request s))"
    by (auto simp: P config_inv_def)
qed

lemma PublishConfig_rejects:
  "rejected request \<Longrightarrow> PublishConfig J sc request s =
     (Inr (status_error INVALID_ARGUMENT ''namespace and key are required'', None), s)"
  by (auto simp: PublishConfig_def rejected_def)

section \<open>Runs of requests\<close>

text \<open>\<open>BatchGetConfig\<close> and \<open>WatchConfig\<close> do not change the service; the other two do.\<close>

datatype config_request =
    CPublish scan_order config_entry
  | CGet time_ns "(string \<times> query_row) list \<Rightarrow> (string \<times> query_row) list" string string

fun config_step :: "'j json_api \<Rightarrow> config_request \<Rightarrow> config_service \<Rightarrow> config_service" where
  "config_step J (CPublish sc e) s = snd (PublishConfig J sc e s)"
| "config_step J (CGet now ord ns key) s = snd (GetConfig J ord now ns key s)"

fun config_request_ok :: "'j json_api \<Rightarrow> config_request \<Rightarrow> bool" where
  "config_request_ok J (CPublish sc e) = publish_ok J e"
| "config_request_ok J (CGet now ord ns key) =
     (traversal ord \<and> plain_name ns \<and> plain_name key \<and> ns \<noteq> [])"

fun publish_log :: "config_request list \<Rightarrow> 64 word \<Rightarrow> config_entry list" where
  "publish_log [] n = []"
| "publish_log (CPublish sc e # reqs) n =
     (if rejected e then publish_log reqs n else accepted e n # publish_log reqs (n + 1))"
| "publish_log (CGet now ord ns key # reqs) n = publish_log reqs n"

definition latest :: "config_entry list \<Rightarrow> entry_key \<Rightarrow> config_entry option" where
  "latest log k = find (\<lambda>e. entry_triple e = k) (rev log)"

lemma find_append: "find P (xs @ ys) = (case find P xs of None \<Rightarrow> find P ys | Some x \<Rightarrow> Some x)"
  by (induction xs) auto

lemma latest_Nil [simp]: "latest [] k = None"
  by (simp add: latest_def)

lemma latest_Cons:
  "latest (e # log) k =
     (case latest log k of Some x \<Rightarrow> Some x | None \<Rightarrow> if entry_triple e = k then Some e else None)"
  by (simp add: latest_def find_append split: option.split)

definition config_run :: "'j json_api \<Rightarrow> config_request list \<Rightarrow> config_service \<Rightarrow> config_service" where
  "config_run J reqs s = fold (config_step J) reqs s"

lemma config_run_simps [simp]:
  "config_run J [] s = s"
  "config_run J (req # reqs) s = config_run J reqs (config_step J req s)"
  by (simp_all add: config_run_def)

text \<open>The message a topic of changes carries for an entry.\<close>

definition change_messages :: "'j json_api \<Rightarrow> config_entry list \<Rightarrow> string list" where
  "change_messages J log = map (\<lambda>e. projr (SerializeEntry J e)) log"

definition changes_queued :: "config_service \<Rightarrow> string list" where
  "changes_queued s = (case cs_producer s of None \<Rightarrow> [] | Some bus \<Rightarrow> bus_queue bus ''config.changed'')"

lemma cached_entry_untouched:
  "next_version (snd (cached_entry J now k s)) = next_version s \<and>
   cs_producer (snd (cached_entry J now k s)) = cs_producer s"
  by (cases k; cases "cs_redis s") (simp_all add: cached_entry_def split_beta Let_def split: option.split)

lemma stored_entry_untouched:
  "next_version (snd (stored_entry J ord k s)) = next_version s \<and>
   cs_producer (snd (stored_entry J ord k s)) = cs_producer s"
  by (cases k; cases "cs_mysql s"; cases "cs_redis s")
    (simp_all add: stored_entry_def split: list.split sum.split)

lemma layered_find_untouched:
  assumes "\<And>k s. f (snd (cached k s)) = f s" and "\<And>k s. f (snd (stored k s)) = f s"
  shows "f (snd (layered_find cached stored memory k s)) = f s"
  using assms by (simp add: layered_find_def split_beta split: option.split sum.split)

lemma GetConfig_untouched:
  "next_version (snd (GetConfig J ord now ns key s)) = next_version s"
  "cs_producer (snd (GetConfig J ord now ns key s)) = cs_producer s"
proof -
  have g: "snd (GetConfig J ord now ns key s) = snd (FindEntry J ord now ns key ''dev'' s)"
    by (simp add: GetConfig_def split_beta Let_def split: option.split sum.split)
  show "next_version (snd (GetConfig J ord now ns key s)) = next_version s"
    and "cs_producer (snd (GetConfig J ord now ns key s)) = cs_producer s"
    unfolding g FindEntry_def
    by (rule layered_find_untouched; simp add: cached_entry_untouched stored_entry_untouched)+
qed

lemma config_run_log:
  assumes J: "json_laws J" and "\<forall>req \<in> set reqs. config_request_ok J req" and "config_inv J s"
  shows "config_inv J (config_run J reqs s) \<and>
    (\<forall>k. key_ok k \<longrightarrow> memory_entry (config_run J reqs s) k =
       (case latest (publish_log reqs (next_version s)) k of
          Some e \<Rightarrow> Some e | None \<Rightarrow> memory_entry s k)) \<and>
    (cs_producer s \<noteq> None \<longrightarrow> cs_producer (config_run J reqs s) \<noteq> None \<and>
      changes_queued (config_run J reqs s) =
       changes_queued s @ change_messages J (publish_log reqs (next_version s)))"
  using assms(2,3)
proof (induction reqs arbitrary: s)
  case Nil
  then show ?case by (simp add: change_messages_def)
next
  case (Cons req reqs)
  show ?case
  proof (cases req)
    case (CGet now ord ns key)
    then have r: "traversal ord" "plain_name ns" "plain_name key" "ns \<noteq> []"
      using Cons.prems(1) by simp_all
    note g = GetConfig_reads_table [OF J r(1) Cons.prems(2) r(2-4), of now]
    show ?thesis
      using Cons.IH [OF _ g(2), unfolded g(3)] Cons.prems(1)
      by (simp add: CGet GetConfig_untouched changes_queued_def)
  next
    case (CPublish sc e)
    then have e: "publish_ok J e" using Cons.prems(1) by simp
    show ?thesis
    proof (cases "rejected e")
      case True
      then show ?thesis
        using Cons.IH [OF _ Cons.prems(2)] Cons.prems(1) by (simp add: CPublish PublishConfig_rejects)
    next
      case False
      let ?s = "snd (PublishConfig J sc e s)" and ?e = "accepted e (next_version s)"
      note p = PublishConfig_accepts [OF J Cons.prems(2) e False, of sc]
      have kok: "key_ok (entry_triple ?e)"
        using accepted_ok [OF J e False] by (simp add: entry_ok_def)
      have q: "changes_queued ?s = changes_queued s @ change_messages J [?e]" if "cs_producer s \<noteq> None"
        using that by (auto simp: changes_queued_def p(5) change_messages_def bus_stream.publish_queue)
      have IH: "config_inv J (config_run J reqs ?s) \<and>
        (\<forall>k. key_ok k \<longrightarrow> memory_entry (config_run J reqs ?s) k =
           (case latest (publish_log reqs (next_version s + 1)) k of
              Some e \<Rightarrow> Some e | None \<Rightarrow> memory_entry ?s k)) \<and>
        (cs_producer s \<noteq> None \<longrightarrow> cs_producer (config_run J reqs ?s) \<noteq> None \<and>
          changes_queued (config_run J reqs ?s) =
           changes_queued ?s @ change_messages J (publish_log reqs (next_version s + 1)))"
        using Cons.IH [OF _ p(2)] Cons.prems(1) by (simp add: p(4,5))
      have mem: "memory_entry ?s k = (if entry_triple ?e = k then Some ?e else memory_entry s k)"
        if "key_ok k" for k
        using store_key_inj [OF that kok] by (auto simp: p(3))
      have "memory_entry (config_run J reqs ?s) k =
          (case latest (?e # publish_log reqs (next_version s + 1)) k of
             Some e \<Rightarrow> Some e | None \<Rightarrow> memory_entry s k)" if "key_ok k" for k
        using IH [THEN conjunct2, THEN conjunct1, rule_format, OF that] mem [OF that]
        by (simp add: latest_Cons split: option.split)
      then show ?thesis
        using IH q False by (simp add: CPublish change_messages_def del: split_paired_All)
    qed
  qed
qed

definition fresh_backends :: "mysql_backend option \<Rightarrow> redis_backend option \<Rightarrow> bool" where
  "fresh_backends my re \<longleftrightarrow>
     (my = None \<or> my = Some mysql_empty) \<and> (re = None \<or> re = Some redis_empty)"

lemma fresh_config_inv: "fresh_backends my re \<Longrightarrow> config_inv J (ConfigServiceImpl my re pr mq)"
  by (auto simp: config_inv_def ConfigServiceImpl_def fresh_backends_def entries_ok_def
      cached_entries_agree_def entry_rows_agree_def mysql_empty_def redis_empty_def table_of_def
      table_ok_def)

lemma fresh_config_memory [simp]:
  "memory_entry (ConfigServiceImpl my re pr mq) k = None"
  "next_version (ConfigServiceImpl my re pr mq) = 1"
  by (simp_all add: memory_entry_find ConfigServiceImpl_def)

lemma fresh_config_run:
  assumes "json_laws J" and "\<forall>req \<in> set reqs. config_request_ok J req" and "fresh_backends my re"
  shows "config_inv J (config_run J reqs (ConfigServiceImpl my re pr mq))"
    and "key_ok k \<Longrightarrow> memory_entry (config_run J reqs (ConfigServiceImpl my re pr mq)) k =
           latest (publish_log reqs 1) k"
  using config_run_log [OF assms(1,2) fresh_config_inv [OF assms(3)], of pr mq]
  by (simp_all del: split_paired_All split: option.splits)

lemma publish_log_ok:
  assumes "json_laws J" and "\<forall>req \<in> set reqs. config_request_ok J req"
  shows "\<forall>e \<in> set (publish_log reqs n). entry_ok J e"
  using assms(2) by (induction reqs n rule: publish_log.induct) (auto simp: accepted_ok [OF assms(1)])

lemma sint_of_nat_64: "n < 2 ^ 63 \<Longrightarrow> sint (of_nat n :: 64 word) = int n"
  using sint_sbintrunc' [where 'a = 64, of "int n"] by (simp add: signed_take_bit_int_eq_self)

lemma publish_log_versions:
  "m + length (publish_log reqs (of_nat m)) \<le> 2 ^ 63 \<Longrightarrow>
   map cversion (publish_log reqs (of_nat m)) = map int [m..<m + length (publish_log reqs (of_nat m))]"
proof (induction reqs arbitrary: m)
  case Nil
  then show ?case by simp
next
  case (Cons req reqs)
  show ?case
  proof (cases req)
    case (CPublish sc e)
    have n: "of_nat m + 1 = (of_nat (Suc m) :: 64 word)" by simp
    show ?thesis
    proof (cases "rejected e")
      case True
      then show ?thesis using Cons CPublish by simp
    next
      case False
      have "Suc m + length (publish_log reqs (of_nat (Suc m))) \<le> 2 ^ 63"
        using Cons.prems False by (simp add: CPublish n del: of_nat_Suc)
      then show ?thesis
        using Cons.IH [of "Suc m"] False
        by (simp add: CPublish n accepted_def sint_of_nat_64 upt_conv_Cons del: of_nat_Suc upt_Suc)
    qed
  next
    case (CGet now ord ns key)
    then show ?thesis using Cons by simp
  qed
qed

lemma latest_SomeD: "latest log k = Some e \<Longrightarrow> e \<in> set log \<and> entry_triple e = k"
  by (induction log) (auto simp: latest_Cons split: option.splits if_splits)

lemma CollectNamespace_exact:
  assumes "config_inv J s" and ord: "traversal ord"
  shows "distinct (CollectNamespace ord ns since s)"
    and "e \<in> set (CollectNamespace ord ns since s) \<longleftrightarrow>
           key_ok (entry_triple e) \<and> memory_entry s (entry_triple e) = Some e \<and>
           namespace_name e = ns \<and> since < cversion e"
proof -
  have um: "um_ok (entries s)"
    and k: "\<forall>(k, e) \<in> set (entries s). entry_ok J e \<and> k = store_key (entry_triple e)"
    using assms(1) by (simp_all add: config_inv_def entries_ok_def)
  have "map (store_key \<circ> entry_triple) (map snd (ord (entries s))) = map fst (ord (entries s))"
    using k by (auto simp: traversal_set [OF ord])
  moreover have "distinct (map fst (ord (entries s)))"
    using um traversal_distinct [OF ord, of "entries s"] by (simp add: um_ok_def)
  ultimately have "distinct (map (store_key \<circ> entry_triple) (map snd (ord (entries s))))"
    by (simp only:)
  then have "distinct (map snd (ord (entries s)))"
    by (rule distinct_map [THEN iffD1, THEN conjunct1])
  then show "distinct (CollectNamespace ord ns since s)" by (simp add: CollectNamespace_def)
  have "e \<in> snd ` set (entries s) \<longleftrightarrow> key_ok (entry_triple e) \<and> memory_entry s (entry_triple e) = Some e"
    using k by (force simp: memory_entry_find um_find_in_set [OF um] entry_ok_def)
  then show "e \<in> set (CollectNamespace ord ns since s) \<longleftrightarrow>
           key_ok (entry_triple e) \<and> memory_entry s (entry_triple e) = Some e \<and>
           namespace_name e = ns \<and> since < cversion e"
    by (auto simp: CollectNamespace_def traversal_set [OF ord])
qed

text \<open>
  C2: a configuration read returns the last value published, for plain names. After any sequence of publishes and
  reads on a fresh service, with or without a database, a cache, a config provider and a message
  queue, as long as every namespace, key and environment in a request is plain (no bar and no colon) and every text is UTF-8,
  \<open>GetConfig\<close> of a plain namespace and key returns the entry of the last accepted publish to them
  in the environment \<open>dev\<close>, with the version it was given, and NOT_FOUND if there is none; entries
  of other environments are never returned. Without plain names it is false (\<open>config_key_collision\<close>).
\<close>

theorem config_get_latest:
  assumes "json_laws J" and "\<forall>req \<in> set reqs. config_request_ok J req" and "fresh_backends my re"
    and "traversal ord" and "plain_name ns" and "plain_name key" and "ns \<noteq> []"
  shows "fst (GetConfig J ord now ns key (config_run J reqs (ConfigServiceImpl my re pr mq))) =
    Inr (case latest (publish_log reqs 1) (ns, key, ''dev'') of
           None \<Rightarrow> (status_error NOT_FOUND ''config not found'', None)
         | Some e \<Rightarrow> (status_ok, Some e))"
proof -
  have "key_ok (ns, key, ''dev'')" using assms(5-7) by (simp add: plain_name_def)
  then show ?thesis
    by (simp add: fresh_config_run [OF assms(1-3)]
        GetConfig_reads_table [OF assms(1,4) fresh_config_run(1) [OF assms(1-3)] assms(5-7)])
qed

definition sample_entry :: "string \<Rightarrow> string \<Rightarrow> string \<Rightarrow> config_entry" where
  "sample_entry key v env =
     \<lparr>namespace_name = ''game'', ckey = key, cvalue = v, cversion = 0, environment = env\<rparr>"

definition sample_config_requests :: "config_request list" where
  "sample_config_requests =
     [CPublish sample_scan (sample_entry ''rate'' ''5'' []),
      CGet 3 rev ''game'' ''rate'',
      CPublish sample_scan (sample_entry ''rate'' ''9'' ''prod''),
      CPublish sample_scan (sample_entry ''rate'' ''7'' ''dev''),
      CPublish sample_scan (sample_entry [] ''x'' ''dev'')]"

lemma sample_config_requests_ok: "\<forall>req \<in> set sample_config_requests. config_request_ok sample_json req"
  by (simp add: sample_config_requests_def sample_entry_def publish_ok_def plain_name_def)

lemma sample_config_log:
  "publish_log sample_config_requests 1 =
     [sample_entry ''rate'' ''5'' ''dev''\<lparr>cversion := 1\<rparr>,
      sample_entry ''rate'' ''9'' ''prod''\<lparr>cversion := 2\<rparr>,
      sample_entry ''rate'' ''7'' ''dev''\<lparr>cversion := 3\<rparr>]"
  by code_simp

theorem config_get_latest_witness:
  "fst (GetConfig sample_json rev 9 ''game'' ''rate''
      (config_run sample_json sample_config_requests
        (ConfigServiceImpl (Some mysql_empty) (Some redis_empty) (Some (''e'', no_states)) (Some empty_bus)))) =
   Inr (status_ok, Some (sample_entry ''rate'' ''7'' ''dev''\<lparr>cversion := 3\<rparr>))"
  using config_get_latest [OF sample_json_laws sample_config_requests_ok, of "Some mysql_empty"
      "Some redis_empty" rev "''game''" "''rate''" 9 "Some (''e'', no_states)" "Some empty_bus"]
  by (simp add: sample_config_log fresh_backends_def plain_name_def latest_def entry_triple_def
      sample_entry_def)

text \<open>
  C34: \<open>WatchConfig\<close> misses nothing and repeats nothing, for plain names. After any sequence of requests on a fresh
  service in which every namespace, key and environment is plain (no bar and no colon; else two keys can share a place in the
  table, by \<open>config_key_collision\<close>) and every text UTF-8, the updates it writes for a namespace are, each once, the current entries of the
  namespace in every environment whose version is above the one the watcher knows; it writes one
  response when there are any and none otherwise. \<open>BatchGetConfig\<close> returns the same entries as a
  watch from version \<open>-1\<close>.
\<close>

theorem config_watch_exact:
  assumes "json_laws J" and "\<forall>req \<in> set reqs. config_request_ok J req" and "fresh_backends my re"
    and "traversal ord"
  shows "let s = config_run J reqs (ConfigServiceImpl my re pr mq);
             log = publish_log reqs 1;
             news = {e \<in> set log. latest log (entry_triple e) = Some e \<and> namespace_name e = ns \<and>
                       since < cversion e};
             (st, responses) = WatchConfig ord ns since s
         in st = status_ok \<and>
            (if news = {} then responses = []
             else \<exists>updates. responses = [updates] \<and> distinct updates \<and> set updates = news) \<and>
            snd (BatchGetConfig ord ns s) = concat (snd (WatchConfig ord ns (- 1) s))"
proof -
  define s where "s = config_run J reqs (ConfigServiceImpl my re pr mq)"
  let ?log = "publish_log reqs 1"
  have inv: "config_inv J s" and mem: "key_ok k \<Longrightarrow> memory_entry s k = latest ?log k" for k
    using fresh_config_run [OF assms(1-3)] by (simp_all add: s_def)
  have "e \<in> set (CollectNamespace ord ns since s) \<longleftrightarrow>
      e \<in> set ?log \<and> latest ?log (entry_triple e) = Some e \<and> namespace_name e = ns \<and> since < cversion e" for e
    using CollectNamespace_exact(2) [OF inv assms(4), of e ns since] mem [of "entry_triple e"]
      publish_log_ok [OF assms(1,2), of 1] latest_SomeD [of ?log "entry_triple e" e]
    by (auto simp: entry_ok_def)
  then have eq: "set (CollectNamespace ord ns since s) = {e \<in> set ?log. latest ?log (entry_triple e) = Some e \<and>
      namespace_name e = ns \<and> since < cversion e}" by auto
  show ?thesis
    using CollectNamespace_exact(1) [OF inv assms(4), of ns since]
    unfolding Let_def s_def [symmetric] eq [symmetric] WatchConfig_def BatchGetConfig_def
    by simp
qed

theorem config_watch_exact_witness:
  "let (st, responses) = WatchConfig rev ''game'' 1 (config_run sample_json sample_config_requests
         (ConfigServiceImpl None (Some redis_empty) None None))
   in \<exists>updates. responses = [updates] \<and> distinct updates \<and>
        set updates = {sample_entry ''rate'' ''9'' ''prod''\<lparr>cversion := 2\<rparr>,
                       sample_entry ''rate'' ''7'' ''dev''\<lparr>cversion := 3\<rparr>}"
proof -
  have news: "{e \<in> set (publish_log sample_config_requests 1).
      latest (publish_log sample_config_requests 1) (entry_triple e) = Some e \<and>
      namespace_name e = ''game'' \<and> 1 < cversion e} =
    {sample_entry ''rate'' ''9'' ''prod''\<lparr>cversion := 2\<rparr>, sample_entry ''rate'' ''7'' ''dev''\<lparr>cversion := 3\<rparr>}"
    by (auto simp: sample_config_log latest_def sample_entry_def entry_triple_def)
  show ?thesis
    using config_watch_exact [OF sample_json_laws sample_config_requests_ok, of None "Some redis_empty"
        rev None None "''game''" 1, unfolded Let_def news]
    by (simp add: fresh_backends_def split_beta)
qed

text \<open>
  C33: versions and change messages. With fewer than \<open>2^63\<close> accepted publishes the versions are 1, 2,
  3, ... in the order of publication, whatever versions the requests carried, and the topic
  \<open>config.changed\<close> holds one message for each, in that order, which a subscriber decodes to the
  entry with its version and environment.
\<close>

theorem config_changes_published:
  assumes "json_laws J" and "\<forall>req \<in> set reqs. config_request_ok J req" and "fresh_backends my re"
    and "length (publish_log reqs 1) < 2 ^ 63"
  shows "let s = config_run J reqs (ConfigServiceImpl my re pr (Some empty_bus));
             log = publish_log reqs 1
         in map cversion log = map int [1..<Suc (length log)] \<and>
            map (DeserializeEntry J) (changes_queued s) = map (\<lambda>e. Inr (Some e)) log"
proof -
  define s0 where "s0 = ConfigServiceImpl my re pr (Some empty_bus)"
  let ?log = "publish_log reqs 1"
  have "cs_producer s0 \<noteq> None" and "changes_queued s0 = []"
    by (simp_all add: s0_def ConfigServiceImpl_def changes_queued_def bus_queue_def empty_bus_def)
  moreover have "next_version s0 = 1" by (simp add: s0_def)
  ultimately have "changes_queued (config_run J reqs s0) = change_messages J ?log"
    using config_run_log [OF assms(1,2) fresh_config_inv [OF assms(3)], of pr "Some empty_bus"]
    by (simp add: s0_def del: split_paired_All)
  moreover have "DeserializeEntry J (projr (SerializeEntry J e)) = Inr (Some e)" if "e \<in> set ?log" for e
    using entry_document_roundtrip [OF assms(1), of e] publish_log_ok [OF assms(1,2), of 1] that
    by (metis sum.sel(2))
  moreover have "map cversion ?log = map int [1..<1 + length ?log]"
    using publish_log_versions [of 1 reqs] assms(4) by simp
  ultimately show ?thesis by (simp add: s0_def change_messages_def)
qed

theorem config_changes_published_witness:
  "let s = config_run sample_json sample_config_requests (ConfigServiceImpl None None None (Some empty_bus))
   in map (DeserializeEntry sample_json) (changes_queued s) =
      [Inr (Some (sample_entry ''rate'' ''5'' ''dev''\<lparr>cversion := 1\<rparr>)),
       Inr (Some (sample_entry ''rate'' ''9'' ''prod''\<lparr>cversion := 2\<rparr>)),
       Inr (Some (sample_entry ''rate'' ''7'' ''dev''\<lparr>cversion := 3\<rparr>))]"
  using config_changes_published [OF sample_json_laws sample_config_requests_ok, of None None None,
      unfolded Let_def sample_config_log]
  by (simp add: fresh_backends_def)

text \<open>
  The separators are not escaped. Where a namespace contains a bar, two different pairs of a
  namespace and a key share one entry of the table: after publishing under \<open>a\<close> the key \<open>b|c\<close>, a
  service without a cache and a database answers \<open>GetConfig\<close> of namespace \<open>a|b\<close> and key \<open>c\<close>, to which
  nothing was ever published, with that entry.
\<close>

theorem config_key_collision:
  assumes "namespace_name request = a" and "ckey request = b @ ''|'' @ c" and "a \<noteq> []"
    and "environment request = []"
  shows "let (r, s) = PublishConfig J sc request (ConfigServiceImpl None None None None)
         in r = Inr (status_ok, Some 1) \<and>
            (\<exists>e. fst (GetConfig J ord now (a @ ''|'' @ b) c s) = Inr (status_ok, Some e) \<and>
               namespace_name e = a \<and> cvalue e = cvalue request)"
  using assms
  by (simp add: PublishConfig_def ConfigServiceImpl_def publish_memory_def publish_mysql_def
      publish_redis_def publish_etcd_def publish_mq_def GetConfig_def FindEntry_def layered_find_def
      cached_entry_def stored_entry_def memory_entry_def BuildStoreKey_def DefaultEnv_def Let_def)

theorem config_key_collision_witness:
  "let (r, s) = PublishConfig sample_json sample_scan
         \<lparr>namespace_name = ''a'', ckey = ''b|c'', cvalue = ''v'', cversion = 0, environment = []\<rparr>
         (ConfigServiceImpl None None None None)
   in r = Inr (status_ok, Some 1) \<and>
      (\<exists>e. fst (GetConfig sample_json rev 9 ''a|b'' ''c'' s) = Inr (status_ok, Some e) \<and>
         namespace_name e = ''a'' \<and> cvalue e = ''v'')"
  using config_key_collision [of "\<lparr>namespace_name = ''a'', ckey = ''b|c'', cvalue = ''v'', cversion = 0,
      environment = []\<rparr>" "''a''" "''b''" "''c''" sample_json sample_scan rev 9]
  by (simp add: split_beta)

end
