(* ===== verification/Game_Service.thy ===== *)
theory Game_Service
  imports Redis_Client External_Apis
begin

text \<open>
  \<open>services/game_service\<close>: rooms with a capacity, created and joined. Both RPCs take the service's
  mutex for their step on the rooms. The members of a room are an \<open>unordered_set\<close>, a set here; its
  size is compared as an \<open>int\<close>, which is exact as long as it stays below the capacity, itself an
  \<open>int32\<close>.
\<close>

record room_state =
  room_name :: string
  max_players :: int
  members :: "string set"

record game_service =
  gs_redis :: "redis_backend option"
  rooms :: "string \<rightharpoonup> room_state"
  next_room_id :: "64 word"

definition GameServiceImpl :: "redis_backend option \<Rightarrow> game_service" where
  "GameServiceImpl re = \<lparr>gs_redis = re, rooms = (\<lambda>_. None), next_room_id = 1\<rparr>"

definition BuildRoomCacheKey :: "string \<Rightarrow> string" where
  "BuildRoomCacheKey i = ''room:'' @ i"

definition room_id_of :: "64 word \<Rightarrow> string" where
  "room_id_of n = ''room_'' @ to_string (sint n)"

definition room_payload :: "'j json_api \<Rightarrow> string \<Rightarrow> room_state \<Rightarrow> exn + string" where
  "room_payload J i state =
     json_dump J (json_object J
       [(''room_id'', json_string J i),
        (''room_name'', json_string J (room_name state)),
        (''max_players'', json_int J (max_players state)),
        (''members'', json_array J [])])"

definition CreateRoom :: "'j json_api \<Rightarrow> string \<Rightarrow> int \<Rightarrow> game_service \<Rightarrow>
    (exn + grpc_status \<times> string) \<times> game_service" where
  "CreateRoom J name players s =
     (if name = [] \<or> players \<le> 0 then
        (Inr (status_error INVALID_ARGUMENT ''room_name and max_players are required'', []), s)
      else
        (let i = room_id_of (next_room_id s);
             state = \<lparr>room_name = name, max_players = players, members = {}\<rparr>;
             s1 = s\<lparr>next_room_id := next_room_id s + 1\<rparr>;
             s2 = s1\<lparr>rooms := (rooms s1)(i \<mapsto> state)\<rparr>
         in case gs_redis s2 of
              None \<Rightarrow> (Inr (status_ok, i), s2)
            | Some r \<Rightarrow>
                (case room_payload J i state of
                   Inl e \<Rightarrow> (Inl e, s2)
                 | Inr t \<Rightarrow>
                     (Inr (status_ok, i),
                      s2\<lparr>gs_redis := Some (snd (Set (BuildRoomCacheKey i) t r))\<rparr>))))"

definition JoinRoom :: "string \<Rightarrow> string \<Rightarrow> game_service \<Rightarrow> (grpc_status \<times> bool) \<times> game_service" where
  "JoinRoom i user s =
     (case rooms s i of
        None \<Rightarrow> ((status_error NOT_FOUND ''room not found'', False), s)
      | Some room \<Rightarrow>
          (if int (card (members room)) \<ge> max_players room then
             ((status_error FAILED_PRECONDITION ''room full'', False), s)
           else
             ((status_ok, True),
              s\<lparr>rooms := (rooms s)(i \<mapsto> room\<lparr>members := insert user (members room)\<rparr>)\<rparr>)))"

section \<open>Runs\<close>

datatype game_request =
    GCreate string int
  | GJoin string string

datatype game_reply =
    GCreated grpc_status string
  | GJoined grpc_status bool
  | GThrew exn

fun game_step :: "'j json_api \<Rightarrow> game_request \<Rightarrow> game_service \<Rightarrow> game_reply \<times> game_service" where
  "game_step J (GCreate name players) s =
     (let (r, s') = CreateRoom J name players s
      in (case r of Inl e \<Rightarrow> GThrew e | Inr (st, i) \<Rightarrow> GCreated st i, s'))"
| "game_step J (GJoin i user) s =
     (let ((st, ok), s') = JoinRoom i user s in (GJoined st ok, s'))"

fun game_run :: "'j json_api \<Rightarrow> game_request list \<Rightarrow> game_service \<Rightarrow> game_reply list \<times> game_service" where
  "game_run J [] s = ([], s)"
| "game_run J (req # reqs) s =
     (let (rep, s1) = game_step J req s; (reps, s2) = game_run J reqs s1 in (rep # reps, s2))"

definition joined :: "string \<Rightarrow> game_request list \<Rightarrow> game_reply list \<Rightarrow> string set" where
  "joined i reqs reps = {u. (GJoin i u, GJoined status_ok True) \<in> set (zip reqs reps)}"

inductive game_reachable :: "'j json_api \<Rightarrow> game_service \<Rightarrow> bool" for J :: "'j json_api" where
  fresh: "game_reachable J (GameServiceImpl re)"
| request: "game_reachable J s \<Longrightarrow> game_reachable J (snd (game_step J req s))"

lemma joined_Nil [simp]: "joined i [] [] = {}"
  by (simp add: joined_def)

lemma joined_Cons:
  "joined i (req # reqs) (rep # reps) =
     {u. req = GJoin i u \<and> rep = GJoined status_ok True} \<union> joined i reqs reps"
  by (auto simp: joined_def)

lemma room_id_of_inj: "room_id_of m = room_id_of n \<longleftrightarrow> m = n"
  by (simp add: room_id_of_def) (metis signed_word_eqI)

lemma CreateRoom_rooms:
  "rooms (snd (CreateRoom J name players s)) =
     (if name = [] \<or> players \<le> 0 then rooms s
      else (rooms s)(room_id_of (next_room_id s) \<mapsto> \<lparr>room_name = name, max_players = players, members = {}\<rparr>))"
  "next_room_id (snd (CreateRoom J name players s)) =
     (if name = [] \<or> players \<le> 0 then next_room_id s else next_room_id s + 1)"
  by (simp_all add: CreateRoom_def Let_def split: option.split sum.split)

lemma JoinRoom_rooms:
  "rooms (snd (JoinRoom i user s)) =
     (if snd (fst (JoinRoom i user s)) then
        (rooms s)(i \<mapsto> the (rooms s i)\<lparr>members := insert user (members (the (rooms s i)))\<rparr>)
      else rooms s)"
  "next_room_id (snd (JoinRoom i user s)) = next_room_id s"
  "gs_redis (snd (JoinRoom i user s)) = gs_redis s"
  "snd (fst (JoinRoom i user s)) \<longleftrightarrow> fst (fst (JoinRoom i user s)) = status_ok"
  "snd (fst (JoinRoom i user s)) \<longleftrightarrow>
     (\<exists>room. rooms s i = Some room \<and> int (card (members room)) < max_players room)"
  by (auto simp: JoinRoom_def status_ok_def status_error_def split: option.split)

lemma JoinRoom_cases:
  obtains (joined) room where "rooms s i = Some room" "int (card (members room)) < max_players room"
    "JoinRoom i user s = ((status_ok, True),
       s\<lparr>rooms := (rooms s)(i \<mapsto> room\<lparr>members := insert user (members room)\<rparr>)\<rparr>)"
  | (refused) st where "st \<noteq> status_ok" "JoinRoom i user s = ((st, False), s)"
proof (cases "rooms s i")
  case None
  then show thesis
    by (intro refused [of "status_error NOT_FOUND ''room not found''"])
      (simp_all add: JoinRoom_def status_ok_def status_error_def)
next
  case (Some room)
  show thesis
  proof (cases "int (card (members room)) \<ge> max_players room")
    case True
    with Some show thesis
      by (intro refused [of "status_error FAILED_PRECONDITION ''room full''"])
        (simp_all add: JoinRoom_def status_ok_def status_error_def)
  next
    case False
    with Some show thesis by (intro joined) (simp_all add: JoinRoom_def)
  qed
qed

definition room_ok :: "room_state \<Rightarrow> bool" where
  "room_ok room \<longleftrightarrow>
     room_name room \<noteq> [] \<and> 0 < max_players room \<and> finite (members room) \<and>
     int (card (members room)) \<le> max_players room"

lemma room_ok_step:
  assumes "\<forall>i room. rooms s i = Some room \<longrightarrow> room_ok room"
  shows "\<forall>i room. rooms (snd (game_step J req s)) i = Some room \<longrightarrow> room_ok room"
proof (cases req)
  case (GCreate name players)
  then show ?thesis
    using assms by (auto simp: split_beta CreateRoom_rooms room_ok_def)
next
  case (GJoin i user)
  have "room_ok (room\<lparr>members := insert user (members room)\<rparr>)"
    if "rooms s i = Some room" "int (card (members room)) < max_players room" for room
    using that assms by (auto simp: room_ok_def card_insert_if)
  then show ?thesis
    using assms by (auto simp: GJoin split_beta JoinRoom_rooms(1,5))
qed

text \<open>
  No room is ever overfull. In every state the service can reach, by any interleaving of
  \<open>CreateRoom\<close> and \<open>JoinRoom\<close> calls, valid or not, every room has a name, a positive capacity and
  at most so many members.
\<close>

theorem room_capacity:
  assumes "game_reachable J s" and "rooms s i = Some room"
  shows "room_ok room"
proof -
  have "\<forall>i room. rooms s i = Some room \<longrightarrow> room_ok room"
    using assms(1)
  proof induction
    case (fresh re)
    then show ?case by (simp add: GameServiceImpl_def)
  next
    case (request s req)
    show ?case by (rule room_ok_step [OF request.IH])
  qed
  with assms(2) show ?thesis by blast
qed

theorem room_capacity_witness:
  "room_ok \<lparr>room_name = ''arena'', max_players = 2, members = {}\<rparr>"
  by (rule room_capacity [OF game_reachable.request [OF game_reachable.fresh [of sample_json None],
        of "GCreate ''arena'' 2"], of "room_id_of 1"])
    (simp add: split_beta CreateRoom_rooms GameServiceImpl_def)

lemma game_run_members:
  assumes "\<forall>k < length reqs. rooms s (room_id_of (next_room_id s + of_nat k)) = None"
    and "length reqs < 2 ^ 64" and "rooms (snd (game_run J reqs s)) i = Some room"
  shows "members room =
    (case rooms s i of None \<Rightarrow> {} | Some r \<Rightarrow> members r) \<union> joined i reqs (fst (game_run J reqs s))"
  using assms
proof (induction reqs arbitrary: s)
  case Nil
  then show ?case by simp
next
  case (Cons req reqs)
  let ?s1 = "snd (game_step J req s)" and ?n = "next_room_id s"
  have run: "fst (game_run J (req # reqs) s) = fst (game_step J req s) # fst (game_run J reqs ?s1)"
    "snd (game_run J (req # reqs) s) = snd (game_run J reqs ?s1)"
    by (simp_all add: split_beta Let_def)
  have later: "rooms s (room_id_of (?n + 1 + of_nat k)) = None" if "k < length reqs" for k
    using Cons.prems(1) [rule_format, of "Suc k"] that by (simp add: add.assoc)
  have ahead: "?n + 1 + of_nat k \<noteq> ?n" if "k < length reqs" for k
  proof -
    have "word_of_nat (Suc k) \<noteq> (0 :: 64 word)"
      using that Cons.prems(2) by (simp add: word_of_nat_eq_0_iff nat_dvd_not_less del: of_nat_Suc)
    then show ?thesis by (simp add: add.assoc)
  qed
  have fresh: "\<forall>k < length reqs. rooms ?s1 (room_id_of (next_room_id ?s1 + of_nat k)) = None"
  proof (cases req)
    case (GCreate name players)
    then show ?thesis
      using Cons.prems(1) later ahead by (auto simp: split_beta CreateRoom_rooms room_id_of_inj)
  next
    case (GJoin j user)
    then show ?thesis
      using Cons.prems(1) by (auto simp: split_beta JoinRoom_rooms(1,2,5))
  qed
  have step: "(case rooms ?s1 i of None \<Rightarrow> {} | Some r \<Rightarrow> members r) =
      (case rooms s i of None \<Rightarrow> {} | Some r \<Rightarrow> members r) \<union>
      {u. req = GJoin i u \<and> fst (game_step J req s) = GJoined status_ok True}"
  proof (cases req)
    case (GCreate name players)
    then show ?thesis
      using Cons.prems(1) [rule_format, of 0] by (auto simp: split_beta CreateRoom_rooms)
  next
    case (GJoin j user)
    show ?thesis
      by (rule JoinRoom_cases [of s j user]) (auto simp: GJoin split: option.split)
  qed
  show ?case
    using Cons.IH [OF fresh] Cons.prems(2,3) step unfolding run joined_Cons by (simp add: Un_assoc)
qed

text \<open>
  C19: a room's members are exactly the users whose join was accepted. In any sequence of fewer than
  \<open>2^64\<close> calls on a fresh service, whatever rooms they create, the members of a room at the end are
  the users that some \<open>JoinRoom\<close> on it answered with success; a refused join leaves no trace.
\<close>

theorem room_members_exact:
  assumes "length reqs < 2 ^ 64"
    and "rooms (snd (game_run J reqs (GameServiceImpl re))) i = Some room"
  shows "members room = joined i reqs (fst (game_run J reqs (GameServiceImpl re)))"
  using game_run_members [of reqs "GameServiceImpl re", OF _ assms]
  by (simp add: GameServiceImpl_def)

lemma room_id_one: "room_id_of 1 = ''room_1''"
  by code_simp

theorem room_members_exact_witness:
  "joined ''room_1'' [GCreate ''arena'' 1, GJoin ''room_1'' ''ann'', GJoin ''room_1'' ''bob'']
     (fst (game_run sample_json [GCreate ''arena'' 1, GJoin ''room_1'' ''ann'', GJoin ''room_1'' ''bob'']
        (GameServiceImpl None))) = {''ann''}"
proof -
  have room: "rooms (snd (game_run sample_json
      [GCreate ''arena'' 1, GJoin ''room_1'' ''ann'', GJoin ''room_1'' ''bob''] (GameServiceImpl None))) ''room_1'' =
    Some \<lparr>room_name = ''arena'', max_players = 1, members = {''ann''}\<rparr>"
    by (simp add: CreateRoom_def JoinRoom_def GameServiceImpl_def room_id_one Let_def)
  show ?thesis
    using room_members_exact [OF _ room] by (simp del: game_run.simps)
qed

text \<open>
  The cached room goes stale. \<open>JoinRoom\<close> never writes to Redis: after any number of joins the
  cached document of every room is the one its creation wrote, with an empty list of members.
\<close>

theorem room_cache_stale:
  "gs_redis (snd (game_run J (map (\<lambda>(i, u). GJoin i u) joins) s)) = gs_redis s"
proof (induction joins arbitrary: s)
  case Nil
  then show ?case by simp
next
  case (Cons j joins)
  then show ?case by (cases j) (simp add: split_beta Let_def JoinRoom_rooms(3))
qed

end
