(* ===== verification/Base64_Url.thy ===== *)
theory Base64_Url
  imports Std_Text
begin

text \<open>
  The base64url routines of \<open>gateways/access_gateway/auth/auth_middleware.cpp\<close>. Bytes are
  characters, the 24-bit groups are 32-bit words built with the shifts and masks of the code, and
  \<open>std::nullopt\<close> is \<open>None\<close>. Encoding and decoding agree exactly on the texts whose length is a
  multiple of three: the decoder's test for a bad character is on the wrong side, so that it
  refuses padding and lets bad characters through.
\<close>

unbundle bit_operations_syntax

definition kTable :: string where
  "kTable = ''ABCDEFGHIJKLMNOPQRSTUVWXYZabcdefghijklmnopqrstuvwxyz0123456789-_''"

definition octet :: "char \<Rightarrow> 32 word" where
  "octet c = of_nat (of_char c)"

definition table_char :: "32 word \<Rightarrow> char" where
  "table_char w = kTable ! unat (w AND 63)"

definition triple :: "32 word \<Rightarrow> 32 word \<Rightarrow> 32 word \<Rightarrow> 32 word" where
  "triple a b c = (push_bit 16 a OR push_bit 8 b) OR c"

text \<open>The loop of \<open>Base64UrlEncode\<close>, three bytes a turn; the last turn may have fewer.\<close>

fun Base64UrlEncode :: "string \<Rightarrow> string" where
  "Base64UrlEncode [] = []"
| "Base64UrlEncode [x] =
     (let t = triple (octet x) 0 0
      in [table_char (drop_bit 18 t), table_char (drop_bit 12 t)])"
| "Base64UrlEncode [x, y] =
     (let t = triple (octet x) (octet y) 0
      in [table_char (drop_bit 18 t), table_char (drop_bit 12 t), table_char (drop_bit 6 t)])"
| "Base64UrlEncode (x # y # z # rest) =
     (let t = triple (octet x) (octet y) (octet z)
      in [table_char (drop_bit 18 t), table_char (drop_bit 12 t), table_char (drop_bit 6 t),
          table_char t] @ Base64UrlEncode rest)"

definition DecodeBase64UrlChar :: "char \<Rightarrow> int" where
  "DecodeBase64UrlChar ch =
     (let n = (of_char ch :: int)
      in if 65 \<le> n \<and> n \<le> 90 then n - 65
         else if 97 \<le> n \<and> n \<le> 122 then n - 97 + 26
         else if 48 \<le> n \<and> n \<le> 57 then n - 48 + 52
         else if ch = CHR ''-'' \<or> ch = CHR ''+'' then 62
         else if ch = CHR ''_'' \<or> ch = CHR ''/'' then 63
         else - 1)"

text \<open>\<open>while (b64.size() % 4 != 0) b64.push_back('=')\<close>\<close>

function pad_loop :: "string \<Rightarrow> string" where
  "pad_loop b64 = (if length b64 mod 4 \<noteq> 0 then pad_loop (b64 @ ''='') else b64)"
  by auto
termination
  by (relation "measure (\<lambda>s. 3 * length s mod 4)") (auto, presburger)

declare pad_loop.simps [simp del]

definition byte_of :: "32 word \<Rightarrow> char" where
  "byte_of w = char_of (unat (w AND 255))"

definition quad_value :: "char \<Rightarrow> int" where
  "quad_value ch = (if ch = CHR ''='' then - 2 else DecodeBase64UrlChar ch)"

text \<open>One turn of the loop of \<open>Base64UrlDecode\<close>: the bytes of a group of four characters.\<close>

definition decode_group :: "char \<Rightarrow> char \<Rightarrow> char \<Rightarrow> char \<Rightarrow> string option" where
  "decode_group p q r s =
     (let a = DecodeBase64UrlChar p;
          b = DecodeBase64UrlChar q;
          c = quad_value r;
          d = quad_value s
      in if a < 0 \<or> b < 0 \<or> c < - 1 \<or> d < - 1 then None
         else
           (let t = ((push_bit 18 (of_int a) OR push_bit 12 (of_int b)) OR
                     push_bit 6 (if c \<ge> 0 then of_int c else 0)) OR
                    (if d \<ge> 0 then of_int d else 0)
            in Some (byte_of (drop_bit 16 t) #
                     (if r \<noteq> CHR ''='' then [byte_of (drop_bit 8 t)] else []) @
                     (if s \<noteq> CHR ''='' then [byte_of t] else []))))"

fun decode_loop :: "string \<Rightarrow> string \<Rightarrow> string option" where
  "decode_loop (p # q # r # s # rest) out =
     (case decode_group p q r s of
        None \<Rightarrow> None
      | Some bytes \<Rightarrow> decode_loop rest (out @ bytes))"
| "decode_loop _ out = Some out"

definition Base64UrlDecode :: "string \<Rightarrow> string option" where
  "Base64UrlDecode input = decode_loop (pad_loop input) []"

section \<open>One group\<close>

lemma octet_take_bit: "take_bit 8 (octet c) = octet c"
proof -
  have "take_bit 8 (of_char c :: nat) = of_char c"
    by (simp add: take_bit_eq_mod)
  then show ?thesis by (metis octet_def take_bit_of_nat)
qed

lemma octet_bit: "bit (octet c) n \<Longrightarrow> n < 8"
  using octet_take_bit [of c] by (metis bit_take_bit_iff)

lemma octet_0_bit [simp]: "8 \<le> n \<Longrightarrow> \<not> bit (octet c) n"
  using octet_bit [of c n] by linarith

lemma byte_of_octet: "w AND 255 = octet c \<Longrightarrow> byte_of w = c"
proof -
  have "of_char c mod 4294967296 = (of_char c :: nat)"
    using nat_of_char_less_256 [of c] by (intro mod_less) linarith
  then show "w AND 255 = octet c \<Longrightarrow> byte_of w = c"
    by (simp add: byte_of_def octet_def unat_of_nat)
qed

lemma decode_table_all: "list_all (\<lambda>i. DecodeBase64UrlChar (kTable ! i) = int i \<and> kTable ! i \<noteq> CHR ''='') [0..<64]"
  by code_simp

lemma decode_table:
  assumes "i < 64"
  shows "DecodeBase64UrlChar (kTable ! i) = int i" and "kTable ! i \<noteq> CHR ''=''"
proof -
  have "i \<in> set [0..<64]" using assms by simp
  with decode_table_all show "DecodeBase64UrlChar (kTable ! i) = int i" and "kTable ! i \<noteq> CHR ''=''"
    by (simp_all only: list_all_iff Ball_def simp_thms)
qed

lemma and_mask:
  "w AND 63 = take_bit 6 (w :: 32 word)" "w AND 255 = take_bit 8 (w :: 32 word)"
  by (simp_all add: take_bit_eq_mask mask_eq_exp_minus_1)

lemma sextet_less: "unat (w AND 63 :: 32 word) < 64"
  using take_bit_nat_less_exp [of 6 "unat w"] by (simp add: and_mask unsigned_take_bit_eq)

lemma quad_table:
  "DecodeBase64UrlChar (table_char w) = int (unat (w AND 63))"
  "quad_value (table_char w) = int (unat (w AND 63))"
  "table_char w \<noteq> CHR ''=''"
  using decode_table [OF sextet_less, of w] by (simp_all add: table_char_def quad_value_def)

lemma uint_no_sign [simp]: "\<not> uint (w :: 32 word) < - 1" "- 1 \<le> uint (w :: 32 word)"
  using uint_ge_0 [of w] by linarith+

lemma of_int_unat: "of_int (int (unat (w :: 32 word))) = w"
  by simp

text \<open>Four sextets make the word they were cut from, if it has 24 bits.\<close>

lemma join_sextets:
  fixes t :: "32 word"
  assumes "\<And>n. bit t n \<Longrightarrow> n < 24"
  shows "((push_bit 18 (drop_bit 18 t AND 63) OR push_bit 12 (drop_bit 12 t AND 63)) OR
          push_bit 6 (drop_bit 6 t AND 63)) OR (t AND 63) = t"
proof (rule bit_eqI)
  fix n
  assume "possible_bit TYPE(32 word) n"
  then have "n < 32" by simp
  have "(18 \<le> n \<and> n < 24 \<or> 12 \<le> n \<and> n < 18 \<or> 6 \<le> n \<and> n < 12 \<or> n < 6) \<longleftrightarrow> n < 24" by linarith
  then show "bit (((push_bit 18 (drop_bit 18 t AND 63) OR push_bit 12 (drop_bit 12 t AND 63)) OR
          push_bit 6 (drop_bit 6 t AND 63)) OR (t AND 63)) n = bit t n"
    using assms [of n] \<open>n < 32\<close>
    unfolding and_mask
    by (auto simp: bit_or_iff bit_push_bit_iff bit_drop_bit_eq bit_take_bit_iff)
qed

lemma triple_bits:
  "bit (triple (octet x) (octet y) (octet z)) n \<longleftrightarrow>
     n < 24 \<and> (if 16 \<le> n then bit (octet x) (n - 16)
               else if 8 \<le> n then bit (octet y) (n - 8) else bit (octet z) n)"
  using octet_bit [of x "n - 16"] octet_bit [of y "n - 8"] octet_bit [of z n]
  by (auto simp: triple_def bit_or_iff bit_push_bit_iff)

lemma triple_bytes:
  "byte_of (drop_bit 16 (triple (octet x) (octet y) (octet z))) = x"
  "byte_of (drop_bit 8 (triple (octet x) (octet y) (octet z))) = y"
  "byte_of (triple (octet x) (octet y) (octet z)) = z"
  by (rule byte_of_octet, rule bit_eqI, auto simp: and_mask bit_take_bit_iff bit_drop_bit_eq triple_bits dest: octet_bit)+

section \<open>Whole texts\<close>

lemma pad_loop_pads: "length s mod 4 \<noteq> 0 \<Longrightarrow> \<exists>t. pad_loop s = s @ t @ ''=''"
proof (induction s rule: pad_loop.induct)
  case (1 s)
  show ?case
  proof (cases "length (s @ ''='') mod 4 = 0")
    case True
    with 1(2) show ?thesis by (simp add: pad_loop.simps)
  next
    case False
    with 1 obtain t where "pad_loop (s @ ''='') = (s @ ''='') @ t @ ''=''" by auto
    with 1(2) show ?thesis by (subst pad_loop.simps) simp
  qed
qed

lemma pad_loop_id: "length s mod 4 = 0 \<Longrightarrow> pad_loop s = s"
  by (simp add: pad_loop.simps)

lemma length_pad_loop: "length (pad_loop s) mod 4 = 0"
  by (induction s rule: pad_loop.induct) (subst pad_loop.simps, simp)

text \<open>A text that ends in a padding character is refused at its last group.\<close>

lemma decode_group_padding: "decode_group p q r (CHR ''='') = None"
  by (simp add: decode_group_def quad_value_def Let_def)

lemma decode_loop_padding:
  "length s mod 4 = 0 \<Longrightarrow> s \<noteq> [] \<Longrightarrow> last s = CHR ''='' \<Longrightarrow> decode_loop s out = None"
proof (induction s out rule: decode_loop.induct)
  case (1 p q r s rest out)
  then show ?case by (cases "rest = []") (simp_all add: decode_group_padding split: option.split)
qed auto

lemma Base64UrlDecode_unpadded: "length s mod 4 \<noteq> 0 \<Longrightarrow> Base64UrlDecode s = None"
proof -
  assume "length s mod 4 \<noteq> 0"
  then obtain t where t: "pad_loop s = s @ t @ ''=''" using pad_loop_pads by blast
  then have "pad_loop s \<noteq> []" and "last (pad_loop s) = CHR ''=''" by simp_all
  then show ?thesis
    by (simp add: Base64UrlDecode_def decode_loop_padding length_pad_loop)
qed

lemma decode_group_table:
  assumes "\<And>n. bit t n \<Longrightarrow> n < 24"
  shows "decode_group (table_char (drop_bit 18 t)) (table_char (drop_bit 12 t))
      (table_char (drop_bit 6 t)) (table_char t) =
    Some [byte_of (drop_bit 16 t), byte_of (drop_bit 8 t), byte_of t]"
proof -
  let ?n = "\<lambda>w. int (unat (w AND 63 :: 32 word))"
  have "((push_bit 18 (of_int (?n (drop_bit 18 t))) OR push_bit 12 (of_int (?n (drop_bit 12 t)))) OR
      push_bit 6 (of_int (?n (drop_bit 6 t)))) OR of_int (?n t) = t"
    unfolding of_int_unat by (rule join_sextets [OF assms])
  then show ?thesis
    unfolding decode_group_def quad_table Let_def
    by (simp only: of_nat_0_le_iff if_True quad_table not_less_zero simp_thms if_False append_Nil append_Cons)
       (simp add: not_less)
qed

lemma decode_encode_groups:
  "length s mod 3 = 0 \<Longrightarrow> decode_loop (Base64UrlEncode s) out = Some (out @ s)"
proof (induction s arbitrary: out rule: Base64UrlEncode.induct)
  case (4 x y z rest)
  have t: "\<And>n. bit (triple (octet x) (octet y) (octet z)) n \<Longrightarrow> n < 24"
    by (simp add: triple_bits)
  show ?case
    using 4 decode_group_table [OF t] by (simp add: Let_def triple_bytes)
qed (simp_all add: Let_def)

lemma length_Base64UrlEncode:
  "length (Base64UrlEncode s) mod 4 = (if length s mod 3 = 0 then 0 else length s mod 3 + 1)"
proof (induction s rule: Base64UrlEncode.induct)
  case (4 x y z rest)
  then show ?case
    using mod_less_divisor [of 3 "length rest"] by (simp add: Let_def mod_Suc) linarith
qed (simp_all add: Let_def)

text \<open>
  C28: what the encoder writes, the decoder reads back if and only if the length is a multiple of
  three; every other text is refused, because the decoder takes the padding it adds for a bad
  character.
\<close>

theorem base64url_roundtrip:
  "Base64UrlDecode (Base64UrlEncode s) = (if length s mod 3 = 0 then Some s else None)"
proof (cases "length s mod 3 = 0")
  case True
  then show ?thesis
    by (simp add: Base64UrlDecode_def pad_loop_id length_Base64UrlEncode decode_encode_groups)
next
  case False
  then show ?thesis
    using Base64UrlDecode_unpadded [of "Base64UrlEncode s"] length_Base64UrlEncode [of s] by simp
qed

interpretation base64url: codec "\<lambda>s. length s mod 3 = 0" Base64UrlEncode Base64UrlDecode
  by unfold_locales
    (simp add: Base64UrlDecode_def pad_loop_id length_Base64UrlEncode decode_encode_groups)

lemma pad_loop_step: "length s mod 4 \<noteq> 0 \<Longrightarrow> pad_loop s = pad_loop (s @ ''='')"
  by (subst pad_loop.simps) simp

lemma pad_loop_group: "pad_loop (p # q # r # s # rest) = p # q # r # s # pad_loop rest"
proof (induction rest rule: pad_loop.induct)
  case (1 rest)
  have len: "length (p # q # r # s # rest) mod 4 = length rest mod 4" by (simp add: mod_add_self1)
  show ?case
  proof (cases "length rest mod 4 = 0")
    case True
    with len show ?thesis by (metis pad_loop_id)
  next
    case False
    with len 1 show ?thesis by (metis append_Cons pad_loop_step)
  qed
qed

lemma decode_group_junk:
  assumes "DecodeBase64UrlChar c = - 1" and "c \<noteq> CHR ''=''"
  shows "decode_group p q c d = decode_group p q (CHR ''A'') d"
    and "decode_group p q d c = decode_group p q d (CHR ''A'')"
proof -
  have q: "quad_value c = - 1" "quad_value (CHR ''A'') = 0"
    using assms by (simp_all add: quad_value_def) (simp add: DecodeBase64UrlChar_def)
  have "CHR ''A'' \<noteq> CHR ''=''" by simp
  with q assms(2) show "decode_group p q c d = decode_group p q (CHR ''A'') d"
    and "decode_group p q d c = decode_group p q d (CHR ''A'')"
    unfolding decode_group_def Let_def by simp_all
qed

text \<open>
  Characters outside the alphabet get through. In the third and in the fourth place of a group
  a character that is neither in the alphabet nor the padding is read as the letter \<open>A\<close>, so that
  different texts decode to the same bytes.
\<close>

theorem base64url_junk_accepted:
  assumes "DecodeBase64UrlChar c = - 1" and "c \<noteq> CHR ''=''"
  shows "Base64UrlDecode ([p, q, c, d] @ s) = Base64UrlDecode ([p, q, CHR ''A'', d] @ s) \<and>
    Base64UrlDecode ([p, q, d, c] @ s) = Base64UrlDecode ([p, q, d, CHR ''A''] @ s)"
  by (simp add: Base64UrlDecode_def pad_loop_group decode_group_junk [OF assms])

theorem base64url_junk_accepted_witness:
  "Base64UrlDecode ''YW!j'' = Base64UrlDecode ''YWAj''"
  using base64url_junk_accepted [of "CHR ''!''" "CHR ''Y''" "CHR ''W''" "CHR ''j''" "[]"]
  by (simp add: DecodeBase64UrlChar_def)

end
