(* ===== verification/Auth_Middleware.thy ===== *)
theory Auth_Middleware
  imports Base64_Url Request_Context External_Apis
begin

text \<open>
  \<open>gateways/access_gateway/auth\<close>: the token check. The JSON library is the argument \<open>J\<close>,
  OpenSSL's HMAC with SHA-256 the argument \<open>hmac\<close> from a key and a text to the digest, and
  \<open>std::time\<close> the argument \<open>now\<close>. \<open>Inr None\<close> is the refusal of the code, \<open>Inl\<close> an exception that
  leaves \<open>Authenticate\<close>.
\<close>

record auth_options =
  jwt_secret :: string
  jwt_issuer :: string
  jwt_audience :: string
  allow_legacy_token :: bool

definition default_auth_options :: auth_options where
  "default_auth_options =
     \<lparr>jwt_secret = ''dev-secret'', jwt_issuer = [], jwt_audience = [], allow_legacy_token = True\<rparr>"

definition kLegacyDevToken :: string where
  "kLegacyDevToken = ''dev-token''"

definition kJwtHs256 :: string where
  "kJwtHs256 = ''HS256''"

section \<open>Claims\<close>

definition DecodeJwtJsonPart :: "'j json_api \<Rightarrow> string \<Rightarrow> 'j option" where
  "DecodeJwtJsonPart J part =
     (case Base64UrlDecode part of
        None \<Rightarrow> None
      | Some decoded \<Rightarrow>
          (case json_parse J decoded of
             None \<Rightarrow> None
           | Some json \<Rightarrow> if json_is_object J json then Some json else None))"

definition ConstantTimeEqual :: "string \<Rightarrow> string \<Rightarrow> bool" where
  "ConstantTimeEqual lhs rhs = (if length lhs \<noteq> length rhs then False else lhs = rhs)"

definition MatchAudience :: "'j json_api \<Rightarrow> 'j \<Rightarrow> string \<Rightarrow> bool" where
  "MatchAudience J claims expected =
     (case json_find J claims ''aud'' of
        None \<Rightarrow> False
      | Some aud \<Rightarrow>
          (case json_as_string J aud of
             Some t \<Rightarrow> t = expected
           | None \<Rightarrow>
               (case json_as_array J aud of
                  Some items \<Rightarrow> \<exists>item \<in> set items. json_as_string J item = Some expected
                | None \<Rightarrow> False)))"

text \<open>\<open>get<long long>()\<close> of an unsigned number above the signed range wraps.\<close>

definition ParseNumericClaim :: "'j json_api \<Rightarrow> 'j \<Rightarrow> string \<Rightarrow> int option" where
  "ParseNumericClaim J claims key =
     (case json_find J claims key of
        None \<Rightarrow> None
      | Some v \<Rightarrow>
          (case json_as_integer J v of
             Some n \<Rightarrow> Some (sint (word_of_int n :: 64 word))
           | None \<Rightarrow>
               (case json_as_string J v of
                  Some t \<Rightarrow> (case stoll t of Inr n \<Rightarrow> Some n | Inl _ \<Rightarrow> None)
                | None \<Rightarrow> None)))"

definition text_claim :: "'j json_api \<Rightarrow> 'j \<Rightarrow> string \<Rightarrow> string option" where
  "text_claim J claims key =
     (case json_find J claims key of
        None \<Rightarrow> None
      | Some v \<Rightarrow>
          (case json_as_string J v of
             Some t \<Rightarrow> if t \<noteq> [] then Some t else None
           | None \<Rightarrow> None))"

definition ExtractUserId :: "'j json_api \<Rightarrow> 'j \<Rightarrow> string option" where
  "ExtractUserId J claims =
     (case text_claim J claims ''sub'' of
        Some t \<Rightarrow> Some t
      | None \<Rightarrow> text_claim J claims ''user_id'')"

section \<open>Authenticate\<close>

definition strip_bearer :: "string \<Rightarrow> string" where
  "strip_bearer token = (if starts_with ''Bearer '' token then drop 7 token else token)"

text \<open>The three parts of a token with exactly two dots.\<close>

definition split_token :: "string \<Rightarrow> (string \<times> string \<times> string) option" where
  "split_token t =
     (case find_char (CHR ''.'') t of
        None \<Rightarrow> None
      | Some first_dot \<Rightarrow>
          (case find_char_from (CHR ''.'') (first_dot + 1) t of
             None \<Rightarrow> None
           | Some second_dot \<Rightarrow>
               (case find_char_from (CHR ''.'') (second_dot + 1) t of
                  Some _ \<Rightarrow> None
                | None \<Rightarrow>
                    Some (take first_dot t,
                          take (second_dot - first_dot - 1) (drop (first_dot + 1) t),
                          drop (second_dot + 1) t))))"

text \<open>What follows once header and claims are decoded and the signing input is known.\<close>

definition check_claims :: "'j json_api \<Rightarrow> int \<Rightarrow> auth_options \<Rightarrow> 'j \<Rightarrow> exn + request_context option" where
  "check_claims J now options claims =
     (if (case ParseNumericClaim J claims ''exp'' of Some e \<Rightarrow> now \<ge> e | None \<Rightarrow> False) then Inr None
      else
        res_bind (if jwt_issuer options \<noteq> []
                  then res_bind (json_value_string J claims ''iss'' [])
                         (\<lambda>iss. Inr (iss \<noteq> jwt_issuer options))
                  else Inr False) (\<lambda>issuer_mismatch.
          if issuer_mismatch then Inr None
          else if jwt_audience options \<noteq> [] \<and> \<not> MatchAudience J claims (jwt_audience options) then Inr None
          else
            (case ExtractUserId J claims of
               None \<Rightarrow> Inr None
             | Some u \<Rightarrow> Inr (Some (empty_context\<lparr>user_id := u\<rparr>)))))"

definition check_jwt :: "'j json_api \<Rightarrow> (string \<Rightarrow> string \<Rightarrow> string) \<Rightarrow> int \<Rightarrow> auth_options \<Rightarrow> string \<Rightarrow>
    exn + request_context option" where
  "check_jwt J hmac now options normalized =
     (case split_token normalized of
        None \<Rightarrow> Inr None
      | Some (header_part, payload_part, signature_part) \<Rightarrow>
          if jwt_secret options = [] then Inr None
          else
            (case (DecodeJwtJsonPart J header_part, DecodeJwtJsonPart J payload_part) of
               (Some header, Some claims) \<Rightarrow>
                 res_bind (json_value_string J header ''alg'' []) (\<lambda>alg.
                   if alg \<noteq> kJwtHs256 then Inr None
                   else
                     (let signing_input = header_part @ ''.'' @ payload_part;
                          expected = Base64UrlEncode (hmac (jwt_secret options) signing_input)
                      in if \<not> ConstantTimeEqual signature_part expected then Inr None
                         else check_claims J now options claims))
             | _ \<Rightarrow> Inr None))"

definition Authenticate :: "'j json_api \<Rightarrow> (string \<Rightarrow> string \<Rightarrow> string) \<Rightarrow> int \<Rightarrow> auth_options \<Rightarrow> string \<Rightarrow>
    exn + request_context option" where
  "Authenticate J hmac now options token =
     (if token = [] then Inr None
      else
        (let normalized = strip_bearer token
         in if allow_legacy_token options \<and> normalized = kLegacyDevToken
            then Inr (Some (empty_context\<lparr>user_id := ''dev-user''\<rparr>))
            else if allow_legacy_token options \<and> starts_with ''user:'' normalized
            then Inr (Some (empty_context\<lparr>user_id := drop 5 normalized\<rparr>))
            else check_jwt J hmac now options normalized))"

section \<open>Tokens\<close>

lemma split_token_parts:
  "split_token t = Some (h, p, s) \<longleftrightarrow>
     t = h @ ''.'' @ p @ ''.'' @ s \<and> CHR ''.'' \<notin> set h \<and> CHR ''.'' \<notin> set p \<and> CHR ''.'' \<notin> set s"
proof
  assume "split_token t = Some (h, p, s)"
  then obtain i k where i: "find_char (CHR ''.'') t = Some i"
    and k: "find_char (CHR ''.'') (drop (i + 1) t) = Some k"
    and n: "find_char (CHR ''.'') (drop (i + 1 + k + 1) t) = None"
    and hps: "h = take i t" "p = take k (drop (i + 1) t)" "s = drop (i + 1 + k + 1) t"
    by (auto simp: split_token_def find_char_from_def split: option.splits)
  have s: "drop (Suc k) (drop (i + 1) t) = s" by (simp add: hps(3) add.commute)
  have "t = h @ CHR ''.'' # drop (i + 1) t" and "CHR ''.'' \<notin> set h"
    using find_char_split [OF i] by (simp_all add: hps(1))
  moreover have "drop (i + 1) t = p @ CHR ''.'' # s" and "CHR ''.'' \<notin> set p"
    using find_char_split [OF k] by (simp_all only: hps(2) s not_False_eq_True)
  moreover have "CHR ''.'' \<notin> set s" using n by (simp add: find_char_None hps(3))
  ultimately show "t = h @ ''.'' @ p @ ''.'' @ s \<and> CHR ''.'' \<notin> set h \<and> CHR ''.'' \<notin> set p \<and> CHR ''.'' \<notin> set s"
    by simp
next
  assume t: "t = h @ ''.'' @ p @ ''.'' @ s \<and> CHR ''.'' \<notin> set h \<and> CHR ''.'' \<notin> set p \<and> CHR ''.'' \<notin> set s"
  then have "find_char (CHR ''.'') t = Some (length h)"
    and "find_char_from (CHR ''.'') (length h + 1) t = Some (length h + 1 + length p)"
    and "find_char_from (CHR ''.'') (length h + 1 + length p + 1) t = None"
    using find_char_append [of "CHR ''.''" p s]
    by (simp_all add: find_char_append find_char_from_def find_char_None)
  then show "split_token t = Some (h, p, s)"
    using t by (simp add: split_token_def)
qed

section \<open>What is accepted\<close>

text \<open>The contract of a signed token: how it is written, signed and limited, and whom it names.\<close>

definition signed_token :: "(string \<Rightarrow> string \<Rightarrow> string) \<Rightarrow> auth_options \<Rightarrow> string \<Rightarrow> string \<Rightarrow> string" where
  "signed_token hmac options h p =
     h @ ''.'' @ p @ ''.'' @ Base64UrlEncode (hmac (jwt_secret options) (h @ ''.'' @ p))"

definition claims_allow :: "'j json_api \<Rightarrow> int \<Rightarrow> auth_options \<Rightarrow> 'j \<Rightarrow> string \<Rightarrow> bool" where
  "claims_allow J now options claims u \<longleftrightarrow>
     (\<forall>e. ParseNumericClaim J claims ''exp'' = Some e \<longrightarrow> now < e) \<and>
     (jwt_issuer options \<noteq> [] \<longrightarrow> json_value_string J claims ''iss'' [] = Inr (jwt_issuer options)) \<and>
     (jwt_audience options \<noteq> [] \<longrightarrow> MatchAudience J claims (jwt_audience options)) \<and>
     ExtractUserId J claims = Some u"

definition jwt_names :: "'j json_api \<Rightarrow> (string \<Rightarrow> string \<Rightarrow> string) \<Rightarrow> int \<Rightarrow> auth_options \<Rightarrow> string \<Rightarrow> string \<Rightarrow> bool" where
  "jwt_names J hmac now options t u \<longleftrightarrow>
     (\<exists>h p header claims. t = signed_token hmac options h p \<and>
        CHR ''.'' \<notin> set h \<and> CHR ''.'' \<notin> set p \<and> jwt_secret options \<noteq> [] \<and>
        DecodeJwtJsonPart J h = Some header \<and> json_value_string J header ''alg'' [] = Inr ''HS256'' \<and>
        DecodeJwtJsonPart J p = Some claims \<and> claims_allow J now options claims u)"

lemma table_no_dot_all: "list_all (\<lambda>i. kTable ! i \<noteq> CHR ''.'') [0..<64]"
  by code_simp

lemma table_char_no_dot: "table_char w \<noteq> CHR ''.''"
proof -
  have "unat (w AND 63) \<in> set [0..<64]" using sextet_less [of w] by simp
  with table_no_dot_all show ?thesis
    unfolding table_char_def list_all_iff by (simp only: Ball_def not_False_eq_True simp_thms)
qed

lemma encode_no_dot: "CHR ''.'' \<notin> set (Base64UrlEncode s)"
  using table_char_no_dot
  by (induction s rule: Base64UrlEncode.induct) (auto simp: Let_def eq_commute [of "CHR ''.''"])

lemma ConstantTimeEqual_eq [simp]: "ConstantTimeEqual l r \<longleftrightarrow> l = r"
  by (auto simp: ConstantTimeEqual_def)

lemma check_claims_iff:
  "check_claims J now options claims = Inr (Some ctx) \<longleftrightarrow>
     (\<exists>u. ctx = empty_context\<lparr>user_id := u\<rparr> \<and> claims_allow J now options claims u)"
  by (auto simp: check_claims_def claims_allow_def res_bind_eq_Inr not_le split: option.splits if_splits)

lemma jwt_names_parts:
  assumes t: "t = h @ ''.'' @ p @ ''.'' @ sg" "CHR ''.'' \<notin> set h" "CHR ''.'' \<notin> set p"
  shows "jwt_names J hmac now options t u \<longleftrightarrow>
      jwt_secret options \<noteq> [] \<and> sg = Base64UrlEncode (hmac (jwt_secret options) (h @ ''.'' @ p)) \<and>
      (\<exists>header claims. DecodeJwtJsonPart J h = Some header \<and>
         json_value_string J header ''alg'' [] = Inr ''HS256'' \<and> DecodeJwtJsonPart J p = Some claims \<and>
         claims_allow J now options claims u)" (is "_ = ?R")
proof
  assume "jwt_names J hmac now options t u"
  then show ?R using t by (auto simp: jwt_names_def signed_token_def split_at_sep)
next
  assume ?R
  then show "jwt_names J hmac now options t u"
    unfolding jwt_names_def signed_token_def
    by (intro exI [of _ h] exI [of _ p]) (use t in auto)
qed

lemma check_jwt_iff:
  "check_jwt J hmac now options t = Inr (Some ctx) \<longleftrightarrow>
     (\<exists>u. ctx = empty_context\<lparr>user_id := u\<rparr> \<and> jwt_names J hmac now options t u)"
proof (cases "split_token t")
  case None
  have "\<not> jwt_names J hmac now options t u" for u
    using split_token_parts [of t] None encode_no_dot
    by (fastforce simp: jwt_names_def signed_token_def)
  then show ?thesis by (simp add: check_jwt_def None)
next
  case (Some x)
  then obtain h p sg where x: "split_token t = Some (h, p, sg)" by (cases x) auto
  then have t: "t = h @ ''.'' @ p @ ''.'' @ sg" "CHR ''.'' \<notin> set h" "CHR ''.'' \<notin> set p" "CHR ''.'' \<notin> set sg"
    using split_token_parts [of t h p sg] by auto
  have "(\<exists>u. ctx = empty_context\<lparr>user_id := u\<rparr> \<and> jwt_names J hmac now options t u) \<longleftrightarrow>
      jwt_secret options \<noteq> [] \<and> sg = Base64UrlEncode (hmac (jwt_secret options) (h @ ''.'' @ p)) \<and>
      (\<exists>header claims. DecodeJwtJsonPart J h = Some header \<and>
         json_value_string J header ''alg'' [] = Inr ''HS256'' \<and> DecodeJwtJsonPart J p = Some claims \<and>
         check_claims J now options claims = Inr (Some ctx))"
    by (auto simp: jwt_names_parts [OF t(1-3)] check_claims_iff)
  also have "\<dots> \<longleftrightarrow> check_jwt J hmac now options t = Inr (Some ctx)"
    by (auto simp: check_jwt_def x res_bind_eq_Inr kJwtHs256_def Let_def split: option.splits)
  finally show ?thesis by simp
qed

text \<open>
  C1: without the legacy tokens, exactly the signed tokens are accepted. With \<open>allow_legacy_token\<close>
  off, \<open>Authenticate\<close> accepts a token as a user if and only if, after an optional \<open>Bearer \<close>, it is
  a header and claims signed with the configured non-empty secret, the header's algorithm is HS256,
  a readable expiry is in the future, the issuer and the audience are the configured ones if any are
  configured, and the claims name that user; the context carries nothing but the user id.
\<close>

theorem authenticate_iff_signed:
  assumes "\<not> allow_legacy_token options"
  shows "Authenticate J hmac now options token = Inr (Some ctx) \<longleftrightarrow>
    (\<exists>u. ctx = empty_context\<lparr>user_id := u\<rparr> \<and> jwt_names J hmac now options (strip_bearer token) u)"
proof (cases "token = []")
  case True
  then show ?thesis
    by (simp add: Authenticate_def strip_bearer_def jwt_names_def signed_token_def)
next
  case False
  then show ?thesis using assms by (simp add: Authenticate_def Let_def check_jwt_iff)
qed

text \<open>A token to try it on: a JSON library that knows two texts, and a keyed function for the HMAC.\<close>

definition jwt_json :: "document json_api" where
  "jwt_json = sample_json\<lparr>json_parse := (\<lambda>s.
     if s = ''hdr'' then Some (DObject [(''alg'', DText ''HS256'')])
     else if s \<in> {''ann'', ''anna''} then Some (DObject [(''sub'', DText ''ann''), (''exp'', DNum 90)])
     else None)\<rparr>"

definition jwt_options :: auth_options where
  "jwt_options = \<lparr>jwt_secret = ''key'', jwt_issuer = [], jwt_audience = [], allow_legacy_token = False\<rparr>"

lemma sample_parts:
  "DecodeJwtJsonPart jwt_json (Base64UrlEncode ''hdr'') = Some (DObject [(''alg'', DText ''HS256'')])"
  "DecodeJwtJsonPart jwt_json (Base64UrlEncode ''ann'') =
     Some (DObject [(''sub'', DText ''ann''), (''exp'', DNum 90)])"
  by (simp_all add: DecodeJwtJsonPart_def base64url.decode_encode del: Base64UrlEncode.simps)
    (simp_all add: jwt_json_def sample_json_def)

lemma sample_claims:
  "claims_allow jwt_json 5 jwt_options (DObject [(''sub'', DText ''ann''), (''exp'', DNum 90)]) ''ann''"
  by (simp add: claims_allow_def ParseNumericClaim_def ExtractUserId_def text_claim_def jwt_json_def
      sample_json_def jwt_options_def)

theorem authenticate_iff_signed_witness:
  "Authenticate jwt_json (\<lambda>k d. k) 5 jwt_options ''Bearer aGRy.YW5u.a2V5'' =
     Inr (Some (empty_context\<lparr>user_id := ''ann''\<rparr>))"
proof -
  have e: "Base64UrlEncode ''hdr'' = ''aGRy''" "Base64UrlEncode ''ann'' = ''YW5u''"
    "Base64UrlEncode ''key'' = ''a2V5''"
    by code_simp+
  have o: "jwt_secret jwt_options = ''key''" by (simp add: jwt_options_def)
  have alg: "json_value_string jwt_json (DObject [(''alg'', DText ''HS256'')]) ''alg'' [] = Inr ''HS256''"
    by (simp add: jwt_json_def sample_json_def)
  have "jwt_names jwt_json (\<lambda>k d. k) 5 jwt_options ''aGRy.YW5u.a2V5'' ''ann''"
    unfolding jwt_names_def
    by (rule exI [of _ "''aGRy''"], rule exI [of _ "''YW5u''"],
        rule exI [of _ "DObject [(''alg'', DText ''HS256'')]"],
        rule exI [of _ "DObject [(''sub'', DText ''ann''), (''exp'', DNum 90)]"])
      (simp add: signed_token_def o e sample_parts [unfolded e] alg sample_claims
        del: Base64UrlEncode.simps)
  then show ?thesis
    using authenticate_iff_signed [of jwt_options jwt_json "\<lambda>k d. k" 5 "''Bearer aGRy.YW5u.a2V5''"
        "empty_context\<lparr>user_id := ''ann''\<rparr>"]
    by (auto simp: strip_bearer_def jwt_options_def)
qed

text \<open>
  Most well-formed tokens are refused. A token issued with the right secret and algorithm for
  claims that allow the user is accepted when the texts of its header and its claims both have a
  length divisible by three; otherwise the decoder's treatment of padding makes \<open>Authenticate\<close>
  refuse it.
\<close>

theorem issued_token_needs_multiple_of_three:
  assumes "\<not> allow_legacy_token options" and "jwt_secret options \<noteq> []"
    and "json_parse J ht = Some header" and "json_is_object J header"
    and "json_value_string J header ''alg'' [] = Inr ''HS256''"
    and "json_parse J pt = Some claims" and "json_is_object J claims"
    and "claims_allow J now options claims u"
  shows "Authenticate J hmac now options
      (''Bearer '' @ signed_token hmac options (Base64UrlEncode ht) (Base64UrlEncode pt)) =
    (if length ht mod 3 = 0 \<and> length pt mod 3 = 0 then Inr (Some (empty_context\<lparr>user_id := u\<rparr>)) else Inr None)"
proof -
  let ?t = "signed_token hmac options (Base64UrlEncode ht) (Base64UrlEncode pt)"
  have d: "DecodeJwtJsonPart J (Base64UrlEncode s) = (if length s mod 3 = 0 then Some j else None)"
    if "json_parse J s = Some j" "json_is_object J j" for s j
    using that Base64UrlDecode_unpadded [of "Base64UrlEncode s"] length_Base64UrlEncode [of s]
    by (simp add: DecodeJwtJsonPart_def base64url.decode_encode)
  have c: "check_claims J now options claims = Inr (Some (empty_context\<lparr>user_id := u\<rparr>))"
    using assms(8) by (auto simp: check_claims_iff)
  have "split_token ?t = Some (Base64UrlEncode ht, Base64UrlEncode pt,
      Base64UrlEncode (hmac (jwt_secret options) (Base64UrlEncode ht @ ''.'' @ Base64UrlEncode pt)))"
    by (simp add: split_token_parts signed_token_def encode_no_dot)
  then have "check_jwt J hmac now options ?t =
      (if length ht mod 3 = 0 \<and> length pt mod 3 = 0 then Inr (Some (empty_context\<lparr>user_id := u\<rparr>)) else Inr None)"
    using assms(2,5) c d [OF assms(3,4)] d [OF assms(6,7)] by (simp add: check_jwt_def kJwtHs256_def Let_def)
  then show ?thesis
    using assms(1) by (simp add: Authenticate_def strip_bearer_def Let_def)
qed

theorem issued_token_needs_multiple_of_three_witness:
  "Authenticate jwt_json (\<lambda>k d. k) 5 jwt_options
     (''Bearer '' @ signed_token (\<lambda>k d. k) jwt_options (Base64UrlEncode ''hdr'') (Base64UrlEncode ''anna''))
   = Inr None"
  using issued_token_needs_multiple_of_three [of jwt_options jwt_json "''hdr''"
      "DObject [(''alg'', DText ''HS256'')]" "''anna''"
      "DObject [(''sub'', DText ''ann''), (''exp'', DNum 90)]" 5 "''ann''" "\<lambda>k d. k", OF _ _ _ _ _ _ _ sample_claims]
  by (simp add: jwt_options_def jwt_json_def sample_json_def del: Base64UrlEncode.simps)

text \<open>
  With the legacy tokens on, which is the default, anybody is anybody. Whatever the secret,
  \<open>user:\<close> followed by any name is accepted as that user, also after \<open>Bearer \<close>, and \<open>dev-token\<close> gives
  the same identity as \<open>user:dev-user\<close>.
\<close>

theorem legacy_token_impersonates:
  assumes "allow_legacy_token options"
  shows "Authenticate J hmac now options (''user:'' @ u) = Inr (Some (empty_context\<lparr>user_id := u\<rparr>)) \<and>
    Authenticate J hmac now options (''Bearer user:'' @ u) = Inr (Some (empty_context\<lparr>user_id := u\<rparr>)) \<and>
    Authenticate J hmac now options ''dev-token'' = Authenticate J hmac now options ''user:dev-user''"
  using assms
  by (simp add: Authenticate_def strip_bearer_def kLegacyDevToken_def Let_def)

theorem legacy_token_impersonates_witness:
  "Authenticate sample_json (\<lambda>k d. k) 0 default_auth_options ''user:admin'' =
     Inr (Some (empty_context\<lparr>user_id := ''admin''\<rparr>))"
  using legacy_token_impersonates [of default_auth_options sample_json "\<lambda>k d. k" 0 "''admin''"]
  by (simp add: default_auth_options_def)

end
