(* ===== verification/Metrics.thy ===== *)
theory Metrics
  imports Std_Text
begin

text \<open>
  \<open>infrastructure/observability/metrics.cpp\<close>: the counters of the process, 64-bit and wrapping, and
  their Prometheus text, in whatever order the map is iterated.
\<close>

type_synonym counters = "64 word umap"

definition counter :: "counters \<Rightarrow> string \<Rightarrow> 64 word" where
  "counter m name = (case um_find m name of None \<Rightarrow> 0 | Some v \<Rightarrow> v)"

definition Increment :: "string \<Rightarrow> 64 word \<Rightarrow> counters \<Rightarrow> counters" where
  "Increment name delta m = um_put name (counter m name + delta) m"

definition newline :: string where
  "newline = [char_of (10 :: nat)]"

definition render_counter :: "string \<times> 64 word \<Rightarrow> string" where
  "render_counter p =
     ''# TYPE '' @ fst p @ '' counter'' @ newline @ fst p @ '' '' @ to_string (uint (snd p)) @ newline"

definition RenderPrometheus :: "((string \<times> 64 word) list \<Rightarrow> (string \<times> 64 word) list) \<Rightarrow> counters \<Rightarrow> string" where
  "RenderPrometheus ord m = concat (map render_counter (ord m))"

lemma counter_Increment [simp]:
  "counter (Increment name d m) name' = (if name' = name then counter m name + d else counter m name')"
  by (simp add: counter_def Increment_def)

text \<open>A run of increments: the counter is the sum of the deltas of its name, modulo \<open>2^64\<close>.\<close>

definition increments :: "(string \<times> 64 word) list \<Rightarrow> counters \<Rightarrow> counters" where
  "increments ds m = fold (\<lambda>(name, d). Increment name d) ds m"

lemma counter_increments:
  "counter (increments ds m) name =
     counter m name + sum_list (map snd (filter (\<lambda>p. fst p = name) ds))"
  by (induction ds arbitrary: m) (auto simp: increments_def algebra_simps)

end
