(* ===== verification/Grpc_Router.thy ===== *)
theory Grpc_Router
  imports Rate_Limiter Request_Context Config_Service User_Service Metrics
begin

text \<open>
  \<open>gateways/access_gateway/routing\<close>: the routes of the gateway, the resilient call behind them and
  the router's own state. What is outside the process is a world \<open>'w\<close> with the functions of
  \<open>grpc_env\<close>: one RPC attempt on a stub, the clock, and the back-off timer. A route runs as one
  step; other requests of the same router are not interleaved with its attempts.
\<close>

section \<open>Data\<close>

record router_targets =
  config_service_target :: string
  user_service_target :: string
  game_service_target :: string

record router_runtime_config =
  grpc_timeout_ms :: int
  retry_attempts :: int
  retry_backoff_ms :: int

definition default_runtime_config :: router_runtime_config where
  "default_runtime_config = \<lparr>grpc_timeout_ms = 800, retry_attempts = 2, retry_backoff_ms = 50\<rparr>"

record route_result =
  status_code :: int
  rr_body :: string
  rr_error :: string
  downstream_service :: string
  downstream_status :: grpc_code

datatype rpc_request =
    RpcGetConfig string string
  | RpcPublishConfig config_entry
  | RpcGetUser string
  | RpcCreateUser string
  | RpcCreateRoom string int
  | RpcJoinRoom string string

text \<open>The response message of an RPC; a field that was not received reads as its default.\<close>

datatype rpc_reply =
    NoReply
  | EntryReply config_entry
  | VersionReply int
  | ProfileReply user_profile
  | RoomReply string
  | SuccessReply bool

fun reply_entry :: "rpc_reply \<Rightarrow> config_entry" where
  "reply_entry (EntryReply e) = e"
| "reply_entry _ = default_entry"

fun reply_version :: "rpc_reply \<Rightarrow> int" where
  "reply_version (VersionReply n) = n"
| "reply_version _ = 0"

fun reply_profile :: "rpc_reply \<Rightarrow> user_profile" where
  "reply_profile (ProfileReply p) = p"
| "reply_profile _ = default_profile"

fun reply_room :: "rpc_reply \<Rightarrow> string" where
  "reply_room (RoomReply i) = i"
| "reply_room _ = []"

fun reply_success :: "rpc_reply \<Rightarrow> bool" where
  "reply_success (SuccessReply b) = b"
| "reply_success _ = False"

text \<open>A stub with the channel it was made on and the target the channel leads to.\<close>

type_synonym stub = "nat \<times> string"

record 'w grpc_env =
  rpc_call :: "stub \<Rightarrow> metadata \<Rightarrow> time_ns \<Rightarrow> rpc_request \<Rightarrow> 'w \<Rightarrow> (grpc_status \<times> rpc_reply) \<times> 'w"
  clock :: "'w \<Rightarrow> time_ns"
  backoff_wait :: "time_ns \<Rightarrow> 'w \<Rightarrow> bool \<times> 'w"

section \<open>Helpers\<close>

definition add_unless_empty :: "string \<Rightarrow> string \<Rightarrow> metadata \<Rightarrow> metadata" where
  "add_unless_empty k v md = (if v \<noteq> [] then md @ [(k, v)] else md)"

definition AddMetadata :: "request_context \<Rightarrow> metadata" where
  "AddMetadata ctx =
     add_unless_empty kMetaZone (zone ctx)
       (add_unless_empty kMetaClientVersion (client_version ctx)
       (add_unless_empty kMetaTrafficTag (traffic_tag ctx)
       (add_unless_empty kMetaUserId (user_id ctx)
       (add_unless_empty kMetaTraceId (trace_id ctx)
       (add_unless_empty kMetaRequestId (request_id ctx) [])))))"

definition ErrorJson :: "'j json_api \<Rightarrow> string \<Rightarrow> string \<Rightarrow> int \<Rightarrow> 'j" where
  "ErrorJson J c message grpc_st =
     json_object J [(''error'', json_string J message), (''code'', json_string J c),
                    (''grpc_status'', json_int J grpc_st)]"

definition ToMetricSafe :: "string \<Rightarrow> string" where
  "ToMetricSafe v = map (\<lambda>ch. if \<not> is_alnum ch then CHR ''_'' else ch) v"

fun HttpStatusFromGrpc :: "grpc_code \<Rightarrow> int" where
  "HttpStatusFromGrpc INVALID_ARGUMENT = 400"
| "HttpStatusFromGrpc UNAUTHENTICATED = 401"
| "HttpStatusFromGrpc PERMISSION_DENIED = 403"
| "HttpStatusFromGrpc NOT_FOUND = 404"
| "HttpStatusFromGrpc ALREADY_EXISTS = 409"
| "HttpStatusFromGrpc FAILED_PRECONDITION = 412"
| "HttpStatusFromGrpc DEADLINE_EXCEEDED = 504"
| "HttpStatusFromGrpc UNAVAILABLE = 503"
| "HttpStatusFromGrpc RESOURCE_EXHAUSTED = 429"
| "HttpStatusFromGrpc _ = 502"

definition IsRetryable :: "grpc_code \<Rightarrow> bool" where
  "IsRetryable c \<longleftrightarrow> c = UNAVAILABLE \<or> c = DEADLINE_EXCEEDED"

definition DefaultGrpcThreadCount :: "nat \<Rightarrow> nat" where
  "DefaultGrpcThreadCount hc = (if hc = 0 then 2 else min (max (hc div 2) 1) 4)"

section \<open>The resilient call\<close>

text \<open>
  The attempts of \<open>InvokeWithResilienceAsync\<close>: \<open>n\<close> are left, the current one included. The result
  is the status with the response, and the breaker and the world they leave.
\<close>

fun resilience_loop :: "'w grpc_env \<Rightarrow> metadata \<Rightarrow> time_ns \<Rightarrow> time_ns \<Rightarrow> stub \<Rightarrow> rpc_request \<Rightarrow>
    nat \<Rightarrow> circuit_breaker \<Rightarrow> 'w \<Rightarrow> (grpc_status \<times> rpc_reply) \<times> circuit_breaker \<times> 'w" where
  "resilience_loop env md timeout wait stub req 0 breaker w = ((status_ok, NoReply), breaker, w)"
| "resilience_loop env md timeout wait stub req (Suc n) breaker w =
     (let ((st, reply), w1) = rpc_call env stub md timeout req w
      in if is_ok st then ((st, reply), RecordSuccess breaker, w1)
         else
           (let breaker1 = RecordFailure (clock env w1) breaker
            in if \<not> IsRetryable (error_code_of st) \<or> n = 0 then ((st, reply), breaker1, w1)
               else if wait > 0 then
                 (let (aborted, w2) = backoff_wait env wait w1
                  in if aborted
                     then ((status_error CANCELLED ''retry_backoff_cancelled'', reply), breaker1, w2)
                     else resilience_loop env md timeout wait stub req n breaker1 w2)
               else resilience_loop env md timeout wait stub req n breaker1 w1))"

definition InvokeWithResilienceAsync :: "'w grpc_env \<Rightarrow> (rat \<Rightarrow> rat) \<Rightarrow> request_context \<Rightarrow>
    router_runtime_config \<Rightarrow> stub \<Rightarrow> rpc_request \<Rightarrow> circuit_breaker \<Rightarrow> token_bucket \<Rightarrow> 'w \<Rightarrow>
    (grpc_status \<times> rpc_reply) \<times> circuit_breaker \<times> token_bucket \<times> 'w" where
  "InvokeWithResilienceAsync env rnd ctx runtime stub req breaker limiter w =
     (let (allowed, limiter1) = Allow rnd (clock env w) limiter
      in if \<not> allowed
         then ((status_error RESOURCE_EXHAUSTED ''gateway rate limit exceeded'', NoReply), breaker, limiter1, w)
         else
           (let (admitted, breaker1) = AllowRequest (clock env w) breaker
            in if \<not> admitted
               then ((status_error UNAVAILABLE ''circuit breaker open'', NoReply), breaker1, limiter1, w)
               else
                 (let attempts = max 1 (retry_attempts runtime);
                      timeout = milliseconds (max 100 (grpc_timeout_ms runtime));
                      wait = milliseconds (max 0 (retry_backoff_ms runtime));
                      (result, breaker2, w1) =
                        resilience_loop env (AddMetadata ctx) timeout wait stub req (nat attempts) breaker1 w
                  in (result, breaker2, limiter1, w1))))"

section \<open>The router\<close>

record router =
  targets :: router_targets
  resolver :: "string option"
  runtime_config :: router_runtime_config
  channels :: "string \<rightharpoonup> nat"
  config_stubs :: "string \<rightharpoonup> nat"
  user_stubs :: "string \<rightharpoonup> nat"
  game_stubs :: "string \<rightharpoonup> nat"
  next_channel :: nat
  config_breaker :: circuit_breaker
  user_breaker :: circuit_breaker
  game_breaker :: circuit_breaker
  config_rate_limiter :: token_bucket
  user_rate_limiter :: token_bucket
  game_rate_limiter :: token_bucket
  grpc_thread_count :: nat
  grpc_running :: bool
  grpc_threads :: nat

text \<open>The rest of the process a route touches, and the world outside.\<close>

record 'w gateway_world =
  gw_metrics :: counters
  gw_etcd :: "etcd_state shared_states"
  gw_outside :: 'w

definition StartGrpcWorkers :: "router \<Rightarrow> router" where
  "StartGrpcWorkers r =
     (if grpc_running r then r
      else r\<lparr>grpc_running := True, grpc_threads := grpc_threads r + grpc_thread_count r\<rparr>)"

definition StopGrpcWorkers :: "router \<Rightarrow> router" where
  "StopGrpcWorkers r =
     (if \<not> grpc_running r then r else r\<lparr>grpc_running := False, grpc_threads := 0\<rparr>)"

definition GrpcRouter :: "router_targets \<Rightarrow> string option \<Rightarrow> router_runtime_config \<Rightarrow> nat \<Rightarrow> time_ns \<Rightarrow> router" where
  "GrpcRouter tg rs cfg hardware_concurrency now =
     StartGrpcWorkers
     \<lparr>targets = tg, resolver = rs, runtime_config = cfg,
      channels = (\<lambda>_. None), config_stubs = (\<lambda>_. None), user_stubs = (\<lambda>_. None),
      game_stubs = (\<lambda>_. None), next_channel = 0,
      config_breaker = CircuitBreaker 5 (seconds 5), user_breaker = CircuitBreaker 5 (seconds 5),
      game_breaker = CircuitBreaker 5 (seconds 5),
      config_rate_limiter = TokenBucketRateLimiter 500 1000 now,
      user_rate_limiter = TokenBucketRateLimiter 500 1000 now,
      game_rate_limiter = TokenBucketRateLimiter 500 1000 now,
      grpc_thread_count = DefaultGrpcThreadCount hardware_concurrency,
      grpc_running = False, grpc_threads = 0\<rparr>"

definition ResolveTarget :: "scan_order \<Rightarrow> string \<Rightarrow> string \<Rightarrow> string \<Rightarrow> router \<Rightarrow>
    etcd_state shared_states \<Rightarrow> string \<times> etcd_state shared_states" where
  "ResolveTarget sc name fallback tag r ss =
     (case resolver r of
        None \<Rightarrow> (fallback, ss)
      | Some endpoints \<Rightarrow>
          (let (instances, ss1) = with_state endpoints (Resolve_body sc name) ss
           in if instances = [] then (fallback, ss1)
              else
                (let selected = Select instances tag
                 in if host selected = [] \<or> port selected = 0 then (fallback, ss1)
                    else (host selected @ '':'' @ to_string (uint (port selected)), ss1))))"

definition GetRuntimeConfig :: "router \<Rightarrow> router_runtime_config" where
  "GetRuntimeConfig r = runtime_config r"

definition UpdateRuntimeConfig :: "router_runtime_config \<Rightarrow> router \<Rightarrow> router" where
  "UpdateRuntimeConfig cfg r =
     (let s1 = cfg\<lparr>grpc_timeout_ms := max 100 (grpc_timeout_ms cfg)\<rparr>;
          s2 = s1\<lparr>retry_attempts := max 1 (retry_attempts s1)\<rparr>;
          s3 = s2\<lparr>retry_backoff_ms := max 0 (retry_backoff_ms s2)\<rparr>
      in r\<lparr>runtime_config := s3\<rparr>)"

definition BreakerFor :: "string \<Rightarrow> router \<Rightarrow> circuit_breaker" where
  "BreakerFor service r =
     (if service = ''config_service'' then config_breaker r
      else if service = ''user_service'' then user_breaker r
      else game_breaker r)"

definition RateLimiterFor :: "string \<Rightarrow> router \<Rightarrow> token_bucket" where
  "RateLimiterFor service r =
     (if service = ''config_service'' then config_rate_limiter r
      else if service = ''user_service'' then user_rate_limiter r
      else game_rate_limiter r)"

text \<open>Both return references: what a call does to the breaker and the limiter is done in place.\<close>

definition put_breaker :: "string \<Rightarrow> circuit_breaker \<Rightarrow> router \<Rightarrow> router" where
  "put_breaker service b r =
     (if service = ''config_service'' then r\<lparr>config_breaker := b\<rparr>
      else if service = ''user_service'' then r\<lparr>user_breaker := b\<rparr>
      else r\<lparr>game_breaker := b\<rparr>)"

definition put_limiter :: "string \<Rightarrow> token_bucket \<Rightarrow> router \<Rightarrow> router" where
  "put_limiter service l r =
     (if service = ''config_service'' then r\<lparr>config_rate_limiter := l\<rparr>
      else if service = ''user_service'' then r\<lparr>user_rate_limiter := l\<rparr>
      else r\<lparr>game_rate_limiter := l\<rparr>)"

definition GetConfigStub :: "string \<Rightarrow> router \<Rightarrow> stub \<times> router" where
  "GetConfigStub target r =
     (case config_stubs r target of
        Some c \<Rightarrow> ((c, target), r)
      | None \<Rightarrow>
          (let c = next_channel r
           in ((c, target), r\<lparr>next_channel := Suc c, channels := (channels r)(target \<mapsto> c),
                              config_stubs := (config_stubs r)(target \<mapsto> c)\<rparr>)))"

definition GetUserStub :: "string \<Rightarrow> router \<Rightarrow> stub \<times> router" where
  "GetUserStub target r =
     (case user_stubs r target of
        Some c \<Rightarrow> ((c, target), r)
      | None \<Rightarrow>
          (let c = next_channel r
           in ((c, target), r\<lparr>next_channel := Suc c, channels := (channels r)(target \<mapsto> c),
                              user_stubs := (user_stubs r)(target \<mapsto> c)\<rparr>)))"

definition GetGameStub :: "string \<Rightarrow> router \<Rightarrow> stub \<times> router" where
  "GetGameStub target r =
     (case game_stubs r target of
        Some c \<Rightarrow> ((c, target), r)
      | None \<Rightarrow>
          (let c = next_channel r
           in ((c, target), r\<lparr>next_channel := Suc c, channels := (channels r)(target \<mapsto> c),
                              game_stubs := (game_stubs r)(target \<mapsto> c)\<rparr>)))"

section \<open>Routes\<close>

text \<open>
  Everything a route calls that is not part of the program: the JSON library, the world of
  \<open>grpc_env\<close>, the rounding of doubles, the orders of iteration, and \<open>exception::what\<close>.
\<close>

record ('j, 'w) gateway_env =
  ge_json :: "'j json_api"
  ge_grpc :: "'w grpc_env"
  ge_round :: "rat \<Rightarrow> rat"
  ge_scan :: scan_order
  ge_what :: "exn \<Rightarrow> string"

type_synonym ('a, 'w) routed = "(exn + 'a) \<times> router \<times> 'w gateway_world"

definition route_finish :: "string \<Rightarrow> route_result \<Rightarrow> counters \<Rightarrow> counters" where
  "route_finish path result m =
     (let m1 = Increment ''gateway_requests_total'' 1 m;
          m2 = Increment (''gateway_requests_route_'' @ ToMetricSafe path @ ''_total'') 1 m1;
          m3 = Increment (''gateway_requests_status_'' @ to_string (status_code result) @ ''_total'') 1 m2
      in if downstream_service result \<noteq> []
         then Increment (''gateway_downstream_'' @ ToMetricSafe (downstream_service result) @ ''_total'') 1 m3
         else m3)"

definition failed_result :: "'j json_api \<Rightarrow> string \<Rightarrow> grpc_status \<Rightarrow> exn + route_result" where
  "failed_result J service st =
     res_bind (json_dump J (ErrorJson J ''downstream_error'' (error_message st) (grpc_code_value (error_code_of st))))
       (\<lambda>body. Inr \<lparr>status_code = HttpStatusFromGrpc (error_code_of st), rr_body = body,
                    rr_error = ''downstream_error'', downstream_service = service,
                    downstream_status = error_code_of st\<rparr>)"

definition ok_result :: "'j json_api \<Rightarrow> string \<Rightarrow> (string \<times> 'j) list \<Rightarrow> exn + route_result" where
  "ok_result J service document =
     res_bind (json_dump J (json_object J document))
       (\<lambda>body. Inr \<lparr>status_code = 200, rr_body = body, rr_error = [], downstream_service = service,
                    downstream_status = OK\<rparr>)"

text \<open>
  What the six routes share: the target, the stub, the request read from the document, the
  resilient call with the service's breaker and limiter, and the result.
\<close>

definition route_call :: "('j, 'w) gateway_env \<Rightarrow> request_context \<Rightarrow> string \<Rightarrow>
    (string \<Rightarrow> router \<Rightarrow> stub \<times> router) \<Rightarrow> string \<Rightarrow> exn + rpc_request \<Rightarrow>
    (rpc_reply \<Rightarrow> (string \<times> 'j) list) \<Rightarrow> router \<Rightarrow> 'w gateway_world \<Rightarrow> (route_result, 'w) routed" where
  "route_call ge ctx service get_stub fallback request render r g =
     (let runtime = GetRuntimeConfig r;
          (target, ss) = ResolveTarget (ge_scan ge) service fallback (traffic_tag ctx) r (gw_etcd g);
          g1 = g\<lparr>gw_etcd := ss\<rparr>;
          (stub, r1) = get_stub target r
      in case request of
           Inl e \<Rightarrow> (Inl e, r1, g1)
         | Inr req \<Rightarrow>
             (let ((st, reply), breaker, limiter, w) =
                    InvokeWithResilienceAsync (ge_grpc ge) (ge_round ge) ctx runtime stub req
                      (BreakerFor service r1) (RateLimiterFor service r1) (gw_outside g1);
                  r2 = put_limiter service limiter (put_breaker service breaker r1);
                  g2 = g1\<lparr>gw_outside := w\<rparr>
              in (if \<not> is_ok st then failed_result (ge_json ge) service st
                  else ok_result (ge_json ge) service (render reply), r2, g2)))"

definition config_get_request :: "'j json_api \<Rightarrow> 'j \<Rightarrow> exn + rpc_request" where
  "config_get_request J json =
     res_bind (json_value_string J json ''namespace_name'' []) (\<lambda>ns.
     res_bind (json_value_string J json ''key'' []) (\<lambda>k. Inr (RpcGetConfig ns k)))"

definition config_publish_request :: "'j json_api \<Rightarrow> 'j \<Rightarrow> exn + rpc_request" where
  "config_publish_request J json =
     res_bind (json_value_string J json ''namespace_name'' []) (\<lambda>ns.
     res_bind (json_value_string J json ''key'' []) (\<lambda>k.
     res_bind (json_value_string J json ''value'' []) (\<lambda>v.
     res_bind (json_value_string J json ''environment'' ''dev'') (\<lambda>env.
     Inr (RpcPublishConfig \<lparr>namespace_name = ns, ckey = k, cvalue = v, cversion = 0, environment = env\<rparr>)))))"

definition user_get_request :: "'j json_api \<Rightarrow> request_context \<Rightarrow> 'j \<Rightarrow> exn + rpc_request" where
  "user_get_request J ctx json =
     res_bind (json_value_string J json ''user_id'' (user_id ctx)) (\<lambda>u. Inr (RpcGetUser u))"

definition user_create_request :: "'j json_api \<Rightarrow> 'j \<Rightarrow> exn + rpc_request" where
  "user_create_request J json =
     res_bind (json_value_string J json ''nickname'' []) (\<lambda>n. Inr (RpcCreateUser n))"

definition create_room_request :: "'j json_api \<Rightarrow> 'j \<Rightarrow> exn + rpc_request" where
  "create_room_request J json =
     res_bind (json_value_string J json ''room_name'' []) (\<lambda>n.
     res_bind (json_value_int J json ''max_players'' 4) (\<lambda>m. Inr (RpcCreateRoom n m)))"

definition join_room_request :: "'j json_api \<Rightarrow> request_context \<Rightarrow> 'j \<Rightarrow> exn + rpc_request" where
  "join_room_request J ctx json =
     res_bind (json_value_string J json ''room_id'' []) (\<lambda>i.
     res_bind (json_value_string J json ''user_id'' (user_id ctx)) (\<lambda>u. Inr (RpcJoinRoom i u)))"

definition entry_response :: "'j json_api \<Rightarrow> config_entry \<Rightarrow> (string \<times> 'j) list" where
  "entry_response J e =
     [(''namespace_name'', json_string J (namespace_name e)), (''key'', json_string J (ckey e)),
      (''value'', json_string J (cvalue e)), (''version'', json_int J (cversion e)),
      (''environment'', json_string J (environment e))]"

definition profile_response :: "'j json_api \<Rightarrow> user_profile \<Rightarrow> (string \<times> 'j) list" where
  "profile_response J p =
     [(''user_id'', json_string J (up_user_id p)), (''nickname'', json_string J (nickname p)),
      (''avatar'', json_string J (avatar p)), (''level'', json_int J (level p)),
      (''created_at'', json_int J (created_at p))]"

text \<open>The dispatch on the path; \<open>None\<close> where no route matches.\<close>

definition dispatch :: "('j, 'w) gateway_env \<Rightarrow> string \<Rightarrow> 'j \<Rightarrow> request_context \<Rightarrow> router \<Rightarrow>
    'w gateway_world \<Rightarrow> (route_result, 'w) routed option" where
  "dispatch ge path json ctx r g =
     (let J = ge_json ge; tg = targets r in
      if path = ''/config/get'' then
        Some (route_call ge ctx ''config_service'' GetConfigStub (config_service_target tg)
          (config_get_request J json) (\<lambda>reply. entry_response J (reply_entry reply)) r g)
      else if path = ''/config/publish'' then
        Some (route_call ge ctx ''config_service'' GetConfigStub (config_service_target tg)
          (config_publish_request J json) (\<lambda>reply. [(''version'', json_int J (reply_version reply))]) r g)
      else if path = ''/user/get'' then
        Some (route_call ge ctx ''user_service'' GetUserStub (user_service_target tg)
          (user_get_request J ctx json) (\<lambda>reply. profile_response J (reply_profile reply)) r g)
      else if path = ''/user/create'' then
        Some (route_call ge ctx ''user_service'' GetUserStub (user_service_target tg)
          (user_create_request J json)
          (\<lambda>reply. [(''user_id'', json_string J (up_user_id (reply_profile reply))),
                    (''nickname'', json_string J (nickname (reply_profile reply)))]) r g)
      else if path = ''/game/create-room'' then
        Some (route_call ge ctx ''game_service'' GetGameStub (game_service_target tg)
          (create_room_request J json) (\<lambda>reply. [(''room_id'', json_string J (reply_room reply))]) r g)
      else if path = ''/game/join-room'' then
        Some (route_call ge ctx ''game_service'' GetGameStub (game_service_target tg)
          (join_room_request J ctx json) (\<lambda>reply. [(''success'', json_bool J (reply_success reply))]) r g)
      else None)"

definition local_result :: "'j json_api \<Rightarrow> int \<Rightarrow> string \<Rightarrow> grpc_code \<Rightarrow> exn + route_result" where
  "local_result J st c downstream =
     res_bind (json_dump J (ErrorJson J c c 0))
       (\<lambda>body. Inr \<lparr>status_code = st, rr_body = body, rr_error = c, downstream_service = [],
                    downstream_status = downstream\<rparr>)"

definition RouteWithStatusAsync :: "('j, 'w) gateway_env \<Rightarrow> string \<Rightarrow> string \<Rightarrow> request_context \<Rightarrow>
    router \<Rightarrow> 'w gateway_world \<Rightarrow> (route_result, 'w) routed" where
  "RouteWithStatusAsync ge path body ctx r g =
     (let J = ge_json ge;
          (result, r1, g1) =
            (case json_parse J (if body = [] then ''{}'' else body) of
               None \<Rightarrow> (local_result J 400 ''invalid_json'' INVALID_ARGUMENT, r, g)
             | Some json \<Rightarrow>
                 (case dispatch ge path json ctx r g of
                    Some x \<Rightarrow> x
                  | None \<Rightarrow> (local_result J 404 ''route_not_found'' NOT_FOUND, r, g)))
      in case result of
           Inl e \<Rightarrow> (Inl e, r1, g1)
         | Inr rr \<Rightarrow> (Inr rr, r1, g1\<lparr>gw_metrics := route_finish path rr (gw_metrics g1)\<rparr>))"

text \<open>The synchronous wrapper turns an exception of the coroutine into a result.\<close>

definition RouteWithStatus :: "('j, 'w) gateway_env \<Rightarrow> string \<Rightarrow> string \<Rightarrow> request_context \<Rightarrow>
    router \<Rightarrow> 'w gateway_world \<Rightarrow> (route_result, 'w) routed" where
  "RouteWithStatus ge path body ctx r g =
     (case RouteWithStatusAsync ge path body ctx r g of
        (Inr rr, r1, g1) \<Rightarrow> (Inr rr, r1, g1)
      | (Inl e, r1, g1) \<Rightarrow>
          (res_bind (json_dump (ge_json ge) (ErrorJson (ge_json ge) ''router_async_failed'' (ge_what ge e) 0))
             (\<lambda>body. Inr \<lparr>status_code = 503, rr_body = body, rr_error = ''router_async_failed'',
                          downstream_service = [], downstream_status = UNAVAILABLE\<rparr>), r1, g1))"

definition Route :: "('j, 'w) gateway_env \<Rightarrow> string \<Rightarrow> string \<Rightarrow> request_context \<Rightarrow>
    router \<Rightarrow> 'w gateway_world \<Rightarrow> (string, 'w) routed" where
  "Route ge path body ctx r g =
     (let (result, r1, g1) = RouteWithStatus ge path body ctx r g
      in (res_bind result (\<lambda>rr. Inr (rr_body rr)), r1, g1))"

definition RouteAsync :: "('j, 'w) gateway_env \<Rightarrow> string \<Rightarrow> string \<Rightarrow> request_context \<Rightarrow>
    router \<Rightarrow> 'w gateway_world \<Rightarrow> (string, 'w) routed" where
  "RouteAsync ge path body ctx r g =
     (let (result, r1, g1) = RouteWithStatusAsync ge path body ctx r g
      in (res_bind result (\<lambda>rr. Inr (rr_body rr)), r1, g1))"

section \<open>What a route answers\<close>

definition status_consistent :: "route_result \<Rightarrow> bool" where
  "status_consistent rr \<longleftrightarrow>
     status_code rr = (if downstream_status rr = OK then 200 else HttpStatusFromGrpc (downstream_status rr)) \<and>
     (rr_error rr = [] \<longleftrightarrow> downstream_status rr = OK)"

lemma HttpStatusFromGrpc_error: "400 \<le> HttpStatusFromGrpc c \<and> HttpStatusFromGrpc c < 600"
  by (cases c) simp_all

lemma route_call_consistent:
  "fst (route_call ge ctx service get_stub fallback request render r g) = Inr rr \<Longrightarrow>
   status_consistent rr \<and> downstream_service rr = service"
  by (auto simp: route_call_def split_beta Let_def failed_result_def ok_result_def is_ok_def
      status_consistent_def res_bind_eq_Inr split: sum.splits if_splits)

lemma local_result_consistent:
  "local_result J st c downstream = Inr rr \<Longrightarrow> downstream \<noteq> OK \<Longrightarrow> st = HttpStatusFromGrpc downstream \<Longrightarrow> c \<noteq> [] \<Longrightarrow>
   status_consistent rr"
  by (auto simp: local_result_def status_consistent_def res_bind_eq_Inr)

lemma if_SomeE:
  "(if c then Some a else x) = Some y \<Longrightarrow> (a = y \<Longrightarrow> P) \<Longrightarrow> (x = Some y \<Longrightarrow> P) \<Longrightarrow> P"
  by (cases c) auto

lemma route_call_consistent_eq:
  "route_call ge ctx service get_stub fallback request render r g = (Inr rr, r', g') \<Longrightarrow> status_consistent rr"
  using route_call_consistent [of ge ctx service get_stub fallback request render r g rr] by simp

lemma dispatch_consistent:
  assumes "dispatch ge path json ctx r g = Some (Inr rr, r', g')"
  shows "status_consistent rr"
  using assms unfolding dispatch_def Let_def
  by (elim if_SomeE) (erule route_call_consistent_eq | simp only: option.distinct)+

lemma RouteWithStatusAsync_consistent:
  assumes "fst (RouteWithStatusAsync ge path body ctx r g) = Inr rr"
  shows "status_consistent rr"
proof -
  let ?J = "ge_json ge"
  define x where "x = (case json_parse ?J (if body = [] then ''{}'' else body) of
      None \<Rightarrow> (local_result ?J 400 ''invalid_json'' INVALID_ARGUMENT, r, g)
    | Some json \<Rightarrow>
        (case dispatch ge path json ctx r g of
           Some x \<Rightarrow> x
         | None \<Rightarrow> (local_result ?J 404 ''route_not_found'' NOT_FOUND, r, g)))"
  have "fst x = Inr rr"
    using assms unfolding RouteWithStatusAsync_def Let_def x_def [symmetric]
    by (cases x) (simp split: sum.splits)
  then show ?thesis
    unfolding x_def
    by (cases x) (auto split: option.splits dest: dispatch_consistent
        local_result_consistent [where ?st = 400 and ?downstream = INVALID_ARGUMENT]
        local_result_consistent [where ?st = 404 and ?downstream = NOT_FOUND])
qed

text \<open>
  The HTTP status of a route tells the outcome of the call. Whatever the path, the body, the
  router's state and the downstream services, the result of \<open>RouteWithStatus\<close> has status 200 and an
  empty error code exactly when the final gRPC status is OK, and otherwise the status the table
  assigns to that gRPC code, which is at least 400.
\<close>

theorem route_status_consistent:
  "case fst (RouteWithStatus ge path body ctx r g) of
     Inl e \<Rightarrow> True
   | Inr rr \<Rightarrow>
       status_code rr = (if downstream_status rr = OK then 200 else HttpStatusFromGrpc (downstream_status rr)) \<and>
       (rr_error rr = [] \<longleftrightarrow> downstream_status rr = OK) \<and>
       (status_code rr = 200 \<longleftrightarrow> downstream_status rr = OK) \<and> 200 \<le> status_code rr \<and> status_code rr < 600"
proof (cases "fst (RouteWithStatus ge path body ctx r g)")
  case (Inr rr)
  have "status_consistent rr"
    using Inr RouteWithStatusAsync_consistent [of ge path body ctx r g]
    by (cases "RouteWithStatusAsync ge path body ctx r g")
      (auto simp: RouteWithStatus_def status_consistent_def res_bind_eq_Inr split: sum.splits)
  then show ?thesis
    using HttpStatusFromGrpc_error [of "downstream_status rr"] Inr by (auto simp: status_consistent_def)
qed simp

section \<open>How often a call is tried\<close>

text \<open>The same world with a log of the statuses of the attempts that reached the service.\<close>

definition logging :: "'w grpc_env \<Rightarrow> ('w \<times> grpc_status list) grpc_env" where
  "logging env =
     \<lparr>rpc_call = (\<lambda>stub md timeout req (w, lg).
        (let (r, w1) = rpc_call env stub md timeout req w in (r, (w1, lg @ [fst r])))),
      clock = (\<lambda>(w, lg). clock env w),
      backoff_wait = (\<lambda>d (w, lg). (let (b, w1) = backoff_wait env d w in (b, (w1, lg))))\<rparr>"



lemma logging_simps [simp]:
  "clock (logging env) (w, lg) = clock env w"
  "rpc_call (logging env) stub md timeout req (w, lg) =
     (fst (rpc_call env stub md timeout req w),
      (snd (rpc_call env stub md timeout req w), lg @ [fst (fst (rpc_call env stub md timeout req w))]))"
  "backoff_wait (logging env) d (w, lg) = (fst (backoff_wait env d w), (snd (backoff_wait env d w), lg))"
  by (simp_all add: logging_def split_beta)





section \<open>The breaker behind a route\<close>

text \<open>A service that answers every attempt with the same error, within an instant.\<close>

definition answers :: "'w grpc_env \<Rightarrow> grpc_status \<Rightarrow> time_ns \<Rightarrow> bool" where
  "answers env st t \<longleftrightarrow>
     (\<forall>w. clock env w = t) \<and> (\<forall>stub md timeout req w. fst (fst (rpc_call env stub md timeout req w)) = st)"

fun invoke_times :: "nat \<Rightarrow> 'w grpc_env \<Rightarrow> (rat \<Rightarrow> rat) \<Rightarrow> request_context \<Rightarrow> router_runtime_config \<Rightarrow> stub \<Rightarrow>
    rpc_request \<Rightarrow> circuit_breaker \<times> token_bucket \<times> 'w \<Rightarrow> circuit_breaker \<times> token_bucket \<times> 'w" where
  "invoke_times 0 env rnd ctx runtime stub req x = x"
| "invoke_times (Suc n) env rnd ctx runtime stub req (b, l, w) =
     invoke_times n env rnd ctx runtime stub req
       (snd (InvokeWithResilienceAsync env rnd ctx runtime stub req b l w))"

lemma Allow_at_once:
  assumes r: "binary_rounding rnd u e" and l: "tokens l = of_int m" "last_refill l = t"
    and m: "1 \<le> m" "m \<le> 2 ^ 53" and burst: "of_int m \<le> burst_capacity l"
  shows "Allow rnd t l = (True, l\<lparr>tokens := of_int (m - 1)\<rparr>)"
proof -
  have "rnd (of_int m) = of_int m" "rnd (of_int (m - 1)) = of_int (m - 1)"
    using rounding_int [OF r, of m] rounding_int [OF r, of "m - 1"] m by auto
  then have "filled_tokens rnd t l = of_int m" and "rnd (of_int m - 1) = of_int (m - 1)"
    using l burst by (simp_all add: filled_tokens_def refill_0 [OF r])
  then show ?thesis
    using m(1) l by (cases l) (simp add: Allow_def Let_def)
qed

lemma failing_call:
  assumes a: "answers env st t" and st: "\<not> is_ok st" "\<not> IsRetryable (error_code_of st)"
    and r: "binary_rounding rnd u e" and l: "tokens l = of_int m" "last_refill l = t"
    and m: "1 \<le> m" "m \<le> 2 ^ 53" "of_int m \<le> burst_capacity l" and b: "fst (AllowRequest t b)"
  shows "fst (snd (InvokeWithResilienceAsync env rnd ctx runtime stub req b l w)) =
      RecordFailure t (snd (AllowRequest t b)) \<and>
    fst (snd (snd (InvokeWithResilienceAsync env rnd ctx runtime stub req b l w))) =
      l\<lparr>tokens := of_int (m - 1)\<rparr>"
proof -
  have c: "clock env w' = t" and f: "fst (fst (rpc_call env stub md timeout req w')) = st" for w' md timeout
    using a unfolding answers_def by blast+
  obtain n where n: "nat (max 1 (retry_attempts runtime)) = Suc n"
    by (metis not0_implies_Suc nat_0_iff max.cobounded1 not_one_le_zero order_trans)
  have "fst (snd (resilience_loop env md timeout wait stub req (Suc n) b' w')) = RecordFailure t b'"
    for md timeout wait b' w'
    using st f [of md timeout w'] by (simp add: split_beta Let_def c)
  then show ?thesis
    using b Allow_at_once [OF r l m]
    by (simp add: InvokeWithResilienceAsync_def split_beta Let_def c n del: resilience_loop.simps)
qed

lemma failing_calls_open:
  assumes "answers env st t" and "\<not> is_ok st" "\<not> IsRetryable (error_code_of st)" and "binary_rounding rnd u e"
  shows "0 < k \<Longrightarrow> cb_state b = KClosed \<Longrightarrow> failure_count b + int k = failure_threshold b \<Longrightarrow>
    tokens l = of_int m \<Longrightarrow> last_refill l = t \<Longrightarrow> int k \<le> m \<Longrightarrow> m \<le> 2 ^ 53 \<Longrightarrow> of_int m \<le> burst_capacity l \<Longrightarrow>
    \<exists>w'. invoke_times k env rnd ctx runtime stub req (b, l, w) =
      (b\<lparr>failure_count := failure_threshold b, cb_state := KOpen, opened_at := t\<rparr>,
       l\<lparr>tokens := of_int (m - int k)\<rparr>, w')"
proof (induction k arbitrary: b l m w)
  case 0
  then show ?case by simp
next
  case (Suc k)
  obtain b1 l1 w1 where step: "snd (InvokeWithResilienceAsync env rnd ctx runtime stub req b l w) = (b1, l1, w1)"
    by (metis prod.exhaust)
  have allow: "AllowRequest t b = (True, b)" using Suc.prems(2) by (simp add: AllowRequest_def)
  have b1: "b1 = RecordFailure t b" and l1: "l1 = l\<lparr>tokens := of_int (m - 1)\<rparr>"
    using failing_call [OF assms Suc.prems(4,5), of b ctx runtime stub req w] Suc.prems(6-8) allow step
    by simp_all
  show ?case
  proof (cases "k = 0")
    case True
    then show ?thesis
      using Suc.prems(3) by (simp add: step b1 l1) (simp add: RecordFailure_def Let_def)
  next
    case False
    have b1': "b1 = b\<lparr>failure_count := failure_count b + 1\<rparr>"
      using False Suc.prems(3) by (simp add: b1 RecordFailure_def Let_def)
    have "\<exists>w'. invoke_times k env rnd ctx runtime stub req (b1, l1, w1) =
      (b1\<lparr>failure_count := failure_threshold b1, cb_state := KOpen, opened_at := t\<rparr>,
       l1\<lparr>tokens := of_int (m - 1 - int k)\<rparr>, w')"
      using Suc.IH [of b1 l1 "m - 1" w1] False Suc.prems by (simp add: b1' l1)
    then show ?thesis by (simp add: step b1' l1 algebra_simps)
  qed
qed

text \<open>
  C36: the breaker opens on answers that are no failures of the service. If a healthy service answers
  five calls with the same error that is not worth a retry, as NOT_FOUND for five unknown users, the
  sixth call within the cool-down is refused with UNAVAILABLE without reaching the service,
  whatever it asks for.
\<close>

theorem breaker_opens_on_client_errors:
  assumes "answers env st t" and "\<not> is_ok st" and "\<not> IsRetryable (error_code_of st)"
    and "binary_rounding rnd u e"
  shows "let (b, l, w') = invoke_times 5 env rnd ctx runtime stub req
           (CircuitBreaker 5 (seconds 5), TokenBucketRateLimiter 500 1000 t, w)
         in \<exists>l'. InvokeWithResilienceAsync env rnd ctx' runtime' stub' req' b l w' =
              ((status_error UNAVAILABLE ''circuit breaker open'', NoReply), b, l', w')"
proof -
  obtain w' where w': "invoke_times 5 env rnd ctx runtime stub req
      (CircuitBreaker 5 (seconds 5), TokenBucketRateLimiter 500 1000 t, w) =
    ((CircuitBreaker 5 (seconds 5))\<lparr>failure_count := 5, cb_state := KOpen, opened_at := t\<rparr>,
     (TokenBucketRateLimiter 500 1000 t)\<lparr>tokens := of_int 995\<rparr>, w')"
    using failing_calls_open [OF assms, of 5 "CircuitBreaker 5 (seconds 5)"
        "TokenBucketRateLimiter 500 1000 t" 1000 ctx runtime stub req w]
    by (auto simp: CircuitBreaker_def TokenBucketRateLimiter_def)
  have "clock env w' = t" using assms(1) by (simp add: answers_def)
  moreover have "fst (Allow rnd t ((TokenBucketRateLimiter 500 1000 t)\<lparr>tokens := of_int 995\<rparr>))"
    using Allow_at_once [OF assms(4), of "(TokenBucketRateLimiter 500 1000 t)\<lparr>tokens := of_int 995\<rparr>" 995 t]
    by (simp add: TokenBucketRateLimiter_def)
  ultimately show ?thesis
    unfolding w' Let_def split_conv
    by (simp add: InvokeWithResilienceAsync_def AllowRequest_def CircuitBreaker_def split_beta Let_def)
qed

definition not_found_env :: "nat grpc_env" where
  "not_found_env =
     \<lparr>rpc_call = (\<lambda>stub md timeout req n. ((status_error NOT_FOUND ''user not found'', NoReply), Suc n)),
      clock = (\<lambda>n. 7), backoff_wait = (\<lambda>d n. (False, n))\<rparr>"

theorem breaker_opens_on_client_errors_witness:
  "let (b, l, w') = invoke_times 5 not_found_env fixed20 empty_context default_runtime_config (0, ''t'') (RpcGetUser ''u'')
         (CircuitBreaker 5 (seconds 5), TokenBucketRateLimiter 500 1000 7, 0)
   in \<exists>l'. InvokeWithResilienceAsync not_found_env fixed20 empty_context default_runtime_config (0, ''t'')
          (RpcGetUser ''v'') b l w' =
        ((status_error UNAVAILABLE ''circuit breaker open'', NoReply), b, l', w')"
  by (rule breaker_opens_on_client_errors [OF _ _ _ fixed20_rounding])
    (auto simp: answers_def not_found_env_def status_error_def is_ok_def IsRetryable_def)

section \<open>Targets\<close>

lemma etcd_run_quiet: "quiet ss \<Longrightarrow> quiet (snd (etcd_run sc calls ss))"
proof (induction calls arbitrary: ss)
  case Nil
  then show ?case by simp
next
  case (Cons x calls)
  then show ?case
    by (cases x) (simp add: split_beta Let_def etcd_call_on_def with_state_quiet)
qed

text \<open>
  Service discovery never finds anything. As no adapter keeps the registry's state between calls,
  the resolver of a gateway answers with no instances, and every route goes to the target of the
  configuration, whatever was registered before and whatever the traffic tag.
\<close>

theorem resolve_falls_back:
  assumes "quiet ss" and "scan_ok sc"
  shows "fst (ResolveTarget sc name fallback tag r (snd (etcd_run sc' calls ss))) = fallback"
proof -
  have "SnapshotInstances sc etcd_empty name = []"
    using assms(2) by (simp add: SnapshotInstances_def etcd_empty_def scan_ok_def)
  then show ?thesis
    by (simp add: ResolveTarget_def split_beta Let_def Resolve_body_def
        with_state_quiet(1) [OF etcd_run_quiet [OF assms(1)]] split: option.split)
qed

theorem resolve_falls_back_witness:
  "fst (ResolveTarget sample_scan ''game'' ''127.0.0.1:50053'' ''gray''
     ((GrpcRouter \<lparr>config_service_target = [], user_service_target = [], game_service_target = []\<rparr>
         (Some ''e'') default_runtime_config 8 0))
     (snd (etcd_run sample_scan [(''e'', Register sample_instance 30)] no_states))) = ''127.0.0.1:50053''"
  by (rule resolve_falls_back) (simp_all add: sample_scan_def scan_ok_def)

section \<open>Stubs and limits\<close>

text \<open>A request for a stub: the service and the target.\<close>

datatype stub_request = ConfigStub string | UserStub string | GameStub string

fun get_stub :: "stub_request \<Rightarrow> router \<Rightarrow> stub \<times> router" where
  "get_stub (ConfigStub target) r = GetConfigStub target r"
| "get_stub (UserStub target) r = GetUserStub target r"
| "get_stub (GameStub target) r = GetGameStub target r"

fun stub_run :: "stub_request list \<Rightarrow> router \<Rightarrow> stub list" where
  "stub_run [] r = []"
| "stub_run (q # qs) r = fst (get_stub q r) # stub_run qs (snd (get_stub q r))"

fun cached_stub :: "router \<Rightarrow> stub_request \<Rightarrow> nat option" where
  "cached_stub r (ConfigStub target) = config_stubs r target"
| "cached_stub r (UserStub target) = user_stubs r target"
| "cached_stub r (GameStub target) = game_stubs r target"

definition stubs_ok :: "router \<Rightarrow> bool" where
  "stubs_ok r \<longleftrightarrow>
     (\<forall>q c. cached_stub r q = Some c \<longrightarrow> c < next_channel r) \<and>
     (\<forall>q q' c. cached_stub r q = Some c \<longrightarrow> cached_stub r q' = Some c \<longrightarrow> q = q')"

lemma get_stub_cases:
  "cached_stub r q = Some c \<Longrightarrow> fst (fst (get_stub q r)) = c \<and> snd (get_stub q r) = r"
  "cached_stub r q = None \<Longrightarrow> fst (fst (get_stub q r)) = next_channel r \<and>
     cached_stub (snd (get_stub q r)) = (cached_stub r)(q \<mapsto> next_channel r) \<and>
     next_channel (snd (get_stub q r)) = Suc (next_channel r)"
proof -
  show "cached_stub r q = Some c \<Longrightarrow> fst (fst (get_stub q r)) = c \<and> snd (get_stub q r) = r"
    by (cases q) (simp_all add: GetConfigStub_def GetUserStub_def GetGameStub_def)
  assume "cached_stub r q = None"
  then have "fst (fst (get_stub q r)) = next_channel r \<and> next_channel (snd (get_stub q r)) = Suc (next_channel r)"
    and "cached_stub (snd (get_stub q r)) q' = ((cached_stub r)(q \<mapsto> next_channel r)) q'" for q'
    by (cases q; cases q'; simp add: GetConfigStub_def GetUserStub_def GetGameStub_def Let_def)+
  then show "fst (fst (get_stub q r)) = next_channel r \<and>
     cached_stub (snd (get_stub q r)) = (cached_stub r)(q \<mapsto> next_channel r) \<and>
     next_channel (snd (get_stub q r)) = Suc (next_channel r)" by (auto simp: fun_eq_iff)
qed

lemma stubs_ok_step: "stubs_ok r \<Longrightarrow> stubs_ok (snd (get_stub q r))"
  using get_stub_cases [of r q] by (cases "cached_stub r q") (auto simp: stubs_ok_def less_Suc_eq)

lemma stub_run_injection:
  "stubs_ok r \<Longrightarrow> \<exists>f. inj_on f (set qs \<union> dom (cached_stub r)) \<and>
     (\<forall>q c. cached_stub r q = Some c \<longrightarrow> f q = c) \<and> map fst (stub_run qs r) = map f qs"
proof (induction qs arbitrary: r)
  case Nil
  have "inj_on (\<lambda>q. the (cached_stub r q)) (dom (cached_stub r))"
    using Nil by (auto simp: inj_on_def stubs_ok_def)
  then show ?case by (intro exI [of _ "\<lambda>q. the (cached_stub r q)"]) simp
next
  case (Cons q qs)
  let ?r = "snd (get_stub q r)"
  obtain f where f: "inj_on f (set qs \<union> dom (cached_stub ?r))"
    "\<forall>q' c. cached_stub ?r q' = Some c \<longrightarrow> f q' = c" "map fst (stub_run qs ?r) = map f qs"
    using Cons.IH [OF stubs_ok_step [OF Cons.prems]] by blast
  have ext: "cached_stub ?r q = Some (fst (fst (get_stub q r)))"
    "\<And>q' c. cached_stub r q' = Some c \<Longrightarrow> cached_stub ?r q' = Some c"
    using get_stub_cases [of r q] by (cases "cached_stub r q"; auto)+
  have "inj_on f (set (q # qs) \<union> dom (cached_stub r))"
    by (rule inj_on_subset [OF f(1)]) (use ext in auto)
  then show ?case
    using f(2,3) ext by (intro exI [of _ f]) auto
qed

text \<open>
  Stubs are shared by target and never across services. In any sequence of requests for stubs on
  a new router, two requests get a stub on the same channel exactly when they are for the same
  service and the same target.
\<close>

theorem stubs_by_service_and_target:
  "\<exists>f. inj_on f (set qs) \<and> map fst (stub_run qs (GrpcRouter tg rs cfg hc now)) = map f qs"
proof -
  have "stubs_ok (GrpcRouter tg rs cfg hc now)"
    unfolding stubs_ok_def
  proof (intro conjI allI impI)
    fix q q' c
    show "cached_stub (GrpcRouter tg rs cfg hc now) q = Some c \<Longrightarrow> c < next_channel (GrpcRouter tg rs cfg hc now)"
      and "cached_stub (GrpcRouter tg rs cfg hc now) q = Some c \<Longrightarrow> q = q'"
      by (cases q; simp add: GrpcRouter_def StartGrpcWorkers_def)+
  qed
  from stub_run_injection [OF this, of qs] show ?thesis
    by (metis inj_on_Un)
qed

text \<open>
  The limits on the runtime configuration hold where they are used. \<open>UpdateRuntimeConfig\<close> stores
  a time-out of at least 100 ms, at least one attempt and no negative back-off, and a call made with
  any configuration behaves as with the stored one, so the values the constructor takes unchecked
  have the same effect as checked ones.
\<close>

theorem runtime_config_limits:
  "let stored = GetRuntimeConfig (UpdateRuntimeConfig cfg r)
   in 100 \<le> grpc_timeout_ms stored \<and> 1 \<le> retry_attempts stored \<and> 0 \<le> retry_backoff_ms stored \<and>
      InvokeWithResilienceAsync env rnd ctx cfg = InvokeWithResilienceAsync env rnd ctx stored"
  by (simp add: GetRuntimeConfig_def UpdateRuntimeConfig_def Let_def split_beta fun_eq_iff
      InvokeWithResilienceAsync_def)

end
