(* ===== verification/Log_Sink.thy ===== *)
theory Log_Sink
  imports Std_Text
begin

text \<open>
  The daily file sink of \<open>common/log/logger.cpp\<close>, \<open>DailyRotatingFileSink\<close>: each message is handed to a
  rotating file sink of spdlog that was opened for the path of its day. That sink is known by what the
  code gives it: path, limits and pattern. What spdlog does with them is not modelled: it
  rotates the files of the path when a sink is opened (the code asks for it) and when a file reaches the size limit, so the messages of
  one day may lie in several files whose names derive from the path. Opening a file is taken to
  succeed. The local time is that of the host, an argument.
\<close>

definition UseOrDefault :: "64 word \<Rightarrow> 64 word \<Rightarrow> 64 word" where
  "UseOrDefault v fallback = (if v = 0 then fallback else v)"

section \<open>The day of a message\<close>

record tm =
  tm_year :: int
  tm_mon :: int
  tm_mday :: int

text \<open>\<open>to_time_t\<close> cuts the nanoseconds off towards zero; \<open>%m\<close> and \<open>%d\<close> have two digits.\<close>

definition to_time_t :: "int \<Rightarrow> int" where
  "to_time_t time = (if 0 \<le> time then time div 10 ^ 9 else - (- time div 10 ^ 9))"

definition two_digits :: "int \<Rightarrow> string" where
  "two_digits n = (if n < 10 then ''0'' @ to_string n else to_string n)"

definition DateString :: "(int \<Rightarrow> tm) \<Rightarrow> int \<Rightarrow> string" where
  "DateString localtime time =
     (let t = localtime (to_time_t time)
      in to_string (tm_year t + 1900) @ ''-'' @ two_digits (tm_mon t + 1) @ ''-'' @ two_digits (tm_mday t))"

definition tm_ok :: "tm \<Rightarrow> bool" where
  "tm_ok t \<longleftrightarrow> 0 \<le> tm_year t + 1900 \<and> 0 \<le> tm_mon t \<and> 0 \<le> tm_mday t"

lemma to_string_no_dash: "0 \<le> n \<Longrightarrow> CHR ''-'' \<notin> set (to_string n)"
  using dec_nat_digits [of "nat n"] is_digit_not(2) by (auto simp: to_string_def)

lemma two_digits_no_dash: "0 \<le> n \<Longrightarrow> CHR ''-'' \<notin> set (two_digits n)"
  using to_string_no_dash by (auto simp: two_digits_def)

lemma two_digits_value: "0 \<le> n \<Longrightarrow> digits_value (two_digits n) = nat n"
proof -
  have "digits_value (CHR ''0'' # ds) = digits_value ds" for ds by (simp add: digits_value_def digit_value_def)
  then show "0 \<le> n \<Longrightarrow> digits_value (two_digits n) = nat n"
    using digits_value_dec_nat by (simp add: two_digits_def to_string_def)
qed

lemma two_digits_inj:
  assumes "0 \<le> m" and "0 \<le> n" and "two_digits m = two_digits n"
  shows "m = n"
proof -
  have "nat m = nat n" using assms two_digits_value [of m] two_digits_value [of n] by simp
  then show ?thesis using assms by simp
qed

lemma DateString_inj:
  assumes "tm_ok (localtime (to_time_t x))" and "tm_ok (localtime (to_time_t y))"
  shows "DateString localtime x = DateString localtime y \<longleftrightarrow> localtime (to_time_t x) = localtime (to_time_t y)"
proof
  let ?s = "localtime (to_time_t x)" and ?t = "localtime (to_time_t y)"
  assume "DateString localtime x = DateString localtime y"
  then have e: "to_string (tm_year ?s + 1900) @ CHR ''-'' # two_digits (tm_mon ?s + 1) @ CHR ''-'' # two_digits (tm_mday ?s) =
      to_string (tm_year ?t + 1900) @ CHR ''-'' # two_digits (tm_mon ?t + 1) @ CHR ''-'' # two_digits (tm_mday ?t)"
    by (simp add: DateString_def Let_def)
  have ok: "0 \<le> tm_year ?s + 1900" "0 \<le> tm_mon ?s + 1" "0 \<le> tm_mday ?s"
    "0 \<le> tm_year ?t + 1900" "0 \<le> tm_mon ?t + 1" "0 \<le> tm_mday ?t"
    using assms by (simp_all add: tm_ok_def)
  note year = split_at_sep [OF to_string_no_dash [OF ok(1)] to_string_no_dash [OF ok(4)], THEN iffD1, OF e]
  note mon = split_at_sep [OF two_digits_no_dash [OF ok(2)] two_digits_no_dash [OF ok(5)], THEN iffD1, OF year [THEN conjunct2]]
  show "?s = ?t"
    using year mon two_digits_inj [OF ok(2,5)] two_digits_inj [OF ok(3,6)] by (intro tm.equality) auto
qed (simp add: DateString_def)

section \<open>The sink\<close>

text \<open>The rotating file sink in use: its path, its limits, its pattern, and whether anything is left to flush.\<close>

record file_sink =
  fs_path :: string
  fs_max_bytes :: "64 word"
  fs_max_files :: "64 word"
  fs_pattern :: string
  fs_dirty :: bool

record daily_sink =
  ds_log_dir :: string
  ds_service_name :: string
  ds_max_bytes :: "64 word"
  ds_max_files :: "64 word"
  ds_pattern :: string
  active_day :: string
  active_sink :: "file_sink option"

text \<open>spdlog's base class starts with the pattern \<open>%+\<close>.\<close>

definition DailyRotatingFileSink :: "string \<Rightarrow> string \<Rightarrow> 64 word \<Rightarrow> 64 word \<Rightarrow> daily_sink" where
  "DailyRotatingFileSink dir name bytes n_files =
     \<lparr>ds_log_dir = dir, ds_service_name = name, ds_max_bytes = UseOrDefault bytes (100 * (1024 * 1024)),
      ds_max_files = UseOrDefault n_files 10, ds_pattern = ''%+'', active_day = [], active_sink = None\<rparr>"

text \<open>\<open>operator /\<close> of \<open>std::filesystem::path\<close>: an absolute right side replaces the left one.\<close>

definition path_append :: "string \<Rightarrow> string \<Rightarrow> string" where
  "path_append dir name =
     (if name \<noteq> [] \<and> hd name = CHR ''/'' then name
      else if dir = [] \<or> last dir = CHR ''/'' then dir @ name
      else dir @ ''/'' @ name)"

definition BuildFilePath :: "daily_sink \<Rightarrow> string \<Rightarrow> string" where
  "BuildFilePath s day = path_append (ds_log_dir s) (ds_service_name s @ ''-'' @ day @ ''.log'')"

text \<open>The second component tells that a sink was opened (with \<open>rotate_on_open\<close>).\<close>

definition EnsureSinkForDay :: "string \<Rightarrow> daily_sink \<Rightarrow> daily_sink \<times> bool" where
  "EnsureSinkForDay day s =
     (if active_sink s \<noteq> None \<and> day = active_day s then (s, False)
      else (s\<lparr>active_sink := Some \<lparr>fs_path = BuildFilePath s day, fs_max_bytes = ds_max_bytes s,
                fs_max_files = ds_max_files s, fs_pattern = ds_pattern s, fs_dirty = False\<rparr>,
              active_day := day\<rparr>, True))"

text \<open>\<open>sink_it_\<close>: the sink that gets the message, as it is then, and whether it was opened for it.\<close>

type_synonym sunk = "file_sink option \<times> bool"

definition sink_it :: "(int \<Rightarrow> tm) \<Rightarrow> int \<Rightarrow> daily_sink \<Rightarrow> sunk \<times> daily_sink" where
  "sink_it localtime time s =
     (let day = DateString localtime time;
          (s1, opened) = EnsureSinkForDay day s
      in case active_sink s1 of
           None \<Rightarrow> ((None, opened), s1)
         | Some f \<Rightarrow> ((Some (f\<lparr>fs_dirty := True\<rparr>), opened), s1\<lparr>active_sink := Some (f\<lparr>fs_dirty := True\<rparr>)\<rparr>))"

definition sink_flush :: "daily_sink \<Rightarrow> daily_sink" where
  "sink_flush s =
     (case active_sink s of None \<Rightarrow> s | Some f \<Rightarrow> s\<lparr>active_sink := Some (f\<lparr>fs_dirty := False\<rparr>)\<rparr>)"

text \<open>A formatter is known by its pattern; the base class sets it through \<open>set_formatter_\<close>.\<close>

definition sink_set_formatter :: "string \<Rightarrow> daily_sink \<Rightarrow> daily_sink" where
  "sink_set_formatter pattern s =
     (let s1 = s\<lparr>ds_pattern := pattern\<rparr>
      in case active_sink s1 of
           None \<Rightarrow> s1
         | Some f \<Rightarrow> s1\<lparr>active_sink := Some (f\<lparr>fs_pattern := ds_pattern s1\<rparr>)\<rparr>)"

definition sink_set_pattern :: "string \<Rightarrow> daily_sink \<Rightarrow> daily_sink" where
  "sink_set_pattern pattern s =
     (let s1 = sink_set_formatter pattern s
      in case active_sink s1 of
           None \<Rightarrow> s1
         | Some f \<Rightarrow> s1\<lparr>active_sink := Some (f\<lparr>fs_pattern := pattern\<rparr>)\<rparr>)"

section \<open>Runs\<close>

datatype sink_call = SinkMessage int | SinkFlush | SinkPattern string

fun sink_step :: "(int \<Rightarrow> tm) \<Rightarrow> sink_call \<Rightarrow> daily_sink \<Rightarrow> sunk list \<times> daily_sink" where
  "sink_step localtime (SinkMessage time) s = (let (r, s1) = sink_it localtime time s in ([r], s1))"
| "sink_step localtime SinkFlush s = ([], sink_flush s)"
| "sink_step localtime (SinkPattern pattern) s = ([], sink_set_pattern pattern s)"

fun sink_run :: "(int \<Rightarrow> tm) \<Rightarrow> sink_call list \<Rightarrow> daily_sink \<Rightarrow> sunk list \<times> daily_sink" where
  "sink_run localtime [] s = ([], s)"
| "sink_run localtime (c # cs) s =
     (let (r, s1) = sink_step localtime c s; (rs, s2) = sink_run localtime cs s1 in (r @ rs, s2))"

text \<open>What is expected of a sequence of calls: the messages, each with the pattern last set before it.\<close>

fun messages_with_pattern :: "sink_call list \<Rightarrow> string \<Rightarrow> (int \<times> string) list" where
  "messages_with_pattern [] pattern = []"
| "messages_with_pattern (SinkMessage time # cs) pattern = (time, pattern) # messages_with_pattern cs pattern"
| "messages_with_pattern (SinkFlush # cs) pattern = messages_with_pattern cs pattern"
| "messages_with_pattern (SinkPattern p # cs) pattern = messages_with_pattern cs p"

definition message_times :: "sink_call list \<Rightarrow> int list" where
  "message_times cs = map fst (messages_with_pattern cs [])"

text \<open>The sink of a day, with the limits of the construction and the pattern set last.\<close>

definition opened_sink :: "daily_sink \<Rightarrow> string \<Rightarrow> bool \<Rightarrow> file_sink" where
  "opened_sink s day dirty =
     \<lparr>fs_path = BuildFilePath s day, fs_max_bytes = ds_max_bytes s, fs_max_files = ds_max_files s,
      fs_pattern = ds_pattern s, fs_dirty = dirty\<rparr>"

definition same_sink :: "daily_sink \<Rightarrow> daily_sink \<Rightarrow> bool" where
  "same_sink s s' \<longleftrightarrow> BuildFilePath s' = BuildFilePath s \<and> ds_max_bytes s' = ds_max_bytes s \<and> ds_max_files s' = ds_max_files s"

definition sink_inv :: "daily_sink \<Rightarrow> bool" where
  "sink_inv s \<longleftrightarrow>
     (case active_sink s of
        None \<Rightarrow> True
      | Some f \<Rightarrow> fs_path f = BuildFilePath s (active_day s) \<and> fs_max_bytes f = ds_max_bytes s \<and>
          fs_max_files f = ds_max_files s \<and> fs_pattern f = ds_pattern s)"

lemma BuildFilePath_frame [simp]:
  "BuildFilePath (s\<lparr>active_sink := a\<rparr>) = BuildFilePath s" "BuildFilePath (s\<lparr>active_day := b\<rparr>) = BuildFilePath s"
  "BuildFilePath (s\<lparr>ds_pattern := p\<rparr>) = BuildFilePath s"
  by (simp_all add: BuildFilePath_def fun_eq_iff)

lemma BuildFilePath_inj: "BuildFilePath s a = BuildFilePath s b \<longleftrightarrow> a = b"
proof -
  have "hd (ds_service_name s @ ''-'' @ day @ ''.log'') = hd (ds_service_name s @ ''-'')" for day by (simp add: hd_append)
  then show ?thesis by (auto simp: BuildFilePath_def path_append_def)
qed

lemma opened_sink_same:
  "same_sink s s' \<Longrightarrow> opened_sink (s'\<lparr>ds_pattern := p\<rparr>) = opened_sink (s\<lparr>ds_pattern := p\<rparr>)"
  by (simp add: same_sink_def opened_sink_def fun_eq_iff)

lemma sink_it_file:
  assumes "sink_inv s"
  shows "fst (sink_it lt time s) = (Some (opened_sink s (DateString lt time) True),
      active_sink s = None \<or> DateString lt time \<noteq> active_day s)"
    and "sink_inv (snd (sink_it lt time s))" and "same_sink s (snd (sink_it lt time s))"
    and "ds_pattern (snd (sink_it lt time s)) = ds_pattern s"
    and "active_day (snd (sink_it lt time s)) = DateString lt time" and "active_sink (snd (sink_it lt time s)) \<noteq> None"
  using assms by (cases "active_sink s"; simp add: sink_it_def EnsureSinkForDay_def sink_inv_def opened_sink_def same_sink_def Let_def)+

lemma sink_flush_frame:
  "sink_inv s \<Longrightarrow> sink_inv (sink_flush s)" "same_sink s (sink_flush s)"
  "ds_pattern (sink_flush s) = ds_pattern s" "active_day (sink_flush s) = active_day s"
  "(active_sink (sink_flush s) = None) = (active_sink s = None)"
  by (cases "active_sink s"; simp add: sink_flush_def sink_inv_def same_sink_def)+

lemma sink_set_pattern_frame:
  "sink_inv s \<Longrightarrow> sink_inv (sink_set_pattern p s)" "same_sink s (sink_set_pattern p s)"
  "ds_pattern (sink_set_pattern p s) = p" "active_day (sink_set_pattern p s) = active_day s"
  "(active_sink (sink_set_pattern p s) = None) = (active_sink s = None)"
  by (cases "active_sink s"; simp add: sink_set_pattern_def sink_set_formatter_def sink_inv_def same_sink_def Let_def)+

lemma messages_times: "map fst (messages_with_pattern cs p) = message_times cs"
proof -
  have "map fst (messages_with_pattern cs p) = map fst (messages_with_pattern cs q)" for q
    by (induction cs p arbitrary: q rule: messages_with_pattern.induct) simp_all
  then show ?thesis by (simp add: message_times_def)
qed

lemma message_times_simps [simp]:
  "message_times [] = []" "message_times (SinkMessage time # cs) = time # message_times cs"
  "message_times (SinkFlush # cs) = message_times cs" "message_times (SinkPattern p # cs) = message_times cs"
  unfolding message_times_def using messages_times [of cs p] by (simp_all add: message_times_def)

text \<open>How often a file is opened: whenever the day is not that of the message before.\<close>

fun day_changes :: "string option \<Rightarrow> string list \<Rightarrow> bool list" where
  "day_changes before [] = []"
| "day_changes before (d # ds) = (before \<noteq> Some d) # day_changes (Some d) ds"

lemma sink_run_spec:
  assumes "sink_inv s"
  shows "map fst (fst (sink_run lt cs s)) =
      map (\<lambda>(time, p). Some (opened_sink (s\<lparr>ds_pattern := p\<rparr>) (DateString lt time) True))
        (messages_with_pattern cs (ds_pattern s)) \<and>
    map snd (fst (sink_run lt cs s)) =
      day_changes (if active_sink s = None then None else Some (active_day s)) (map (DateString lt) (message_times cs))"
  using assms
proof (induction cs arbitrary: s)
  case Nil
  then show ?case by simp
next
  case (Cons c cs)
  show ?case
  proof (cases c)
    case (SinkMessage time)
    note f = sink_it_file [OF Cons.prems, of lt time]
    show ?thesis
      using Cons.IH [OF f(2)] f opened_sink_same [OF f(3)] by (cases "active_sink s") (auto simp: SinkMessage split_beta)
  next
    case SinkFlush
    show ?thesis
      using Cons.IH [OF sink_flush_frame(1) [OF Cons.prems]]
      by (simp add: SinkFlush split_beta sink_flush_frame opened_sink_same [OF sink_flush_frame(2)])
  next
    case (SinkPattern p)
    show ?thesis
      using Cons.IH [OF sink_set_pattern_frame(1) [OF Cons.prems]]
      by (simp add: SinkPattern split_beta sink_set_pattern_frame opened_sink_same [OF sink_set_pattern_frame(2)])
  qed
qed

lemma day_changes_count: "length (filter id (day_changes None ds)) = length (remdups_adj ds)"
proof -
  have "length (filter id (day_changes (Some d) ds)) + 1 = length (remdups_adj (d # ds))" for d ds
    by (induction ds arbitrary: d) auto
  note * = this
  show ?thesis
  proof (cases ds)
    case (Cons d ds')
    then show ?thesis using * [of d ds'] by simp
  qed simp
qed

text \<open>
  C40: each message is handed to the rotating sink of its day. Whatever messages, flushes and changes of the pattern a sink
  receives after its construction, every message is handed over, in order, to a rotating file sink of spdlog opened for the path
  of its local date, with the size limit and the number of files that the constructor settled on (100 MiB and 10 for a
  zero) and the pattern set last; these paths are equal for two messages exactly when they have the same date. A sink is
  opened, which rotates the files of its path, once for each stretch of messages of one date: messages that
  arrive out of order around midnight open the path of the old day again. Which physical file of that path
  then holds a message is up to spdlog's rotation.
\<close>

theorem daily_sink_files:
  assumes "\<forall>t. tm_ok (localtime t)"
  shows "let s = DailyRotatingFileSink dir name bytes n_files;
             rs = fst (sink_run localtime cs s);
             file = (\<lambda>time. BuildFilePath s (DateString localtime time))
         in map fst rs =
              map (\<lambda>(time, p). Some \<lparr>fs_path = file time, fs_max_bytes = (if bytes = 0 then 104857600 else bytes),
                  fs_max_files = (if n_files = 0 then 10 else n_files), fs_pattern = p, fs_dirty = True\<rparr>)
                (messages_with_pattern cs ''%+'') \<and>
            (\<forall>x y. file x = file y \<longleftrightarrow> localtime (to_time_t x) = localtime (to_time_t y)) \<and>
            length (filter snd rs) = length (remdups_adj (map (DateString localtime) (message_times cs)))"
proof -
  let ?s = "DailyRotatingFileSink dir name bytes n_files"
  have i: "sink_inv ?s" and p: "ds_pattern ?s = ''%+''" "active_sink ?s = None"
    by (simp_all add: sink_inv_def DailyRotatingFileSink_def)
  note r = sink_run_spec [OF i, of localtime cs, unfolded p]
  have "length (filter snd rs) = length (filter id (map snd rs))" for rs :: "sunk list"
    by (induction rs) auto
  then have "length (filter snd (fst (sink_run localtime cs ?s))) =
      length (remdups_adj (map (DateString localtime) (message_times cs)))"
    using r [THEN conjunct2] by (simp only: day_changes_count simp_thms if_True)
  moreover have "opened_sink (?s\<lparr>ds_pattern := p\<rparr>) day True =
      \<lparr>fs_path = BuildFilePath ?s day, fs_max_bytes = (if bytes = 0 then 104857600 else bytes),
       fs_max_files = (if n_files = 0 then 10 else n_files), fs_pattern = p, fs_dirty = True\<rparr>" for p day
    by (simp add: opened_sink_def DailyRotatingFileSink_def UseOrDefault_def BuildFilePath_def)
  ultimately show ?thesis
    using r [THEN conjunct1] DateString_inj [of localtime] assms by (simp add: Let_def BuildFilePath_inj)
qed

text \<open>A host whose days have a hundred seconds, for a concrete run.\<close>

definition short_days :: "int \<Rightarrow> tm" where
  "short_days t = \<lparr>tm_year = 126, tm_mon = 6, tm_mday = 1 + max 0 t div 100\<rparr>"

theorem daily_sink_files_witness:
  "map (map_option (\<lambda>f. (fs_path f, fs_max_bytes f, fs_pattern f)) \<circ> fst) (fst (sink_run short_days
       [SinkPattern ''%v'', SinkMessage 99000000000, SinkMessage 100000000000, SinkMessage 99500000000]
       (DailyRotatingFileSink ''logs'' ''kd39'' 0 0))) =
     [Some (''logs/kd39-2026-07-01.log'', 104857600, ''%v''), Some (''logs/kd39-2026-07-02.log'', 104857600, ''%v''),
      Some (''logs/kd39-2026-07-01.log'', 104857600, ''%v'')] \<and>
   length (filter snd (fst (sink_run short_days
       [SinkPattern ''%v'', SinkMessage 99000000000, SinkMessage 100000000000, SinkMessage 99500000000]
       (DailyRotatingFileSink ''logs'' ''kd39'' 0 0)))) = 3"
proof -
  let ?cs = "[SinkPattern ''%v'', SinkMessage 99000000000, SinkMessage 100000000000, SinkMessage 99500000000]"
  have "\<forall>t. tm_ok (short_days t)" by (simp add: tm_ok_def short_days_def)
  note w = daily_sink_files [OF this, of "''logs''" "''kd39''" 0 0 ?cs]
  have days: "DateString short_days 99000000000 = ''2026-07-01''" "DateString short_days 100000000000 = ''2026-07-02''"
    "DateString short_days 99500000000 = ''2026-07-01''"
    by code_simp+
  show ?thesis
    using w by (simp add: Let_def days BuildFilePath_def path_append_def DailyRotatingFileSink_def
        flip: map_map del: sink_run.simps)
qed

end
