(* ===== verification/Logger.thy ===== *)
theory Logger
  imports Log_Sink
begin

text \<open>
  \<open>common/log/logger.cpp\<close>: the process-wide logger, initialised once by whoever comes first, the log
  levels with their names, and what a log macro does; the file sink has a theory of its own. spdlog's loggers and sinks are what the code
  builds them from; whether a directory can be created is the argument \<open>mkdir_ok\<close>. Every log macro
  calls \<open>Raw\<close>, so that any message logged before \<open>InitLogger\<close> initialises the logger with defaults.
\<close>

datatype log_level = Trace | Debug | Info | Warn | Err | Critical | Off

record logger_options =
  lo_service_name :: string
  lo_log_dir :: string
  lo_max_file_size_mb :: "64 word"
  lo_max_files :: "64 word"
  lo_level :: string
  lo_enable_console :: bool

definition default_logger_options :: logger_options where
  "default_logger_options =
     \<lparr>lo_service_name = [], lo_log_dir = ''logs'', lo_max_file_size_mb = 100, lo_max_files = 10,
      lo_level = ''info'', lo_enable_console = True\<rparr>"

section \<open>Levels\<close>

definition ParseLogLevel :: "string \<Rightarrow> log_level option" where
  "ParseLogLevel level_name =
     (let n = to_lower_ascii level_name
      in if n = ''trace'' then Some Trace
         else if n = ''debug'' then Some Debug
         else if n = ''info'' then Some Info
         else if n = ''warn'' \<or> n = ''warning'' then Some Warn
         else if n = ''error'' \<or> n = ''err'' then Some Err
         else if n = ''critical'' then Some Critical
         else if n = ''off'' then Some Off
         else None)"

fun LogLevelName :: "log_level \<Rightarrow> string" where
  "LogLevelName Trace = ''trace''"
| "LogLevelName Debug = ''debug''"
| "LogLevelName Info = ''info''"
| "LogLevelName Warn = ''warn''"
| "LogLevelName Err = ''error''"
| "LogLevelName Critical = ''critical''"
| "LogLevelName Off = ''off''"

lemma ParseLogLevel_names: "list_all (\<lambda>l. ParseLogLevel (LogLevelName l) = Some l) [Trace, Debug, Info, Warn, Err, Critical, Off]"
  by code_simp

lemma ParseLogLevel_LogLevelName [simp]: "ParseLogLevel (LogLevelName l) = Some l"
  using ParseLogLevel_names by (cases l) (simp_all only: list.pred_inject simp_thms)

interpretation level_name: codec "\<lambda>l. True" LogLevelName ParseLogLevel
  by unfold_locales simp

lemma ParseLogLevel_case: "to_lower_ascii s = to_lower_ascii t \<Longrightarrow> ParseLogLevel s = ParseLogLevel t"
  by (simp add: ParseLogLevel_def)

section \<open>Options\<close>

definition NormalizeOptions :: "logger_options \<Rightarrow> logger_options" where
  "NormalizeOptions o0 =
     (let o1 = (if lo_service_name o0 = [] then o0\<lparr>lo_service_name := ''kd39''\<rparr> else o0);
          o2 = (if lo_log_dir o1 = [] then o1\<lparr>lo_log_dir := ''logs''\<rparr> else o1);
          o3 = o2\<lparr>lo_max_file_size_mb := UseOrDefault (lo_max_file_size_mb o2) 100\<rparr>;
          o4 = o3\<lparr>lo_max_files := UseOrDefault (lo_max_files o3) 10\<rparr>
      in if lo_level o4 = [] then o4\<lparr>lo_level := ''info''\<rparr> else o4)"

definition IsSameOptions :: "logger_options \<Rightarrow> logger_options \<Rightarrow> bool" where
  "IsSameOptions l r \<longleftrightarrow>
     lo_service_name l = lo_service_name r \<and> lo_log_dir l = lo_log_dir r \<and>
     lo_max_file_size_mb l = lo_max_file_size_mb r \<and> lo_max_files l = lo_max_files r \<and>
     lo_level l = lo_level r \<and> lo_enable_console l = lo_enable_console r"

lemma NormalizeOptions_eq:
  "NormalizeOptions \<lparr>lo_service_name = n, lo_log_dir = d, lo_max_file_size_mb = b, lo_max_files = f,
      lo_level = l, lo_enable_console = c\<rparr> =
    \<lparr>lo_service_name = (if n = [] then ''kd39'' else n), lo_log_dir = (if d = [] then ''logs'' else d),
     lo_max_file_size_mb = UseOrDefault b 100, lo_max_files = UseOrDefault f 10,
     lo_level = (if l = [] then ''info'' else l), lo_enable_console = c\<rparr>"
  by (cases "n = []"; cases "d = []"; cases "l = []") (simp_all add: NormalizeOptions_def)

lemma NormalizeOptions_idem [simp]: "NormalizeOptions (NormalizeOptions o0) = NormalizeOptions o0"
  by (cases o0) (simp add: NormalizeOptions_eq UseOrDefault_def)

lemma IsSameOptions_iff: "IsSameOptions l r \<longleftrightarrow> l = r"
  by (cases l; cases r) (auto simp: IsSameOptions_def)

section \<open>Initialisation\<close>

datatype log_sink = ConsoleSink | FileSink daily_sink

record spd_logger =
  lg_name :: string
  lg_sinks :: "log_sink list"
  lg_level :: log_level

datatype log_warning = FileSinkFailed | InvalidLevel string | ConflictingOptions

record log_process =
  g_default_logger :: "spd_logger option"
  g_init_options :: logger_options
  g_conflict_warned :: bool
  g_warnings :: "log_warning list"

definition log_start :: log_process where
  "log_start = \<lparr>g_default_logger = None, g_init_options = default_logger_options,
     g_conflict_warned = False, g_warnings = []\<rparr>"

definition kDefaultPattern :: string where
  "kDefaultPattern = ''[%Y-%m-%d %H:%M:%S.%e] [%t] [%^%l%$] [%s:%#] [%n] %v''"

definition EnsureInitialized :: "(string \<Rightarrow> bool) \<Rightarrow> logger_options \<Rightarrow> log_process \<Rightarrow> log_process" where
  "EnsureInitialized mkdir_ok options p =
     (let n = NormalizeOptions options
      in if g_default_logger p \<noteq> None then p
         else
           (let lvl = (case ParseLogLevel (lo_level n) of Some l \<Rightarrow> l | None \<Rightarrow> Info);
                console = (if lo_enable_console n then [ConsoleSink] else []);
                file_ok = mkdir_ok (lo_log_dir n);
                sinks1 = (if file_ok
                          then console @ [FileSink (sink_set_pattern kDefaultPattern
                                 (DailyRotatingFileSink (lo_log_dir n) (lo_service_name n)
                                    (lo_max_file_size_mb n * (1024 * 1024)) (lo_max_files n)))]
                          else console);
                sinks2 = (if sinks1 = [] then [ConsoleSink] else sinks1)
            in p\<lparr>g_init_options := n,
                 g_default_logger := Some \<lparr>lg_name = lo_service_name n, lg_sinks = sinks2, lg_level = lvl\<rparr>,
                 g_warnings := g_warnings p @ (if \<not> file_ok then [FileSinkFailed] else []) @
                   (if ParseLogLevel (lo_level n) = None then [InvalidLevel (lo_level n)] else [])\<rparr>))"

definition Raw :: "(string \<Rightarrow> bool) \<Rightarrow> log_process \<Rightarrow> log_process" where
  "Raw mkdir_ok p =
     (if g_default_logger p \<noteq> None then p else EnsureInitialized mkdir_ok default_logger_options p)"

definition log_Get :: "(string \<Rightarrow> bool) \<Rightarrow> log_process \<Rightarrow> spd_logger option \<times> log_process" where
  "log_Get mkdir_ok p =
     (let p1 = EnsureInitialized mkdir_ok default_logger_options p in (g_default_logger p1, p1))"

definition InitLogger :: "(string \<Rightarrow> bool) \<Rightarrow> logger_options \<Rightarrow> log_process \<Rightarrow> log_process" where
  "InitLogger mkdir_ok options p =
     (let n = NormalizeOptions options;
          p1 = EnsureInitialized mkdir_ok n p
      in if \<not> IsSameOptions (g_init_options p1) n
         then if \<not> g_conflict_warned p1
              then (let p2 = Raw mkdir_ok (p1\<lparr>g_conflict_warned := True\<rparr>)
                    in p2\<lparr>g_warnings := g_warnings p2 @ [ConflictingOptions]\<rparr>)
              else p1
         else p1)"

definition InitLogger_name :: "(string \<Rightarrow> bool) \<Rightarrow> string \<Rightarrow> log_process \<Rightarrow> log_process" where
  "InitLogger_name mkdir_ok name p =
     InitLogger mkdir_ok (default_logger_options\<lparr>lo_service_name := name\<rparr>) p"

definition SetLogLevel_level :: "(string \<Rightarrow> bool) \<Rightarrow> log_level \<Rightarrow> log_process \<Rightarrow> log_process" where
  "SetLogLevel_level mkdir_ok l p =
     (let p1 = Raw mkdir_ok p
      in p1\<lparr>g_default_logger := map_option (\<lambda>lg. lg\<lparr>lg_level := l\<rparr>) (g_default_logger p1)\<rparr>)"

definition SetLogLevel :: "(string \<Rightarrow> bool) \<Rightarrow> string \<Rightarrow> log_process \<Rightarrow> bool \<times> log_process" where
  "SetLogLevel mkdir_ok level_name p =
     (case ParseLogLevel level_name of
        None \<Rightarrow> (False, p)
      | Some l \<Rightarrow> (True, SetLogLevel_level mkdir_ok l p))"

definition GetLogLevel :: "(string \<Rightarrow> bool) \<Rightarrow> log_process \<Rightarrow> log_level \<times> log_process" where
  "GetLogLevel mkdir_ok p =
     (let p1 = Raw mkdir_ok p
      in (case g_default_logger p1 of Some lg \<Rightarrow> lg_level lg | None \<Rightarrow> Info, p1))"

text \<open>
  A log macro: the logger is there or is made, and passes the message on if its level is not below the
  logger's. \<open>out\<close> are the messages that were passed on.
\<close>

fun severity :: "log_level \<Rightarrow> nat" where
  "severity Trace = 0"
| "severity Debug = 1"
| "severity Info = 2"
| "severity Warn = 3"
| "severity Err = 4"
| "severity Critical = 5"
| "severity Off = 6"

definition log_line :: "(string \<Rightarrow> bool) \<Rightarrow> log_level \<Rightarrow> string \<Rightarrow> log_process \<times> (log_level \<times> string) list \<Rightarrow>
    log_process \<times> (log_level \<times> string) list" where
  "log_line mkdir_ok lvl message st =
     (let (p, out) = st; p1 = Raw mkdir_ok p
      in (p1, case g_default_logger p1 of
                None \<Rightarrow> out
              | Some lg \<Rightarrow> if severity (lg_level lg) \<le> severity lvl then out @ [(lvl, message)] else out))"

section \<open>The first initialisation wins\<close>

datatype log_call = InitCall logger_options | LogCall | SetLevelCall string | GetLevelCall

fun log_step :: "(string \<Rightarrow> bool) \<Rightarrow> log_call \<Rightarrow> log_process \<Rightarrow> log_process" where
  "log_step ok (InitCall options) p = InitLogger ok options p"
| "log_step ok LogCall p = Raw ok p"
| "log_step ok (SetLevelCall n) p = snd (SetLogLevel ok n p)"
| "log_step ok GetLevelCall p = snd (GetLogLevel ok p)"

text \<open>The options the first call that touches the logger gives it; a rejected level name does not.\<close>

fun first_options :: "log_call list \<Rightarrow> logger_options option" where
  "first_options [] = None"
| "first_options (InitCall options # cs) = Some (NormalizeOptions options)"
| "first_options (SetLevelCall n # cs) =
     (if ParseLogLevel n = None then first_options cs else Some (NormalizeOptions default_logger_options))"
| "first_options (_ # cs) = Some (NormalizeOptions default_logger_options)"

fun last_level :: "log_call list \<Rightarrow> log_level \<Rightarrow> log_level" where
  "last_level [] l = l"
| "last_level (SetLevelCall n # cs) l =
     last_level cs (case ParseLogLevel n of None \<Rightarrow> l | Some l' \<Rightarrow> l')"
| "last_level (_ # cs) l = last_level cs l"

lemma initialized_step:
  assumes "g_default_logger p = Some lg"
  shows "g_default_logger (log_step ok c p) = Some (lg\<lparr>lg_level := last_level [c] (lg_level lg)\<rparr>)"
    and "g_init_options (log_step ok c p) = g_init_options p"
  using assms
  by (cases c; simp add: InitLogger_def EnsureInitialized_def Raw_def SetLogLevel_def SetLogLevel_level_def
        GetLogLevel_def Let_def split: option.split)+

lemma initialized_run:
  "g_default_logger p = Some lg \<Longrightarrow>
   g_default_logger (fold (log_step ok) cs p) = Some (lg\<lparr>lg_level := last_level cs (lg_level lg)\<rparr>) \<and>
   g_init_options (fold (log_step ok) cs p) = g_init_options p"
proof (induction cs arbitrary: p lg)
  case Nil
  then show ?case by simp
next
  case (Cons c cs)
  have "last_level (c # cs) l = last_level cs (last_level [c] l)" for l
    by (cases c) simp_all
  then show ?case
    using Cons.IH [OF initialized_step(1) [OF Cons.prems, of ok c]] initialized_step(2) [OF Cons.prems]
    by simp
qed

definition option_level :: "logger_options \<Rightarrow> log_level" where
  "option_level n = (case ParseLogLevel (lo_level n) of Some l \<Rightarrow> l | None \<Rightarrow> Info)"

lemma first_call:
  assumes "g_default_logger p = None"
  shows "case first_options [c] of
     None \<Rightarrow> log_step ok c p = p \<and> last_level [c] l = l
   | Some n \<Rightarrow> g_init_options (log_step ok c p) = n \<and>
       (\<exists>lg. g_default_logger (log_step ok c p) = Some lg \<and> lg_name lg = lo_service_name n \<and>
          lg_level lg = last_level [c] (option_level n))"
  using assms
  by (cases c; simp add: InitLogger_def EnsureInitialized_def Raw_def SetLogLevel_def SetLogLevel_level_def
        GetLogLevel_def Let_def IsSameOptions_iff option_level_def split: option.split)

text \<open>
  The first to touch the logger decides. After any sequence of \<open>InitLogger\<close> calls, log messages
  and level changes, the options in force are the normalised ones of the first call that needed the
  logger, the defaults where that was a log message or a level query and not an \<open>InitLogger\<close>; later
  options change nothing, and the level is the one of those options or the last valid one set.
\<close>

theorem logger_first_wins:
  "let p = fold (log_step ok) cs log_start
   in case first_options cs of
        None \<Rightarrow> g_default_logger p = None
      | Some n \<Rightarrow> g_init_options p = n \<and>
          (\<exists>lg. g_default_logger p = Some lg \<and> lg_name lg = lo_service_name n \<and>
             lg_level lg = last_level cs (option_level n))"
proof -
  have "case first_options cs of
        None \<Rightarrow> g_default_logger (fold (log_step ok) cs p) = None
      | Some n \<Rightarrow> g_init_options (fold (log_step ok) cs p) = n \<and>
          (\<exists>lg. g_default_logger (fold (log_step ok) cs p) = Some lg \<and> lg_name lg = lo_service_name n \<and>
             lg_level lg = last_level cs (option_level n))" if "g_default_logger p = None" for p
    using that
  proof (induction cs arbitrary: p)
    case Nil
    then show ?case by simp
  next
    case (Cons c cs)
    have l: "last_level (c # cs) l = last_level cs (last_level [c] l)" for l
      by (cases c) simp_all
    show ?case
    proof (cases "first_options [c]")
      case None
      then have "first_options (c # cs) = first_options cs"
        by (cases c) (simp_all split: if_splits)
      moreover have "log_step ok c p = p" and "last_level [c] l = l" for l
        using first_call [OF Cons.prems, of ok c] None by simp_all
      ultimately show ?thesis using Cons.IH [OF Cons.prems] l by (cases "first_options cs") simp_all
    next
      case (Some n)
      then have f: "first_options (c # cs) = Some n" by (cases c) (auto split: if_splits)
      obtain lg where "g_init_options (log_step ok c p) = n" "g_default_logger (log_step ok c p) = Some lg"
        "lg_name lg = lo_service_name n" "lg_level lg = last_level [c] (option_level n)"
        using first_call [OF Cons.prems, of ok c] Some by auto
      then show ?thesis
        using initialized_run [of "log_step ok c p" lg ok cs] l f by simp
    qed
  qed
  then show ?thesis by (simp add: log_start_def Let_def)
qed

end
