(* ===== verification/Http_Server.thy ===== *)
theory Http_Server
  imports Grpc_Router Auth_Middleware Logger
begin

text \<open>
  \<open>gateways/access_gateway/http\<close>: the HTTP and WebSocket handlers of the gateway, their synchronous
  and coroutine variants, the sessions, and the start, stop and accept loop of the server. The
  handlers work on the gateway's state: its router and token check (\<open>None\<close> for a null pointer), the
  request counter, the process-wide logger and counters, and the world outside. Sockets, Beast and
  the threads are reduced to what the program decides about them.
\<close>

section \<open>Helpers\<close>

type_synonym headers = "string \<rightharpoonup> string"

definition HeaderOrEmpty :: "headers \<Rightarrow> string \<Rightarrow> string" where
  "HeaderOrEmpty hs key = (case hs (to_lower_ascii key) of Some v \<Rightarrow> v | None \<Rightarrow> [])"

definition NormalizeHeaders :: "(string \<times> string) list \<Rightarrow> headers" where
  "NormalizeHeaders flds = fold (\<lambda>(k, v) hs. hs(to_lower_ascii k \<mapsto> v)) flds (\<lambda>_. None)"

definition ToHttpStatus :: "int \<Rightarrow> int" where
  "ToHttpStatus n = (if n \<ge> 100 \<and> n < 600 then n else 500)"

definition WsErrorJson :: "'j json_api \<Rightarrow> string \<Rightarrow> string \<Rightarrow> int \<Rightarrow> exn + string" where
  "WsErrorJson J e c st =
     json_dump J (json_object J
       [(''error'', json_string J e), (''code'', json_string J c), (''status_code'', json_int J st)])"

definition BuildContextFromHeaders :: "string \<Rightarrow> string \<Rightarrow> string \<Rightarrow> string \<Rightarrow> string \<Rightarrow> request_context" where
  "BuildContextFromHeaders rid tid tag ver z =
     empty_context\<lparr>request_id := rid, trace_id := tid, traffic_tag := tag, client_version := ver, zone := z\<rparr>"

record http_response =
  hr_status :: int
  hr_body :: string
  hr_type :: string

definition json_response :: "int \<Rightarrow> string \<Rightarrow> http_response" where
  "json_response st body = \<lparr>hr_status = st, hr_body = body, hr_type = ''application/json''\<rparr>"

section \<open>The gateway\<close>

record ('j, 'w) http_env =
  he_route :: "('j, 'w) gateway_env"
  he_hmac :: "string \<Rightarrow> string \<Rightarrow> string"
  he_time :: "'w \<Rightarrow> int"
  he_mkdir :: "string \<Rightarrow> bool"
  he_metrics_order :: "(string \<times> 64 word) list \<Rightarrow> (string \<times> 64 word) list"

record 'w gateway =
  gt_router :: "router option"
  gt_auth :: "auth_options option"
  gt_world :: "'w gateway_world"
  gt_log :: log_process
  request_seq :: "64 word"

type_synonym ('a, 'w) handled = "(exn + 'a) \<times> 'w gateway"

abbreviation he_json :: "('j, 'w) http_env \<Rightarrow> 'j json_api" where
  "he_json he \<equiv> ge_json (he_route he)"

text \<open>\<open>auth_ ? auth_->Authenticate(token) : RequestContext{}\<close>\<close>

definition check_token :: "('j, 'w) http_env \<Rightarrow> string \<Rightarrow> 'w gateway \<Rightarrow> exn + request_context option" where
  "check_token he token g =
     (case gt_auth g of
        None \<Rightarrow> Inr (Some empty_context)
      | Some options \<Rightarrow>
          Authenticate (he_json he) (he_hmac he) (he_time he (gw_outside (gt_world g))) options token)"

definition dumped :: "'j json_api \<Rightarrow> (string \<times> 'j) list \<Rightarrow> exn + http_response" where
  "dumped J kvs = res_bind (json_dump J (json_object J kvs)) (\<lambda>b. Inr (json_response 200 b))"

definition parse_body :: "'j json_api \<Rightarrow> string \<Rightarrow> 'j option" where
  "parse_body J body = json_parse J (if body = [] then ''{}'' else body)"

definition unauthorized_admin :: http_response where
  "unauthorized_admin = json_response 401 ''{\"error\":\"unauthorized_admin\"}''"

definition is_admin :: "request_context option \<Rightarrow> bool" where
  "is_admin ctx \<longleftrightarrow> (case ctx of None \<Rightarrow> False | Some c \<Rightarrow> user_id c = ''dev-user'')"

definition level_response :: "('j, 'w) http_env \<Rightarrow> 'w gateway \<Rightarrow> (http_response, 'w) handled" where
  "level_response he g =
     (let (lvl, p) = GetLogLevel (he_mkdir he) (gt_log g)
      in (dumped (he_json he) [(''log_level'', json_string (he_json he) (LogLevelName lvl))], g\<lparr>gt_log := p\<rparr>))"

definition handle_log_level :: "('j, 'w) http_env \<Rightarrow> string \<Rightarrow> string \<Rightarrow> string \<Rightarrow> 'w gateway \<Rightarrow>
    (http_response, 'w) handled" where
  "handle_log_level he method body token g =
     (case check_token he token g of
        Inl e \<Rightarrow> (Inl e, g)
      | Inr admin_ctx \<Rightarrow>
          if \<not> is_admin admin_ctx then (Inr unauthorized_admin, g)
          else if method = ''get'' then level_response he g
          else if method = ''post'' then
            (let J = he_json he;
                 wanted = (case parse_body J body of
                             None \<Rightarrow> None
                           | Some json \<Rightarrow>
                               (case json_find J json ''log_level'' of
                                  None \<Rightarrow> None
                                | Some v \<Rightarrow> json_as_string J v))
             in case wanted of
                  None \<Rightarrow> (Inr (json_response 400 ''{\"error\":\"invalid_json\"}''), g)
                | Some name \<Rightarrow>
                    (let (ok, p) = SetLogLevel (he_mkdir he) name (gt_log g);
                         g1 = g\<lparr>gt_log := p\<rparr>
                     in if \<not> ok then (Inr (json_response 400 ''{\"error\":\"invalid_log_level\"}''), g1)
                        else level_response he g1))
          else (Inr (json_response 405 ''{\"error\":\"method_not_allowed\"}''), g))"

definition config_response :: "'j json_api \<Rightarrow> router_runtime_config \<Rightarrow> exn + http_response" where
  "config_response J cfg =
     dumped J [(''grpc_timeout_ms'', json_int J (grpc_timeout_ms cfg)),
               (''retry_attempts'', json_int J (retry_attempts cfg)),
               (''retry_backoff_ms'', json_int J (retry_backoff_ms cfg))]"

text \<open>\<open>if (json.contains(key)) field = json[key].get<int>();\<close>\<close>

definition int_field :: "'j json_api \<Rightarrow> 'j \<Rightarrow> string \<Rightarrow> int \<Rightarrow> exn + int" where
  "int_field J json key old =
     (case json_find J json key of None \<Rightarrow> Inr old | Some v \<Rightarrow> json_get_int J v)"

definition handle_runtime_config :: "('j, 'w) http_env \<Rightarrow> string \<Rightarrow> string \<Rightarrow> string \<Rightarrow> 'w gateway \<Rightarrow>
    (http_response, 'w) handled" where
  "handle_runtime_config he method body token g =
     (case check_token he token g of
        Inl e \<Rightarrow> (Inl e, g)
      | Inr admin_ctx \<Rightarrow>
          if \<not> is_admin admin_ctx then (Inr unauthorized_admin, g)
          else
            (case gt_router g of
               None \<Rightarrow> (Inr (json_response 503 ''{\"error\":\"router_unavailable\"}''), g)
             | Some r \<Rightarrow>
                 if method = ''get'' then (config_response (he_json he) (GetRuntimeConfig r), g)
                 else if method = ''post'' then
                   (let J = he_json he in
                    case parse_body J body of
                      None \<Rightarrow> (Inr (json_response 400 ''{\"error\":\"invalid_json\"}''), g)
                    | Some json \<Rightarrow>
                        (let cfg = GetRuntimeConfig r;
                             read = res_bind (int_field J json ''grpc_timeout_ms'' (grpc_timeout_ms cfg)) (\<lambda>t.
                                    res_bind (int_field J json ''retry_attempts'' (retry_attempts cfg)) (\<lambda>a.
                                    res_bind (int_field J json ''retry_backoff_ms'' (retry_backoff_ms cfg)) (\<lambda>b.
                                    Inr \<lparr>grpc_timeout_ms = t, retry_attempts = a, retry_backoff_ms = b\<rparr>)))
                         in case read of
                              Inl e \<Rightarrow> (Inl e, g)
                            | Inr cfg1 \<Rightarrow>
                                (let r1 = UpdateRuntimeConfig cfg1 r
                                 in (config_response J (GetRuntimeConfig r1), g\<lparr>gt_router := Some r1\<rparr>))))
                 else (Inr (json_response 405 ''{\"error\":\"method_not_allowed\"}''), g)))"

text \<open>The request context a request's headers give, with a generated id where there is none.\<close>

definition or_default :: "string \<Rightarrow> string \<Rightarrow> string" where
  "or_default v d = (if v = [] then d else v)"

definition header_context :: "headers \<Rightarrow> string \<Rightarrow> request_context" where
  "header_context hs generated_request_id =
     (let rid = or_default (HeaderOrEmpty hs ''x-request-id'') generated_request_id;
          tid = or_default (HeaderOrEmpty hs ''x-trace-id'') rid;
          tag = or_default (HeaderOrEmpty hs ''x-traffic-tag'') ''default'';
          ver = or_default (HeaderOrEmpty hs ''x-client-version'') ''unknown'';
          z = or_default (HeaderOrEmpty hs ''x-zone'') ''default''
      in BuildContextFromHeaders rid tid tag ver z)"

type_synonym ('j, 'w) route_fn = "('j, 'w) gateway_env \<Rightarrow> string \<Rightarrow> string \<Rightarrow> request_context \<Rightarrow> router \<Rightarrow>
    'w gateway_world \<Rightarrow> (route_result, 'w) routed"

text \<open>
  The handler is written twice in the source, once calling the route synchronously and once as a
  coroutine. Both copies stand here as they are there, with the two administration handlers and
  the request context that are inlined in each; the definitions above are those of the synchronous copy.
\<close>

definition HandleRequest :: "('j, 'w) http_env \<Rightarrow> string \<Rightarrow> string \<Rightarrow> string \<Rightarrow> string \<Rightarrow> headers \<Rightarrow>
    'w gateway \<Rightarrow> (http_response, 'w) handled" where
  "HandleRequest he method path body token hs g =
     (if path = ''/health'' then
        (Inr (json_response 200 ''{\"status\":\"ok\",\"service\":\"access_gateway\"}''), g)
      else if path = ''/ready'' then
        (Inr (if gt_router g \<noteq> None then json_response 200 ''{\"status\":\"ready\"}''
              else json_response 503 ''{\"status\":\"not_ready\",\"reason\":\"router_unavailable\"}''), g)
      else if path = ''/metrics'' then
        (Inr \<lparr>hr_status = 200, hr_body = RenderPrometheus (he_metrics_order he) (gw_metrics (gt_world g)),
              hr_type = ''text/plain; charset=utf-8''\<rparr>, g)
      else if path = ''/admin/log-level'' then handle_log_level he (to_lower_ascii method) body token g
      else if path = ''/admin/runtime-config'' then
        handle_runtime_config he (to_lower_ascii method) body token g
      else
        (case check_token he token g of
           Inl e \<Rightarrow> (Inl e, g)
         | Inr None \<Rightarrow> (Inr (json_response 401 ''{\"error\":\"unauthorized\"}''), g)
         | Inr (Some auth_ctx) \<Rightarrow>
             (case gt_router g of
                None \<Rightarrow> (Inr (json_response 503 ''{\"error\":\"router_unavailable\"}''), g)
              | Some r \<Rightarrow>
                  (let generated_request_id = ''gw-req-'' @ to_string (uint (request_seq g));
                       g1 = g\<lparr>request_seq := request_seq g + 1\<rparr>;
                       ctx = (header_context hs generated_request_id)\<lparr>user_id := user_id auth_ctx\<rparr>;
                       (routed, r1, w1) = RouteWithStatus (he_route he) path body ctx r (gt_world g1);
                       g2 = g1\<lparr>gt_router := Some r1, gt_world := w1\<rparr>
                   in (res_bind routed (\<lambda>rr. Inr (json_response (status_code rr) (rr_body rr))), g2)))))"

text \<open>The parts of the coroutine.\<close>

definition log_level_async :: "('j, 'w) http_env \<Rightarrow> string \<Rightarrow> string \<Rightarrow> string \<Rightarrow> 'w gateway \<Rightarrow>
    (http_response, 'w) handled" where
  "log_level_async he method body token g =
     (case check_token he token g of
        Inl e \<Rightarrow> (Inl e, g)
      | Inr admin_ctx \<Rightarrow>
          if \<not> is_admin admin_ctx then (Inr unauthorized_admin, g)
          else if method = ''get'' then
            (let J = he_json he; (lvl, p) = GetLogLevel (he_mkdir he) (gt_log g)
             in (res_bind (json_dump J (json_object J [(''log_level'', json_string J (LogLevelName lvl))]))
                   (\<lambda>b. Inr (json_response 200 b)), g\<lparr>gt_log := p\<rparr>))
          else if method = ''post'' then
            (let J = he_json he in
             case json_parse J (if body = [] then ''{}'' else body) of
               None \<Rightarrow> (Inr (json_response 400 ''{\"error\":\"invalid_json\"}''), g)
             | Some json \<Rightarrow>
                 (case json_find J json ''log_level'' of
                    None \<Rightarrow> (Inr (json_response 400 ''{\"error\":\"invalid_json\"}''), g)
                  | Some v \<Rightarrow>
                      (case json_as_string J v of
                         None \<Rightarrow> (Inr (json_response 400 ''{\"error\":\"invalid_json\"}''), g)
                       | Some name \<Rightarrow>
                           (let (ok, p) = SetLogLevel (he_mkdir he) name (gt_log g)
                            in if \<not> ok then (Inr (json_response 400 ''{\"error\":\"invalid_log_level\"}''), g\<lparr>gt_log := p\<rparr>)
                               else
                                 (let (lvl, p1) = GetLogLevel (he_mkdir he) p
                                  in (res_bind (json_dump J (json_object J [(''log_level'', json_string J (LogLevelName lvl))]))
                                        (\<lambda>b. Inr (json_response 200 b)), g\<lparr>gt_log := p1\<rparr>))))))
          else (Inr (json_response 405 ''{\"error\":\"method_not_allowed\"}''), g))"

definition runtime_config_async :: "('j, 'w) http_env \<Rightarrow> string \<Rightarrow> string \<Rightarrow> string \<Rightarrow> 'w gateway \<Rightarrow>
    (http_response, 'w) handled" where
  "runtime_config_async he method body token g =
     (let J = he_json he;
          document = (\<lambda>cfg. res_bind (json_dump J (json_object J
            [(''grpc_timeout_ms'', json_int J (grpc_timeout_ms cfg)),
             (''retry_attempts'', json_int J (retry_attempts cfg)),
             (''retry_backoff_ms'', json_int J (retry_backoff_ms cfg))])) (\<lambda>b. Inr (json_response 200 b)))
      in case check_token he token g of
        Inl e \<Rightarrow> (Inl e, g)
      | Inr admin_ctx \<Rightarrow>
          if \<not> is_admin admin_ctx then (Inr unauthorized_admin, g)
          else
            (case gt_router g of
               None \<Rightarrow> (Inr (json_response 503 ''{\"error\":\"router_unavailable\"}''), g)
             | Some r \<Rightarrow>
                 if method = ''get'' then (document (GetRuntimeConfig r), g)
                 else if method = ''post'' then
                   (case json_parse J (if body = [] then ''{}'' else body) of
                      None \<Rightarrow> (Inr (json_response 400 ''{\"error\":\"invalid_json\"}''), g)
                    | Some json \<Rightarrow>
                        (let cfg = GetRuntimeConfig r;
                             field = (\<lambda>key old. case json_find J json key of None \<Rightarrow> Inr old | Some v \<Rightarrow> json_get_int J v);
                             read = res_bind (field ''grpc_timeout_ms'' (grpc_timeout_ms cfg)) (\<lambda>t.
                                    res_bind (field ''retry_attempts'' (retry_attempts cfg)) (\<lambda>a.
                                    res_bind (field ''retry_backoff_ms'' (retry_backoff_ms cfg)) (\<lambda>b.
                                    Inr \<lparr>grpc_timeout_ms = t, retry_attempts = a, retry_backoff_ms = b\<rparr>)))
                         in case read of
                              Inl e \<Rightarrow> (Inl e, g)
                            | Inr cfg1 \<Rightarrow>
                                (let r1 = UpdateRuntimeConfig cfg1 r
                                 in (document (GetRuntimeConfig r1), g\<lparr>gt_router := Some r1\<rparr>))))
                 else (Inr (json_response 405 ''{\"error\":\"method_not_allowed\"}''), g)))"

definition header_context_async :: "headers \<Rightarrow> string \<Rightarrow> request_context" where
  "header_context_async hs generated_request_id =
     (let rid = HeaderOrEmpty hs ''x-request-id'';
          rid = (if rid = [] then generated_request_id else rid);
          tid = HeaderOrEmpty hs ''x-trace-id'';
          tid = (if tid = [] then rid else tid);
          tag = HeaderOrEmpty hs ''x-traffic-tag'';
          tag = (if tag = [] then ''default'' else tag);
          ver = HeaderOrEmpty hs ''x-client-version'';
          ver = (if ver = [] then ''unknown'' else ver);
          z = HeaderOrEmpty hs ''x-zone'';
          z = (if z = [] then ''default'' else z)
      in BuildContextFromHeaders rid tid tag ver z)"

definition HandleRequestAsync :: "('j, 'w) http_env \<Rightarrow> string \<Rightarrow> string \<Rightarrow> string \<Rightarrow> string \<Rightarrow> headers \<Rightarrow>
    'w gateway \<Rightarrow> (http_response, 'w) handled" where
  "HandleRequestAsync he method path body token hs g =
     (if path = ''/health'' then
        (Inr (json_response 200 ''{\"status\":\"ok\",\"service\":\"access_gateway\"}''), g)
      else if path = ''/ready'' then
        (Inr (if gt_router g \<noteq> None then json_response 200 ''{\"status\":\"ready\"}''
              else json_response 503 ''{\"status\":\"not_ready\",\"reason\":\"router_unavailable\"}''), g)
      else if path = ''/metrics'' then
        (Inr \<lparr>hr_status = 200, hr_body = RenderPrometheus (he_metrics_order he) (gw_metrics (gt_world g)),
              hr_type = ''text/plain; charset=utf-8''\<rparr>, g)
      else if path = ''/admin/log-level'' then log_level_async he (to_lower_ascii method) body token g
      else if path = ''/admin/runtime-config'' then
        runtime_config_async he (to_lower_ascii method) body token g
      else
        (case check_token he token g of
           Inl e \<Rightarrow> (Inl e, g)
         | Inr None \<Rightarrow> (Inr (json_response 401 ''{\"error\":\"unauthorized\"}''), g)
         | Inr (Some auth_ctx) \<Rightarrow>
             (case gt_router g of
                None \<Rightarrow> (Inr (json_response 503 ''{\"error\":\"router_unavailable\"}''), g)
              | Some r \<Rightarrow>
                  (let generated_request_id = ''gw-req-'' @ to_string (uint (request_seq g));
                       g1 = g\<lparr>request_seq := request_seq g + 1\<rparr>;
                       ctx = (header_context_async hs generated_request_id)\<lparr>user_id := user_id auth_ctx\<rparr>;
                       (routed, r1, w1) = RouteWithStatusAsync (he_route he) path body ctx r (gt_world g1);
                       g2 = g1\<lparr>gt_router := Some r1, gt_world := w1\<rparr>
                   in (res_bind routed (\<lambda>rr. Inr (json_response (status_code rr) (rr_body rr))), g2)))))"

definition HandleRequestForTesting :: "('j, 'w) http_env \<Rightarrow> string \<Rightarrow> string \<Rightarrow> string \<Rightarrow> (string \<times> string) list \<Rightarrow>
    string \<Rightarrow> 'w gateway \<Rightarrow> (string, 'w) handled" where
  "HandleRequestForTesting he path body token hs method g =
     (let lowered = fold (\<lambda>(k, v) m. m(to_lower_ascii k \<mapsto> v)) hs (\<lambda>_. None);
          (r, g1) = HandleRequest he method path body token lowered g
      in (res_bind r (\<lambda>resp. Inr (hr_body resp)), g1))"

section \<open>WebSocket messages\<close>

text \<open>The headers of a message: the text entries of its \<open>headers\<close> object.\<close>

definition ws_headers :: "'j json_api \<Rightarrow> 'j \<Rightarrow> headers" where
  "ws_headers J json =
     (case json_find J json ''headers'' of
        None \<Rightarrow> (\<lambda>_. None)
      | Some h \<Rightarrow>
          if json_is_object J h then
            fold (\<lambda>(k, v) hs. case json_as_string J v of
                                Some t \<Rightarrow> hs(to_lower_ascii k \<mapsto> t) | None \<Rightarrow> hs) (json_items J h) (\<lambda>_. None)
          else (\<lambda>_. None))"

definition ws_context :: "headers \<Rightarrow> string \<Rightarrow> request_context" where
  "ws_context hs generated_request_id =
     (let rid = HeaderOrEmpty hs ''x-request-id'';
          rid = (if rid = [] then generated_request_id else rid);
          tid = HeaderOrEmpty hs ''x-trace-id'';
          tid = (if tid = [] then rid else tid);
          tag = HeaderOrEmpty hs ''x-traffic-tag'';
          tag = (if tag = [] then ''default'' else tag);
          ver = HeaderOrEmpty hs ''x-client-version'';
          ver = (if ver = [] then ''unknown'' else ver);
          z = HeaderOrEmpty hs ''x-zone'';
          z = (if z = [] then ''default'' else z)
      in BuildContextFromHeaders rid tid tag ver z)"

definition HandleWsMessage :: "('j, 'w) http_env \<Rightarrow> string \<Rightarrow> string \<Rightarrow> 'w gateway \<Rightarrow> (string, 'w) handled" where
  "HandleWsMessage he payload authenticated_user_id g =
     (let J = he_json he in
      case parse_body J payload of
        None \<Rightarrow> (WsErrorJson J ''invalid_json'' ''bad_request'' 400, g)
      | Some json \<Rightarrow>
          (let generated_request_id = ''gw-ws-'' @ to_string (uint (request_seq g));
               g1 = g\<lparr>request_seq := request_seq g + 1\<rparr>;
               ctx = (ws_context (ws_headers J json) generated_request_id)\<lparr>user_id := authenticated_user_id\<rparr>
           in case gt_router g1 of
                None \<Rightarrow> (WsErrorJson J ''router_unavailable'' ''service_unavailable'' 503, g1)
              | Some r \<Rightarrow>
                  (case res_bind (json_value_string J json ''path'' []) (\<lambda>path.
                        res_bind (json_value_string J json ''body'' ''{}'') (\<lambda>body. Inr (path, body))) of
                     Inl e \<Rightarrow> (Inl e, g1)
                   | Inr (path, body) \<Rightarrow>
                       (let (routed, r1, w1) = RouteWithStatus (he_route he) path body ctx r (gt_world g1);
                            g2 = g1\<lparr>gt_router := Some r1, gt_world := w1\<rparr>
                        in (res_bind routed (\<lambda>rr.
                              if rr_body rr = [] then WsErrorJson J ''empty_downstream_response'' ''bad_gateway'' 502
                              else Inr (rr_body rr)), g2)))))"

definition ws_headers_async :: "'j json_api \<Rightarrow> 'j \<Rightarrow> headers" where
  "ws_headers_async J json =
     (let item = (\<lambda>(key, v) hs. case json_as_string J v of None \<Rightarrow> hs | Some t \<Rightarrow> hs(to_lower_ascii key \<mapsto> t))
      in case json_find J json ''headers'' of
           None \<Rightarrow> (\<lambda>_. None)
         | Some it \<Rightarrow> if json_is_object J it then fold item (json_items J it) (\<lambda>_. None) else (\<lambda>_. None))"

definition ws_context_async :: "headers \<Rightarrow> string \<Rightarrow> request_context" where
  "ws_context_async hs generated_request_id =
     (let rid = HeaderOrEmpty hs ''x-request-id'';
          rid = (if rid = [] then generated_request_id else rid);
          tid = HeaderOrEmpty hs ''x-trace-id'';
          tid = (if tid = [] then rid else tid);
          tag = HeaderOrEmpty hs ''x-traffic-tag'';
          tag = (if tag = [] then ''default'' else tag);
          ver = HeaderOrEmpty hs ''x-client-version'';
          ver = (if ver = [] then ''unknown'' else ver);
          z = HeaderOrEmpty hs ''x-zone'';
          z = (if z = [] then ''default'' else z)
      in BuildContextFromHeaders rid tid tag ver z)"

definition HandleWsMessageAsync :: "('j, 'w) http_env \<Rightarrow> string \<Rightarrow> string \<Rightarrow> 'w gateway \<Rightarrow> (string, 'w) handled" where
  "HandleWsMessageAsync he payload authenticated_user_id g =
     (let J = he_json he in
      case json_parse J (if payload = [] then ''{}'' else payload) of
        None \<Rightarrow> (WsErrorJson J ''invalid_json'' ''bad_request'' 400, g)
      | Some json \<Rightarrow>
          (let generated_request_id = ''gw-ws-'' @ to_string (uint (request_seq g));
               g1 = g\<lparr>request_seq := request_seq g + 1\<rparr>;
               ctx = (ws_context_async (ws_headers_async J json) generated_request_id)\<lparr>user_id := authenticated_user_id\<rparr>
           in case gt_router g1 of
                None \<Rightarrow> (WsErrorJson J ''router_unavailable'' ''service_unavailable'' 503, g1)
              | Some r \<Rightarrow>
                  (case res_bind (json_value_string J json ''path'' []) (\<lambda>path.
                        res_bind (json_value_string J json ''body'' ''{}'') (\<lambda>body. Inr (path, body))) of
                     Inl e \<Rightarrow> (Inl e, g1)
                   | Inr (path, body) \<Rightarrow>
                       (let (routed, r1, w1) = RouteWithStatusAsync (he_route he) path body ctx r (gt_world g1);
                            g2 = g1\<lparr>gt_router := Some r1, gt_world := w1\<rparr>
                        in (res_bind routed (\<lambda>rr.
                              if rr_body rr = [] then WsErrorJson J ''empty_downstream_response'' ''bad_gateway'' 502
                              else Inr (rr_body rr)), g2)))))"

subsection \<open>The copies of the inlined parts\<close>

text \<open>Once these are proved, the coroutine is reasoned about with the definitions of the synchronous copy.\<close>

lemma level_copies: "log_level_async he method body token g = handle_log_level he method body token g"
  unfolding log_level_async_def handle_log_level_def level_response_def dumped_def parse_body_def Let_def
  by (simp add: split_beta split: sum.split option.split)

lemma config_copies: "runtime_config_async he method body token g = handle_runtime_config he method body token g"
  unfolding runtime_config_async_def handle_runtime_config_def config_response_def dumped_def parse_body_def int_field_def Let_def
  by (simp split: sum.split option.split)

lemma context_copies:
  "header_context_async hs rid = header_context hs rid" "ws_context hs rid = header_context hs rid"
  "ws_context_async hs rid = header_context hs rid"
  by (simp_all add: header_context_async_def ws_context_def ws_context_async_def header_context_def or_default_def Let_def)

lemma ws_header_copies: "ws_headers_async J json = ws_headers J json"
proof -
  have "(\<lambda>(key, v) hs. case json_as_string J v of None \<Rightarrow> hs | Some t \<Rightarrow> hs(to_lower_ascii key \<mapsto> t)) =
      (\<lambda>(k, v) hs. case json_as_string J v of Some t \<Rightarrow> hs(to_lower_ascii k \<mapsto> t) | None \<Rightarrow> hs)"
    by (rule refl)
  then show ?thesis by (simp add: ws_headers_async_def ws_headers_def Let_def split: option.split)
qed

lemmas inlined_copies [simp] = level_copies config_copies context_copies ws_header_copies

lemmas async_message_def = HandleWsMessageAsync_def [folded parse_body_def]

section \<open>Sessions\<close>

definition kWsResponseMaxBytes :: nat where
  "kWsResponseMaxBytes = 128 * 1024"

record http_request =
  rq_method :: string
  rq_target :: string
  rq_version :: nat
  rq_body :: string
  rq_authorization :: string
  rq_fields :: "(string \<times> string) list"
  rq_is_upgrade :: bool

text \<open>One response to one message, cut to size.\<close>

definition ws_reply :: "('j, 'w) http_env \<Rightarrow> string \<Rightarrow> string \<Rightarrow> 'w gateway \<Rightarrow> (string, 'w) handled" where
  "ws_reply he payload user g =
     (let (r, g1) = HandleWsMessageAsync he payload user g
      in case r of
           Inl e \<Rightarrow> (Inl e, g1)
         | Inr t \<Rightarrow>
             (if length t > kWsResponseMaxBytes
              then (WsErrorJson (he_json he) ''response_too_large'' ''payload_too_large'' 413, g1)
              else (Inr t, g1)))"

text \<open>
  A turn of the loop over the messages of a connection: whether the server is still running, the
  message or a read error, what else happened to the gateway until it arrived, and whether the reply
  could be written.
\<close>

record 'w ws_turn =
  tu_running :: bool
  tu_read :: "string option"
  tu_meanwhile :: "'w gateway \<Rightarrow> 'w gateway"
  tu_written :: bool

text \<open>A session waits for its next message, has left the loop, or ended in an exception.\<close>

datatype ws_end = WsWaits | WsLeft | WsThrew exn

text \<open>The replies the loop wrote or tried to write, in order.\<close>

fun ws_session :: "('j, 'w) http_env \<Rightarrow> string \<Rightarrow> 'w ws_turn list \<Rightarrow> 'w gateway \<Rightarrow>
    (string list \<times> ws_end) \<times> 'w gateway" where
  "ws_session he user [] g = (([], WsWaits), g)"
| "ws_session he user (turn # rest) g =
     (if \<not> tu_running turn then (([], WsLeft), g)
      else
        (case tu_read turn of
           None \<Rightarrow> (([], WsLeft), tu_meanwhile turn g)
         | Some payload \<Rightarrow>
             (let (r, g1) = ws_reply he payload user (tu_meanwhile turn g)
              in case r of
                   Inl e \<Rightarrow> (([], WsThrew e), g1)
                 | Inr t \<Rightarrow>
                     if \<not> tu_written turn then (([t], WsLeft), g1)
                     else (let ((written, e), g2) = ws_session he user rest g1 in ((t # written, e), g2)))))"

text \<open>What goes out on the connection for a response of the handlers.\<close>

record wire_response =
  wr_response :: http_response
  wr_version :: nat
  wr_server :: string
  wr_keep_alive :: bool

definition on_wire :: "http_request \<Rightarrow> http_response \<Rightarrow> wire_response" where
  "on_wire req resp =
     \<lparr>wr_response = resp, wr_version = rq_version req, wr_server = ''kd39-access-gateway'', wr_keep_alive = False\<rparr>"

datatype session_result =
    Unread
  | Responded wire_response
  | NotAccepted
  | WsDone "string list" ws_end
  | Aborted exn

text \<open>
  What the connection does: the request that was read (\<open>None\<close> for a read error), whether the upgrade
  handshake succeeded, and the turns of the loop. A response is handed to the stream; an error of
  that write is logged only.
\<close>

record 'w session_io =
  si_request :: "http_request option"
  si_accepted :: bool
  si_turns :: "'w ws_turn list"

definition HandleSession :: "('j, 'w) http_env \<Rightarrow> 'w session_io \<Rightarrow> 'w gateway \<Rightarrow> session_result \<times> 'w gateway" where
  "HandleSession he io g =
     (case si_request io of
        None \<Rightarrow> (Unread, g)
      | Some req \<Rightarrow>
          if rq_is_upgrade req then
            (case check_token he (rq_authorization req) g of
               Inl e \<Rightarrow> (Aborted e, g)
             | Inr None \<Rightarrow> (Responded (on_wire req (json_response 401 ''{\"error\":\"unauthorized\"}'')), g)
             | Inr (Some auth_ctx) \<Rightarrow>
                 if \<not> si_accepted io then (NotAccepted, g)
                 else
                   (let ((written, e), g1) = ws_session he (user_id auth_ctx) (si_turns io) g
                    in (WsDone written e, g1)))
          else
            (let (r, g1) = HandleRequestAsync he (rq_method req) (rq_target req) (rq_body req)
                             (rq_authorization req) (NormalizeHeaders (rq_fields req)) g
             in (case r of
                   Inl e \<Rightarrow> Aborted e
                 | Inr resp \<Rightarrow> Responded (on_wire req (resp\<lparr>hr_status := ToHttpStatus (hr_status resp)\<rparr>)), g1)))"

section \<open>Start, stop and the accept loop\<close>

record http_server =
  hs_port :: "16 word"
  hs_io_threads :: int
  hs_running :: bool
  hs_accept_context :: bool
  hs_accept_guard :: bool
  hs_worker_contexts :: nat
  hs_worker_guards :: nat
  hs_accept_thread :: bool
  hs_worker_threads :: nat
  hs_acceptor :: bool
  hs_next_worker :: "64 word"

definition HttpServer :: "16 word \<Rightarrow> int \<Rightarrow> http_server" where
  "HttpServer p io_threads =
     \<lparr>hs_port = p, hs_io_threads = io_threads, hs_running = False, hs_accept_context = False,
      hs_accept_guard = False, hs_worker_contexts = 0, hs_worker_guards = 0, hs_accept_thread = False,
      hs_worker_threads = 0, hs_acceptor = False, hs_next_worker = 0\<rparr>"

text \<open>
  What becomes of the address: it does not parse and \<open>make_address\<close> throws before there is an acceptor; opening, binding
  or listening throws; or the acceptor got a port.
\<close>

datatype listen_outcome = AddressThrows | ListenThrows | Listening "16 word"

definition http_Start :: "listen_outcome \<Rightarrow> http_server \<Rightarrow> (exn + unit) \<times> http_server" where
  "http_Start bound s =
     (if hs_running s then (Inr (), s)
      else
        (let n = nat (max 1 (hs_io_threads s));
             s1 = s\<lparr>hs_running := True, hs_accept_context := True, hs_accept_guard := True,
                    hs_worker_contexts := n, hs_worker_guards := n, hs_next_worker := 0\<rparr>
         in case bound of
              AddressThrows \<Rightarrow> (Inl (Std_exception ''address''), s1\<lparr>hs_running := False\<rparr>)
            | ListenThrows \<Rightarrow> (Inl (Std_exception ''bind''), s1\<lparr>hs_running := False, hs_acceptor := True\<rparr>)
            | Listening p \<Rightarrow>
                (Inr (), s1\<lparr>hs_acceptor := True, hs_port := p, hs_accept_thread := True,
                            hs_worker_threads := n\<rparr>)))"

definition http_Stop :: "http_server \<Rightarrow> http_server" where
  "http_Stop s =
     (if \<not> hs_running s then s
      else s\<lparr>hs_running := False, hs_accept_guard := False, hs_worker_guards := 0,
             hs_accept_thread := False, hs_worker_threads := 0, hs_worker_contexts := 0,
             hs_acceptor := False, hs_accept_context := False\<rparr>)"

text \<open>
  A turn of the accept loop: an accept error, or a connection whose release from the acceptor and
  assignment to a worker succeed or not. The result is the worker that gets the session.
\<close>

datatype accept_event = AcceptError | Accepted bool bool

definition accept_step :: "accept_event \<Rightarrow> http_server \<Rightarrow> nat option \<times> http_server" where
  "accept_step ev s =
     (case ev of
        AcceptError \<Rightarrow> (None, s)
      | Accepted released assigned \<Rightarrow>
          if hs_worker_contexts s = 0 then (None, s)
          else
            (let i = unat (hs_next_worker s) mod hs_worker_contexts s;
                 s1 = s\<lparr>hs_next_worker := hs_next_worker s + 1\<rparr>
             in if \<not> released then (None, s1)
                else if \<not> assigned then (None, s1)
                else (Some i, s1)))"

fun AcceptLoop :: "accept_event list \<Rightarrow> http_server \<Rightarrow> nat list \<times> http_server" where
  "AcceptLoop [] s = ([], s)"
| "AcceptLoop (ev # evs) s =
     (if \<not> hs_running s then ([], s)
      else
        (let (i, s1) = accept_step ev s; (is, s2) = AcceptLoop evs s1
         in (case i of None \<Rightarrow> is | Some k \<Rightarrow> k # is, s2)))"

section \<open>The two variants agree\<close>

text \<open>What the synchronous router answers where the coroutine threw.\<close>

definition thrown_body :: "('j, 'w) http_env \<Rightarrow> exn \<Rightarrow> exn + string" where
  "thrown_body he e =
     json_dump (he_json he) (ErrorJson (he_json he) ''router_async_failed'' (ge_what (he_route he) e) 0)"

definition agrees_or_503 :: "('j, 'w) http_env \<Rightarrow> (http_response, 'w) handled \<Rightarrow> (http_response, 'w) handled \<Rightarrow> bool" where
  "agrees_or_503 he async sync \<longleftrightarrow>
     sync = async \<or>
     (\<exists>e. fst async = Inl e \<and> sync = (res_bind (thrown_body he e) (\<lambda>b. Inr (json_response 503 b)), snd async))"

lemma RouteWithStatus_cases:
  "RouteWithStatusAsync (he_route he) path body ctx r w = (res, r1, w1) \<Longrightarrow>
   RouteWithStatus (he_route he) path body ctx r w =
     (case res of Inr rr \<Rightarrow> Inr rr
      | Inl e \<Rightarrow> res_bind (thrown_body he e)
          (\<lambda>b. Inr \<lparr>status_code = 503, rr_body = b, rr_error = ''router_async_failed'',
                    downstream_service = [], downstream_status = UNAVAILABLE\<rparr>), r1, w1)"
  by (cases res) (simp_all add: RouteWithStatus_def thrown_body_def)

definition public_path :: "string \<Rightarrow> bool" where
  "public_path path \<longleftrightarrow> path \<in> {''/health'', ''/ready'', ''/metrics''}"

definition admin_path :: "string \<Rightarrow> bool" where
  "admin_path path \<longleftrightarrow> path \<in> {''/admin/log-level'', ''/admin/runtime-config''}"

lemma HandleRequest_unrouted:
  assumes "public_path path \<or> admin_path path \<or> gt_router g = None \<or> (\<nexists>c. check_token he token g = Inr (Some c))"
  shows "HandleRequest he method path body token hs g = HandleRequestAsync he method path body token hs g"
proof (cases "public_path path \<or> admin_path path")
  case True
  then show ?thesis
    by (auto simp: HandleRequest_def HandleRequestAsync_def public_path_def admin_path_def)
next
  case False
  then show ?thesis
    using assms by (auto simp: HandleRequest_def HandleRequestAsync_def split: sum.split option.split)
qed

lemma http_agrees:
  "agrees_or_503 he (HandleRequestAsync he method path body token hs g) (HandleRequest he method path body token hs g)"
proof (cases "public_path path \<or> admin_path path \<or> gt_router g = None \<or> (\<nexists>c. check_token he token g = Inr (Some c))")
  case True
  then show ?thesis by (simp add: HandleRequest_unrouted agrees_or_503_def)
next
  case False
  then obtain c r where c: "check_token he token g = Inr (Some c)" and r: "gt_router g = Some r"
    and paths: "path \<noteq> ''/health''" "path \<noteq> ''/ready''" "path \<noteq> ''/metrics''"
      "path \<noteq> ''/admin/log-level''" "path \<noteq> ''/admin/runtime-config''"
    by (auto simp: public_path_def admin_path_def)
  let ?ctx = "(header_context hs (''gw-req-'' @ to_string (uint (request_seq g))))\<lparr>user_id := user_id c\<rparr>"
  obtain res r1 w1 where route: "RouteWithStatusAsync (he_route he) path body ?ctx r (gt_world g) = (res, r1, w1)"
    by (cases "RouteWithStatusAsync (he_route he) path body ?ctx r (gt_world g)")
  show ?thesis
    unfolding HandleRequest_def HandleRequestAsync_def
    by (cases res; cases "thrown_body he (projl res)")
      (simp_all add: paths c r route RouteWithStatus_cases [OF route] agrees_or_503_def
          del: append.simps)
qed

definition ws_agrees_or_503 :: "('j, 'w) http_env \<Rightarrow> (string, 'w) handled \<Rightarrow> (string, 'w) handled \<Rightarrow> bool" where
  "ws_agrees_or_503 he async sync \<longleftrightarrow>
     sync = async \<or>
     (\<exists>e. fst async = Inl e \<and> snd sync = snd async \<and>
          fst sync = res_bind (thrown_body he e) (\<lambda>b. if b = []
            then WsErrorJson (he_json he) ''empty_downstream_response'' ''bad_gateway'' 502 else Inr b))"

lemma ws_agrees:
  "ws_agrees_or_503 he (HandleWsMessageAsync he payload user g) (HandleWsMessage he payload user g)"
proof (cases "parse_body (he_json he) payload")
  case None
  then show ?thesis by (simp add: HandleWsMessage_def async_message_def ws_agrees_or_503_def)
next
  case (Some json)
  show ?thesis
  proof (cases "gt_router g")
    case None
    then show ?thesis by (simp add: Some HandleWsMessage_def async_message_def ws_agrees_or_503_def)
  next
    case r: (Some r)
    let ?read = "res_bind (json_value_string (he_json he) json ''path'' []) (\<lambda>path.
                 res_bind (json_value_string (he_json he) json ''body'' ''{}'') (\<lambda>body. Inr (path, body)))"
    let ?ctx = "(header_context (ws_headers (he_json he) json) (''gw-ws-'' @ to_string (uint (request_seq g))))
                  \<lparr>user_id := user\<rparr>"
    show ?thesis
    proof (cases ?read)
      case (Inl e)
      then show ?thesis by (simp add: Some r HandleWsMessage_def async_message_def ws_agrees_or_503_def)
    next
      case (Inr pb)
      obtain path body where pb: "pb = (path, body)" by (cases pb)
      obtain res r1 w1 where route: "RouteWithStatusAsync (he_route he) path body ?ctx r (gt_world g) = (res, r1, w1)"
        by (cases "RouteWithStatusAsync (he_route he) path body ?ctx r (gt_world g)")
      show ?thesis
        unfolding HandleWsMessage_def async_message_def
        by (cases res; cases "thrown_body he (projl res)")
          (simp_all add: Some r Inr [unfolded pb] route RouteWithStatus_cases [OF route] ws_agrees_or_503_def
            del: append.simps)
    qed
  qed
qed

text \<open>
  C26: the copies of the handlers agree. For every request and every message, \<open>HandleRequest\<close> and
  \<open>HandleRequestAsync\<close>, and likewise \<open>HandleWsMessage\<close> and \<open>HandleWsMessageAsync\<close>, give the same answer and
  leave the same state; the one exception is a route that throws, which the synchronous variant
  answers with a 503 and its error document, with the state the coroutine left.
\<close>

theorem sync_async_agree:
  "agrees_or_503 he (HandleRequestAsync he method path body token hs g) (HandleRequest he method path body token hs g) \<and>
   ws_agrees_or_503 he (HandleWsMessageAsync he payload user g) (HandleWsMessage he payload user g)"
  using http_agrees ws_agrees by blast

section \<open>Who may do what\<close>

text \<open>A gateway to try it on: the default token check, three services that know nobody.\<close>

definition sample_http_env :: "(document, nat) http_env" where
  "sample_http_env =
     \<lparr>he_route = \<lparr>ge_json = sample_json, ge_grpc = not_found_env, ge_round = fixed20, ge_scan = sample_scan,
        ge_what = (\<lambda>e. ''error'')\<rparr>,
      he_hmac = (\<lambda>k d. k), he_time = (\<lambda>n. 0), he_mkdir = (\<lambda>d. True), he_metrics_order = rev\<rparr>"

definition sample_router :: router where
  "sample_router = GrpcRouter
     \<lparr>config_service_target = ''c'', user_service_target = ''u'', game_service_target = ''g''\<rparr>
     None default_runtime_config 8 0"

definition sample_gateway :: "nat gateway" where
  "sample_gateway =
     \<lparr>gt_router = Some sample_router, gt_auth = Some default_auth_options,
      gt_world = \<lparr>gw_metrics = [], gw_etcd = no_states, gw_outside = 0\<rparr>, gt_log = log_start, request_seq = 1\<rparr>"

lemma sample_token:
  "check_token sample_http_env ''user:ann'' sample_gateway = Inr (Some (empty_context\<lparr>user_id := ''ann''\<rparr>))"
  by (simp add: check_token_def sample_gateway_def Authenticate_def strip_bearer_def default_auth_options_def
      kLegacyDevToken_def Let_def)

text \<open>
  C11: nothing happens for the wrong caller. A request on any but the three public paths whose token
  is not accepted, or on an administration path whose token is not that of \<open>dev-user\<close>, is answered
  with 401 and changes nothing: not the configuration, not the log level, not the counters, and no
  call goes to a service.
\<close>

theorem unauthorized_no_effect:
  assumes "\<not> public_path path" and "check_token he token g = Inr ctx"
    and "ctx = None \<or> admin_path path \<and> \<not> is_admin ctx"
  shows "\<exists>body'. HandleRequestAsync he method path body token hs g = (Inr (json_response 401 body'), g)"
proof (cases "admin_path path")
  case True
  have "\<not> is_admin ctx" using assms(3) by (auto simp: is_admin_def)
  then show ?thesis
    using True assms(1,2)
    by (auto simp: HandleRequestAsync_def handle_log_level_def handle_runtime_config_def
        admin_path_def unauthorized_admin_def)
next
  case False
  then show ?thesis
    using assms by (auto simp: HandleRequestAsync_def public_path_def admin_path_def)
qed

theorem unauthorized_no_effect_witness:
  "\<exists>body'. HandleRequestAsync sample_http_env ''POST'' ''/admin/runtime-config'' ''{}'' ''user:ann'' (\<lambda>_. None) sample_gateway =
     (Inr (json_response 401 body'), sample_gateway)"
  by (rule unauthorized_no_effect [OF _ sample_token]) (simp_all add: public_path_def admin_path_def is_admin_def)

text \<open>
  C20: the identity of a routed request comes from the token alone. Whatever headers a caller sends,
  also an \<open>x-user-id\<close>, a request that is routed carries the user of the token, and the metadata of
  every downstream call has that user or, where the token names none, no user at all.
\<close>

theorem identity_from_token:
  assumes "\<not> public_path path" and "\<not> admin_path path" and "gt_router g = Some r"
    and "check_token he token g = Inr (Some auth_ctx)"
  shows "\<exists>ctx. user_id ctx = user_id auth_ctx \<and>
    last_value kMetaUserId (AddMetadata ctx) = user_id auth_ctx \<and>
    fst (HandleRequestAsync he method path body token hs g) =
      res_bind (fst (RouteWithStatusAsync (he_route he) path body ctx r (gt_world g)))
        (\<lambda>rr. Inr (json_response (status_code rr) (rr_body rr)))"
proof -
  let ?ctx = "(header_context hs (''gw-req-'' @ to_string (uint (request_seq g))))\<lparr>user_id := user_id auth_ctx\<rparr>"
  have "last_value kMetaUserId (AddMetadata ctx) = user_id ctx" for ctx
    by (simp add: AddMetadata_def add_unless_empty_def last_value_def)
  moreover have "fst (HandleRequestAsync he method path body token hs g) =
      res_bind (fst (RouteWithStatusAsync (he_route he) path body ?ctx r (gt_world g)))
        (\<lambda>rr. Inr (json_response (status_code rr) (rr_body rr)))"
    using assms
    by (simp add: HandleRequestAsync_def public_path_def admin_path_def Let_def split_beta)
  ultimately show ?thesis by (intro exI [of _ ?ctx]) simp
qed

theorem identity_from_token_witness:
  "\<exists>ctx. user_id ctx = ''ann'' \<and> last_value kMetaUserId (AddMetadata ctx) = ''ann'' \<and>
    fst (HandleRequestAsync sample_http_env ''POST'' ''/user/get'' [] ''user:ann'' [''x-user-id'' \<mapsto> ''root''] sample_gateway) =
      res_bind (fst (RouteWithStatusAsync (he_route sample_http_env) ''/user/get'' [] ctx sample_router (gt_world sample_gateway)))
        (\<lambda>rr. Inr (json_response (status_code rr) (rr_body rr)))"
  using identity_from_token [OF _ _ _ sample_token, of "''/user/get''" sample_router "''POST''" "[]"
      "[''x-user-id'' \<mapsto> ''root'']"]
  by (simp add: public_path_def admin_path_def sample_gateway_def)

section \<open>Sessions\<close>

lemma ws_reply_size:
  assumes "fst (ws_reply he payload user g) = Inr t"
  shows "length t \<le> kWsResponseMaxBytes \<or>
    WsErrorJson (he_json he) ''response_too_large'' ''payload_too_large'' 413 = Inr t"
  using assms by (auto simp: ws_reply_def split_beta split: sum.splits if_splits)

definition answers_to :: "('j, 'w) http_env \<Rightarrow> string \<Rightarrow> 'w ws_turn \<Rightarrow> string \<Rightarrow> bool" where
  "answers_to he user turn t \<longleftrightarrow>
     tu_running turn \<and> (\<exists>payload g. tu_read turn = Some payload \<and> fst (ws_reply he payload user g) = Inr t)"

lemma answers_to_size:
  "answers_to he user turn t \<Longrightarrow> length t \<le> kWsResponseMaxBytes \<or>
    WsErrorJson (he_json he) ''response_too_large'' ''payload_too_large'' 413 = Inr t"
  by (auto simp: answers_to_def dest: ws_reply_size)

lemma ws_session_answers:
  "ws_session he user turns g = ((written, e), g') \<Longrightarrow>
   length written \<le> length turns \<and> list_all2 (answers_to he user) (take (length written) turns) written \<and>
   (e = WsWaits \<longrightarrow> length written = length turns)"
proof (induction turns arbitrary: g written e g')
  case Nil
  then show ?case by simp
next
  case (Cons turn rest)
  show ?case
  proof (cases "tu_running turn")
    case False
    then show ?thesis using Cons.prems by auto
  next
    case run: True
    show ?thesis
    proof (cases "tu_read turn")
      case None
      then show ?thesis using Cons.prems run by auto
    next
      case payload: (Some payload)
      obtain r g1 where r: "ws_reply he payload user (tu_meanwhile turn g) = (r, g1)" by fastforce
      show ?thesis
      proof (cases r)
        case (Inl x)
        then show ?thesis using Cons.prems run payload r by auto
      next
        case (Inr t)
        have t: "answers_to he user turn t"
          unfolding answers_to_def using run payload r Inr by (metis fst_conv)
        obtain written2 e2 g2 where rest: "ws_session he user rest g1 = ((written2, e2), g2)"
          by (metis prod.exhaust)
        show ?thesis
          using Cons.prems Cons.IH [OF rest] t by (auto simp: run payload r Inr rest split: if_splits)
      qed
    qed
  qed
qed

text \<open>
  C27: a WebSocket connection answers its messages one by one. A connection is upgraded only for an
  accepted token. Each reply of its session then answers the message of its turn, in order, on
  behalf of the token's user; the loop goes on after an answer unless the server stops, a read or a
  write fails or the handler throws, and no reply but the fixed error document is longer than 128 KiB.
\<close>

theorem ws_session_replies:
  assumes "HandleSession he io g = (WsDone written e, g')"
  shows "\<exists>req auth_ctx. si_request io = Some req \<and> rq_is_upgrade req \<and>
    check_token he (rq_authorization req) g = Inr (Some auth_ctx) \<and>
    length written \<le> length (si_turns io) \<and>
    list_all2 (answers_to he (user_id auth_ctx)) (take (length written) (si_turns io)) written \<and>
    (e = WsWaits \<longrightarrow> length written = length (si_turns io)) \<and>
    (\<forall>t \<in> set written. length t \<le> 131072 \<or>
       WsErrorJson (he_json he) ''response_too_large'' ''payload_too_large'' 413 = Inr t)"
proof -
  obtain req auth_ctx where req: "si_request io = Some req" "rq_is_upgrade req"
      "check_token he (rq_authorization req) g = Inr (Some auth_ctx)"
    and s: "ws_session he (user_id auth_ctx) (si_turns io) g = ((written, e), g')"
    using assms by (auto simp: HandleSession_def split_beta prod_eq_iff split: option.splits if_splits sum.splits)
  note a = ws_session_answers [OF s]
  have "answers_to he (user_id auth_ctx) (si_turns io ! i) (written ! i)" if "i < length written" for i
    using a that by (simp add: list_all2_conv_all_nth)
  then have "length t \<le> kWsResponseMaxBytes \<or>
      WsErrorJson (he_json he) ''response_too_large'' ''payload_too_large'' 413 = Inr t" if "t \<in> set written" for t
    using that by (metis answers_to_size in_set_conv_nth)
  then show ?thesis using req a by (auto simp: kWsResponseMaxBytes_def)
qed

definition sample_turn :: "string \<Rightarrow> nat ws_turn" where
  "sample_turn payload = \<lparr>tu_running = True, tu_read = Some payload, tu_meanwhile = (\<lambda>g. g), tu_written = True\<rparr>"

definition unreadable_http_env :: "(document, nat) http_env" where
  "unreadable_http_env = sample_http_env\<lparr>he_route := (he_route sample_http_env)\<lparr>ge_json :=
     sample_json\<lparr>json_parse := (\<lambda>s. None), json_dump := (\<lambda>j. Inr ''{}'')\<rparr>\<rparr>\<rparr>"

definition sample_session :: "nat session_io" where
  "sample_session =
     \<lparr>si_request = Some \<lparr>rq_method = ''GET'', rq_target = ''/ws'', rq_version = 11, rq_body = [],
        rq_authorization = ''user:ann'', rq_fields = [], rq_is_upgrade = True\<rparr>,
      si_accepted = True, si_turns = [sample_turn ''hello'', (sample_turn [])\<lparr>tu_running := False\<rparr>]\<rparr>"

theorem ws_session_replies_witness:
  "\<exists>auth_ctx. check_token unreadable_http_env ''user:ann'' sample_gateway = Inr (Some auth_ctx) \<and>
    list_all2 (answers_to unreadable_http_env (user_id auth_ctx)) [sample_turn ''hello''] [''{}'']"
proof -
  have token: "check_token unreadable_http_env ''user:ann'' sample_gateway =
      Inr (Some (empty_context\<lparr>user_id := ''ann''\<rparr>))"
    by (simp add: check_token_def sample_gateway_def Authenticate_def strip_bearer_def default_auth_options_def
        kLegacyDevToken_def Let_def)
  have reply: "ws_reply unreadable_http_env ''hello'' u g = (Inr ''{}'', g)" for u and g :: "nat gateway"
    by (simp add: ws_reply_def async_message_def unreadable_http_env_def sample_http_env_def parse_body_def
        WsErrorJson_def kWsResponseMaxBytes_def)
  have "HandleSession unreadable_http_env sample_session sample_gateway = (WsDone [''{}''] WsLeft, sample_gateway)"
    by (simp add: HandleSession_def sample_session_def sample_turn_def token reply)
  from ws_session_replies [OF this] show ?thesis by (auto simp: sample_session_def)
qed

end
