(* ===== verification/Config_Loader.thy ===== *)
theory Config_Loader
  imports Std_Text
begin

text \<open>
  \<open>common/config/app_config.cpp\<close>: the configuration files, one \<open>key: value\<close> per line, and the two
  configurations read from them. A file is its lines, as \<open>std::getline\<close> returns them, or \<open>None\<close>
  when it cannot be opened. A value that is no number makes the reader throw.
\<close>

type_synonym flat_config = "string \<rightharpoonup> string"

definition is_trim_space :: "char \<Rightarrow> bool" where
  "is_trim_space c \<longleftrightarrow> c = CHR '' '' \<or> code c = 9 \<or> code c = 10 \<or> code c = 13"

definition Trim :: "string \<Rightarrow> string" where
  "Trim v = rev (dropWhile is_trim_space (rev (dropWhile is_trim_space v)))"

definition unquote :: "string \<Rightarrow> string" where
  "unquote v =
     (if v \<noteq> [] \<and> (hd v = CHR 0x22 \<and> last v = CHR 0x22 \<or> hd v = CHR 0x27 \<and> last v = CHR 0x27)
      then take (length v - 2) (drop 1 v) else v)"

text \<open>One turn of the loop of \<open>LoadFlatConfig\<close>: the entry of a line, if it has one.\<close>

definition config_line :: "string \<Rightarrow> (string \<times> string) option" where
  "config_line line0 =
     (let line = Trim line0
      in if line = [] \<or> starts_with ''#'' line then None
         else
           (case find_char (CHR '':'') line of
              None \<Rightarrow> None
            | Some pos \<Rightarrow> Some (Trim (take pos line), unquote (Trim (drop (pos + 1) line)))))"

fun load_lines :: "string list \<Rightarrow> flat_config \<Rightarrow> flat_config" where
  "load_lines [] cfg = cfg"
| "load_lines (line # ls) cfg =
     load_lines ls (case config_line line of None \<Rightarrow> cfg | Some (k, v) \<Rightarrow> cfg(k \<mapsto> v))"

definition LoadFlatConfig :: "string list option \<Rightarrow> flat_config" where
  "LoadFlatConfig file = (case file of None \<Rightarrow> (\<lambda>_. None) | Some ls \<Rightarrow> load_lines ls (\<lambda>_. None))"

section \<open>Typed readers\<close>

definition GetOr_string :: "flat_config \<Rightarrow> string \<Rightarrow> string \<Rightarrow> string" where
  "GetOr_string cfg key fallback = (case cfg key of Some v \<Rightarrow> v | None \<Rightarrow> fallback)"

definition GetOr_uint16 :: "flat_config \<Rightarrow> string \<Rightarrow> 16 word \<Rightarrow> exn + 16 word" where
  "GetOr_uint16 cfg key fallback =
     (case cfg key of Some v \<Rightarrow> res_bind (stoi v) (\<lambda>n. Inr (word_of_int n)) | None \<Rightarrow> Inr fallback)"

definition GetOr_int :: "flat_config \<Rightarrow> string \<Rightarrow> int \<Rightarrow> exn + int" where
  "GetOr_int cfg key fallback = (case cfg key of Some v \<Rightarrow> stoi v | None \<Rightarrow> Inr fallback)"

definition GetOr_bool :: "flat_config \<Rightarrow> string \<Rightarrow> bool \<Rightarrow> bool" where
  "GetOr_bool cfg key fallback =
     (case cfg key of
        None \<Rightarrow> fallback
      | Some v0 \<Rightarrow>
          (let v = to_lower_ascii v0
           in if v = ''1'' \<or> v = ''true'' \<or> v = ''yes'' \<or> v = ''on'' then True
              else if v = ''0'' \<or> v = ''false'' \<or> v = ''no'' \<or> v = ''off'' then False
              else fallback))"

section \<open>The two configurations\<close>

record service_config =
  sc_service_name :: string
  sc_bind_host :: string
  sc_grpc_port :: "16 word"
  sc_log_dir :: string
  sc_log_max_size_mb :: int
  sc_log_max_files :: int
  sc_log_level :: string
  sc_mysql_host :: string
  sc_mysql_port :: "16 word"
  sc_mysql_user :: string
  sc_mysql_password :: string
  sc_mysql_db :: string
  sc_mysql_pool_size :: int
  sc_redis_host :: string
  sc_redis_port :: "16 word"
  sc_redis_password :: string
  sc_redis_db :: int
  sc_redis_pool_size :: int
  sc_etcd_endpoints :: string
  sc_mq_uri :: string
  sc_registry_ttl_seconds :: int

definition LoadServiceConfig :: "string list option \<Rightarrow> string \<Rightarrow> 16 word \<Rightarrow> exn + service_config" where
  "LoadServiceConfig file default_service_name default_grpc_port =
     (let cfg = LoadFlatConfig file in
      res_bind (GetOr_uint16 cfg ''grpc_port'' default_grpc_port) (\<lambda>grpc_port.
      res_bind (GetOr_int cfg ''log_max_size_mb'' 100) (\<lambda>size_mb.
      res_bind (GetOr_int cfg ''log_max_files'' 10) (\<lambda>n_files.
      res_bind (GetOr_uint16 cfg ''mysql_port'' 3306) (\<lambda>mysql_port.
      res_bind (GetOr_int cfg ''mysql_pool_size'' 4) (\<lambda>mysql_pool.
      res_bind (GetOr_uint16 cfg ''redis_port'' 6379) (\<lambda>redis_port.
      res_bind (GetOr_int cfg ''redis_db'' 0) (\<lambda>redis_db.
      res_bind (GetOr_int cfg ''redis_pool_size'' 4) (\<lambda>redis_pool.
      res_bind (GetOr_int cfg ''registry_ttl_seconds'' 30) (\<lambda>ttl.
      Inr \<lparr>sc_service_name = GetOr_string cfg ''service_name'' default_service_name,
           sc_bind_host = GetOr_string cfg ''bind_host'' ''0.0.0.0'',
           sc_grpc_port = grpc_port,
           sc_log_dir = GetOr_string cfg ''log_dir'' ''logs'',
           sc_log_max_size_mb = size_mb,
           sc_log_max_files = n_files,
           sc_log_level = GetOr_string cfg ''log_level'' ''info'',
           sc_mysql_host = GetOr_string cfg ''mysql_host'' ''127.0.0.1'',
           sc_mysql_port = mysql_port,
           sc_mysql_user = GetOr_string cfg ''mysql_user'' ''root'',
           sc_mysql_password = GetOr_string cfg ''mysql_password'' ''kd39dev'',
           sc_mysql_db = GetOr_string cfg ''mysql_db'' ''kd39'',
           sc_mysql_pool_size = mysql_pool,
           sc_redis_host = GetOr_string cfg ''redis_host'' ''127.0.0.1'',
           sc_redis_port = redis_port,
           sc_redis_password = GetOr_string cfg ''redis_password'' [],
           sc_redis_db = redis_db,
           sc_redis_pool_size = redis_pool,
           sc_etcd_endpoints = GetOr_string cfg ''etcd_endpoints'' ''http://127.0.0.1:2379'',
           sc_mq_uri = GetOr_string cfg ''mq_uri'' ''redis://127.0.0.1:6379'',
           sc_registry_ttl_seconds = ttl\<rparr>))))))))))"

record gateway_config =
  gc_bind_host :: string
  gc_http_port :: "16 word"
  gc_http_io_threads :: int
  gc_log_dir :: string
  gc_log_max_size_mb :: int
  gc_log_max_files :: int
  gc_log_level :: string
  gc_etcd_endpoints :: string
  gc_config_service_target :: string
  gc_user_service_target :: string
  gc_game_service_target :: string
  gc_jwt_secret :: string
  gc_jwt_issuer :: string
  gc_jwt_audience :: string
  gc_allow_legacy_token :: bool
  gc_grpc_timeout_ms :: int
  gc_grpc_retry_attempts :: int
  gc_grpc_retry_backoff_ms :: int

definition LoadGatewayConfig :: "string list option \<Rightarrow> exn + gateway_config" where
  "LoadGatewayConfig file =
     (let cfg = LoadFlatConfig file in
      res_bind (GetOr_uint16 cfg ''http_port'' 8080) (\<lambda>http_port.
      res_bind (GetOr_int cfg ''http_io_threads'' 2) (\<lambda>io_threads.
      res_bind (GetOr_int cfg ''log_max_size_mb'' 100) (\<lambda>size_mb.
      res_bind (GetOr_int cfg ''log_max_files'' 10) (\<lambda>n_files.
      res_bind (GetOr_int cfg ''grpc_timeout_ms'' 800) (\<lambda>timeout.
      res_bind (GetOr_int cfg ''grpc_retry_attempts'' 2) (\<lambda>attempts.
      res_bind (GetOr_int cfg ''grpc_retry_backoff_ms'' 50) (\<lambda>wait.
      Inr \<lparr>gc_bind_host = GetOr_string cfg ''bind_host'' ''0.0.0.0'',
           gc_http_port = http_port,
           gc_http_io_threads = io_threads,
           gc_log_dir = GetOr_string cfg ''log_dir'' ''logs'',
           gc_log_max_size_mb = size_mb,
           gc_log_max_files = n_files,
           gc_log_level = GetOr_string cfg ''log_level'' ''info'',
           gc_etcd_endpoints = GetOr_string cfg ''etcd_endpoints'' ''http://127.0.0.1:2379'',
           gc_config_service_target = GetOr_string cfg ''config_service_target'' ''127.0.0.1:50051'',
           gc_user_service_target = GetOr_string cfg ''user_service_target'' ''127.0.0.1:50052'',
           gc_game_service_target = GetOr_string cfg ''game_service_target'' ''127.0.0.1:50053'',
           gc_jwt_secret = GetOr_string cfg ''jwt_secret'' ''dev-secret'',
           gc_jwt_issuer = GetOr_string cfg ''jwt_issuer'' [],
           gc_jwt_audience = GetOr_string cfg ''jwt_audience'' [],
           gc_allow_legacy_token = GetOr_bool cfg ''allow_legacy_token'' True,
           gc_grpc_timeout_ms = timeout,
           gc_grpc_retry_attempts = attempts,
           gc_grpc_retry_backoff_ms = wait\<rparr>))))))))"

section \<open>Written and read\<close>

text \<open>
  A file written line by line: each value in double quotes after its key and a colon. What the
  reader relies on: the key is not empty, has no space at its ends and no colon, and is no comment.
\<close>

definition config_key_ok :: "string \<Rightarrow> bool" where
  "config_key_ok k \<longleftrightarrow>
     k \<noteq> [] \<and> CHR '':'' \<notin> set k \<and> \<not> is_trim_space (hd k) \<and> \<not> is_trim_space (last k) \<and> hd k \<noteq> CHR ''#''"

definition quoted_line :: "string \<times> string \<Rightarrow> string" where
  "quoted_line p = fst p @ '': '' @ [CHR 0x22] @ snd p @ [CHR 0x22]"

lemma Trim_id: "v \<noteq> [] \<Longrightarrow> \<not> is_trim_space (hd v) \<Longrightarrow> \<not> is_trim_space (last v) \<Longrightarrow> Trim v = v"
proof -
  assume "v \<noteq> []" "\<not> is_trim_space (hd v)" "\<not> is_trim_space (last v)"
  then have "dropWhile is_trim_space v = v" and "dropWhile is_trim_space (rev v) = rev v"
    by (cases v, simp_all, cases v rule: rev_cases, simp_all)
  then show ?thesis by (simp add: Trim_def)
qed

lemma quote_not_space [simp]: "\<not> is_trim_space (CHR 0x22)"
  by (simp add: is_trim_space_def)

lemma Trim_space [simp]: "Trim (CHR '' '' # v) = Trim v"
  by (simp add: Trim_def is_trim_space_def)

lemma config_line_quoted:
  assumes "config_key_ok k"
  shows "config_line (quoted_line (k, v)) = Some (k, v)"
proof -
  let ?l = "quoted_line (k, v)"
  have k: "k \<noteq> []" "CHR '':'' \<notin> set k" "\<not> is_trim_space (hd k)" "\<not> is_trim_space (last k)" "hd k \<noteq> CHR ''#''"
    using assms by (simp_all add: config_key_ok_def)
  have "Trim ?l = ?l"
    by (rule Trim_id) (use k in \<open>simp_all add: quoted_line_def\<close>)
  moreover have "\<not> starts_with ''#'' ?l"
    using k by (cases k) (simp_all add: quoted_line_def)
  moreover have "find_char (CHR '':'') ?l = Some (length k)"
    using find_char_append [OF k(2), of "CHR '' '' # [CHR 0x22] @ v @ [CHR 0x22]"] by (simp add: quoted_line_def)
  moreover have "Trim (take (length k) ?l) = k" using Trim_id [OF k(1,3,4)] by (simp add: quoted_line_def)
  moreover have "Trim (drop (length k + 1) ?l) = CHR 0x22 # v @ [CHR 0x22]"
    using Trim_id [of "CHR 0x22 # v @ [CHR 0x22]"] by (simp add: quoted_line_def)
  moreover have "?l \<noteq> []" using k by (simp add: quoted_line_def)
  ultimately show ?thesis by (simp add: config_line_def unquote_def Let_def)
qed

text \<open>
  C35: a configuration file reads back as it was written. A file of quoted entries, whatever their
  values, colons, hashes and quotes included, is read as exactly the map of its entries, the last of
  a key counting.
\<close>

theorem config_file_roundtrip:
  assumes "\<forall>p \<in> set kvs. config_key_ok (fst p)"
  shows "LoadFlatConfig (Some (map quoted_line kvs)) = map_of (rev kvs)"
proof -
  have "load_lines (map quoted_line kvs) cfg = cfg ++ map_of (rev kvs)" for cfg
    using assms
  proof (induction kvs arbitrary: cfg)
    case Nil
    then show ?case by simp
  next
    case (Cons p kvs)
    then show ?case by (cases p) (simp add: config_line_quoted map_add_assoc [symmetric])
  qed
  then show ?thesis by (simp add: LoadFlatConfig_def)
qed

theorem config_file_roundtrip_witness:
  "LoadFlatConfig (Some (map quoted_line [(''jwt_secret'', ''a:b #c''), (''jwt_secret'', []), (''log_dir'', ''/x'')])) ''jwt_secret'' = Some []"
  using config_file_roundtrip [of "[(''jwt_secret'', ''a:b #c''), (''jwt_secret'', []), (''log_dir'', ''/x'')]"]
  by (simp add: config_key_ok_def is_trim_space_def)

text \<open>A port that does not fit is cut to sixteen bits without a word.\<close>

lemma port_truncated: "stoi v = Inr n \<Longrightarrow> cfg key = Some v \<Longrightarrow> GetOr_uint16 cfg key d = Inr (word_of_int n)"
  by (simp add: GetOr_uint16_def)

end
