(* ===== verification/Application.thy ===== *)
theory Application
  imports Kd39_Prelude
begin

text \<open>
  \<open>framework/app/application.cpp\<close>: the process skeleton, which waits for a termination signal and then
  runs the shutdown hooks. The main thread inside \<open>Run\<close> and the signal handler are the two parties of
  a step relation; the condition variable is taken apart into the check of its predicate, the moment
  before the thread is parked, and the parked thread, because the handler notifies without holding
  the mutex and can come in between.
\<close>

section \<open>The application\<close>

record 'h application =
  app_name :: string
  shutdown_hooks :: "'h list"

definition new_application :: "string \<Rightarrow> 'h application" where
  "new_application name = \<lparr>app_name = name, shutdown_hooks = []\<rparr>"

definition AddShutdownHook :: "'h \<Rightarrow> 'h application \<Rightarrow> 'h application" where
  "AddShutdownHook hook a = a\<lparr>shutdown_hooks := shutdown_hooks a @ [hook]\<rparr>"

lemma hooks_in_order: "shutdown_hooks (fold AddShutdownHook hs (new_application n)) = hs"
proof -
  have "shutdown_hooks (fold AddShutdownHook hs a) = shutdown_hooks a @ hs" for a :: "'a application"
    by (induction hs arbitrary: a) (simp_all add: AddShutdownHook_def)
  then show ?thesis by (simp add: new_application_def)
qed

section \<open>Run\<close>

text \<open>
  \<open>Checking\<close>: about to evaluate the predicate, holding the mutex. \<open>Parking\<close>: the predicate was false,
  the thread is about to release the mutex and block. \<open>Waiting\<close>: blocked. \<open>Hooks hs\<close>: the hooks
  still to run. The hooks that ran are recorded in \<open>hooks_ran\<close>.
\<close>

datatype 'h run_phase = Checking | Parking | Waiting | Hooks "'h list" | Stopped

record 'h run_state =
  g_running :: bool
  run_phase :: "'h run_phase"
  hooks_ran :: "'h list"

definition run_start :: "'h run_state" where
  "run_start = \<lparr>g_running = True, run_phase = Checking, hooks_ran = []\<rparr>"

text \<open>The handler's store and its \<open>notify_all\<close>, which reaches a thread that is blocked.\<close>

definition SignalHandler :: "'h run_state \<Rightarrow> 'h run_state" where
  "SignalHandler s =
     s\<lparr>g_running := False, run_phase := (case run_phase s of Waiting \<Rightarrow> Checking | p \<Rightarrow> p)\<rparr>"

text \<open>A step of the main thread in \<open>Run\<close>; \<open>None\<close> where it cannot move.\<close>

definition Run_step :: "'h application \<Rightarrow> 'h run_state \<Rightarrow> 'h run_state option" where
  "Run_step a s =
     (case run_phase s of
        Checking \<Rightarrow> Some (s\<lparr>run_phase := if \<not> g_running s then Hooks (rev (shutdown_hooks a)) else Parking\<rparr>)
      | Parking \<Rightarrow> Some (s\<lparr>run_phase := Waiting\<rparr>)
      | Waiting \<Rightarrow> None
      | Hooks [] \<Rightarrow> Some (s\<lparr>run_phase := Stopped\<rparr>)
      | Hooks (h # hs) \<Rightarrow> Some (s\<lparr>run_phase := Hooks hs, hooks_ran := hooks_ran s @ [h]\<rparr>)
      | Stopped \<Rightarrow> None)"

datatype run_event = Signal | Main | Spurious

inductive run_step :: "'h application \<Rightarrow> run_event \<Rightarrow> 'h run_state \<Rightarrow> 'h run_state \<Rightarrow> bool" for a :: "'h application" where
  signalled: "run_step a Signal s (SignalHandler s)"
| main: "Run_step a s = Some s' \<Longrightarrow> run_step a Main s s'"
| spurious: "run_phase s = Waiting \<Longrightarrow> run_step a Spurious s (s\<lparr>run_phase := Checking\<rparr>)"

inductive run_reachable :: "'h application \<Rightarrow> 'h run_state \<Rightarrow> bool" for a :: "'h application" where
  start: "run_reachable a run_start"
| step: "run_reachable a s \<Longrightarrow> run_step a ev s s' \<Longrightarrow> run_reachable a s'"

inductive_cases run_stepE: "run_step a ev s s'"
inductive_simps run_step_main: "run_step a Main s s'"

text \<open>\<open>n\<close> steps of the main thread alone.\<close>

fun Run_steps :: "nat \<Rightarrow> 'h application \<Rightarrow> 'h run_state \<Rightarrow> 'h run_state" where
  "Run_steps 0 a s = s"
| "Run_steps (Suc n) a s = (case Run_step a s of None \<Rightarrow> s | Some s' \<Rightarrow> Run_steps n a s')"

section \<open>The hooks\<close>

definition run_inv :: "'h application \<Rightarrow> 'h run_state \<Rightarrow> bool" where
  "run_inv a s \<longleftrightarrow>
     (case run_phase s of
        Hooks hs \<Rightarrow> \<not> g_running s \<and> hooks_ran s @ hs = rev (shutdown_hooks a)
      | Stopped \<Rightarrow> \<not> g_running s \<and> hooks_ran s = rev (shutdown_hooks a)
      | _ \<Rightarrow> hooks_ran s = [])"

lemma run_inv_signal: "run_inv a s \<Longrightarrow> run_inv a (SignalHandler s)"
  by (cases "run_phase s") (simp_all add: run_inv_def SignalHandler_def)

lemma run_inv_main: "run_inv a s \<Longrightarrow> Run_step a s = Some s' \<Longrightarrow> run_inv a s'"
  by (auto simp: run_inv_def Run_step_def split: run_phase.splits list.splits if_splits)

lemma run_inv_spurious: "run_inv a s \<Longrightarrow> run_phase s = Waiting \<Longrightarrow> run_inv a (s\<lparr>run_phase := Checking\<rparr>)"
  by (simp add: run_inv_def)

lemma run_reachable_inv: "run_reachable a s \<Longrightarrow> run_inv a s"
proof (induction rule: run_reachable.induct)
  case start
  show ?case by (simp add: run_inv_def run_start_def)
next
  case (step s ev s')
  from step.hyps(2) show ?case
    by (cases rule: run_stepE)
      (use step.IH in \<open>blast intro: run_inv_signal run_inv_main run_inv_spurious\<close>)+
qed

lemma hooks_run_down:
  "run_phase s = Hooks hs \<Longrightarrow>
   Run_steps (length hs + 1) a s = s\<lparr>run_phase := Stopped, hooks_ran := hooks_ran s @ hs\<rparr>"
  by (induction hs arbitrary: s) (simp_all add: Run_step_def)

text \<open>
  C37: the shutdown hooks run once each, in the reverse of the order they were added, and only after a
  signal. In every reachable state, whatever signals and wake-ups came when, what ran so far is a
  prefix of the reversed hooks, nothing ran before a signal, and all ran when \<open>Run\<close> is done. A signal
  that finds the main thread blocked is enough: it then runs all the hooks and stops.
\<close>

theorem shutdown_hooks_reversed:
  assumes "run_reachable (fold AddShutdownHook hs (new_application n)) s"
  shows "(\<exists>rest. hooks_ran s @ rest = rev hs) \<and> (g_running s \<longrightarrow> hooks_ran s = []) \<and>
    (run_phase s = Stopped \<longrightarrow> hooks_ran s = rev hs) \<and>
    (run_phase s = Waiting \<longrightarrow>
       (let s' = Run_steps (length hs + 2) (fold AddShutdownHook hs (new_application n)) (SignalHandler s)
        in run_phase s' = Stopped \<and> hooks_ran s' = rev hs))"
proof -
  let ?a = "fold AddShutdownHook hs (new_application n)"
  have inv: "run_inv ?a s" by (rule run_reachable_inv [OF assms])
  have woken: "run_phase s' = Stopped \<and> hooks_ran s' = rev hs"
    if "run_phase s = Waiting" and "s' = Run_steps (length hs + 2) ?a (SignalHandler s)" for s'
  proof -
    let ?h = "s\<lparr>g_running := False, run_phase := Hooks (rev hs)\<rparr>"
    have "Run_step ?a (SignalHandler s) = Some ?h"
      using that(1) by (simp add: Run_step_def SignalHandler_def hooks_in_order)
    then have "s' = Run_steps (length (rev hs) + 1) ?a ?h"
      by (simp add: that(2))
    also have "\<dots> = ?h\<lparr>run_phase := Stopped, hooks_ran := hooks_ran ?h @ rev hs\<rparr>"
      by (rule hooks_run_down) simp
    finally show ?thesis using inv that(1) by (simp add: run_inv_def)
  qed
  have "\<exists>rest. hooks_ran s @ rest = rev hs"
  proof (cases "run_phase s")
    case (Hooks rest)
    then show ?thesis using inv by (intro exI [of _ rest]) (simp add: run_inv_def hooks_in_order)
  qed (use inv in \<open>simp_all add: run_inv_def hooks_in_order\<close>)
  moreover have "g_running s \<longrightarrow> hooks_ran s = []"
    using inv by (cases "run_phase s") (simp_all add: run_inv_def)
  moreover have "run_phase s = Stopped \<longrightarrow> hooks_ran s = rev hs"
    using inv by (intro impI) (simp add: run_inv_def hooks_in_order)
  ultimately show ?thesis using woken unfolding Let_def by blast
qed

lemma reachable_waiting: "run_reachable a (run_start\<lparr>run_phase := Waiting\<rparr>)"
proof -
  have "run_step a Main run_start (run_start\<lparr>run_phase := Parking\<rparr>)"
    by (simp add: run_step_main Run_step_def run_start_def)
  moreover have "run_step a Main (run_start\<lparr>run_phase := Parking\<rparr>) (run_start\<lparr>run_phase := Waiting\<rparr>)"
    by (simp add: run_step_main Run_step_def run_start_def)
  ultimately show ?thesis by (metis run_reachable.intros)
qed

theorem shutdown_hooks_reversed_witness:
  "let a = fold AddShutdownHook [1, 2 :: nat] (new_application ''gw'');
       s' = Run_steps (length [1, 2 :: nat] + 2) a (SignalHandler (run_start\<lparr>run_phase := Waiting\<rparr>))
   in run_phase s' = Stopped \<and> hooks_ran s' = [2, 1]"
  using shutdown_hooks_reversed [OF reachable_waiting, of "[1, 2 :: nat]" "''gw''",
      THEN conjunct2, THEN conjunct2, THEN conjunct2]
  unfolding Let_def by simp

text \<open>
  A signal can be lost. The handler does not take the mutex, so a signal that arrives between the
  check of the predicate and the blocking is stored but wakes nobody: the main thread blocks, no hook
  has run, and nothing the main thread does helps; only another signal or a spurious wake-up goes on.
\<close>

theorem signal_can_be_lost:
  "\<exists>s. run_reachable a s \<and> run_step a Signal s (SignalHandler s) \<and>
     (let s1 = Run_steps 1 a (SignalHandler s)
      in run_reachable a s1 \<and> \<not> g_running s1 \<and> run_phase s1 = Waiting \<and> hooks_ran s1 = [] \<and>
         (\<forall>s'. \<not> run_step a Main s1 s'))"
proof -
  let ?s = "run_start\<lparr>run_phase := Parking\<rparr>"
  let ?s1 = "run_start\<lparr>g_running := False, run_phase := Waiting\<rparr>"
  have p: "run_reachable a ?s"
    by (rule run_reachable.step [OF run_reachable.start run_step.main])
      (simp add: Run_step_def run_start_def)
  have s1: "Run_step a (SignalHandler ?s) = Some ?s1"
    by (simp add: Run_step_def SignalHandler_def run_start_def)
  have r: "run_reachable a ?s1"
    using run_reachable.step [OF run_reachable.step [OF p run_step.signalled] run_step.main [OF s1]] .
  have stuck: "\<forall>s'. \<not> run_step a Main ?s1 s'"
    by (simp add: run_step_main Run_step_def)
  have "Run_steps 1 a (SignalHandler ?s) = ?s1" by (simp add: s1)
  then show ?thesis
    using p r stuck run_step.signalled [of a ?s] unfolding Let_def
    by (intro exI [of _ ?s] conjI) (simp_all add: run_start_def)
qed

end
