(* ===== verification/Grpc_Cli.thy ===== *)
theory Grpc_Cli
  imports Grpc_Router
begin

text \<open>
  \<open>tools/grpc_cli/main.cpp\<close>: the command line client. Its arguments are the list \<open>argv\<close>; the calls
  of the generated stubs are the functions of \<open>cli_env\<close> on a world \<open>'w\<close>; what it prints is the list
  of texts sent to the two streams. A run ends with an exit code, or with the exception that
  terminates the process, as nothing in it catches one.
\<close>

section \<open>Arguments\<close>

type_synonym cli_args = "string \<rightharpoonup> string"

definition parse_token :: "string \<Rightarrow> cli_args \<Rightarrow> cli_args" where
  "parse_token token args =
     (if \<not> starts_with ''--'' token then args
      else
        (let t = drop 2 token
         in case find_char (CHR ''='') t of
              None \<Rightarrow> args(t \<mapsto> ''true'')
            | Some pos \<Rightarrow> args(take pos t \<mapsto> drop (pos + 1) t)))"

definition ParseArgs :: "string list \<Rightarrow> nat \<Rightarrow> cli_args" where
  "ParseArgs argv start = fold parse_token (drop start argv) (\<lambda>_. None)"

definition cli_GetOr :: "cli_args \<Rightarrow> string \<Rightarrow> string \<Rightarrow> string" where
  "cli_GetOr args key fallback = (case args key of Some v \<Rightarrow> v | None \<Rightarrow> fallback)"

definition cli_AddMetadata :: "cli_args \<Rightarrow> metadata" where
  "cli_AddMetadata args =
     add_unless_empty ''x-zone'' (cli_GetOr args ''zone'' [])
       (add_unless_empty ''x-client-version'' (cli_GetOr args ''client-version'' [])
       (add_unless_empty ''x-traffic-tag'' (cli_GetOr args ''tag'' [])
       (add_unless_empty ''x-user-id'' (cli_GetOr args ''user-id'' [])
       (add_unless_empty ''x-trace-id'' (cli_GetOr args ''trace-id'' [])
       (add_unless_empty ''x-request-id'' (cli_GetOr args ''request-id'' []) [])))))"

definition DefaultTarget :: "string \<Rightarrow> string" where
  "DefaultTarget service =
     (if service = ''config'' then ''127.0.0.1:50051''
      else if service = ''user'' then ''127.0.0.1:50052''
      else if service = ''game'' then ''127.0.0.1:50053''
      else ''127.0.0.1:50051'')"

section \<open>Calls and output\<close>

text \<open>
  \<open>ce_unary\<close> is a unary call to a target with its metadata, \<open>ce_batch\<close> is \<open>BatchGetConfig\<close> of a
  namespace, and \<open>ce_watch\<close> the stream of \<open>WatchConfig\<close>: the responses that could be read, then the
  final status. \<open>ce_dump2\<close> is \<open>dump(2)\<close>.
\<close>

record ('j, 'w) cli_env =
  ce_json :: "'j json_api"
  ce_dump2 :: "'j \<Rightarrow> exn + string"
  ce_unary :: "string \<Rightarrow> metadata \<Rightarrow> rpc_request \<Rightarrow> 'w \<Rightarrow> (grpc_status \<times> rpc_reply) \<times> 'w"
  ce_batch :: "string \<Rightarrow> metadata \<Rightarrow> string \<Rightarrow> 'w \<Rightarrow> (grpc_status \<times> config_entry list) \<times> 'w"
  ce_watch :: "string \<Rightarrow> metadata \<Rightarrow> string \<Rightarrow> int \<Rightarrow> 'w \<Rightarrow> (grpc_status \<times> config_entry list list) \<times> 'w"

datatype cli_output = Out string | Err string

type_synonym 'w cli_result = "(exn + int) \<times> cli_output list \<times> 'w"

definition PrintUsage :: "cli_output list" where
  "PrintUsage = map (\<lambda>l. Out (l @ newline))
     [''Usage:'',
      ''  grpc_cli config get --namespace=ns --key=k [--target=host:port]'',
      ''  grpc_cli config batch-get --namespace=ns'',
      ''  grpc_cli config publish --namespace=ns --key=k --value=v [--environment=dev]'',
      ''  grpc_cli config watch --namespace=ns [--since-version=0]'',
      ''  grpc_cli user get --user-id=id'',
      ''  grpc_cli user create --nickname=name'',
      ''  grpc_cli game create-room --room-name=name --max-players=4'',
      ''  grpc_cli game join-room --room-id=id --user-id=user_1'']"

text \<open>
  What every call ends with: the error message and exit code 1 for a status that is not OK;
  otherwise the text made of the response, with its exit code, unless making it throws.
\<close>

definition cli_report :: "grpc_status \<Rightarrow> exn + string \<times> int \<Rightarrow> 'w \<Rightarrow> 'w cli_result" where
  "cli_report st made w =
     (if \<not> is_ok st then (Inr 1, [Err (error_message st @ newline)], w)
      else (case made of
              Inl e \<Rightarrow> (Inl e, [], w)
            | Inr (t, rc) \<Rightarrow> (Inr rc, [Out (t @ newline)], w)))"

definition cli_unary :: "('j, 'w) cli_env \<Rightarrow> string \<Rightarrow> cli_args \<Rightarrow> rpc_request \<Rightarrow>
    (rpc_reply \<Rightarrow> exn + string \<times> int) \<Rightarrow> 'w \<Rightarrow> 'w cli_result" where
  "cli_unary ce service args req render w =
     (let ((st, reply), w1) = ce_unary ce (cli_GetOr args ''target'' (DefaultTarget service)) (cli_AddMetadata args) req w
      in cli_report st (render reply) w1)"

definition pretty :: "('j, 'w) cli_env \<Rightarrow> 'j \<Rightarrow> exn + string \<times> int" where
  "pretty ce j = res_bind (ce_dump2 ce j) (\<lambda>t. Inr (t, 0))"

section \<open>The three services\<close>

definition watch_line :: "config_entry \<Rightarrow> cli_output" where
  "watch_line e = Out (namespace_name e @ ''/'' @ ckey e @ '' = '' @ cvalue e @ '' version='' @
     to_string (cversion e) @ newline)"

definition RunConfig :: "('j, 'w) cli_env \<Rightarrow> string \<Rightarrow> cli_args \<Rightarrow> 'w \<Rightarrow> 'w cli_result" where
  "RunConfig ce method args w =
     (let J = ce_json ce;
          target = cli_GetOr args ''target'' (DefaultTarget ''config'');
          md = cli_AddMetadata args;
          ns = cli_GetOr args ''namespace'' [] in
      if method = ''get'' then
        cli_unary ce ''config'' args (RpcGetConfig ns (cli_GetOr args ''key'' []))
          (\<lambda>reply. pretty ce (json_object J (entry_response J (reply_entry reply)))) w
      else if method = ''batch-get'' then
        (let ((st, found), w1) = ce_batch ce target md ns w
         in cli_report st (pretty ce (json_array J (map (\<lambda>e. json_object J (entry_response J e)) found))) w1)
      else if method = ''publish'' then
        cli_unary ce ''config'' args
          (RpcPublishConfig \<lparr>namespace_name = ns, ckey = cli_GetOr args ''key'' [],
             cvalue = cli_GetOr args ''value'' [], cversion = 0,
             environment = cli_GetOr args ''environment'' ''dev''\<rparr>)
          (\<lambda>reply. Inr (''published version='' @ to_string (reply_version reply), 0)) w
      else if method = ''watch'' then
        (case stoll (cli_GetOr args ''since-version'' ''0'') of
           Inl e \<Rightarrow> (Inl e, [], w)
         | Inr since \<Rightarrow>
             (let ((st, responses), w1) = ce_watch ce target md ns since w
              in (Inr (if is_ok st then 0 else 1), map watch_line (concat responses), w1)))
      else (Inr 1, [], w))"

definition RunUser :: "('j, 'w) cli_env \<Rightarrow> string \<Rightarrow> cli_args \<Rightarrow> 'w \<Rightarrow> 'w cli_result" where
  "RunUser ce method args w =
     (let J = ce_json ce in
      if method = ''get'' then
        cli_unary ce ''user'' args (RpcGetUser (cli_GetOr args ''user-id'' []))
          (\<lambda>reply. pretty ce (json_object J (profile_response J (reply_profile reply)))) w
      else if method = ''create'' then
        cli_unary ce ''user'' args (RpcCreateUser (cli_GetOr args ''nickname'' []))
          (\<lambda>reply. Inr (up_user_id (reply_profile reply), 0)) w
      else (Inr 1, [], w))"

definition RunGame :: "('j, 'w) cli_env \<Rightarrow> string \<Rightarrow> cli_args \<Rightarrow> 'w \<Rightarrow> 'w cli_result" where
  "RunGame ce method args w =
     (if method = ''create-room'' then
        (case stoi (cli_GetOr args ''max-players'' ''4'') of
           Inl e \<Rightarrow> (Inl e, [], w)
         | Inr n \<Rightarrow>
             cli_unary ce ''game'' args (RpcCreateRoom (cli_GetOr args ''room-name'' []) n)
               (\<lambda>reply. Inr (reply_room reply, 0)) w)
      else if method = ''join-room'' then
        cli_unary ce ''game'' args (RpcJoinRoom (cli_GetOr args ''room-id'' []) (cli_GetOr args ''user-id'' []))
          (\<lambda>reply. Inr (if reply_success reply then ''joined'' else ''failed'', if reply_success reply then 0 else 1)) w
      else (Inr 1, [], w))"

definition cli_main :: "('j, 'w) cli_env \<Rightarrow> string list \<Rightarrow> 'w \<Rightarrow> 'w cli_result" where
  "cli_main ce argv w =
     (if length argv < 3 then (Inr 1, PrintUsage, w)
      else
        (let service = argv ! 1; method = argv ! 2; args = ParseArgs argv 3 in
         if service = ''config'' then RunConfig ce method args w
         else if service = ''user'' then RunUser ce method args w
         else if service = ''game'' then RunGame ce method args w
         else (Inr 1, PrintUsage, w)))"

section \<open>Options are read as written\<close>

text \<open>What can stand on the command line: an option with a value, a flag, or a word.\<close>

datatype cli_arg = Opt string string | Flag string | Word string

fun arg_text :: "cli_arg \<Rightarrow> string" where
  "arg_text (Opt k v) = ''--'' @ k @ ''='' @ v"
| "arg_text (Flag k) = ''--'' @ k"
| "arg_text (Word t) = t"

fun arg_ok :: "cli_arg \<Rightarrow> bool" where
  "arg_ok (Opt k v) = (CHR ''='' \<notin> set k)"
| "arg_ok (Flag k) = (CHR ''='' \<notin> set k)"
| "arg_ok (Word t) = (\<not> starts_with ''--'' t)"

fun arg_binding :: "cli_arg \<Rightarrow> (string \<times> string) option" where
  "arg_binding (Opt k v) = Some (k, v)"
| "arg_binding (Flag k) = Some (k, ''true'')"
| "arg_binding (Word t) = None"

lemma parse_token_arg:
  "arg_ok a \<Longrightarrow> parse_token (arg_text a) args =
     (case arg_binding a of None \<Rightarrow> args | Some (k, v) \<Rightarrow> args(k \<mapsto> v))"
  by (cases a) (auto simp: parse_token_def find_char_append find_char_None [THEN iffD2])

text \<open>
  The options of a command line are read as they were written. After the first three words, an
  option \<open>--k=v\<close> binds its key to its whole value, further equality signs included, \<open>--k\<close> binds it to
  \<open>true\<close>, other words are skipped, and of several bindings of a key the last one counts.
\<close>

theorem cli_options_read:
  assumes "\<forall>a \<in> set as. arg_ok a"
  shows "ParseArgs ([program, service, method] @ map arg_text as) 3 = map_of (rev (List.map_filter arg_binding as))"
proof -
  have "fold parse_token (map arg_text as) args = args ++ map_of (rev (List.map_filter arg_binding as))" for args
    using assms
  proof (induction as arbitrary: args)
    case Nil
    then show ?case by (simp add: List.map_filter_simps)
  next
    case (Cons a as)
    then show ?case
      by (cases "arg_binding a") (auto simp: parse_token_arg List.map_filter_simps map_add_assoc [symmetric])
  qed
  from this [of "\<lambda>_. None"] show ?thesis by (simp add: ParseArgs_def)
qed

theorem cli_options_read_witness:
  "ParseArgs [''grpc_cli'', ''config'', ''publish'', ''--key=k'', ''x'', ''--value=a=b'', ''--key=l''] 3 ''value'' = Some ''a=b''"
  using cli_options_read [of "[Opt ''key'' ''k'', Word ''x'', Opt ''value'' ''a=b'', Opt ''key'' ''l'']"
      "''grpc_cli''" "''config''" "''publish''"]
  by (simp add: List.map_filter_simps)

section \<open>Exit codes\<close>

text \<open>The same environment, with a record of the statuses of the calls that were made.\<close>

definition recorded :: "((grpc_status \<times> 'a) \<times> 'w) \<Rightarrow> grpc_status list \<Rightarrow> (grpc_status \<times> 'a) \<times> ('w \<times> grpc_status list)" where
  "recorded result sts = (let ((st, reply), w1) = result in ((st, reply), (w1, sts @ [st])))"

definition cli_recording :: "('j, 'w) cli_env \<Rightarrow> ('j, 'w \<times> grpc_status list) cli_env" where
  "cli_recording ce =
     \<lparr>ce_json = ce_json ce, ce_dump2 = ce_dump2 ce,
      ce_unary = (\<lambda>target md req (w, sts). recorded (ce_unary ce target md req w) sts),
      ce_batch = (\<lambda>target md ns (w, sts). recorded (ce_batch ce target md ns w) sts),
      ce_watch = (\<lambda>target md ns since (w, sts). recorded (ce_watch ce target md ns since w) sts)\<rparr>"

definition one_call :: "'w cli_result \<Rightarrow> (('w \<times> grpc_status list)) cli_result \<Rightarrow> bool" where
  "one_call plain rec \<longleftrightarrow>
     fst rec = fst plain \<and> fst (snd rec) = fst (snd plain) \<and> fst (snd (snd rec)) = snd (snd plain) \<and>
     (let sts = snd (snd (snd rec)) in
        length sts \<le> 1 \<and>
        (\<forall>rc. fst plain = Inr rc \<longrightarrow> rc = 0 \<or> rc = 1) \<and>
        (fst plain = Inr 0 \<longrightarrow> (\<exists>st. sts = [st] \<and> is_ok st)) \<and>
        (\<forall>st. sts = [st] \<longrightarrow> \<not> is_ok st \<longrightarrow> fst plain = Inr 1))"

lemma one_call_none: "one_call (Inr 1, out, w) (Inr 1, out, (w, []))"
  and one_call_throws: "one_call (Inl e, out, w) (Inl e, out, (w, []))"
  by (simp_all add: one_call_def)

lemma one_call_report:
  assumes "\<forall>t rc. made = Inr (t, rc) \<longrightarrow> rc = 0 \<or> rc = 1"
  shows "one_call (cli_report st made w) (cli_report st made (w, [st]))"
proof (cases made)
  case (Inr p)
  then show ?thesis using assms by (cases p) (auto simp: one_call_def cli_report_def Let_def)
qed (simp add: one_call_def cli_report_def Let_def)

lemma pretty_code: "\<forall>t rc. pretty ce j = Inr (t, rc) \<longrightarrow> rc = 0 \<or> rc = 1"
  by (auto simp: pretty_def res_bind_eq_Inr)

lemma one_call_unary:
  assumes "\<And>reply. \<forall>t rc. render reply = Inr (t, rc) \<longrightarrow> rc = 0 \<or> rc = 1"
  shows "one_call (cli_unary ce service args req render w) (cli_unary (cli_recording ce) service args req render (w, []))"
  using one_call_report [OF assms]
  by (simp add: cli_unary_def cli_recording_def recorded_def split_beta Let_def)

lemma pretty_recording [simp]: "pretty (cli_recording ce) = pretty ce"
  by (simp add: pretty_def cli_recording_def fun_eq_iff)

lemma cli_recording_json [simp]: "ce_json (cli_recording ce) = ce_json ce"
  by (simp add: cli_recording_def)

lemma one_call_batch:
  "one_call (let ((st, found), w1) = ce_batch ce target md ns w in cli_report st (pretty ce (f found)) w1)
     (let ((st, found), w1) = ce_batch (cli_recording ce) target md ns (w, []) in cli_report st (pretty ce (f found)) w1)"
  using one_call_report [OF pretty_code] by (simp add: cli_recording_def recorded_def split_beta Let_def)

lemma one_call_watch:
  "one_call (let ((st, responses), w1) = ce_watch ce target md ns since w
       in (Inr (if is_ok st then 0 else 1), map watch_line (concat responses), w1))
     (let ((st, responses), w1) = ce_watch (cli_recording ce) target md ns since (w, [])
       in (Inr (if is_ok st then 0 else 1), map watch_line (concat responses), w1))"
  by (simp add: cli_recording_def recorded_def one_call_def split_beta Let_def)

lemma one_call_RunConfig: "one_call (RunConfig ce method args w) (RunConfig (cli_recording ce) method args (w, []))"
proof -
  consider "method = ''get''" | "method = ''batch-get''" | "method = ''publish''" | "method = ''watch''"
    | "method \<noteq> ''get''" "method \<noteq> ''batch-get''" "method \<noteq> ''publish''" "method \<noteq> ''watch''" by blast
  then show ?thesis
  proof cases
    case 1
    show ?thesis unfolding RunConfig_def 1 by (simp add: one_call_unary [OF pretty_code] Let_def)
  next
    case 2
    show ?thesis
      unfolding RunConfig_def 2 using one_call_batch [unfolded Let_def] by (simp add: Let_def)
  next
    case 3
    show ?thesis
      unfolding RunConfig_def 3 by (simp add: Let_def) (rule one_call_unary, simp)
  next
    case 4
    show ?thesis
    proof (cases "stoll (cli_GetOr args ''since-version'' ''0'')")
      case (Inl e)
      then show ?thesis unfolding RunConfig_def 4 by (simp add: one_call_throws)
    next
      case (Inr since)
      then show ?thesis
        unfolding RunConfig_def 4 using one_call_watch [unfolded Let_def] by (simp add: Let_def)
    qed
  next
    case 5
    then show ?thesis by (simp add: RunConfig_def one_call_none)
  qed
qed

lemma one_call_RunUser: "one_call (RunUser ce method args w) (RunUser (cli_recording ce) method args (w, []))"
  by (auto simp: RunUser_def Let_def intro!: one_call_unary one_call_none pretty_code)

lemma one_call_RunGame: "one_call (RunGame ce method args w) (RunGame (cli_recording ce) method args (w, []))"
  by (auto simp: RunGame_def intro!: one_call_unary one_call_none one_call_throws split: sum.split if_splits)

text \<open>
  The exit code tells whether the call succeeded. Whatever the arguments and the services, a run
  makes at most one call and changes nothing else; it exits with 0 only after a call that answered
  OK, with 1 after one that did not, and with 1 or an exception where none was made, so an unknown
  service or method or a number that cannot be read never reaches a service.
\<close>

theorem cli_exit_code:
  "one_call (cli_main ce argv w) (cli_main (cli_recording ce) argv (w, []))"
  by (simp add: cli_main_def Let_def one_call_none one_call_RunConfig one_call_RunUser one_call_RunGame)

end
