(* ===== verification/Threads.thy ===== *)
theory Threads
  imports Kd39_Prelude
begin

text \<open>
  Threads that interleave. A handler is a sequence of atomic actions (an operation on an atomic, a
  critical section, a call of a backend that locks itself); between two of them the other threads
  may act. A thread is its control state; \<open>step\<close> is its next action on the shared state, \<open>None\<close> when
  it has ended. The list of threads is fixed: a thread that starts late is one that has not moved.
\<close>

inductive interleave :: "('p \<Rightarrow> 's \<Rightarrow> ('p \<times> 's) option) \<Rightarrow> 'p list \<times> 's \<Rightarrow> 'p list \<times> 's \<Rightarrow> bool"
  for step :: "'p \<Rightarrow> 's \<Rightarrow> ('p \<times> 's) option" where
  move: "i < length ts \<Longrightarrow> step (ts ! i) s = Some (t', s') \<Longrightarrow> interleave step (ts, s) (ts[i := t'], s')"

inductive_cases interleaveE: "interleave step (ts, s) c"

abbreviation interleaved :: "('p \<Rightarrow> 's \<Rightarrow> ('p \<times> 's) option) \<Rightarrow> 'p list \<times> 's \<Rightarrow> 'p list \<times> 's \<Rightarrow> bool" where
  "interleaved step \<equiv> (interleave step)\<^sup>*\<^sup>*"

text \<open>One thread, left alone for at most \<open>n\<close> actions.\<close>

primrec solo :: "('p \<Rightarrow> 's \<Rightarrow> ('p \<times> 's) option) \<Rightarrow> nat \<Rightarrow> 'p \<Rightarrow> 's \<Rightarrow> 'p \<times> 's" where
  "solo step 0 t s = (t, s)"
| "solo step (Suc n) t s =
     (case step t s of
        None \<Rightarrow> (t, s)
      | Some (t', s') \<Rightarrow> solo step n t' s')"

lemma interleaved_length:
  assumes "interleaved step (ts, s) (ts', s')"
  shows "length ts' = length ts"
  using assms
  by (induction rule: rtranclp_induct2) (auto elim: interleaveE)

lemma solo_interleaved:
  "i < length ts \<Longrightarrow> ts ! i = t \<Longrightarrow>
   interleaved step (ts, s) (ts[i := fst (solo step n t s)], snd (solo step n t s))"
proof (induction n arbitrary: ts t s)
  case 0
  then show ?case by auto
next
  case (Suc n)
  show ?case
  proof (cases "step t s")
    case None
    then show ?thesis using Suc.prems by auto
  next
    case (Some p)
    obtain t' s' where p: "p = (t', s')" by (cases p)
    have "interleave step (ts, s) (ts[i := t'], s')"
      using Suc.prems Some p by (simp add: interleave.move)
    moreover have "interleaved step (ts[i := t'], s') (ts[i := fst (solo step n t' s')], snd (solo step n t' s'))"
      using Suc.IH [of "ts[i := t']" t' s'] Suc.prems by simp
    ultimately show ?thesis using Some p by (simp add: converse_rtranclp_into_rtranclp)
  qed
qed

text \<open>Left alone for long enough it comes to \<open>c\<close>.\<close>

definition settles :: "('p \<Rightarrow> 's \<Rightarrow> ('p \<times> 's) option) \<Rightarrow> 'p \<Rightarrow> 's \<Rightarrow> 'p \<times> 's \<Rightarrow> bool" where
  "settles step t s c \<longleftrightarrow> (\<exists>n. \<forall>k \<ge> n. solo step k t s = c)"

lemma settles_stop: "step t s = None \<Longrightarrow> settles step t s (t, s)"
proof -
  assume "step t s = None"
  then have "solo step k t s = (t, s)" for k by (cases k) simp_all
  then show ?thesis by (simp add: settles_def)
qed

lemma settles_move:
  assumes "step t s = Some (t', s')" and "settles step t' s' c"
  shows "settles step t s c"
proof -
  obtain n where n: "\<forall>k \<ge> n. solo step k t' s' = c" using assms(2) by (auto simp: settles_def)
  have "solo step k t s = c" if "Suc n \<le> k" for k
    using that n assms(1) by (cases k) simp_all
  then show ?thesis unfolding settles_def by blast
qed

section \<open>Invariants of a shared state and its threads\<close>

text \<open>
  The rule for interleaved threads: an invariant \<open>I\<close> of the state; an assertion \<open>A\<close> about a thread at
  its point of control, which the thread's own actions establish and those of the others leave
  true; a relation \<open>P\<close> between any two threads; and \<open>R\<close>, what all the threads together still have
  room for, such as the values of a counter.
\<close>

locale thread_invariant =
  fixes step :: "'p \<Rightarrow> 's \<Rightarrow> ('p \<times> 's) option"
    and I :: "'s \<Rightarrow> bool"
    and A :: "'p \<Rightarrow> 's \<Rightarrow> bool"
    and P :: "'p \<Rightarrow> 'p \<Rightarrow> bool"
    and R :: "'p list \<Rightarrow> 's \<Rightarrow> bool"
  assumes room: "R ts s \<Longrightarrow> i < length ts \<Longrightarrow> I s \<Longrightarrow> A (ts ! i) s \<Longrightarrow> step (ts ! i) s = Some (t', s') \<Longrightarrow>
      R (ts[i := t']) s'"
    and own: "R ts s \<Longrightarrow> i < length ts \<Longrightarrow> I s \<Longrightarrow> A (ts ! i) s \<Longrightarrow> step (ts ! i) s = Some (t', s') \<Longrightarrow>
      I s' \<and> A t' s'"
    and others: "R ts s \<Longrightarrow> i < length ts \<Longrightarrow> I s \<Longrightarrow> A (ts ! i) s \<Longrightarrow> A u s \<Longrightarrow> P (ts ! i) u \<Longrightarrow>
      P u (ts ! i) \<Longrightarrow> step (ts ! i) s = Some (t', s') \<Longrightarrow> A u s' \<and> P t' u \<and> P u t'"
begin

definition holds :: "'p list \<times> 's \<Rightarrow> bool" where
  "holds c \<longleftrightarrow> R (fst c) (snd c) \<and> I (snd c) \<and> (\<forall>t \<in> set (fst c). A t (snd c)) \<and>
     (\<forall>i < length (fst c). \<forall>j < length (fst c). i \<noteq> j \<longrightarrow> P (fst c ! i) (fst c ! j))"

lemma holds_step:
  assumes c: "holds (ts, s)" and "interleave step (ts, s) (ts', s')"
  shows "holds (ts', s')"
  using assms(2)
proof cases
  case (move i t')
  have a: "A (ts ! j) s" if "j < length ts" for j using c that by (simp add: holds_def)
  have i: "I s" and r: "R ts s" using c by (simp_all add: holds_def)
  have p: "P (ts ! j) (ts ! k)" if "j < length ts" "k < length ts" "j \<noteq> k" for j k
    using c that by (simp add: holds_def)
  note o = own [OF r move(2) i a [OF move(2)] move(3)]
  have q: "A (ts ! j) s' \<and> P t' (ts ! j) \<and> P (ts ! j) t'" if "j < length ts" "j \<noteq> i" for j
    using others [OF r move(2) i a [OF move(2)] a [OF that(1)] p p move(3)] that move(2) by auto
  have "A (ts[i := t'] ! j) s'" if "j < length ts" for j
    using o q that by (cases "j = i") simp_all
  moreover have "P (ts[i := t'] ! j) (ts[i := t'] ! k)" if "j < length ts" "k < length ts" "j \<noteq> k" for j k
    using p q that by (cases "j = i"; cases "k = i") simp_all
  ultimately show ?thesis
    using o room [OF r move(2) i a [OF move(2)] move(3)] by (auto simp: holds_def move(1) all_set_conv_all_nth)
qed

lemma holds_interleaved:
  assumes "interleaved step (ts, s) (ts', s')" and "holds (ts, s)"
  shows "holds (ts', s')"
  using assms by (induction rule: rtranclp_induct2) (auto intro: holds_step)

lemma run_keeps:
  assumes "interleaved step (ts, s) (ts', s')" and "R ts s" and "I s" and "\<forall>t \<in> set ts. A t s"
    and "\<forall>i < length ts. \<forall>j < length ts. i \<noteq> j \<longrightarrow> P (ts ! i) (ts ! j)"
  shows "I s'" and "i < length ts' \<Longrightarrow> A (ts' ! i) s'"
    and "i < length ts' \<Longrightarrow> j < length ts' \<Longrightarrow> i \<noteq> j \<Longrightarrow> P (ts' ! i) (ts' ! j)"
    and "R ts' s'"
  using holds_interleaved [OF assms(1)] assms(2-5) by (simp_all add: holds_def)

end

text \<open>A thread that cannot act stays as it is.\<close>

lemma ended_stays:
  assumes "interleaved step (ts, s) (ts', s')" and "i < length ts" and "\<And>s. step (ts ! i) s = None"
  shows "ts' ! i = ts ! i"
  using assms(1)
proof (induction rule: rtranclp_induct2)
  case refl
  then show ?case by simp
next
  case (step ts1 s1 ts2 s2)
  have len: "length ts1 = length ts" by (rule interleaved_length [OF step.hyps(1)])
  from step.hyps(2) obtain j t' where j: "ts2 = ts1[j := t']" "step (ts1 ! j) s1 = Some (t', s2)"
    by (auto elim: interleaveE)
  then have "j \<noteq> i" using step.IH assms(3) by auto
  then show ?case using step.IH j(1) by simp
qed

section \<open>A shared counter\<close>

text \<open>
  Ids and versions come from a 64-bit counter that threads increment, at most once each. \<open>claims\<close>
  are the threads that may yet take a value, \<open>takes\<close> those whose next action does. The counter does not
  come round while there is a value for every thread that may yet take one.
\<close>

definition waiting :: "('p \<Rightarrow> bool) \<Rightarrow> 'p list \<Rightarrow> nat" where
  "waiting claims ts = length (filter claims ts)"

definition values_left :: "('s \<Rightarrow> 64 word) \<Rightarrow> ('p \<Rightarrow> bool) \<Rightarrow> 'p list \<Rightarrow> 's \<Rightarrow> bool" where
  "values_left counter claims ts s \<longleftrightarrow> unat (counter s) + waiting claims ts < 2 ^ 64"

lemma waiting_le: "waiting claims ts \<le> length ts"
  by (simp add: waiting_def)

lemma waiting_update:
  "i < length ts \<Longrightarrow> waiting claims (ts[i := t]) + (if claims (ts ! i) then 1 else 0) =
     waiting claims ts + (if claims t then 1 else 0)"
proof (induction ts arbitrary: i)
  case Nil
  then show ?case by simp
next
  case (Cons u ts)
  then show ?case by (cases i) (auto simp: waiting_def)
qed

locale thread_counter =
  fixes step :: "'p \<Rightarrow> 's \<Rightarrow> ('p \<times> 's) option"
    and counter :: "'s \<Rightarrow> 64 word"
    and claims :: "'p \<Rightarrow> bool"
    and takes :: "'p \<Rightarrow> bool"
  assumes counted: "step t s = Some (t', s') \<Longrightarrow> counter s' = counter s + (if takes t then 1 else 0)"
    and due: "takes t \<Longrightarrow> claims t"
    and once: "step t s = Some (t', s') \<Longrightarrow> claims t' \<Longrightarrow> claims t \<and> \<not> takes t"
begin

lemma waiting_step:
  assumes "i < length ts" and "step (ts ! i) s = Some (t', s')"
  shows "waiting claims (ts[i := t']) + (if takes (ts ! i) then 1 else 0) \<le> waiting claims ts"
  using waiting_update [OF assms(1), of claims t'] once [OF assms(2)] due [of "ts ! i"] by (auto split: if_splits)

lemma no_wrap:
  assumes "values_left counter claims ts s" and "i < length ts" and "step (ts ! i) s = Some (t', s')" and "takes (ts ! i)"
  shows "unat (counter s + 1) = unat (counter s) + 1" and "counter s < counter s + 1"
proof -
  show "unat (counter s + 1) = unat (counter s) + 1"
    using assms(1) waiting_step [OF assms(2,3)] assms(4)
    by (subst unat_add_lem [THEN iffD1]) (auto simp: values_left_def)
  then show "counter s < counter s + 1" by (simp add: word_less_nat_alt)
qed

lemma values_left_step:
  assumes "values_left counter claims ts s" and "i < length ts" and "step (ts ! i) s = Some (t', s')"
  shows "values_left counter claims (ts[i := t']) s'"
  using assms(1) waiting_step [OF assms(2,3)] counted [OF assms(3)] no_wrap(1) [OF assms]
  by (cases "takes (ts ! i)") (auto simp: values_left_def)

end

section \<open>Threads that end\<close>

text \<open>
  Where every action leaves its thread less work, all runs end. \<open>slack\<close> is work that the threads share, and \<open>ok\<close>
  what a run keeps true and the measure relies on.
\<close>

locale thread_measure =
  fixes step :: "'p \<Rightarrow> 's \<Rightarrow> ('p \<times> 's) option"
    and work :: "'p \<Rightarrow> nat"
    and slack :: "'s \<Rightarrow> nat"
    and ok :: "'p list \<Rightarrow> 's \<Rightarrow> bool"
  assumes progress: "ok ts s \<Longrightarrow> i < length ts \<Longrightarrow> step (ts ! i) s = Some (t', s') \<Longrightarrow>
      work t' + slack s' < work (ts ! i) + slack s"
    and keeps: "ok ts s \<Longrightarrow> i < length ts \<Longrightarrow> step (ts ! i) s = Some (t', s') \<Longrightarrow> ok (ts[i := t']) s'"
begin

lemma sum_less:
  assumes "interleave step (ts, s) (ts', s')" and "ok ts s"
  shows "sum_list (map work ts') + slack s' < sum_list (map work ts) + slack s" and "ok ts' s'"
proof -
  obtain i t' where i: "i < length ts" "ts' = ts[i := t']" "step (ts ! i) s = Some (t', s')"
    using assms(1) by (auto elim: interleaveE)
  have "sum_list (map work (ts[i := t'])) + work (ts ! i) = sum_list (map work ts) + work t'"
    using i(1) by (induction ts arbitrary: i) (auto simp: nth_Cons split: nat.splits)
  then show "sum_list (map work ts') + slack s' < sum_list (map work ts) + slack s"
    using progress [OF assms(2) i(1,3)] i(2) by simp
  show "ok ts' s'" using keeps [OF assms(2) i(1,3)] i(2) by simp
qed

lemma steps_bounded:
  assumes "(interleave step ^^ n) (ts, s) (ts', s')" and "ok ts s"
  shows "n + sum_list (map work ts') + slack s' \<le> sum_list (map work ts) + slack s" and "ok ts' s'"
  using assms
proof (induction n arbitrary: ts' s')
  case 0
  { case 1 then show ?case using 0 by simp }
  { case 2 then show ?case using 0 by simp }
next
  case (Suc n)
  have *: "Suc n + sum_list (map work ts') + slack s' \<le> sum_list (map work ts) + slack s \<and> ok ts' s'"
    if "(interleave step ^^ Suc n) (ts, s) (ts', s')" and o: "ok ts s" for ts' s'
  proof -
    from that(1) obtain tm sm where "(interleave step ^^ n) (ts, s) (tm, sm)" and l: "interleave step (tm, sm) (ts', s')"
      by (auto elim: relpowp_Suc_E)
    then have "n + sum_list (map work tm) + slack sm \<le> sum_list (map work ts) + slack s" and "ok tm sm"
      using Suc.IH o by simp_all
    then show ?thesis using sum_less [OF l] by simp
  qed
  { case 1 then show ?case using * by blast }
  { case 2 then show ?case using * by blast }
qed

end

text \<open>As a thread that has work left can always act, the runs end with every thread at its end.\<close>

locale thread_work = thread_measure +
  assumes busy: "0 < work t \<Longrightarrow> step t s \<noteq> None"
    and ended: "work t = 0 \<Longrightarrow> step t s = None"
begin

lemma stuck_iff_done:
  "(\<nexists>c. interleave step (ts, s) c) \<longleftrightarrow> (\<forall>t \<in> set ts. work t = 0)"
proof
  assume "\<nexists>c. interleave step (ts, s) c"
  then have "step (ts ! i) s = None" if "i < length ts" for i
    using that interleave.move [of i ts step s] by (cases "step (ts ! i) s") auto
  then have "work (ts ! i) = 0" if "i < length ts" for i using busy [of "ts ! i" s] that by (metis gr0I)
  then show "\<forall>t \<in> set ts. work t = 0" by (simp add: all_set_conv_all_nth)
next
  assume "\<forall>t \<in> set ts. work t = 0"
  then have "step (ts ! i) s = None" if "i < length ts" for i using ended that by simp
  then show "\<nexists>c. interleave step (ts, s) c" by (auto elim!: interleaveE)
qed

lemma run_to_end:
  "ok ts s \<Longrightarrow> \<exists>ts' s'. interleaved step (ts, s) (ts', s') \<and> ok ts' s' \<and> (\<forall>t \<in> set ts'. work t = 0)"
proof (induction "sum_list (map work ts) + slack s" arbitrary: ts s rule: less_induct)
  case less
  show ?case
  proof (cases "\<forall>t \<in> set ts. work t = 0")
    case True
    then show ?thesis using less.prems by blast
  next
    case False
    then obtain c where c: "interleave step (ts, s) c" using stuck_iff_done [of ts s] by blast
    obtain t1 s1 where p: "c = (t1, s1)" by (cases c)
    show ?thesis
      using less.hyps [of t1 s1] sum_less [of ts s t1 s1] less.prems c p by (meson converse_rtranclp_into_rtranclp)
  qed
qed

end

end
