(* ===== verification/Config_Threads.thy ===== *)
theory Config_Threads
  imports Config_Service Threads
begin

text \<open>
  The configuration service under concurrent calls. gRPC runs the handlers of
  \<open>services/config_service/config_service_impl.cpp\<close> on its own threads; the handlers synchronise only
  where they touch the version counter (an atomic), the table (\<open>mu_\<close>) and the backends (each with a
  mutex of its own). A thread here stops at each of these points.
\<close>

datatype config_thread =
    PStart config_entry
  | PMemory config_entry
  | PMysql config_entry
  | PRedis config_entry
  | PEtcd config_entry
  | PMq config_entry
  | PAnswered "exn + grpc_status \<times> int option"
  | GCache time_ns entry_key
  | GRows entry_key
  | GFill entry_key config_entry
  | GTable entry_key config_entry
  | GMemory entry_key
  | GAnswered entry_key "exn + grpc_status \<times> config_entry option"
  | Collect string int
  | Collected string int "config_entry list"

text \<open>\<open>GetConfig\<close> once \<open>FindEntry\<close> returned.\<close>

definition get_answer :: "config_entry option \<Rightarrow> grpc_status \<times> config_entry option" where
  "get_answer r = (case r of
     None \<Rightarrow> (status_error NOT_FOUND ''config not found'', None)
   | Some e \<Rightarrow> (status_ok, Some e))"

fun config_thread_step :: "'j json_api \<Rightarrow> scan_order \<Rightarrow>
    ((string \<times> query_row) list \<Rightarrow> (string \<times> query_row) list) \<Rightarrow>
    ((string \<times> config_entry) list \<Rightarrow> (string \<times> config_entry) list) \<Rightarrow>
    config_thread \<Rightarrow> config_service \<Rightarrow> (config_thread \<times> config_service) option" where
  "config_thread_step J sc ord tord (PStart request) s =
     (if namespace_name request = [] \<or> ckey request = [] then
        Some (PAnswered (Inr (status_error INVALID_ARGUMENT ''namespace and key are required'', None)), s)
      else
        Some (PMemory (request\<lparr>environment := DefaultEnv (environment request),
                               cversion := sint (next_version s)\<rparr>),
              s\<lparr>next_version := next_version s + 1\<rparr>))"
| "config_thread_step J sc ord tord (PMemory e) s = Some (PMysql e, publish_memory e s)"
| "config_thread_step J sc ord tord (PMysql e) s = Some (PRedis e, publish_mysql e s)"
| "config_thread_step J sc ord tord (PRedis e) s =
     (let (r, s') = publish_redis J e s
      in Some (case r of Inl x \<Rightarrow> PAnswered (Inl x) | Inr _ \<Rightarrow> PEtcd e, s'))"
| "config_thread_step J sc ord tord (PEtcd e) s = Some (PMq e, publish_etcd sc e s)"
| "config_thread_step J sc ord tord (PMq e) s =
     (let (r, s') = publish_mq J e s
      in Some (PAnswered (case r of Inl x \<Rightarrow> Inl x | Inr _ \<Rightarrow> Inr (status_ok, Some (cversion e))), s'))"
| "config_thread_step J sc ord tord (PAnswered a) s = None"
| "config_thread_step J sc ord tord (GCache now k) s =
     (let (r, s') = cached_entry J now k s
      in Some (case r of
                 Inl x \<Rightarrow> GAnswered k (Inl x)
               | Inr None \<Rightarrow> GRows k
               | Inr (Some e) \<Rightarrow> GAnswered k (Inr (get_answer (Some e))), s'))"
| "config_thread_step J sc ord tord (GRows k) s =
     (case k of (ns, key, env) \<Rightarrow>
      case cs_mysql s of
        None \<Rightarrow> Some (GMemory k, s)
      | Some my \<Rightarrow>
          (case FindRows ord ''config_entries''
                  [(''namespace_name'', ns), (''key'', key), (''environment'', env)] my of
             [] \<Rightarrow> Some (GMemory k, s)
           | row # _ \<Rightarrow>
               (case config_FromMysqlRow row of
                  Inl x \<Rightarrow> Some (GAnswered k (Inl x), s)
                | Inr e \<Rightarrow> Some (if cs_redis s = None then GTable k e else GFill k e, s))))"
| "config_thread_step J sc ord tord (GFill k e) s =
     (case SerializeEntry J e of
        Inl x \<Rightarrow> Some (GAnswered k (Inl x), s)
      | Inr t \<Rightarrow>
          Some (GTable k e,
            s\<lparr>cs_redis := map_option (\<lambda>r. snd (Set (cache_key k) t r)) (cs_redis s)\<rparr>))"
| "config_thread_step J sc ord tord (GTable k e) s =
     Some (GAnswered k (Inr (get_answer (Some e))), s\<lparr>entries := um_put (store_key k) e (entries s)\<rparr>)"
| "config_thread_step J sc ord tord (GMemory k) s =
     Some (GAnswered k (Inr (get_answer (memory_entry s k))), s)"
| "config_thread_step J sc ord tord (GAnswered k a) s = None"
| "config_thread_step J sc ord tord (Collect ns since) s =
     Some (Collected ns since (CollectNamespace tord ns since s), s)"
| "config_thread_step J sc ord tord (Collected ns since es) s = None"

section \<open>A thread alone is the handler\<close>

lemma PublishConfig_alone:
  "solo (config_thread_step J sc ord tord) 6 (PStart request) s =
     (PAnswered (fst (PublishConfig J sc request s)), snd (PublishConfig J sc request s))"
proof (cases "namespace_name request = [] \<or> ckey request = []")
  case True
  then show ?thesis by (simp add: PublishConfig_def numeral_eq_Suc)
next
  case False
  define e where "e = request\<lparr>environment := DefaultEnv (environment request), cversion := sint (next_version s)\<rparr>"
  define s3 where "s3 = publish_mysql e (publish_memory e (s\<lparr>next_version := next_version s + 1\<rparr>))"
  obtain r4 s4 where p4: "publish_redis J e s3 = (r4, s4)" by (cases "publish_redis J e s3")
  obtain r6 s6 where p6: "publish_mq J e (publish_etcd sc e s4) = (r6, s6)"
    by (cases "publish_mq J e (publish_etcd sc e s4)")
  have start: "config_thread_step J sc ord tord (PStart request) s =
      Some (PMemory e, s\<lparr>next_version := next_version s + 1\<rparr>)"
    using False by (auto simp: e_def)
  have P: "PublishConfig J sc request s =
      (case r4 of Inl x \<Rightarrow> (Inl x, s4)
       | Inr _ \<Rightarrow> (case r6 of Inl x \<Rightarrow> (Inl x, s6) | Inr _ \<Rightarrow> (Inr (status_ok, Some (cversion e)), s6)))"
    using False unfolding PublishConfig_def e_def [symmetric] Let_def s3_def [symmetric] p4
    by (simp add: p6 split: sum.split)
  show ?thesis
    unfolding P numeral_eq_Suc solo.simps start
    by (cases r4; cases r6) (simp_all add: numeral_eq_Suc p4 p6 flip: s3_def)
qed

lemma GetConfig_alone:
  "solo (config_thread_step J sc ord tord) 4 (GCache now (ns, key, ''dev'')) s =
     (GAnswered (ns, key, ''dev'') (fst (GetConfig J ord now ns key s)), snd (GetConfig J ord now ns key s))"
proof -
  let ?k = "(ns, key, ''dev'')"
  obtain r s1 where c: "cached_entry J now ?k s = (r, s1)" by (cases "cached_entry J now ?k s")
  have G: "GetConfig J ord now ns key s =
      (let (r, s') = layered_find (cached_entry J now) (stored_entry J ord) memory_entry ?k s
       in (case r of Inl x \<Rightarrow> Inl x | Inr e \<Rightarrow> Inr (get_answer e), s'))"
    by (simp add: GetConfig_def FindEntry_def DefaultEnv_def get_answer_def split_beta Let_def
        split: sum.split option.split)
  let ?rest = "\<lambda>s1. let (r, s') = stored_entry J ord ?k s1
      in (case r of Inl x \<Rightarrow> GAnswered ?k (Inl x) | Inr (Some e) \<Rightarrow> GAnswered ?k (Inr (get_answer (Some e)))
          | Inr None \<Rightarrow> GAnswered ?k (Inr (get_answer (memory_entry s' ?k))), s')"
  have rest: "solo (config_thread_step J sc ord tord) 3 (GRows ?k) s1 = ?rest s1" for s1
  proof (cases "cs_mysql s1")
    case None
    then show ?thesis by (simp add: numeral_eq_Suc stored_entry_def)
  next
    case (Some my)
    note my = Some
    show ?thesis
    proof (cases "FindRows ord ''config_entries''
        [(''namespace_name'', ns), (''key'', key), (''environment'', ''dev'')] my")
      case Nil
      then show ?thesis using my by (simp add: numeral_eq_Suc stored_entry_def)
    next
      case (Cons row rows)
      show ?thesis
        using my Cons
        by (cases "config_FromMysqlRow row"; cases "cs_redis s1"; cases "SerializeEntry J (projr (config_FromMysqlRow row))")
          (simp_all add: numeral_eq_Suc stored_entry_def)
    qed
  qed
  have ended: "solo (config_thread_step J sc ord tord) 3 (GAnswered ?k a) s1 = (GAnswered ?k a, s1)" for a
    by (simp add: numeral_eq_Suc)
  have "solo (config_thread_step J sc ord tord) (Suc 3) (GCache now ?k) s =
      solo (config_thread_step J sc ord tord) 3
        (case r of Inl x \<Rightarrow> GAnswered ?k (Inl x) | Inr None \<Rightarrow> GRows ?k
         | Inr (Some e) \<Rightarrow> GAnswered ?k (Inr (get_answer (Some e)))) s1"
    unfolding solo.simps by (simp add: c)
  also have "\<dots> = (case r of Inl x \<Rightarrow> (GAnswered ?k (Inl x), s1)
       | Inr None \<Rightarrow> ?rest s1
       | Inr (Some e) \<Rightarrow> (GAnswered ?k (Inr (get_answer (Some e))), s1))"
    by (simp only: ended rest split: sum.split option.split) simp
  finally have "solo (config_thread_step J sc ord tord) 4 (GCache now ?k) s =
      (case r of Inl x \<Rightarrow> (GAnswered ?k (Inl x), s1)
       | Inr None \<Rightarrow> ?rest s1
       | Inr (Some e) \<Rightarrow> (GAnswered ?k (Inr (get_answer (Some e))), s1))"
    by simp
  then show ?thesis
    by (simp add: G layered_find_def c split_beta Let_def split: sum.split option.split)
qed

text \<open>
  A call that nobody interrupts is the handler. The actions of a publishing thread taken
  in a row are \<open>PublishConfig\<close>, those of a reading thread \<open>GetConfig\<close>, and the one of a collecting thread
  gives the updates of \<open>WatchConfig\<close> and \<open>BatchGetConfig\<close>, in every state and with every outcome,
  exceptions included.
\<close>

theorem config_calls_alone:
  "solo (config_thread_step J sc ord tord) 6 (PStart request) s =
     (PAnswered (fst (PublishConfig J sc request s)), snd (PublishConfig J sc request s)) \<and>
   solo (config_thread_step J sc ord tord) 4 (GCache now (ns, key, ''dev'')) s =
     (GAnswered (ns, key, ''dev'') (fst (GetConfig J ord now ns key s)), snd (GetConfig J ord now ns key s)) \<and>
   solo (config_thread_step J sc ord tord) 1 (Collect ns since) s =
     (Collected ns since (concat (snd (WatchConfig tord ns since s))), s) \<and>
   solo (config_thread_step J sc ord tord) 1 (Collect ns (- 1)) s =
     (Collected ns (- 1) (snd (BatchGetConfig tord ns s)), s)"
  by (simp add: PublishConfig_alone GetConfig_alone WatchConfig_def BatchGetConfig_def Let_def)

section \<open>Every call is answered\<close>

fun config_work :: "config_thread \<Rightarrow> nat" where
  "config_work (PStart request) = 6"
| "config_work (PMemory e) = 5"
| "config_work (PMysql e) = 4"
| "config_work (PRedis e) = 3"
| "config_work (PEtcd e) = 2"
| "config_work (PMq e) = 1"
| "config_work (PAnswered a) = 0"
| "config_work (GCache now k) = 4"
| "config_work (GRows k) = 3"
| "config_work (GFill k e) = 2"
| "config_work (GTable k e) = 1"
| "config_work (GMemory k) = 1"
| "config_work (GAnswered k a) = 0"
| "config_work (Collect ns since) = 1"
| "config_work (Collected ns since es) = 0"

lemma config_thread_progress:
  "config_thread_step J sc ord tord t s = Some (t', s') \<Longrightarrow> config_work t' < config_work t"
  by (cases t) (auto simp: split_beta split: if_splits sum.splits option.splits list.splits prod.splits)

lemma config_thread_ended: "config_work t = 0 \<Longrightarrow> config_thread_step J sc ord tord t s = None"
  by (cases t) simp_all

lemma config_thread_busy: "0 < config_work t \<Longrightarrow> config_thread_step J sc ord tord t s \<noteq> None"
  by (cases t) (auto simp: split_beta split: sum.splits option.splits list.splits)

interpretation config_calls: thread_work "config_thread_step J sc ord tord" config_work "\<lambda>s. 0" "\<lambda>ts s. True"
  for J sc ord tord
  by unfold_locales (simp_all add: config_thread_progress config_thread_busy config_thread_ended)

lemma config_work_le: "config_work t \<le> 6"
  by (cases t) simp_all

definition config_answered :: "config_thread \<Rightarrow> bool" where
  "config_answered t \<longleftrightarrow>
     (case t of PAnswered a \<Rightarrow> True | GAnswered k a \<Rightarrow> True | Collected ns since es \<Rightarrow> True | _ \<Rightarrow> False)"

lemma config_answered_work: "config_answered t \<longleftrightarrow> config_work t = 0"
  by (cases t) (simp_all add: config_answered_def)

text \<open>
  Concurrent calls neither block each other nor go on for ever. However the actions of a list of calls are
  interleaved, there are at most six for each call; as long as some call is unanswered one can act,
  and from every state there is a run on which all are answered.
\<close>

theorem config_calls_end:
  assumes "(interleave (config_thread_step J sc ord tord) ^^ n) (ts, s) (ts', s')"
  shows "n \<le> 6 * length ts \<and>
    ((\<nexists>c. interleave (config_thread_step J sc ord tord) (ts', s') c) \<longleftrightarrow> (\<forall>t \<in> set ts'. config_answered t)) \<and>
    (\<exists>ts2 s2. interleaved (config_thread_step J sc ord tord) (ts', s') (ts2, s2) \<and>
       (\<forall>t \<in> set ts2. config_answered t))"
proof -
  have "sum_list (map config_work ts) \<le> 6 * length ts"
    by (induction ts) (auto intro: add_mono simp: config_work_le)
  then have "n \<le> 6 * length ts" using config_calls.steps_bounded [OF assms TrueI] by simp
  then show ?thesis
    unfolding config_answered_work
    using config_calls.stuck_iff_done config_calls.run_to_end [OF TrueI] by (intro conjI) blast+
qed

theorem config_calls_end_witness:
  "\<exists>c. interleave (config_thread_step sample_json sample_scan rev rev)
     ([GMemory (''game'', ''rate'', ''dev'')], ConfigServiceImpl None None None None) c"
  using config_calls_end [of 0 sample_json sample_scan rev rev "[GMemory (''game'', ''rate'', ''dev'')]"
      "ConfigServiceImpl None None None None"]
  by (simp add: config_answered_def)

section \<open>What is stored was published\<close>

definition cache_from :: "'j json_api \<Rightarrow> config_entry set \<Rightarrow> redis_backend \<Rightarrow> bool" where
  "cache_from J E r \<longleftrightarrow>
     (\<forall>k v. key_ok k \<longrightarrow> kv r (cache_key k) = Some v \<longrightarrow>
        (\<exists>e \<in> E. entry_triple e = k \<and> DeserializeEntry J (entry_value v) = Inr (Some e)))"

definition stored_from :: "'j json_api \<Rightarrow> config_entry set \<Rightarrow> config_service \<Rightarrow> bool" where
  "stored_from J E s \<longleftrightarrow>
     um_ok (entries s) \<and>
     (\<forall>(k, e) \<in> set (entries s). e \<in> E \<and> k = store_key (entry_triple e)) \<and>
     (\<forall>r. cs_redis s = Some r \<longrightarrow> cache_from J E r) \<and>
     (\<forall>my. cs_mysql s = Some my \<longrightarrow>
        (\<forall>(bk, row) \<in> set (table_of my ''config_entries''). \<exists>e \<in> E. row = config_ToMysqlRow e))"

fun thread_entries :: "config_entry set \<Rightarrow> config_thread \<Rightarrow> bool" where
  "thread_entries E (PStart request) = (\<forall>n. rejected request \<or> accepted request n \<in> E)"
| "thread_entries E (PMemory e) = (e \<in> E)"
| "thread_entries E (PMysql e) = (e \<in> E)"
| "thread_entries E (PRedis e) = (e \<in> E)"
| "thread_entries E (PEtcd e) = (e \<in> E)"
| "thread_entries E (PMq e) = (e \<in> E)"
| "thread_entries E (PAnswered a) = (\<exists>b. a = Inr b)"
| "thread_entries E (GCache now k) = key_ok k"
| "thread_entries E (GRows k) = key_ok k"
| "thread_entries E (GFill k e) = (key_ok k \<and> e \<in> E \<and> entry_triple e = k)"
| "thread_entries E (GTable k e) = (key_ok k \<and> e \<in> E \<and> entry_triple e = k)"
| "thread_entries E (GMemory k) = key_ok k"
| "thread_entries E (GAnswered k a) =
     (a = Inr (get_answer None) \<or> (\<exists>e \<in> E. entry_triple e = k \<and> a = Inr (get_answer (Some e))))"
| "thread_entries E (Collect ns since) = True"
| "thread_entries E (Collected ns since es) = (\<forall>e \<in> set es. e \<in> E \<and> namespace_name e = ns \<and> since < cversion e)"

definition config_world :: "'j json_api \<Rightarrow>
    ((string \<times> query_row) list \<Rightarrow> (string \<times> query_row) list) \<Rightarrow>
    ((string \<times> config_entry) list \<Rightarrow> (string \<times> config_entry) list) \<Rightarrow>
    config_entry set \<Rightarrow> config_service \<Rightarrow> bool" where
  "config_world J ord tord E s \<longleftrightarrow>
     json_laws J \<and> traversal ord \<and> traversal tord \<and> (\<forall>e \<in> E. entry_ok J e) \<and> stored_from J E s"

lemma um_put_entries: "(k', v') \<in> set (um_put k v m) \<Longrightarrow> (k', v') = (k, v) \<or> (k', v') \<in> set m"
  unfolding um_put_def by (induction m) (auto split: if_splits)

lemma stored_from_memory:
  "stored_from J E s \<Longrightarrow> e \<in> E \<Longrightarrow> stored_from J E (s\<lparr>entries := um_put (store_key (entry_triple e)) e (entries s)\<rparr>)"
  by (auto simp: stored_from_def dest!: um_put_entries)

lemma cache_from_Get: "cache_from J E r \<Longrightarrow> cache_from J E (snd (Get now k r))"
  unfolding cache_from_def kv_Get kv_PurgeExpired by (auto split: option.splits)

lemma cache_from_Set:
  assumes "cache_from J E r" and "e \<in> E" and "key_ok (entry_triple e)" and "DeserializeEntry J t = Inr (Some e)"
  shows "cache_from J E (snd (Set (cache_key (entry_triple e)) t r))"
  unfolding cache_from_def
proof (intro allI impI)
  fix k v
  assume k: "key_ok k" and v: "kv (snd (Set (cache_key (entry_triple e)) t r)) (cache_key k) = Some v"
  show "\<exists>e \<in> E. entry_triple e = k \<and> DeserializeEntry J (entry_value v) = Inr (Some e)"
  proof (cases "k = entry_triple e")
    case True
    then show ?thesis using v assms by (auto simp: Set_def)
  next
    case False
    then show ?thesis using v k assms by (simp add: Set_def cache_key_inj cache_from_def del: split_paired_All)
  qed
qed

lemma stored_from_redis:
  assumes "stored_from J E s" and "e \<in> E" and "key_ok (entry_triple e)" and "DeserializeEntry J t = Inr (Some e)"
  shows "stored_from J E (s\<lparr>cs_redis := map_option (\<lambda>r. snd (Set (cache_key (entry_triple e)) t r)) (cs_redis s)\<rparr>)"
  using assms by (auto simp: stored_from_def cache_from_Set)

lemma stored_from_mysql:
  assumes "stored_from J E s" and "e \<in> E"
  shows "stored_from J E (publish_mysql e s)"
proof (cases "cs_mysql s")
  case None
  then show ?thesis using assms by (simp add: publish_mysql_def)
next
  case (Some my)
  let ?my = "snd (UpsertRow ''config_entries'' (config_ToMysqlRow e) config_cols my)"
  have "\<exists>e \<in> E. row = config_ToMysqlRow e" if "(bk, row) \<in> set (table_of ?my ''config_entries'')" for bk row
    using that assms Some by (fastforce simp: stored_from_def table_of_Upsert dest: um_put_entries)
  then show ?thesis using assms(1) Some by (auto simp: stored_from_def publish_mysql_def)
qed

lemma stored_from_publish:
  assumes "config_world J ord tord E s" and "e \<in> E"
  shows "stored_from J E (publish_memory e s)"
    and "stored_from J E (publish_mysql e s)"
    and "stored_from J E (snd (publish_redis J e s))" "fst (publish_redis J e s) = Inr ()"
    and "stored_from J E (publish_etcd sc e s)"
    and "stored_from J E (snd (publish_mq J e s))" "fst (publish_mq J e s) = Inr ()"
proof -
  have w: "json_laws J" "entry_ok J e" "stored_from J E s" using assms by (simp_all add: config_world_def)
  obtain t where t: "SerializeEntry J e = Inr t" "DeserializeEntry J t = Inr (Some e)"
    by (rule entry_document_roundtrip [OF w(1,2)])
  have k: "key_ok (entry_triple e)" using w(2) by (simp add: entry_ok_def)
  show "stored_from J E (publish_memory e s)"
    using stored_from_memory [OF w(3) assms(2)] by (simp add: publish_memory_def entry_triple_def)
  show "stored_from J E (publish_mysql e s)" by (rule stored_from_mysql [OF w(3) assms(2)])
  show "stored_from J E (snd (publish_redis J e s))" "fst (publish_redis J e s) = Inr ()"
    using stored_from_redis [OF w(3) assms(2) k t(2)] w(3) t(1)
    by (auto simp: publish_redis_def entry_triple_def split: option.split)
  show "stored_from J E (publish_etcd sc e s)"
    using w(3) by (auto simp: publish_etcd_def stored_from_def split: option.split)
  show "stored_from J E (snd (publish_mq J e s))" "fst (publish_mq J e s) = Inr ()"
    using w(3) t(1) by (auto simp: publish_mq_def stored_from_def split: option.split)
qed

lemma stored_from_cached:
  assumes s: "stored_from J E s" and k: "key_ok k"
  shows "stored_from J E (snd (cached_entry J now k s)) \<and>
    (fst (cached_entry J now k s) = Inr None \<or>
     (\<exists>e \<in> E. entry_triple e = k \<and> fst (cached_entry J now k s) = Inr (Some e)))"
proof (cases "cs_redis s")
  case None
  then show ?thesis using s by (cases k) (simp add: cached_entry_def)
next
  case (Some r)
  have c: "cache_from J E r" using s Some by (simp add: stored_from_def)
  have st: "snd (cached_entry J now k s) = s\<lparr>cs_redis := Some (snd (Get now (cache_key k) r))\<rparr>"
    using Some by (cases k) (simp add: cached_entry_def split_beta Let_def split: option.split)
  have "\<exists>e \<in> E. entry_triple e = k \<and> DeserializeEntry J t = Inr (Some e)"
    if hit: "fst (Get now (cache_key k) r) = Some t" for t
  proof -
    obtain v where "kv r (cache_key k) = Some v" "entry_value v = t"
      using hit by (auto simp: redis_cache.get_view live_def split: option.splits if_splits)
    then show ?thesis using c k by (auto simp: cache_from_def simp del: split_paired_All)
  qed
  then have "fst (cached_entry J now k s) = Inr None \<or>
     (\<exists>e \<in> E. entry_triple e = k \<and> fst (cached_entry J now k s) = Inr (Some e))"
    using Some by (cases k) (auto simp: cached_entry_def split_beta Let_def split: option.split)
  then show ?thesis using s st cache_from_Get [OF c] by (simp add: stored_from_def)
qed

lemma rows_from:
  assumes ord: "traversal ord" and s: "stored_from J E s" and my: "cs_mysql s = Some my"
    and E: "\<forall>e \<in> E. entry_ok J e"
    and row: "row \<in> set (FindRows ord ''config_entries''
      [(''namespace_name'', ns), (''key'', key), (''environment'', env)] my)"
  shows "\<exists>e \<in> E. entry_triple e = (ns, key, env) \<and> config_FromMysqlRow row = Inr e"
proof -
  obtain bk where bk: "(bk, row) \<in> set (table_of my ''config_entries'')"
    and m: "Matches row [(''namespace_name'', ns), (''key'', key), (''environment'', env)]"
    using row by (auto simp: FindRows_table_of [OF ord] traversal_set [OF ord])
  then obtain e where e: "e \<in> E" "row = config_ToMysqlRow e"
    using s my by (fastforce simp: stored_from_def)
  have "entry_triple e = (ns, key, env)"
    using m by (auto simp: e(2) Matches_def config_ToMysqlRow_def um_find_def entry_triple_def)
  moreover have "config_FromMysqlRow row = Inr e"
    using E e by (simp add: config_row_roundtrip entry_ok_def)
  ultimately show ?thesis using e(1) by blast
qed

lemma memory_from:
  assumes "stored_from J E s" and "\<forall>e \<in> E. entry_ok J e" and "key_ok k" and "memory_entry s k = Some e"
  shows "e \<in> E \<and> entry_triple e = k"
proof -
  have "(store_key k, e) \<in> set (entries s)"
    using assms(1,4) by (simp add: stored_from_def memory_entry_find um_find_in_set)
  then have "e \<in> E" "store_key k = store_key (entry_triple e)" using assms(1) by (auto simp: stored_from_def)
  then show ?thesis using assms(2,3) store_key_inj [of k "entry_triple e"] by (auto simp: entry_ok_def)
qed

lemma config_thread_own:
  assumes w: "config_world J ord tord E s" and t: "thread_entries E t"
    and st: "config_thread_step J sc ord tord t s = Some (t', s')"
  shows "config_world J ord tord E s' \<and> thread_entries E t'"
proof -
  have J: "json_laws J" and ord: "traversal ord" and tord: "traversal tord" and E: "\<forall>e \<in> E. entry_ok J e"
    and s: "stored_from J E s"
    using w by (simp_all add: config_world_def)
  have "stored_from J E s' \<and> thread_entries E t'"
  proof (cases t)
    case (PStart request)
    have "stored_from J E (s\<lparr>next_version := n\<rparr>)" for n using s by (simp add: stored_from_def)
    then show ?thesis
      using st t s by (auto simp: PStart rejected_def accepted_def split: if_splits)
  next
    case (GCache now k)
    then show ?thesis
      using stored_from_cached [OF s, of k now] t st by (auto simp: split_beta)
  next
    case (GRows k)
    obtain ns key env where k: "k = (ns, key, env)" by (cases k)
    show ?thesis
    proof (cases "cs_mysql s")
      case None
      then show ?thesis using st t s by (auto simp: GRows k)
    next
      case (Some my)
      show ?thesis
      proof (cases "FindRows ord ''config_entries''
          [(''namespace_name'', ns), (''key'', key), (''environment'', env)] my")
        case Nil
        then show ?thesis using st t s Some by (auto simp: GRows k)
      next
        case (Cons row rows)
        then obtain e where "e \<in> E" "entry_triple e = k" "config_FromMysqlRow row = Inr e"
          using rows_from [OF ord s Some E, of row ns key env] k by auto
        then show ?thesis using st t s Some Cons by (auto simp: GRows k)
      qed
    qed
  next
    case (GFill k e)
    then have e: "e \<in> E" "key_ok (entry_triple e)" "entry_triple e = k" using t by simp_all
    obtain x where x: "SerializeEntry J e = Inr x" "DeserializeEntry J x = Inr (Some e)"
      by (rule entry_document_roundtrip [OF J]) (use E e(1) in blast)
    show ?thesis
      using stored_from_redis [OF s e(1,2) x(2)] st t x(1) by (auto simp: GFill e(3))
  next
    case (GTable k e)
    then show ?thesis using stored_from_memory [OF s, of e] st t by auto
  next
    case (GMemory k)
    then show ?thesis
      using memory_from [OF s E, of k] st t s by (cases "memory_entry s k") auto
  next
    case (Collect ns since)
    have "e \<in> E" if "(k, e) \<in> set (entries s)" for k e using s that by (auto simp: stored_from_def)
    then show ?thesis
      using st s by (auto simp: Collect CollectNamespace_def traversal_set [OF tord])
  qed (use stored_from_publish [OF w] t st in \<open>auto simp: split_beta split: sum.splits\<close>)
  then show ?thesis using w by (simp add: config_world_def)
qed

fun claimed_version :: "config_thread \<Rightarrow> int option" where
  "claimed_version (PMemory e) = Some (cversion e)"
| "claimed_version (PMysql e) = Some (cversion e)"
| "claimed_version (PRedis e) = Some (cversion e)"
| "claimed_version (PEtcd e) = Some (cversion e)"
| "claimed_version (PMq e) = Some (cversion e)"
| "claimed_version (PAnswered (Inr (st, v))) = v"
| "claimed_version t = None"

text \<open>
  A publication keeps its entry until it is answered, and then its version.
\<close>

fun publishing :: "config_thread \<Rightarrow> config_entry option" where
  "publishing (PMemory e) = Some e"
| "publishing (PMysql e) = Some e"
| "publishing (PRedis e) = Some e"
| "publishing (PEtcd e) = Some e"
| "publishing (PMq e) = Some e"
| "publishing t = None"

fun waits :: "config_thread \<Rightarrow> bool" where
  "waits (PStart request) = True"
| "waits t = False"

lemma publishing_keeps:
  assumes w: "config_world J ord tord E s" and t: "thread_entries E t" and "\<not> waits t"
    and st: "config_thread_step J sc ord tord t s = Some (t', s')"
  shows "claimed_version t' = claimed_version t \<and> \<not> waits t' \<and> (publishing t' = publishing t \<or> publishing t' = None)"
proof (cases t)
  case (GRows k)
  then show ?thesis
    using st by (cases k) (auto split: option.splits list.splits sum.splits if_splits)
next
  case (GCache now k)
  then show ?thesis using st by (auto simp: split_beta split: sum.splits option.splits)
next
  case (GFill k e)
  then show ?thesis using st by (auto split: sum.splits)
qed (use stored_from_publish [OF w] t st assms(3) in \<open>auto simp: split_beta split: sum.splits\<close>)

text \<open>The entries of the publications that have taken a version.\<close>

definition published_by :: "config_thread list \<Rightarrow> config_thread list \<Rightarrow> config_entry set" where
  "published_by ts ts' =
     {accepted request n | request n j. j < length ts \<and> ts ! j = PStart request \<and> \<not> rejected request \<and>
        claimed_version (ts' ! j) = Some (sint n)}"

lemma published_by_update:
  "claimed_version t' = claimed_version (ts1 ! i) \<or> claimed_version (ts1 ! i) = None \<Longrightarrow> i < length ts1 \<Longrightarrow>
   published_by ts ts1 \<subseteq> published_by ts (ts1[i := t'])"
  "claimed_version t' = claimed_version (ts1 ! i) \<Longrightarrow> published_by ts (ts1[i := t']) = published_by ts ts1"
proof -
  show "published_by ts ts1 \<subseteq> published_by ts (ts1[i := t'])"
    if "claimed_version t' = claimed_version (ts1 ! i) \<or> claimed_version (ts1 ! i) = None" "i < length ts1"
    unfolding published_by_def
  proof (rule Collect_mono, intro impI)
    fix e assume "\<exists>request n j. e = accepted request n \<and> j < length ts \<and> ts ! j = PStart request \<and> \<not> rejected request \<and>
        claimed_version (ts1 ! j) = Some (sint n)"
    then obtain request n j where "e = accepted request n" "j < length ts" "ts ! j = PStart request" "\<not> rejected request"
        "claimed_version (ts1 ! j) = Some (sint n)" by blast
    moreover from this(5) have "claimed_version (ts1[i := t'] ! j) = Some (sint n)" using that by (cases "j = i") auto
    ultimately show "\<exists>request n j. e = accepted request n \<and> j < length ts \<and> ts ! j = PStart request \<and> \<not> rejected request \<and>
        claimed_version (ts1[i := t'] ! j) = Some (sint n)" by blast
  qed
  show "published_by ts (ts1[i := t']) = published_by ts ts1" if "claimed_version t' = claimed_version (ts1 ! i)"
  proof -
    have "claimed_version (ts1[i := t'] ! j) = claimed_version (ts1 ! j)" for j
      using that by (cases "j = i"; cases "i < length ts1") (auto simp: list_update_beyond not_less)
    then show ?thesis by (simp add: published_by_def)
  qed
qed

lemma thread_entries_mono: "E \<subseteq> E' \<Longrightarrow> thread_entries E t \<Longrightarrow> thread_entries E' t"
  by (cases t) auto

lemma cache_from_mono: "E \<subseteq> E' \<Longrightarrow> cache_from J E r \<Longrightarrow> cache_from J E' r"
  unfolding cache_from_def by blast

lemma stored_from_mono: "E \<subseteq> E' \<Longrightarrow> stored_from J E s \<Longrightarrow> stored_from J E' s"
proof -
  assume E: "E \<subseteq> E'" and s: "stored_from J E s"
  have "cache_from J E' r" if "cs_redis s = Some r" for r using s that cache_from_mono [OF E] unfolding stored_from_def by blast
  moreover have "\<exists>e \<in> E'. row = config_ToMysqlRow e"
    if "cs_mysql s = Some my" "(bk, row) \<in> set (table_of my ''config_entries'')" for my bk row
    using s that E unfolding stored_from_def by fastforce
  ultimately show ?thesis using s E unfolding stored_from_def by blast
qed

lemma stored_from_counter [simp]: "stored_from J E (s\<lparr>next_version := n\<rparr>) = stored_from J E s"
  by (simp add: stored_from_def)

text \<open>A thread \<open>t\<close> that began as \<open>t0\<close>.\<close>

definition stage :: "config_entry set \<Rightarrow> config_thread \<Rightarrow> config_thread \<Rightarrow> bool" where
  "stage E t0 t \<longleftrightarrow>
     (if waits t then t = t0
      else thread_entries E t \<and>
        (\<forall>e. publishing t = Some e \<longrightarrow> (\<exists>request n. t0 = PStart request \<and> \<not> rejected request \<and> e = accepted request n)))"

lemma stage_mono: "E \<subseteq> E' \<Longrightarrow> stage E t0 t \<Longrightarrow> stage E' t0 t"
  by (auto simp: stage_def thread_entries_mono)

definition published_run :: "'j json_api \<Rightarrow>
    ((string \<times> query_row) list \<Rightarrow> (string \<times> query_row) list) \<Rightarrow>
    ((string \<times> config_entry) list \<Rightarrow> (string \<times> config_entry) list) \<Rightarrow>
    config_thread list \<Rightarrow> config_thread list \<times> config_service \<Rightarrow> bool" where
  "published_run J ord tord ts c \<longleftrightarrow>
     length (fst c) = length ts \<and> config_world J ord tord (published_by ts (fst c)) (snd c) \<and>
     (\<forall>j < length ts. stage (published_by ts (fst c)) (ts ! j) (fst c ! j))"

lemma publication_starts:
  assumes J: "json_laws J" and c: "published_run J ord tord ts (ts1, s1)" and i: "i < length ts" "ts1 ! i = PStart request"
    and ok: "publish_ok J request" and st: "config_thread_step J sc ord tord (ts1 ! i) s1 = Some (t', s')"
  shows "published_run J ord tord ts (ts1[i := t'], s')"
proof (cases "rejected request")
  case True
  then have t': "t' = PAnswered (Inr (status_error INVALID_ARGUMENT ''namespace and key are required'', None))" "s' = s1"
    using st i(2) by (auto simp: rejected_def)
  have "published_by ts (ts1[i := t']) = published_by ts ts1" by (rule published_by_update(2)) (simp add: t' i(2))
  then show ?thesis
    using c i(1) by (auto simp: published_run_def t'(2) nth_list_update) (simp add: stage_def t'(1))
next
  case False
  let ?n = "next_version s1" and ?E = "published_by ts ts1"
  have t': "t' = PMemory (accepted request ?n)" "s' = s1\<lparr>next_version := next_version s1 + 1\<rparr>"
    using st i(2) False by (auto simp: rejected_def accepted_def)
  have len: "length ts1 = length ts" and w: "config_world J ord tord ?E s1" using c by (simp_all add: published_run_def)
  have ts: "ts ! i = PStart request" using c i by (auto simp: published_run_def stage_def dest!: spec [of _ i])
  let ?E' = "published_by ts (ts1[i := t'])"
  have sub: "?E \<subseteq> ?E'" using published_by_update(1) [of t' ts1 i ts] i len by simp
  have e: "accepted request ?n \<in> ?E'"
    unfolding published_by_def
  proof (rule CollectI, rule exI [of _ request], rule exI [of _ ?n], rule exI [of _ i], intro conjI refl)
    show "claimed_version (ts1[i := t'] ! i) = Some (sint ?n)" using i(1) len by (simp add: t'(1) accepted_def)
  qed (use i(1) ts False in simp_all)
  have "x \<in> ?E \<or> x = accepted request ?n" if mem: "x \<in> ?E'" for x
  proof -
    obtain r n j where x: "x = accepted r n" "j < length ts" "ts ! j = PStart r" "\<not> rejected r" "claimed_version (ts1[i := t'] ! j) = Some (sint n)"
      using mem unfolding published_by_def by blast
    show ?thesis
    proof (cases "j = i")
      case True
      then show ?thesis using x ts i len by (simp add: t'(1) accepted_def)
    next
      case False
      then have "claimed_version (ts1 ! j) = Some (sint n)" using x(5) by simp
      then show ?thesis using x(1-4) unfolding published_by_def by blast
    qed
  qed
  then have "\<forall>x \<in> ?E'. entry_ok J x" using w accepted_ok [OF J ok False] by (auto simp: config_world_def)
  then have "config_world J ord tord ?E' s'"
    using w stored_from_mono [OF sub, of J s1] by (simp add: config_world_def t'(2))
  moreover have "stage ?E' (ts ! i) t'" using e ts False by (auto simp: stage_def t'(1))
  ultimately show ?thesis
    using c stage_mono [OF sub] len i(1) by (auto simp: published_run_def nth_list_update)
qed

lemma published_run_step:
  assumes J: "json_laws J" and ok: "\<forall>request. PStart request \<in> set ts \<longrightarrow> publish_ok J request"
    and c: "published_run J ord tord ts c" and st: "interleave (config_thread_step J sc ord tord) c c'"
  shows "published_run J ord tord ts c'"
proof -
  obtain ts1 s1 where c1: "c = (ts1, s1)" by (cases c)
  obtain i t' s' where i: "i < length ts1" "config_thread_step J sc ord tord (ts1 ! i) s1 = Some (t', s')" "c' = (ts1[i := t'], s')"
    using st by (auto simp: c1 elim: interleaveE)
  have len: "length ts1 = length ts" and w: "config_world J ord tord (published_by ts ts1) s1"
    and g: "stage (published_by ts ts1) (ts ! i) (ts1 ! i)"
    using c i(1) by (simp_all add: published_run_def c1)
  show ?thesis
  proof (cases "waits (ts1 ! i)")
    case True
    then obtain request where r: "ts1 ! i = PStart request" by (cases "ts1 ! i") auto
    then have "PStart request \<in> set ts" using g i(1) len nth_mem [of i ts] by (simp add: stage_def)
    then show ?thesis
      using publication_starts [OF J c [unfolded c1] _ r _ i(2)] ok i(1,3) len by simp
  next
    case False
    then have t: "thread_entries (published_by ts ts1) (ts1 ! i)" using g by (simp add: stage_def)
    note keep = publishing_keeps [OF w t False i(2)]
    then have "published_by ts (ts1[i := t']) = published_by ts ts1" by (intro published_by_update(2)) simp
    moreover have "stage (published_by ts ts1) (ts ! i) t'"
      using config_thread_own [OF w t i(2)] keep g False by (auto simp: stage_def)
    ultimately show ?thesis
      using c config_thread_own [OF w t i(2)] i(1) len by (auto simp: published_run_def c1 i(3) nth_list_update)
  qed
qed

lemma published_runs:
  assumes "interleaved (config_thread_step J sc ord tord) c c'" and "json_laws J"
    and "\<forall>request. PStart request \<in> set ts \<longrightarrow> publish_ok J request" and "published_run J ord tord ts c"
  shows "published_run J ord tord ts c'"
  using assms(1,4) by induction (auto intro: published_run_step [OF assms(2,3)])

fun config_call :: "'j json_api \<Rightarrow> config_thread \<Rightarrow> bool" where
  "config_call J (PStart request) = publish_ok J request"
| "config_call J (GCache now k) = (key_ok k \<and> snd (snd k) = ''dev'')"
| "config_call J (Collect ns since) = True"
| "config_call J t = False"

text \<open>
  C12: what a concurrent reader gets was published. Any number of calls of a fresh service, on any
  combination of backends, with plain names (no bar, no colon) and texts in UTF-8, and any interleaving
  of their actions: no call throws; a \<open>GetConfig\<close> that has ended answers NOT_FOUND or with the entry of one of the
  accepted publications for the very namespace and key it asked for, with all its fields and the very version that
  this publication took from the counter (and answers with, once it ends), never a mixture and never another
  key's; each entry that \<open>WatchConfig\<close> and \<open>BatchGetConfig\<close> collect is likewise that of a publication in the namespace,
  above the version asked for.
\<close>

theorem concurrent_reads_published:
  assumes "json_laws J" and "traversal ord" and "traversal tord" and "fresh_backends my re"
    and calls: "\<forall>t \<in> set ts. config_call J t"
    and run: "interleaved (config_thread_step J sc ord tord) (ts, ConfigServiceImpl my re pr mq) (ts', s')"
    and i: "i < length ts'"
  shows "case ts' ! i of
      GAnswered k a \<Rightarrow> a = Inr (status_error NOT_FOUND ''config not found'', None) \<or>
        (\<exists>e \<in> published_by ts ts'. entry_triple e = k \<and> a = Inr (status_ok, Some e))
    | Collected ns since es \<Rightarrow> \<forall>e \<in> set es. e \<in> published_by ts ts' \<and> namespace_name e = ns \<and> since < cversion e
    | PAnswered a \<Rightarrow> \<exists>b. a = Inr b
    | _ \<Rightarrow> True"
proof -
  let ?s = "ConfigServiceImpl my re pr mq"
  have none: "claimed_version t = None \<and> (waits t \<or> thread_entries {} t \<and> publishing t = None)" if "t \<in> set ts" for t
  proof -
    have "config_call J t" using that calls by blast
    then show ?thesis by (cases t) simp_all
  qed
  have empty: "published_by ts ts = {}"
    using none [OF nth_mem] by (auto simp: published_by_def)
  have "stored_from J {} ?s"
    using assms(4) by (auto simp: stored_from_def ConfigServiceImpl_def fresh_backends_def cache_from_def
        redis_empty_def mysql_empty_def table_of_def)
  moreover have "stage {} (ts ! j) (ts ! j)" if "j < length ts" for j
    using none [OF nth_mem [OF that]] by (auto simp: stage_def)
  ultimately have "published_run J ord tord ts (ts, ?s)"
    using assms(1-3) by (simp add: published_run_def config_world_def empty)
  moreover have "\<forall>request. PStart request \<in> set ts \<longrightarrow> publish_ok J request" using calls by fastforce
  ultimately have "published_run J ord tord ts (ts', s')" using published_runs [OF run assms(1)] by blast
  then have "stage (published_by ts ts') (ts ! i) (ts' ! i)" using i by (simp add: published_run_def)
  then show ?thesis
  proof (cases "waits (ts' ! i)")
    case True
    then show ?thesis by (cases "ts' ! i") simp_all
  next
    case False
    assume "stage (published_by ts ts') (ts ! i) (ts' ! i)"
    then have "thread_entries (published_by ts ts') (ts' ! i)" using False by (simp add: stage_def)
    then show ?thesis by (cases "ts' ! i") (auto simp: get_answer_def)
  qed
qed

text \<open>A publication runs to its end and is then read.\<close>

lemma sample_read:
  "\<exists>ts' s'. interleaved (config_thread_step sample_json sample_scan rev rev)
      ([GCache 5 (''game'', ''rate'', ''dev''), PStart (sample_entry ''rate'' ''5'' [])], ConfigServiceImpl None (Some redis_empty) None None)
      (ts', s') \<and> length ts' = 2 \<and> (\<exists>e. ts' ! 0 = GAnswered (''game'', ''rate'', ''dev'') (Inr (status_ok, Some e)))"
proof -
  let ?step = "config_thread_step sample_json sample_scan rev rev" and ?r = "sample_entry ''rate'' ''5'' []"
  let ?g = "GCache 5 (''game'', ''rate'', ''dev'')" and ?s = "ConfigServiceImpl None (Some redis_empty) None None"
  let ?s1 = "snd (PublishConfig sample_json sample_scan ?r ?s)" and ?p = "PAnswered (fst (PublishConfig sample_json sample_scan ?r ?s))"
  let ?x = "fst (GetConfig sample_json rev 5 ''game'' ''rate'' ?s1)"
  have ok: "publish_ok sample_json ?r" "\<not> rejected ?r" by (simp_all add: publish_ok_def rejected_def sample_entry_def plain_name_def)
  have inv: "config_inv sample_json ?s" by (rule fresh_config_inv) (simp add: fresh_backends_def)
  note pub = PublishConfig_accepts [OF sample_json_laws inv ok, of sample_scan]
  have run1: "interleaved ?step ([?g, PStart ?r], ?s) ([?g, ?p], ?s1)"
    using solo_interleaved [of 1 "[?g, PStart ?r]" "PStart ?r" ?step ?s 6] by (simp add: PublishConfig_alone del: solo.simps)
  have run2: "interleaved ?step ([?g, ?p], ?s1) ([GAnswered (''game'', ''rate'', ''dev'') ?x, ?p], snd (GetConfig sample_json rev 5 ''game'' ''rate'' ?s1))"
    using solo_interleaved [of 0 "[?g, ?p]" ?g ?step ?s1 4] by (simp add: GetConfig_alone del: solo.simps)
  note run = rtranclp_trans [OF run1 run2]
  obtain e where e: "?x = Inr (status_ok, Some e)"
    using GetConfig_reads_table(1) [OF sample_json_laws traversal_rev pub(2), of "''game''" "''rate''" 5] pub(3)
    by (auto simp: plain_name_def accepted_def entry_triple_def sample_entry_def DefaultEnv_def)
  show ?thesis
    by (intro exI [of _ "[GAnswered (''game'', ''rate'', ''dev'') ?x, ?p]"] exI conjI, rule run) (simp_all add: e)
qed

theorem concurrent_reads_published_witness:
  "\<exists>ts' s' request n. interleaved (config_thread_step sample_json sample_scan rev rev)
      ([GCache 5 (''game'', ''rate'', ''dev''), PStart (sample_entry ''rate'' ''5'' [])], ConfigServiceImpl None (Some redis_empty) None None)
      (ts', s') \<and>
     ts' ! 0 = GAnswered (''game'', ''rate'', ''dev'') (Inr (status_ok, Some (accepted (sample_entry ''rate'' ''5'' []) n))) \<and>
     claimed_version (ts' ! 1) = Some (sint n)"
proof -
  let ?ts = "[GCache 5 (''game'', ''rate'', ''dev''), PStart (sample_entry ''rate'' ''5'' [])]"
  let ?s = "ConfigServiceImpl None (Some redis_empty) None None"
  obtain ts' s' e where run: "interleaved (config_thread_step sample_json sample_scan rev rev) (?ts, ?s) (ts', s')"
    and e: "length ts' = 2" "ts' ! 0 = GAnswered (''game'', ''rate'', ''dev'') (Inr (status_ok, Some e))"
    using sample_read by blast
  have "\<forall>t \<in> set ?ts. config_call sample_json t"
    by (simp add: plain_name_def publish_ok_def sample_entry_def)
  from concurrent_reads_published [OF sample_json_laws traversal_rev traversal_rev _ this run, of 0]
  have "e \<in> published_by ?ts ts'" by (simp add: fresh_backends_def e)
  then obtain n where "e = accepted (sample_entry ''rate'' ''5'' []) n" "claimed_version (ts' ! 1) = Some (sint n)"
    by (auto simp: published_by_def less_Suc_eq numeral_2_eq_2)
  then show ?thesis using run e by blast
qed

section \<open>Versions\<close>

lemma publish_keeps_version [simp]:
  "next_version (publish_memory e s) = next_version s"
  "next_version (publish_mysql e s) = next_version s"
  "next_version (snd (publish_redis J e s)) = next_version s"
  "next_version (publish_etcd sc e s) = next_version s"
  "next_version (snd (publish_mq J e s)) = next_version s"
  by (simp_all add: publish_memory_def publish_mysql_def publish_redis_def publish_etcd_def publish_mq_def
      split: option.split sum.split)

lemma config_step_version:
  assumes "config_thread_step J sc ord tord t s = Some (t', s')"
  shows "(next_version s' = next_version s \<and> (claimed_version t' = claimed_version t \<or> claimed_version t' = None)) \<or>
    (next_version s' = next_version s + 1 \<and> claimed_version t = None \<and> claimed_version t' = Some (sint (next_version s)) \<and>
     config_work t = 6)"
proof (cases t)
  case (GCache now k)
  then show ?thesis
    using assms by (auto simp: split_beta cached_entry_untouched split: sum.splits option.splits)
next
  case (GRows k)
  then show ?thesis
    using assms by (cases k) (auto split: option.splits list.splits sum.splits if_splits)
next
  case (GFill k e)
  then show ?thesis using assms by (auto split: sum.splits)
qed (use assms in \<open>auto simp: split_beta split: if_splits sum.splits\<close>)

text \<open>The threads that have not yet asked for a version.\<close>

abbreviation unclaimed :: "config_thread list \<Rightarrow> nat" where
  "unclaimed \<equiv> waiting (\<lambda>t. config_work t = 6)"

definition claimed :: "config_thread list \<Rightarrow> int multiset" where
  "claimed ts = mset (List.map_filter claimed_version ts)"

lemma claimed_update:
  "i < length ts \<Longrightarrow> claimed (ts[i := t]) + (case claimed_version (ts ! i) of None \<Rightarrow> {#} | Some v \<Rightarrow> {#v#}) =
     claimed ts + (case claimed_version t of None \<Rightarrow> {#} | Some v \<Rightarrow> {#v#})"
proof (induction ts arbitrary: i)
  case Nil
  then show ?case by simp
next
  case (Cons u ts)
  show ?case
  proof (cases i)
    case 0
    then show ?thesis by (simp add: claimed_def List.map_filter_simps split: option.split)
  next
    case (Suc k)
    then show ?thesis
      using Cons by (simp add: claimed_def List.map_filter_simps split: option.split)
  qed
qed

lemma versions_claimed:
  assumes "interleaved (config_thread_step J sc ord tord) (ts, s) (ts', s')"
  shows "\<exists>m. m + unclaimed ts' \<le> unclaimed ts \<and> next_version s' = next_version s + of_nat m \<and>
    claimed ts' \<subseteq># claimed ts + mset (map (\<lambda>k. sint (next_version s + of_nat k)) [0..<m])"
  using assms
proof (induction rule: rtranclp_induct2)
  case refl
  then show ?case by (intro exI [of _ 0]) simp
next
  case (step ts1 s1 ts2 s2)
  then obtain m where m: "m + unclaimed ts1 \<le> unclaimed ts" "next_version s1 = next_version s + of_nat m"
    "claimed ts1 \<subseteq># claimed ts + mset (map (\<lambda>k. sint (next_version s + of_nat k)) [0..<m])" by blast
  from step.hyps(2) obtain i t' where i: "ts2 = ts1[i := t']" "i < length ts1"
    "config_thread_step J sc ord tord (ts1 ! i) s1 = Some (t', s2)" by (auto elim: interleaveE)
  have less: "config_work t' < config_work (ts1 ! i)" by (rule config_thread_progress [OF i(3)])
  then have "config_work t' \<noteq> 6" using config_work_le [of "ts1 ! i"] by simp
  then have un: "unclaimed ts2 + (if config_work (ts1 ! i) = 6 then 1 else 0) = unclaimed ts1"
    using waiting_update [OF i(2), of "\<lambda>t. config_work t = 6" t'] by (simp add: i(1))
  have cl: "claimed ts2 + (case claimed_version (ts1 ! i) of None \<Rightarrow> {#} | Some v \<Rightarrow> {#v#}) =
     claimed ts1 + (case claimed_version t' of None \<Rightarrow> {#} | Some v \<Rightarrow> {#v#})"
    using claimed_update [OF i(2), of t'] by (simp add: i(1))
  from config_step_version [OF i(3)] show ?case
  proof
    assume a: "next_version s2 = next_version s1 \<and>
      (claimed_version t' = claimed_version (ts1 ! i) \<or> claimed_version t' = None)"
    then have "claimed ts2 \<subseteq># claimed ts1"
      using cl by (auto split: option.splits) (metis add_mset_add_single mset_subset_eq_add_left)
    then show ?thesis
      using m a un by (intro exI [of _ m]) (auto split: if_splits)
  next
    assume a: "next_version s2 = next_version s1 + 1 \<and> claimed_version (ts1 ! i) = None \<and>
      claimed_version t' = Some (sint (next_version s1)) \<and> config_work (ts1 ! i) = 6"
    then have "claimed ts2 = claimed ts1 + {#sint (next_version s + of_nat m)#}" using cl m(2) by simp
    then have "claimed ts2 \<subseteq># claimed ts + mset (map (\<lambda>k. sint (next_version s + of_nat k)) [0..<Suc m])"
      using m(3) by simp
    then show ?thesis
      using m a un by (intro exI [of _ "Suc m"]) (simp add: add.assoc)
  qed
qed

lemma distinct_submset:
  assumes "mset xs \<subseteq># mset ys" and "distinct ys"
  shows "distinct xs"
proof -
  obtain zs where "mset ys = mset (xs @ zs)" using assms(1) by (metis ex_mset mset_append subset_mset.le_iff_add)
  then have "distinct (xs @ zs)" using assms(2) mset_eq_imp_distinct_iff by blast
  then show ?thesis by simp
qed

text \<open>
  C16: no two publications get the same version, whatever their interleaving. From a counter at
  \<open>n\<close> and with fewer than \<open>2^63 - n\<close> calls, the versions that publishing threads have claimed or answered
  with are different and lie between \<open>n\<close> and where the counter now stands, which has moved by at
  most one for each call.
\<close>

theorem concurrent_versions_distinct:
  assumes "interleaved (config_thread_step J sc ord tord) (ts, s) (ts', s')"
    and "\<forall>t \<in> set ts. claimed_version t = None" and "next_version s = of_nat n" and "n + length ts < 2 ^ 63"
  shows "\<exists>m \<le> length ts. next_version s' = of_nat (n + m) \<and>
    distinct (List.map_filter claimed_version ts') \<and>
    set (List.map_filter claimed_version ts') \<subseteq> {int n..<int (n + m)}"
proof -
  obtain m where m: "m + unclaimed ts' \<le> unclaimed ts" "next_version s' = next_version s + of_nat m"
    "claimed ts' \<subseteq># claimed ts + mset (map (\<lambda>k. sint (next_version s + of_nat k)) [0..<m])"
    using versions_claimed [OF assms(1)] by blast
  have le: "m \<le> length ts" using m(1) waiting_le [of "\<lambda>t. config_work t = 6" ts] by linarith
  have none: "claimed ts = {#}" using assms(2) by (induction ts) (simp_all add: claimed_def List.map_filter_simps)
  have "sint (next_version s + of_nat k) = int (n + k)" if "k < m" for k
    using sint_of_nat_64 [of "n + k"] that le assms(4) by (simp add: assms(3))
  then have v: "map (\<lambda>k. sint (next_version s + of_nat k)) [0..<m] = map (\<lambda>k. int (n + k)) [0..<m]" by simp
  have c: "mset (List.map_filter claimed_version ts') \<subseteq># mset (map (\<lambda>k. int (n + k)) [0..<m])"
    using m(3) unfolding none v by (simp add: claimed_def del: mset_map)
  have d: "distinct (map (\<lambda>k. int (n + k)) [0..<m])" by (simp add: distinct_map inj_on_def)
  have "distinct (List.map_filter claimed_version ts')"
    by (rule distinct_submset [OF c d])
  moreover have "set (List.map_filter claimed_version ts') \<subseteq> {int n..<int (n + m)}"
    using set_mset_mono [OF c] by auto
  moreover have "next_version s' = of_nat (n + m)" by (simp add: m(2) assms(3))
  ultimately show ?thesis using le by blast
qed

theorem concurrent_versions_distinct_witness:
  "let (t1, s1) = solo (config_thread_step sample_json sample_scan rev rev) 1
         (PStart (sample_entry ''rate'' ''5'' [])) (ConfigServiceImpl None None None None)
   in \<exists>m \<le> 2. next_version s1 = of_nat (1 + m) \<and>
        set (List.map_filter claimed_version [t1, PStart (sample_entry ''rate'' ''7'' [])]) \<subseteq> {1..<int (1 + m)}"
proof -
  let ?ts = "[PStart (sample_entry ''rate'' ''5'' []), PStart (sample_entry ''rate'' ''7'' [])]"
  let ?s = "ConfigServiceImpl None None None None"
  note run = solo_interleaved [of 0 ?ts "PStart (sample_entry ''rate'' ''5'' [])"
      "config_thread_step sample_json sample_scan rev rev" ?s 1]
  show ?thesis
    using concurrent_versions_distinct [OF run, of 1]
    by (auto simp: split_beta Let_def numeral_2_eq_2)
qed

section \<open>The order of versions is not the order of writes\<close>

lemma publish_keeps [simp]:
  "cs_redis (publish_memory e s) = cs_redis s"
  "cs_redis (publish_mysql e s) = cs_redis s"
  "cs_redis (publish_etcd sc e s) = cs_redis s"
  "cs_redis (snd (publish_mq J e s)) = cs_redis s"
  "cs_mysql (publish_memory e s) = cs_mysql s"
  "cs_mysql (snd (publish_redis J e s)) = cs_mysql s"
  "cs_mysql (publish_etcd sc e s) = cs_mysql s"
  "cs_mysql (snd (publish_mq J e s)) = cs_mysql s"
  "entries (publish_mysql e s) = entries s"
  "entries (snd (publish_redis J e s)) = entries s"
  "entries (publish_etcd sc e s) = entries s"
  "entries (snd (publish_mq J e s)) = entries s"
  by (simp_all add: publish_memory_def publish_mysql_def publish_redis_def publish_etcd_def publish_mq_def
      split: option.split sum.split)

lemma PublishConfig_alone_from_table:
  assumes "SerializeEntry J e = Inr t"
  shows "solo (config_thread_step J sc ord tord) 5 (PMemory e) s =
    (PAnswered (Inr (status_ok, Some (cversion e))),
     snd (publish_mq J e (publish_etcd sc e (snd (publish_redis J e (publish_mysql e (publish_memory e s)))))))"
proof -
  have "fst (publish_redis J e s) = Inr ()" "fst (publish_mq J e s) = Inr ()" for s
    using assms by (simp_all add: publish_redis_def publish_mq_def split: option.split)
  then show ?thesis by (simp add: numeral_eq_Suc split_beta)
qed

text \<open>
  C17: the older of two concurrent publications can win. Of two accepted publications to the same
  namespace and key, the one with version 1 can write after the one with version 2: both are
  answered OK, and in the end the table in memory holds version 1 and nothing else, so does the row of the
  key in the database when there is one, \<open>GetConfig\<close> returns version 1 from the cache whenever it is
  called, and a watcher that asks for what is newer than version 1 is told of nothing.
\<close>

theorem older_publication_can_win:
  assumes J: "json_laws J" and ok: "publish_ok J old" "publish_ok J new" "\<not> rejected old" "\<not> rejected new"
    and same: "namespace_name new = namespace_name old" "ckey new = ckey old"
      "environment old = ''dev''" "environment new = ''dev''"
    and tord: "traversal tord"
  shows "\<exists>s. interleaved (config_thread_step J sc ord tord)
      ([PStart old, PStart new], ConfigServiceImpl my (Some re) pr mq)
      ([PAnswered (Inr (status_ok, Some 1)), PAnswered (Inr (status_ok, Some 2))], s) \<and>
    (\<forall>now ord'. fst (GetConfig J ord' now (namespace_name old) (ckey old) s) =
       Inr (status_ok, Some (old\<lparr>cversion := 1\<rparr>))) \<and>
    entries s = [(BuildStoreKey (namespace_name old) (ckey old) ''dev'', old\<lparr>cversion := 1\<rparr>)] \<and>
    map_option (\<lambda>db. um_find (table_of db ''config_entries'')
        (BuildCompositeKey (config_ToMysqlRow (old\<lparr>cversion := 1\<rparr>)) config_cols)) (cs_mysql s) =
      map_option (\<lambda>_. Some (config_ToMysqlRow (old\<lparr>cversion := 1\<rparr>))) my \<and>
    WatchConfig tord (namespace_name old) 1 s = (status_ok, [])"
proof -
  let ?step = "config_thread_step J sc ord tord" and ?s0 = "ConfigServiceImpl my (Some re) pr mq"
  define e where "e = accepted old 1"
  have e: "e = old\<lparr>cversion := 1\<rparr>" using same(3) by (simp add: e_def accepted_def DefaultEnv_def)
  obtain t where t: "SerializeEntry J e = Inr t" "DeserializeEntry J t = Inr (Some e)"
    by (rule entry_document_roundtrip [OF J accepted_ok [OF J ok(1,3), of 1, folded e_def]])
  define s1 where "s1 = ?s0\<lparr>next_version := 2\<rparr>"
  define e' where "e' = accepted new 2"
  obtain t' where t': "SerializeEntry J e' = Inr t'"
    using entry_document_roundtrip [OF J accepted_ok [OF J ok(2,4), of 2, folded e'_def]] by blast
  let ?wrote = "\<lambda>e s. snd (publish_mq J e (publish_etcd sc e (snd (publish_redis J e (publish_mysql e (publish_memory e s))))))"
  define s2 where "s2 = ?wrote e' (s1\<lparr>next_version := 3\<rparr>)"
  define s3 where "s3 = ?wrote e s2"
  have one: "solo ?step (Suc 0) (PStart old) ?s0 = (PMemory e, s1)"
    using ok(3) by (simp add: rejected_def e_def accepted_def s1_def)
  have v: "cversion e' = 2" by (simp add: e'_def accepted_def)
  have "?step (PStart new) s1 = Some (PMemory e', s1\<lparr>next_version := 3\<rparr>)"
    using ok(4) by (simp add: rejected_def e'_def accepted_def s1_def)
  then have six: "solo ?step (Suc 5) (PStart new) s1 = (PAnswered (Inr (status_ok, Some 2)), s2)"
    unfolding solo.simps
    by (simp add: PublishConfig_alone_from_table [OF t'] s2_def v del: config_thread_step.simps)
  have "cversion e = 1" by (simp add: e)
  then have five: "solo ?step 5 (PMemory e) s2 = (PAnswered (Inr (status_ok, Some 1)), s3)"
    by (simp add: PublishConfig_alone_from_table [OF t(1)] s3_def)
  have run: "interleaved ?step ([PStart old, PStart new], ?s0) ([PMemory e, PStart new], s1)"
    "interleaved ?step ([PMemory e, PStart new], s1) ([PMemory e, PAnswered (Inr (status_ok, Some 2))], s2)"
    "interleaved ?step ([PMemory e, PAnswered (Inr (status_ok, Some 2))], s2)
      ([PAnswered (Inr (status_ok, Some 1)), PAnswered (Inr (status_ok, Some 2))], s3)"
    using solo_interleaved [of 0 "[PStart old, PStart new]" "PStart old" ?step ?s0 "Suc 0"]
      solo_interleaved [of 1 "[PMemory e, PStart new]" "PStart new" ?step s1 "Suc 5"]
      solo_interleaved [of 0 "[PMemory e, PAnswered (Inr (status_ok, Some 2))]" "PMemory e" ?step s2 5]
    unfolding one five six by simp_all
  have key: "BuildStoreKey (namespace_name e') (ckey e') (environment e') =
      BuildStoreKey (namespace_name e) (ckey e) (environment e)"
    using same by (simp add: e e'_def accepted_def DefaultEnv_def)
  obtain r2 where r2: "cs_redis s2 = Some r2"
    using t' by (simp add: s2_def s1_def publish_redis_def ConfigServiceImpl_def)
  then have r3: "cs_redis s3 = Some (snd (Set (BuildCacheKey (namespace_name old) (ckey old) ''dev'') t r2))"
    using t(1) same(3) by (simp add: s3_def publish_redis_def e)
  have "fst (GetConfig J ord' now (namespace_name old) (ckey old) s3) = Inr (status_ok, Some e)" for now ord'
    using t(2) by (simp add: GetConfig_def FindEntry_def layered_find_def cached_entry_def r3 DefaultEnv_def
        split_beta Let_def)
  moreover have "map_option (\<lambda>db. um_find (table_of db ''config_entries'') (BuildCompositeKey (config_ToMysqlRow e) config_cols))
      (cs_mysql s3) = map_option (\<lambda>_. Some (config_ToMysqlRow e)) my"
    by (simp add: s3_def s2_def s1_def ConfigServiceImpl_def publish_mysql_def split: option.split)
  moreover have table: "entries s3 = [(BuildStoreKey (namespace_name e) (ckey e) (environment e), e)]"
    by (simp add: s3_def s2_def s1_def ConfigServiceImpl_def publish_memory_def um_put_def key)
  moreover from table have "WatchConfig tord (namespace_name old) 1 s3 = (status_ok, [])"
    using traversal_set [OF tord, of "entries s3"]
    by (auto simp: WatchConfig_def CollectNamespace_def filter_empty_conv e)
  ultimately show ?thesis
    using run same(3) by (intro exI [of _ s3]) (simp add: e)
qed

theorem older_publication_can_win_witness:
  "\<exists>s. interleaved (config_thread_step sample_json sample_scan rev rev)
      ([PStart (sample_entry ''rate'' ''5'' ''dev''), PStart (sample_entry ''rate'' ''7'' ''dev'')],
       ConfigServiceImpl (Some mysql_empty) (Some redis_empty) None (Some empty_bus))
      ([PAnswered (Inr (status_ok, Some 1)), PAnswered (Inr (status_ok, Some 2))], s) \<and>
    (\<forall>now ord'. fst (GetConfig sample_json ord' now ''game'' ''rate'' s) =
       Inr (status_ok, Some (sample_entry ''rate'' ''5'' ''dev''\<lparr>cversion := 1\<rparr>))) \<and>
    map_option (\<lambda>db. um_find (table_of db ''config_entries'')
        (BuildCompositeKey (config_ToMysqlRow (sample_entry ''rate'' ''5'' ''dev''\<lparr>cversion := 1\<rparr>)) config_cols)) (cs_mysql s) =
      Some (Some (config_ToMysqlRow (sample_entry ''rate'' ''5'' ''dev''\<lparr>cversion := 1\<rparr>)))"
  using older_publication_can_win [OF sample_json_laws, of "sample_entry ''rate'' ''5'' ''dev''"
      "sample_entry ''rate'' ''7'' ''dev''" rev sample_scan rev "Some mysql_empty" redis_empty None "Some empty_bus"]
  by (auto simp: sample_entry_def publish_ok_def plain_name_def rejected_def)

end
