(* ===== verification/User_Threads.thy ===== *)
theory User_Threads
  imports User_Service Threads
begin

text \<open>
  The user service under concurrent calls: the actions of \<open>CreateUser\<close> and \<open>GetUser\<close> of
  \<open>services/user_service/user_service_impl.cpp\<close> on the counter, the table, the database and the
  cache, each atomic by itself and interleaved with those of the other calls.
\<close>

datatype user_thread =
    UStart int string
  | UTable user_profile
  | URow user_profile
  | UCache user_profile
  | UAnswered "exn + grpc_status \<times> user_profile"
  | UFind time_ns string
  | UFindRow string
  | UFill string user_profile
  | UKeep string user_profile
  | UFindTable string
  | UFound string "exn + grpc_status \<times> user_profile option"

definition user_answer :: "user_profile option \<Rightarrow> grpc_status \<times> user_profile option" where
  "user_answer r = (case r of
     None \<Rightarrow> (status_error NOT_FOUND ''user not found'', None)
   | Some p \<Rightarrow> (status_ok, Some p))"

fun user_thread_step :: "'j json_api \<Rightarrow> ((string \<times> query_row) list \<Rightarrow> (string \<times> query_row) list) \<Rightarrow>
    user_thread \<Rightarrow> user_service \<Rightarrow> (user_thread \<times> user_service) option" where
  "user_thread_step J ord (UStart wall_clock name) s =
     Some (UTable \<lparr>up_user_id = user_id_of (next_user_id s),
                   nickname = (if name = [] then ''anonymous'' else name),
                   avatar = [], level = 1, created_at = wall_clock\<rparr>,
           s\<lparr>next_user_id := next_user_id s + 1\<rparr>)"
| "user_thread_step J ord (UTable p) s = Some (URow p, s\<lparr>users := (users s)(up_user_id p \<mapsto> p)\<rparr>)"
| "user_thread_step J ord (URow p) s =
     Some (UCache p,
       s\<lparr>us_mysql := map_option (\<lambda>my. snd (UpsertRow ''users'' (user_ToMysqlRow p) [''user_id''] my)) (us_mysql s)\<rparr>)"
| "user_thread_step J ord (UCache p) s =
     (case us_redis s of
        None \<Rightarrow> Some (UAnswered (Inr (status_ok, p)), s)
      | Some r \<Rightarrow>
          (case SerializeProfile J p of
             Inl x \<Rightarrow> Some (UAnswered (Inl x), s)
           | Inr t \<Rightarrow>
               Some (UAnswered (Inr (status_ok, p)),
                     s\<lparr>us_redis := Some (snd (Set (user_BuildCacheKey (up_user_id p)) t r))\<rparr>)))"
| "user_thread_step J ord (UAnswered a) s = None"
| "user_thread_step J ord (UFind now uid) s =
     (let (r, s') = cached_user J now uid s
      in Some (case r of
                 Inl x \<Rightarrow> UFound uid (Inl x)
               | Inr None \<Rightarrow> UFindRow uid
               | Inr (Some p) \<Rightarrow> UFound uid (Inr (user_answer (Some p))), s'))"
| "user_thread_step J ord (UFindRow uid) s =
     (case us_mysql s of
        None \<Rightarrow> Some (UFindTable uid, s)
      | Some my \<Rightarrow>
          (case GetRow ord ''users'' ''user_id'' uid my of
             None \<Rightarrow> Some (UFindTable uid, s)
           | Some row \<Rightarrow>
               (case user_FromMysqlRow row of
                  Inl x \<Rightarrow> Some (UFound uid (Inl x), s)
                | Inr p \<Rightarrow> Some (if us_redis s = None then UKeep uid p else UFill uid p, s))))"
| "user_thread_step J ord (UFill uid p) s =
     (case SerializeProfile J p of
        Inl x \<Rightarrow> Some (UFound uid (Inl x), s)
      | Inr t \<Rightarrow>
          Some (UKeep uid p,
            s\<lparr>us_redis := map_option (\<lambda>r. snd (Set (user_BuildCacheKey uid) t r)) (us_redis s)\<rparr>))"
| "user_thread_step J ord (UKeep uid p) s =
     Some (UFound uid (Inr (user_answer (Some p))), s\<lparr>users := (users s)(uid \<mapsto> p)\<rparr>)"
| "user_thread_step J ord (UFindTable uid) s = Some (UFound uid (Inr (user_answer (users s uid))), s)"
| "user_thread_step J ord (UFound uid a) s = None"

fun user_work :: "user_thread \<Rightarrow> nat" where
  "user_work (UStart w n) = 4"
| "user_work (UTable p) = 3"
| "user_work (URow p) = 2"
| "user_work (UCache p) = 1"
| "user_work (UAnswered a) = 0"
| "user_work (UFind now uid) = 4"
| "user_work (UFindRow uid) = 3"
| "user_work (UFill uid p) = 2"
| "user_work (UKeep uid p) = 1"
| "user_work (UFindTable uid) = 1"
| "user_work (UFound uid a) = 0"

lemma user_thread_progress:
  "user_thread_step J ord t s = Some (t', s') \<Longrightarrow> user_work t' < user_work t"
  by (cases t) (auto simp: split_beta split: if_splits sum.splits option.splits)

lemma user_thread_ended: "user_work t = 0 \<Longrightarrow> user_thread_step J ord t s = None"
  by (cases t) simp_all

lemma user_thread_busy: "0 < user_work t \<Longrightarrow> user_thread_step J ord t s \<noteq> None"
  by (cases t) (auto simp: split_beta split: sum.splits option.splits)

interpretation user_calls: thread_work "user_thread_step J ord" user_work "\<lambda>s. 0" "\<lambda>ts s. True"
  for J ord
  by unfold_locales (simp_all add: user_thread_progress user_thread_busy user_thread_ended)

section \<open>A thread alone is the handler\<close>

lemma CreateUser_alone:
  "solo (user_thread_step J ord) 4 (UStart wall_clock name) s =
     (UAnswered (fst (CreateUser J wall_clock name s)), snd (CreateUser J wall_clock name s))"
  by (cases "us_mysql s"; cases "us_redis s")
    (simp_all add: CreateUser_def Let_def numeral_eq_Suc split: sum.split)

lemma GetUser_alone:
  "solo (user_thread_step J ord) 4 (UFind now uid) s =
     (UFound uid (fst (GetUser J ord now uid s)), snd (GetUser J ord now uid s))"
proof -
  obtain r s1 where c: "cached_user J now uid s = (r, s1)" by (cases "cached_user J now uid s")
  have G: "GetUser J ord now uid s =
      (let (r, s') = layered_find (cached_user J now) (stored_user J ord) users uid s
       in (case r of Inl x \<Rightarrow> Inl x | Inr p \<Rightarrow> Inr (user_answer p), s'))"
    by (simp add: GetUser_def FindUser_def user_answer_def split_beta Let_def split: sum.split option.split)
  let ?rest = "\<lambda>s1. let (r, s') = stored_user J ord uid s1
      in (case r of Inl x \<Rightarrow> UFound uid (Inl x) | Inr (Some p) \<Rightarrow> UFound uid (Inr (user_answer (Some p)))
          | Inr None \<Rightarrow> UFound uid (Inr (user_answer (users s' uid))), s')"
  have rest: "solo (user_thread_step J ord) 3 (UFindRow uid) s1 = ?rest s1" for s1
  proof (cases "us_mysql s1")
    case None
    then show ?thesis by (simp add: numeral_eq_Suc stored_user_def)
  next
    case (Some my)
    note my = Some
    show ?thesis
    proof (cases "GetRow ord ''users'' ''user_id'' uid my")
      case None
      then show ?thesis using my by (simp add: numeral_eq_Suc stored_user_def)
    next
      case (Some row)
      show ?thesis
        using my Some
        by (cases "user_FromMysqlRow row"; cases "us_redis s1"; cases "SerializeProfile J (projr (user_FromMysqlRow row))")
          (simp_all add: numeral_eq_Suc stored_user_def)
    qed
  qed
  have ended: "solo (user_thread_step J ord) 3 (UFound uid a) s1 = (UFound uid a, s1)" for a
    by (simp add: numeral_eq_Suc)
  have "solo (user_thread_step J ord) (Suc 3) (UFind now uid) s =
      solo (user_thread_step J ord) 3
        (case r of Inl x \<Rightarrow> UFound uid (Inl x) | Inr None \<Rightarrow> UFindRow uid
         | Inr (Some p) \<Rightarrow> UFound uid (Inr (user_answer (Some p)))) s1"
    unfolding solo.simps by (simp add: c)
  also have "\<dots> = (case r of Inl x \<Rightarrow> (UFound uid (Inl x), s1)
       | Inr None \<Rightarrow> ?rest s1
       | Inr (Some p) \<Rightarrow> (UFound uid (Inr (user_answer (Some p))), s1))"
    by (simp only: ended rest split: sum.split option.split) simp
  finally have "solo (user_thread_step J ord) 4 (UFind now uid) s =
      (case r of Inl x \<Rightarrow> (UFound uid (Inl x), s1)
       | Inr None \<Rightarrow> ?rest s1
       | Inr (Some p) \<Rightarrow> (UFound uid (Inr (user_answer (Some p))), s1))"
    by simp
  then show ?thesis
    by (simp add: G layered_find_def c split_beta Let_def split: sum.split option.split)
qed

section \<open>The layers agree at every moment\<close>

text \<open>
  The table is written first, so the invariant of the service holds between any two actions. An id
  in the table was handed out; the counter does not come round while there is room for every
  creation that has yet to start.
\<close>

definition user_world :: "'j json_api \<Rightarrow> ((string \<times> query_row) list \<Rightarrow> (string \<times> query_row) list) \<Rightarrow>
    user_service \<Rightarrow> bool" where
  "user_world J ord s \<longleftrightarrow>
     json_laws J \<and> traversal ord \<and> user_inv J s \<and>
     (\<forall>uid p. users s uid = Some p \<longrightarrow> (\<exists>k < next_user_id s. uid = user_id_of k))"

definition made :: "'j json_api \<Rightarrow> user_profile \<Rightarrow> user_service \<Rightarrow> bool" where
  "made J p s \<longleftrightarrow> (\<exists>k < next_user_id s. \<exists>wall_clock name. int64_range wall_clock \<and> json_utf8 J name \<and>
     p = new_profile (user_id_of k) wall_clock name)"

fun thread_holds :: "'j json_api \<Rightarrow> user_thread \<Rightarrow> user_service \<Rightarrow> bool" where
  "thread_holds J (UStart w n) s = (int64_range w \<and> json_utf8 J n)"
| "thread_holds J (UTable p) s = (made J p s \<and> users s (up_user_id p) = None)"
| "thread_holds J (URow p) s = (made J p s \<and> users s (up_user_id p) = Some p)"
| "thread_holds J (UCache p) s = (made J p s \<and> users s (up_user_id p) = Some p)"
| "thread_holds J (UAnswered a) s = (\<exists>p. a = Inr (status_ok, p) \<and> users s (up_user_id p) = Some p)"
| "thread_holds J (UFind now uid) s = True"
| "thread_holds J (UFindRow uid) s = True"
| "thread_holds J (UFill uid p) s = (users s uid = Some p)"
| "thread_holds J (UKeep uid p) s = (users s uid = Some p)"
| "thread_holds J (UFindTable uid) s = True"
| "thread_holds J (UFound uid a) s =
     (a = Inr (user_answer None) \<or> (\<exists>p. users s uid = Some p \<and> a = Inr (user_answer (Some p))))"

fun created_id :: "user_thread \<Rightarrow> string option" where
  "created_id (UTable p) = Some (up_user_id p)"
| "created_id (URow p) = Some (up_user_id p)"
| "created_id (UCache p) = Some (up_user_id p)"
| "created_id (UAnswered (Inr (st, p))) = Some (up_user_id p)"
| "created_id t = None"

definition apart :: "user_thread \<Rightarrow> user_thread \<Rightarrow> bool" where
  "apart t u \<longleftrightarrow> created_id t = None \<or> created_id t \<noteq> created_id u"

fun creates_user :: "user_thread \<Rightarrow> bool" where
  "creates_user (UStart w n) = True"
| "creates_user t = False"

abbreviation ids_left :: "user_thread list \<Rightarrow> user_service \<Rightarrow> bool" where
  "ids_left \<equiv> values_left next_user_id creates_user"

lemma user_step_counter:
  assumes "user_thread_step J ord t s = Some (t', s')"
  shows "next_user_id s' = next_user_id s + (if creates_user t then 1 else 0)" and "\<not> creates_user t'"
proof -
  have "next_user_id (snd (cached_user J now uid s)) = next_user_id s" for now uid
    by (simp add: cached_user_def split_beta Let_def split: option.split)
  then show "next_user_id s' = next_user_id s + (if creates_user t then 1 else 0)" and "\<not> creates_user t'"
    using assms by (cases t; auto simp: split_beta split: option.splits sum.splits if_splits)+
qed

interpretation user_ids: thread_counter "user_thread_step J ord" next_user_id creates_user creates_user
  for J ord
  by unfold_locales (auto dest: user_step_counter)

lemma made_later:
  assumes "made J p s" and "next_user_id s \<le> next_user_id s'"
  shows "made J p s'"
proof -
  obtain k w n where k: "k < next_user_id s" and p: "int64_range w" "json_utf8 J n" "p = new_profile (user_id_of k) w n"
    using assms(1) by (auto simp: made_def)
  have "k < next_user_id s'" using k assms(2) by (rule order_less_le_trans)
  then show ?thesis using p unfolding made_def by blast
qed

lemma made_frame [simp]:
  "made J p (s\<lparr>users := U\<rparr>) = made J p s"
  "made J p (s\<lparr>us_mysql := my\<rparr>) = made J p s"
  "made J p (s\<lparr>us_redis := r\<rparr>) = made J p s"
  by (simp_all add: made_def)

lemma made_profile:
  assumes "json_laws J" and "made J p s"
  shows "profile_ok p \<and> profile_text J p \<and> (\<exists>k < next_user_id s. up_user_id p = user_id_of k)"
  using assms new_profile_ok [OF assms(1)] by (auto simp: made_def)

text \<open>The invariant of the service, and what a step leaves of it.\<close>

lemma user_inv_table:
  assumes "user_inv J s" and "users s (up_user_id p) = None" and "profile_ok p" and "profile_text J p"
  shows "user_inv J (s\<lparr>users := (users s)(up_user_id p \<mapsto> p)\<rparr>)"
proof -
  have "cache_agrees J ((users s)(up_user_id p \<mapsto> p)) r" if "us_redis s = Some r" for r
    using assms that by (fastforce simp: user_inv_def cache_agrees_def)
  moreover have "rows_agree ((users s)(up_user_id p \<mapsto> p)) my" if "us_mysql s = Some my" for my
    using assms that by (fastforce simp: user_inv_def rows_agree_def)
  ultimately show ?thesis
    using assms by (auto simp: user_inv_def profiles_ok_def)
qed

lemma user_inv_row:
  assumes inv: "user_inv J s" and p: "p = new_profile (user_id_of k) w n" "profile_ok p"
    and t: "users s (up_user_id p) = Some p"
  shows "user_inv J (s\<lparr>us_mysql := map_option (\<lambda>my. snd (UpsertRow ''users'' (user_ToMysqlRow p) [''user_id''] my))
      (us_mysql s)\<rparr>)"
proof -
  have "(users s)(user_id_of k \<mapsto> p) = users s" using t by (auto simp: p(1))
  then have "rows_agree (users s) (snd (UpsertRow ''users'' (user_ToMysqlRow p) [''user_id''] my))"
    if "us_mysql s = Some my" for my
    using rows_agree_Upsert [of "users s" my k w n] inv p that by (simp add: user_inv_def)
  then show ?thesis using inv by (auto simp: user_inv_def)
qed

lemma user_inv_cache:
  assumes "user_inv J s" and "users s uid = Some p" and "DeserializeProfile J t = Inr (Some p)"
  shows "user_inv J (s\<lparr>us_redis := map_option (\<lambda>r. snd (Set (user_BuildCacheKey uid) t r)) (us_redis s)\<rparr>)"
proof -
  have "(users s)(uid \<mapsto> p) = users s" using assms(2) by auto
  then have "cache_agrees J (users s) (snd (Set (user_BuildCacheKey uid) t r))" if "us_redis s = Some r" for r
    using cache_agrees_Set [OF _ assms(3), of "users s" r uid] assms(1) that by (simp add: user_inv_def)
  then show ?thesis using assms(1) by (auto simp: user_inv_def)
qed

lemma user_serialized:
  assumes "json_laws J" and "user_inv J s" and "users s uid = Some p"
  obtains t where "SerializeProfile J p = Inr t" "DeserializeProfile J t = Inr (Some p)"
  using profile_document_roundtrip [OF assms(1)] assms(2,3) by (metis user_inv_def profiles_ok_def)

lemma user_worldD:
  assumes "user_world J ord s"
  shows "json_laws J" and "traversal ord" and "user_inv J s"
    and "\<forall>uid p. users s uid = Some p \<longrightarrow> (\<exists>k < next_user_id s. uid = user_id_of k)"
  using assms by (simp_all add: user_world_def)

lemma user_start_own:
  assumes w: "user_world J ord s" and t: "thread_holds J (UStart wall_clock name) s"
    and st: "user_thread_step J ord (UStart wall_clock name) s = Some (t', s')"
    and n: "next_user_id s < next_user_id s + 1"
  shows "user_world J ord s' \<and> thread_holds J t' s'"
proof -
  note J = user_worldD(1) [OF w] and ord = user_worldD(2) [OF w] and inv = user_worldD(3) [OF w] and ids = user_worldD(4) [OF w]
  let ?p = "new_profile (user_id_of (next_user_id s)) wall_clock name"
  have s': "s' = s\<lparr>next_user_id := next_user_id s + 1\<rparr>" "t' = UTable ?p"
    using st by (auto simp: new_profile_def)
  have "users s (user_id_of (next_user_id s)) = None"
    using ids by (cases "users s (user_id_of (next_user_id s))") (auto simp: user_id_of_inj)
  moreover have "made J ?p s'" using t n by (auto simp: made_def s')
  moreover have "\<forall>uid p. users s uid = Some p \<longrightarrow> (\<exists>k < next_user_id s + 1. uid = user_id_of k)"
    using ids n by (meson order_less_trans)
  ultimately show ?thesis using w by (simp add: s' user_world_def user_inv_def)
qed

lemma user_cache_own:
  assumes w: "user_world J ord s" and t: "thread_holds J (UCache p) s"
    and st: "user_thread_step J ord (UCache p) s = Some (t', s')"
  shows "user_world J ord s' \<and> thread_holds J t' s'"
proof -
  note J = user_worldD(1) [OF w] and ord = user_worldD(2) [OF w] and inv = user_worldD(3) [OF w] and ids = user_worldD(4) [OF w]
  have p: "made J p s" "users s (up_user_id p) = Some p" using t by simp_all
  obtain x where x: "SerializeProfile J p = Inr x" "DeserializeProfile J x = Inr (Some p)"
    by (rule user_serialized [OF J inv p(2)])
  show ?thesis
  proof (cases "us_redis s")
    case None
    then have "s' = s" "t' = UAnswered (Inr (status_ok, p))" using st by simp_all
    then show ?thesis using w p by simp
  next
    case (Some r)
    then have "s' = s\<lparr>us_redis := Some (snd (Set (user_BuildCacheKey (up_user_id p)) x r))\<rparr>"
      "t' = UAnswered (Inr (status_ok, p))" using st x(1) by simp_all
    then show ?thesis
      using user_inv_cache [OF inv p(2) x(2)] w p Some by (simp add: user_world_def)
  qed
qed

lemma user_find_own:
  assumes w: "user_world J ord s" and t: "thread_holds J (UFind now uid) s"
    and st: "user_thread_step J ord (UFind now uid) s = Some (t', s')"
  shows "user_world J ord s' \<and> thread_holds J t' s'"
proof -
  note J = user_worldD(1) [OF w] and ord = user_worldD(2) [OF w] and inv = user_worldD(3) [OF w] and ids = user_worldD(4) [OF w]
  obtain r s1 where c: "cached_user J now uid s = (r, s1)" by (cases "cached_user J now uid s")
  have s1: "r = Inr None \<or> r = Inr (users s uid)" "user_inv J s1" "users s1 = users s"
    using cached_user_sound [OF inv, of now uid] by (simp_all add: c)
  have n: "next_user_id s1 = next_user_id s"
    using user_step_counter(1) [OF st] c st by auto
  have t': "s' = s1" "t' = (case r of Inl x \<Rightarrow> UFound uid (Inl x) | Inr None \<Rightarrow> UFindRow uid
      | Inr (Some p) \<Rightarrow> UFound uid (Inr (user_answer (Some p))))"
    using st by (simp_all add: c)
  have "user_world J ord s1" using w s1(2,3) n by (simp add: user_world_def)
  moreover have "thread_holds J t' s1" using s1(1,3) by (cases "users s uid") (auto simp: t'(2))
  ultimately show ?thesis by (simp add: t'(1))
qed

lemma user_find_row_own:
  assumes w: "user_world J ord s" and t: "thread_holds J (UFindRow uid) s"
    and st: "user_thread_step J ord (UFindRow uid) s = Some (t', s')"
  shows "user_world J ord s' \<and> thread_holds J t' s'"
proof -
  note J = user_worldD(1) [OF w] and ord = user_worldD(2) [OF w] and inv = user_worldD(3) [OF w] and ids = user_worldD(4) [OF w]
  show ?thesis
  proof (cases "us_mysql s")
    case None
    then show ?thesis using w st by auto
  next
    case (Some my)
    have rows: "rows_agree (users s) my" using inv Some by (simp add: user_inv_def)
    then have g: "GetRow ord ''users'' ''user_id'' uid my = um_find (table_of my ''users'') uid"
      by (simp add: rows_agree_def GetRow_primary ord)
    show ?thesis
    proof (cases "um_find (table_of my ''users'') uid")
      case None
      then show ?thesis using w st Some g by auto
    next
      case (Some row)
      then obtain p where "users s uid = Some p" "user_FromMysqlRow row = Inr p"
        using rows by (auto simp: rows_agree_def)
      then show ?thesis
        using w st \<open>us_mysql s = Some my\<close> Some g by (auto split: if_splits)
    qed
  qed
qed

lemma user_thread_own:
  assumes r: "ids_left ts s" and i: "i < length ts" and w: "user_world J ord s" and t: "thread_holds J (ts ! i) s"
    and st: "user_thread_step J ord (ts ! i) s = Some (t', s')"
  shows "user_world J ord s' \<and> thread_holds J t' s'"
proof -
  note J = user_worldD(1) [OF w] and ord = user_worldD(2) [OF w] and inv = user_worldD(3) [OF w] and ids = user_worldD(4) [OF w]
  show ?thesis
  proof (cases "ts ! i")
    case (UStart wall_clock name)
    have "next_user_id s < next_user_id s + 1" using user_ids.no_wrap(2) [OF r i st] UStart by simp
    from user_start_own [OF w t [unfolded UStart] st [unfolded UStart] this] show ?thesis .
  next
    case (UTable p)
    then have p: "made J p s" "users s (up_user_id p) = None" using t by simp_all
    note ok = made_profile [OF J p(1)]
    have s': "s' = s\<lparr>users := (users s)(up_user_id p \<mapsto> p)\<rparr>" "t' = URow p" using st by (auto simp: UTable)
    show ?thesis
      using w user_inv_table [OF inv p(2)] ok p(1) by (auto simp: s' user_world_def)
  next
    case (URow p)
    then have p: "made J p s" "users s (up_user_id p) = Some p" using t by simp_all
    then obtain k wc n where new: "p = new_profile (user_id_of k) wc n" by (auto simp: made_def)
    then show ?thesis
      using user_inv_row [OF inv new _ p(2)] made_profile [OF J p(1)] w st p
      by (auto simp: URow user_world_def)
  next
    case (UCache p)
    from user_cache_own [OF w t [unfolded UCache] st [unfolded UCache]] show ?thesis .
  next
    case (UFind now uid)
    from user_find_own [OF w t [unfolded UFind] st [unfolded UFind]] show ?thesis .
  next
    case (UFindRow uid)
    from user_find_row_own [OF w t [unfolded UFindRow] st [unfolded UFindRow]] show ?thesis .
  next
    case (UFill uid p)
    then have p: "users s uid = Some p" using t by simp
    obtain x where x: "SerializeProfile J p = Inr x" "DeserializeProfile J x = Inr (Some p)"
      by (rule user_serialized [OF J inv p])
    show ?thesis
      using user_inv_cache [OF inv p x(2)] w st x(1) p by (auto simp: UFill user_world_def)
  next
    case (UKeep uid p)
    then have p: "users s uid = Some p" using t by simp
    then have "(users s)(uid \<mapsto> p) = users s" by auto
    then show ?thesis using w st p by (auto simp: UKeep)
  next
    case (UFindTable uid)
    then show ?thesis using w st by (cases "users s uid") auto
  qed (use st in auto)
qed

lemma created_id_given:
  assumes "user_world J ord s" and "thread_holds J u s" and "created_id u = Some uid"
  shows "\<exists>k < next_user_id s. uid = user_id_of k"
proof -
  have J: "json_laws J" using assms(1) by (simp add: user_world_def)
  have a: "\<exists>k < next_user_id s. uid = user_id_of k" if "users s uid = Some p" for p
    using assms(1) that by (auto simp: user_world_def)
  have m: "\<exists>k < next_user_id s. up_user_id p = user_id_of k" if "made J p s" for p
    using made_profile [OF J that] by blast
  show ?thesis using assms(2,3) a m by (cases u) auto
qed

lemma user_thread_others:
  assumes r: "ids_left ts s" and i: "i < length ts" and w: "user_world J ord s" and t: "thread_holds J (ts ! i) s"
    and u: "thread_holds J u s" and a: "apart (ts ! i) u" "apart u (ts ! i)"
    and st: "user_thread_step J ord (ts ! i) s = Some (t', s')"
  shows "thread_holds J u s' \<and> apart t' u \<and> apart u t'"
proof (cases "ts ! i")
  case (UStart wall_clock name)
  have n: "next_user_id s < next_user_id s + 1" using user_ids.no_wrap(2) [OF r i st] UStart by simp
  let ?p = "new_profile (user_id_of (next_user_id s)) wall_clock name"
  have s': "s' = s\<lparr>next_user_id := next_user_id s + 1\<rparr>" "t' = UTable ?p"
    using st by (auto simp: UStart new_profile_def)
  have m: "made J p s' " if "made J p s" for p by (rule made_later [OF that]) (use n in \<open>simp add: s'\<close>)
  have "created_id u \<noteq> Some (user_id_of (next_user_id s))"
    using created_id_given [OF w u] by (auto simp: user_id_of_inj)
  moreover have "thread_holds J u s'" using u m by (cases u) (auto simp: s')
  ultimately show ?thesis by (auto simp: s' apart_def)
next
  case (UTable p)
  have s': "s' = s\<lparr>users := (users s)(up_user_id p \<mapsto> p)\<rparr>" "t' = URow p" using st by (auto simp: UTable)
  have free: "users s (up_user_id p) = None" using t by (simp add: UTable)
  have "thread_holds J u s'"
    using u a free by (cases u) (auto simp: s' UTable apart_def)
  then show ?thesis using a by (simp add: s' UTable apart_def)
next
  case (URow p)
  then have "users s' = users s" "next_user_id s' = next_user_id s" "t' = UCache p" using st by auto
  then show ?thesis using u a by (cases u) (auto simp: URow apart_def made_def)
next
  case (UCache p)
  then have "users s' = users s" "next_user_id s' = next_user_id s" "created_id t' = created_id (UCache p) \<or> created_id t' = None"
    using st by (auto split: option.splits sum.splits)
  then show ?thesis using u a by (cases u) (auto simp: UCache apart_def made_def)
next
  case (UFind now uid)
  have "users (snd (cached_user J now uid s)) = users s"
    using w cached_user_sound [of J s now uid] by (simp add: user_world_def)
  then have "users s' = users s" "next_user_id s' = next_user_id s" "created_id t' = None"
    using st user_step_counter(1) [OF st] by (auto simp: UFind split_beta split: sum.splits option.splits)
  then show ?thesis using u a by (cases u) (auto simp: UFind apart_def made_def)
next
  case (UFindRow uid)
  then have "s' = s" "created_id t' = None" using st by (auto split: option.splits sum.splits if_splits)
  then show ?thesis using u a by (simp add: UFindRow apart_def)
next
  case (UFill uid p)
  then have "users s' = users s" "next_user_id s' = next_user_id s" "created_id t' = None"
    using st by (auto split: sum.splits)
  then show ?thesis using u a by (cases u) (auto simp: UFill apart_def made_def)
next
  case (UKeep uid p)
  then have "(users s)(uid \<mapsto> p) = users s" using t by auto
  then have "s' = s" "created_id t' = None" using st by (auto simp: UKeep)
  then show ?thesis using u a by (simp add: UKeep apart_def)
next
  case (UFindTable uid)
  then have "s' = s" "created_id t' = None" using st by auto
  then show ?thesis using u a by (simp add: UFindTable apart_def)
qed (use st in auto)

interpretation user_threads: thread_invariant "user_thread_step J ord" "user_world J ord" "thread_holds J" apart ids_left
  for J ord
  by unfold_locales (erule (1) user_ids.values_left_step, assumption, erule (4) user_thread_own, erule (7) user_thread_others)

section \<open>Read your writes, across threads\<close>

fun user_call :: "'j json_api \<Rightarrow> user_thread \<Rightarrow> bool" where
  "user_call J (UStart wall_clock name) = (int64_range wall_clock \<and> json_utf8 J name)"
| "user_call J (UFind now uid) = True"
| "user_call J t = False"

text \<open>A look-up of \<open>uid\<close> that has not answered with anything but \<open>p\<close>.\<close>

fun seeks :: "string \<Rightarrow> user_profile \<Rightarrow> user_thread \<Rightarrow> bool" where
  "seeks uid p (UFind now u) = (u = uid)"
| "seeks uid p (UFindRow u) = (u = uid)"
| "seeks uid p (UFill u q) = (u = uid \<and> q = p)"
| "seeks uid p (UKeep u q) = (u = uid \<and> q = p)"
| "seeks uid p (UFindTable u) = (u = uid)"
| "seeks uid p (UFound u a) = (u = uid \<and> a = Inr (status_ok, Some p))"
| "seeks uid p t = False"

lemma seeks_step:
  assumes w: "user_world J ord s" and t: "seeks uid p t" and p: "users s uid = Some p"
    and own: "thread_holds J t' s'" "users s' uid = Some p" and st: "user_thread_step J ord t s = Some (t', s')"
  shows "seeks uid p t'"
proof (cases t)
  case (UFind now u)
  have "fst (cached_user J now uid s) = Inr None \<or> fst (cached_user J now uid s) = Inr (Some p)"
    using cached_user_sound [of J s now uid] w p by (simp add: user_world_def)
  then show ?thesis using st t by (auto simp: UFind split_beta user_answer_def)
next
  case (UFindRow u)
  then show ?thesis
    using own st t w by (auto simp: user_answer_def split: option.splits sum.splits if_splits)
next
  case (UFill u q)
  obtain x where "SerializeProfile J p = Inr x"
    using user_serialized [of J s uid p] w p by (auto simp: user_world_def)
  then show ?thesis using st t by (auto simp: UFill)
qed (use t st p in \<open>auto simp: user_answer_def\<close>)

lemma fresh_user_threads:
  assumes "json_laws J" and "traversal ord" and "my = None \<or> my = Some mysql_empty" and "re = None \<or> re = Some redis_empty"
    and calls: "\<forall>t \<in> set ts. user_call J t" and "length ts < 2 ^ 64 - 1"
    and run: "interleaved (user_thread_step J ord) (ts, UserServiceImpl my re) (ts', s')"
  shows "user_world J ord s'" and "i < length ts \<Longrightarrow> thread_holds J (ts' ! i) s'"
    and "i < length ts \<Longrightarrow> j < length ts \<Longrightarrow> i \<noteq> j \<Longrightarrow> apart (ts' ! i) (ts' ! j)" and "ids_left ts' s'"
proof -
  let ?s = "UserServiceImpl my re"
  have w: "user_world J ord ?s"
    using assms(1,2) fresh_user_inv [OF assms(3,4)] by (simp add: user_world_def UserServiceImpl_def)
  have t: "thread_holds J t ?s \<and> created_id t = None" if "t \<in> set ts" for t
  proof -
    have "user_call J t" using that calls by blast
    then show ?thesis by (cases t) simp_all
  qed
  then have a: "\<forall>t \<in> set ts. thread_holds J t ?s"
    "\<forall>i < length ts. \<forall>j < length ts. i \<noteq> j \<longrightarrow> apart (ts ! i) (ts ! j)" by (auto simp: apart_def)
  have l: "ids_left ts ?s"
    using assms(6) waiting_le [of creates_user ts] by (simp add: values_left_def UserServiceImpl_def)
  note k = user_threads.run_keeps [OF run l w a] and len = interleaved_length [OF run]
  show "user_world J ord s'" and "i < length ts \<Longrightarrow> thread_holds J (ts' ! i) s'"
    and "i < length ts \<Longrightarrow> j < length ts \<Longrightarrow> i \<noteq> j \<Longrightarrow> apart (ts' ! i) (ts' ! j)" and "ids_left ts' s'"
    using k len by simp_all
qed

text \<open>
  C14: who has been told a user's id can find the user. Whatever calls run concurrently on a fresh
  service, with any backends and fewer calls than there are ids: once a \<open>CreateUser\<close> has answered with a profile,
  every \<open>GetUser\<close> of its id that starts after that answers OK with that very profile, whatever the
  other calls do meanwhile; and no other creation answers with the same id.
\<close>

theorem concurrent_create_found:
  assumes J: "json_laws J" "traversal ord" "my = None \<or> my = Some mysql_empty" "re = None \<or> re = Some redis_empty"
    and calls: "\<forall>t \<in> set ts. user_call J t" "length ts < 2 ^ 64 - 1"
    and before: "interleaved (user_thread_step J ord) (ts, UserServiceImpl my re) (ts1, s1)"
      "i < length ts" "ts1 ! i = UAnswered (Inr (st, p))"
      "j < length ts" "ts1 ! j = UFind now (up_user_id p)"
    and after: "interleaved (user_thread_step J ord) (ts1, s1) (ts2, s2)" "ts2 ! j = UFound uid a"
  shows "st = status_ok \<and> a = Inr (status_ok, Some p) \<and>
    (\<forall>k < length ts. \<forall>st' q. k \<noteq> i \<and> ts2 ! k = UAnswered (Inr (st', q)) \<longrightarrow> up_user_id q \<noteq> up_user_id p)"
proof -
  note start = fresh_user_threads [OF J calls]
  have len: "length ts1 = length ts" by (rule interleaved_length [OF before(1)])
  have stays: "ts3 ! i = UAnswered (Inr (st, p))" if "interleaved (user_thread_step J ord) (ts1, s1) (ts3, s3)" for ts3 s3
    using ended_stays [OF that, of i] before(2,3) len by simp
  have kept: "users s3 (up_user_id p) = Some p \<and> seeks (up_user_id p) p (ts3 ! j)"
    if run: "interleaved (user_thread_step J ord) (ts1, s1) (ts3, s3)" for ts3 s3
    using run
  proof (induction rule: rtranclp_induct2)
    case refl
    then show ?case using start(2) [OF before(1,2)] before(3,5) by auto
  next
    case (step ts3 s3 ts4 s4)
    note run3 = rtranclp_trans [OF before(1) step.hyps(1)]
    note run4 = rtranclp.rtrancl_into_rtrancl [OF run3 step.hyps(2)]
    have p4: "users s4 (up_user_id p) = Some p"
      using start(2) [OF run4 before(2)] stays [OF rtranclp.rtrancl_into_rtrancl [OF step.hyps]] by auto
    from step.hyps(2) obtain k t' where k: "ts4 = ts3[k := t']" "k < length ts3"
      "user_thread_step J ord (ts3 ! k) s3 = Some (t', s4)" by (auto elim: interleaveE)
    show ?case
    proof (cases "k = j")
      case True
      have "thread_holds J t' s4" using start(2) [OF run4 before(4)] k(1,2) True by simp
      then have "seeks (up_user_id p) p t'"
        using seeks_step [OF start(1) [OF run3]] step.IH p4 k(3) True by blast
      then show ?thesis using p4 k(1,2) True by simp
    next
      case False
      then show ?thesis using p4 step.IH k(1) by simp
    qed
  qed
  have "up_user_id q \<noteq> up_user_id p" if "k < length ts" "k \<noteq> i" "ts2 ! k = UAnswered (Inr (st', q))" for k st' q
    using start(3) [OF rtranclp_trans [OF before(1) after(1)] that(1) before(2) that(2)] that(3) stays [OF after(1)]
    by (simp add: apart_def)
  moreover have "st = status_ok" using start(2) [OF before(1,2)] before(3) by simp
  ultimately show ?thesis using kept [OF after(1)] after(2) by auto
qed

theorem concurrent_create_found_witness:
  "\<exists>s1 s2 p. interleaved (user_thread_step sample_json rev)
      ([UStart 1700 ''ann'', UFind 5 ''user_1''], UserServiceImpl (Some mysql_empty) (Some redis_empty))
      ([UAnswered (Inr (status_ok, p)), UFind 5 ''user_1''], s1) \<and> nickname p = ''ann'' \<and>
    interleaved (user_thread_step sample_json rev) ([UAnswered (Inr (status_ok, p)), UFind 5 ''user_1''], s1)
      ([UAnswered (Inr (status_ok, p)), UFound ''user_1'' (Inr (status_ok, Some p))], s2)"
proof -
  let ?s = "UserServiceImpl (Some mysql_empty) (Some redis_empty)" and ?step = "user_thread_step sample_json rev"
  let ?ts = "[UStart 1700 ''ann'', UFind 5 ''user_1'']"
  define p where "p = new_profile ''user_1'' 1700 ''ann''"
  define s1 where "s1 = snd (CreateUser sample_json 1700 ''ann'' ?s)"
  define s2 where "s2 = snd (GetUser sample_json rev 5 ''user_1'' s1)"
  have c: "fst (CreateUser sample_json 1700 ''ann'' ?s) = Inr (status_ok, p)"
    using CreateUser_writes_table(1) [OF sample_json_laws fresh_user_inv, of "Some mysql_empty" "Some redis_empty" 1700 "''ann''"]
    by (simp add: UserServiceImpl_def p_def user_id_one)
  let ?t1 = "[UAnswered (Inr (status_ok, p)), UFind 5 ''user_1'']"
  have one: "interleaved ?step (?ts, ?s) (?t1, s1)"
    using solo_interleaved [of 0 ?ts "UStart 1700 ''ann''" ?step ?s 4] by (simp add: CreateUser_alone c s1_def)
  obtain a where two: "interleaved ?step (?t1, s1) ([UAnswered (Inr (status_ok, p)), UFound ''user_1'' a], s2)"
    using solo_interleaved [of 1 ?t1 "UFind 5 ''user_1''" ?step s1 4] by (simp add: GetUser_alone s2_def)
  have "a = Inr (status_ok, Some p)"
    using concurrent_create_found [OF sample_json_laws traversal_rev _ _ _ _ one, of 0 status_ok p 1 5, OF _ _ _ _ _ _ _ _ two]
    by (simp add: p_def)
  then show ?thesis using one two by (intro exI [of _ s1] exI [of _ s2] exI [of _ p]) (simp add: p_def)
qed

end
