(* ===== verification/Game_Threads.thy ===== *)
theory Game_Threads
  imports Game_Service Threads
begin

text \<open>
  The game service under concurrent calls: \<open>CreateRoom\<close> of \<open>services/game_service/game_service_impl.cpp\<close>
  takes an id, then its mutex for the table, then writes to the cache; \<open>JoinRoom\<close> holds the mutex
  from its look-up to its insertion.
\<close>

datatype game_thread =
    RStart string int
  | RTable string room_state
  | RCache string room_state
  | RAnswered "exn + grpc_status \<times> string"
  | JStart string string
  | JAnswered string string "grpc_status \<times> bool"

fun game_thread_step :: "'j json_api \<Rightarrow> game_thread \<Rightarrow> game_service \<Rightarrow> (game_thread \<times> game_service) option" where
  "game_thread_step J (RStart name players) s =
     (if name = [] \<or> players \<le> 0 then
        Some (RAnswered (Inr (status_error INVALID_ARGUMENT ''room_name and max_players are required'', [])), s)
      else
        Some (RTable (room_id_of (next_room_id s)) \<lparr>room_name = name, max_players = players, members = {}\<rparr>,
              s\<lparr>next_room_id := next_room_id s + 1\<rparr>))"
| "game_thread_step J (RTable i state) s = Some (RCache i state, s\<lparr>rooms := (rooms s)(i \<mapsto> state)\<rparr>)"
| "game_thread_step J (RCache i state) s =
     (case gs_redis s of
        None \<Rightarrow> Some (RAnswered (Inr (status_ok, i)), s)
      | Some r \<Rightarrow>
          (case room_payload J i state of
             Inl x \<Rightarrow> Some (RAnswered (Inl x), s)
           | Inr t \<Rightarrow>
               Some (RAnswered (Inr (status_ok, i)), s\<lparr>gs_redis := Some (snd (Set (BuildRoomCacheKey i) t r))\<rparr>)))"
| "game_thread_step J (RAnswered a) s = None"
| "game_thread_step J (JStart i user) s =
     (let (a, s') = JoinRoom i user s in Some (JAnswered i user a, s'))"
| "game_thread_step J (JAnswered i user a) s = None"

fun game_work :: "game_thread \<Rightarrow> nat" where
  "game_work (RStart name players) = 3"
| "game_work (RTable i state) = 2"
| "game_work (RCache i state) = 1"
| "game_work (RAnswered a) = 0"
| "game_work (JStart i user) = 1"
| "game_work (JAnswered i user a) = 0"

lemma game_thread_progress: "game_thread_step J t s = Some (t', s') \<Longrightarrow> game_work t' < game_work t"
  by (cases t) (auto simp: split_beta split: if_splits sum.splits option.splits)

lemma game_thread_ended: "game_work t = 0 \<Longrightarrow> game_thread_step J t s = None"
  by (cases t) simp_all

lemma game_thread_busy: "0 < game_work t \<Longrightarrow> game_thread_step J t s \<noteq> None"
  by (cases t) (auto simp: split_beta split: sum.splits option.splits)

interpretation game_calls: thread_work "game_thread_step J" game_work "\<lambda>s. 0" "\<lambda>ts s. True"
  for J
  by unfold_locales (simp_all add: game_thread_progress game_thread_busy game_thread_ended)

lemma CreateRoom_alone:
  "solo (game_thread_step J) 3 (RStart name players) s =
     (RAnswered (fst (CreateRoom J name players s)), snd (CreateRoom J name players s))"
  by (cases "gs_redis s") (auto simp: CreateRoom_def Let_def numeral_eq_Suc split: sum.split)

lemma JoinRoom_alone:
  "solo (game_thread_step J) 1 (JStart i user) s =
     (JAnswered i user (fst (JoinRoom i user s)), snd (JoinRoom i user s))"
  by (simp add: split_beta)

section \<open>Rooms under concurrent calls\<close>

fun makes_room :: "game_thread \<Rightarrow> bool" where
  "makes_room (RStart name players) = (name \<noteq> [] \<and> 0 < players)"
| "makes_room t = False"

lemma game_step_counter:
  assumes "game_thread_step J t s = Some (t', s')"
  shows "next_room_id s' = next_room_id s + (if makes_room t then 1 else 0)" and "\<not> makes_room t'"
  using assms by (cases t; auto simp: split_beta JoinRoom_rooms(2) split: option.splits sum.splits if_splits)+

interpretation room_ids: thread_counter "game_thread_step J" next_room_id makes_room makes_room
  for J
  by unfold_locales (auto dest: game_step_counter)

definition game_world :: "game_service \<Rightarrow> bool" where
  "game_world s \<longleftrightarrow>
     (\<forall>i room. rooms s i = Some room \<longrightarrow> room_ok room \<and> (\<exists>k < next_room_id s. i = room_id_of k))"

fun room_holds :: "game_thread \<Rightarrow> game_service \<Rightarrow> bool" where
  "room_holds (RTable i state) s =
     ((\<exists>k < next_room_id s. i = room_id_of k) \<and> rooms s i = None \<and> room_ok state \<and> members state = {})"
| "room_holds (JAnswered i user a) s =
     (a = (status_ok, True) \<longrightarrow> (\<exists>room. rooms s i = Some room \<and> user \<in> members room))"
| "room_holds t s = True"

fun pending_room :: "game_thread \<Rightarrow> string option" where
  "pending_room (RTable i state) = Some i"
| "pending_room t = None"

definition rooms_apart :: "game_thread \<Rightarrow> game_thread \<Rightarrow> bool" where
  "rooms_apart t u \<longleftrightarrow> pending_room t = None \<or> pending_room t \<noteq> pending_room u"

text \<open>Nobody is a member who was not told so.\<close>

definition members_told :: "game_thread list \<Rightarrow> game_service \<Rightarrow> bool" where
  "members_told ts s \<longleftrightarrow>
     (\<forall>i room. rooms s i = Some room \<longrightarrow> members room \<subseteq> {user. JAnswered i user (status_ok, True) \<in> set ts})"

definition game_room :: "game_thread list \<Rightarrow> game_service \<Rightarrow> bool" where
  "game_room ts s \<longleftrightarrow> values_left next_room_id makes_room ts s \<and> members_told ts s"

lemma answered_stays:
  assumes "i < length ts" and "game_thread_step J (ts ! i) s = Some (t', s')" and "JAnswered r user a \<in> set ts"
  shows "JAnswered r user a \<in> set (ts[i := t'])"
proof -
  obtain k where k: "k < length ts" "ts ! k = JAnswered r user a" using assms(3) by (auto simp: in_set_conv_nth)
  then have "k \<noteq> i" using assms(2) by auto
  then show ?thesis using k by (auto simp: in_set_conv_nth intro!: exI [of _ k])
qed

lemma game_room_step:
  assumes r: "game_room ts s" and i: "i < length ts" and t: "room_holds (ts ! i) s"
    and st: "game_thread_step J (ts ! i) s = Some (t', s')"
  shows "game_room (ts[i := t']) s'"
proof -
  have told: "JAnswered j user (status_ok, True) \<in> set (ts[i := t'])"
    if "rooms s j = Some room" "user \<in> members room" for j room user
    using r answered_stays [OF i st] that unfolding game_room_def members_told_def by blast
  have new: "t' \<in> set (ts[i := t'])" using i by (rule set_update_memI)
  have "members_told (ts[i := t']) s'"
  proof (cases "ts ! i")
    case (RTable j state)
    then have "rooms s' = (rooms s)(j \<mapsto> state)" "members state = {}" using st t by auto
    then show ?thesis using told by (auto simp: members_told_def split: if_splits)
  next
    case (JStart j user)
    show ?thesis
    proof (rule JoinRoom_cases [of s j user])
      fix room
      assume j: "rooms s j = Some room" "JoinRoom j user s = ((status_ok, True),
          s\<lparr>rooms := (rooms s)(j \<mapsto> room\<lparr>members := insert user (members room)\<rparr>)\<rparr>)"
      then have "t' = JAnswered j user (status_ok, True)" using st by (simp add: JStart)
      then show ?thesis
        using told [OF j(1)] told new st j(2) by (auto simp: JStart members_told_def split: if_splits)
    next
      fix st'
      assume "JoinRoom j user s = ((st', False), s)"
      then show ?thesis using told st by (auto simp: JStart members_told_def)
    qed
  next
    case (RStart name players)
    then have "rooms s' = rooms s" using st by (auto split: if_splits)
    then show ?thesis using told by (auto simp: members_told_def)
  next
    case (RCache j state)
    then have "rooms s' = rooms s" using st by (auto split: option.splits sum.splits)
    then show ?thesis using told by (auto simp: members_told_def)
  qed (use st in auto)
  moreover have "values_left next_room_id makes_room (ts[i := t']) s'"
    by (rule room_ids.values_left_step [OF _ i st]) (use r in \<open>simp add: game_room_def\<close>)
  ultimately show ?thesis by (simp add: game_room_def)
qed

lemma game_thread_own:
  assumes r: "game_room ts s" and i: "i < length ts" and w: "game_world s" and t: "room_holds (ts ! i) s"
    and st: "game_thread_step J (ts ! i) s = Some (t', s')"
  shows "game_world s' \<and> room_holds t' s'"
proof (cases "ts ! i")
  case (RStart name players)
  show ?thesis
  proof (cases "name = [] \<or> players \<le> 0")
    case True
    then show ?thesis using w st by (auto simp: RStart)
  next
    case False
    then have "makes_room (ts ! i)" by (simp add: RStart)
    then have n: "next_room_id s < next_room_id s + 1"
      using room_ids.no_wrap(2) [OF _ i st] r by (simp add: game_room_def)
    have s': "s' = s\<lparr>next_room_id := next_room_id s + 1\<rparr>"
      "t' = RTable (room_id_of (next_room_id s)) \<lparr>room_name = name, max_players = players, members = {}\<rparr>"
      using st False by (auto simp: RStart)
    have "rooms s (room_id_of (next_room_id s)) = None"
    proof (rule ccontr)
      assume "rooms s (room_id_of (next_room_id s)) \<noteq> None"
      then obtain room where "rooms s (room_id_of (next_room_id s)) = Some room" by auto
      then obtain k where "k < next_room_id s" "room_id_of (next_room_id s) = room_id_of k"
        using w unfolding game_world_def by blast
      then show False by (simp add: room_id_of_inj)
    qed
    moreover have "game_world s'"
      using w n unfolding game_world_def s' by (simp, meson order_less_trans)
    ultimately show ?thesis using n False by (auto simp: s' room_ok_def)
  qed
next
  case (RTable j state)
  then have "s' = s\<lparr>rooms := (rooms s)(j \<mapsto> state)\<rparr>" "t' = RCache j state" using st by auto
  then show ?thesis using w t by (auto simp: RTable game_world_def split: if_splits)
next
  case (RCache j state)
  then have "rooms s' = rooms s" "next_room_id s' = next_room_id s" "room_holds t' s'"
    using st by (auto split: option.splits sum.splits)
  then show ?thesis using w by (simp add: game_world_def)
next
  case (JStart j user)
  show ?thesis
  proof (rule JoinRoom_cases [of s j user])
    fix room
    assume j: "rooms s j = Some room" "int (card (members room)) < max_players room"
      "JoinRoom j user s = ((status_ok, True),
        s\<lparr>rooms := (rooms s)(j \<mapsto> room\<lparr>members := insert user (members room)\<rparr>)\<rparr>)"
    have "room_ok (room\<lparr>members := insert user (members room)\<rparr>)"
      using w j(1,2) by (auto simp: game_world_def room_ok_def card_insert_if)
    then show ?thesis using w st j by (auto simp: JStart game_world_def split: if_splits)
  next
    fix st'
    assume "JoinRoom j user s = ((st', False), s)"
    then show ?thesis using w st by (auto simp: JStart)
  qed
qed (use st in auto)

lemma game_thread_others:
  assumes r: "game_room ts s" and i: "i < length ts" and w: "game_world s" and t: "room_holds (ts ! i) s"
    and u: "room_holds u s" and a: "rooms_apart (ts ! i) u" "rooms_apart u (ts ! i)"
    and st: "game_thread_step J (ts ! i) s = Some (t', s')"
  shows "room_holds u s' \<and> rooms_apart t' u \<and> rooms_apart u t'"
proof (cases "ts ! i")
  case (RStart name players)
  show ?thesis
  proof (cases "name = [] \<or> players \<le> 0")
    case True
    then show ?thesis using u a st by (auto simp: RStart rooms_apart_def)
  next
    case False
    then have "makes_room (ts ! i)" by (simp add: RStart)
    then have n: "next_room_id s < next_room_id s + 1"
      using room_ids.no_wrap(2) [OF _ i st] r by (simp add: game_room_def)
    have s': "s' = s\<lparr>next_room_id := next_room_id s + 1\<rparr>" "pending_room t' = Some (room_id_of (next_room_id s))"
      using st False by (auto simp: RStart)
    have "pending_room u \<noteq> Some (room_id_of (next_room_id s))"
      using u by (cases u) (auto simp: room_id_of_inj)
    moreover have "room_holds u s'"
      using u n by (cases u) (auto simp: s' intro: order_less_trans)
    ultimately show ?thesis by (auto simp: s'(2) rooms_apart_def)
  qed
next
  case (RTable j state)
  then have "s' = s\<lparr>rooms := (rooms s)(j \<mapsto> state)\<rparr>" "t' = RCache j state" using st by auto
  then show ?thesis using u a t by (cases u) (auto simp: RTable rooms_apart_def)
next
  case (RCache j state)
  then have "rooms s' = rooms s" "next_room_id s' = next_room_id s" "pending_room t' = None"
    using st by (auto split: option.splits sum.splits)
  then show ?thesis using u by (cases u) (auto simp: rooms_apart_def)
next
  case (JStart j user)
  show ?thesis
  proof (rule JoinRoom_cases [of s j user])
    fix room
    assume j: "rooms s j = Some room"
      "JoinRoom j user s = ((status_ok, True),
        s\<lparr>rooms := (rooms s)(j \<mapsto> room\<lparr>members := insert user (members room)\<rparr>)\<rparr>)"
    then show ?thesis using u st by (cases u) (auto simp: JStart rooms_apart_def)
  next
    fix st'
    assume "JoinRoom j user s = ((st', False), s)"
    then show ?thesis using u st by (auto simp: JStart rooms_apart_def)
  qed
qed (use st in auto)

interpretation game_threads: thread_invariant "game_thread_step J" game_world room_holds rooms_apart game_room
  for J
  by unfold_locales (erule (1) game_room_step, assumption+, erule (4) game_thread_own, erule (7) game_thread_others)

fun game_call :: "game_thread \<Rightarrow> bool" where
  "game_call (RStart name players) = True"
| "game_call (JStart i user) = True"
| "game_call t = False"

text \<open>
  C7: rooms under concurrent calls. Whatever creations and joins run concurrently on a fresh
  service, fewer than there are ids, at every moment each room has a name, a positive capacity and at
  most so many members, and its members are exactly the users whose join has been answered with
  success: no join is lost to a creation or to another join, and none is granted beyond the capacity.
\<close>

theorem concurrent_rooms:
  assumes "\<forall>t \<in> set ts. game_call t" and "length ts < 2 ^ 64 - 1"
    and run: "interleaved (game_thread_step J) (ts, GameServiceImpl re) (ts', s')" and "rooms s' i = Some room"
  shows "room_ok room \<and> members room = {user. JAnswered i user (status_ok, True) \<in> set ts'}"
proof -
  let ?s = "GameServiceImpl re"
  have t: "room_holds t ?s \<and> pending_room t = None" if "t \<in> set ts" for t
  proof -
    have "game_call t" using that assms(1) by blast
    then show ?thesis by (cases t) simp_all
  qed
  then have a: "\<forall>t \<in> set ts. room_holds t ?s"
    "\<forall>i < length ts. \<forall>j < length ts. i \<noteq> j \<longrightarrow> rooms_apart (ts ! i) (ts ! j)" by (auto simp: rooms_apart_def)
  have w: "game_world ?s" by (simp add: game_world_def GameServiceImpl_def)
  have "game_room ts ?s"
    using assms(2) waiting_le [of makes_room ts]
    by (simp add: game_room_def values_left_def members_told_def GameServiceImpl_def)
  note k = game_threads.run_keeps [OF run this w a]
  have "user \<in> members room" if "JAnswered i user (status_ok, True) \<in> set ts'" for user
    using k(2) that assms(4) by (force simp: in_set_conv_nth)
  then show ?thesis
    using k(1,4) assms(4) unfolding game_room_def members_told_def game_world_def by blast
qed

theorem concurrent_rooms_witness:
  "\<exists>s' room. interleaved (game_thread_step sample_json)
      ([RStart ''arena'' 1, JStart ''room_1'' ''ann'', JStart ''room_1'' ''bob''], GameServiceImpl None)
      ([RCache ''room_1'' \<lparr>room_name = ''arena'', max_players = 1, members = {}\<rparr>,
        JStart ''room_1'' ''ann'', JAnswered ''room_1'' ''bob'' (status_ok, True)], s') \<and>
    rooms s' ''room_1'' = Some room \<and> members room = {''bob''}"
proof -
  let ?step = "game_thread_step sample_json" and ?s = "GameServiceImpl None"
  let ?r = "\<lparr>room_name = ''arena'', max_players = 1, members = {}\<rparr>"
  let ?j = "[JStart ''room_1'' ''ann'', JStart ''room_1'' ''bob'']"
  define s1 where "s1 = ?s\<lparr>next_room_id := 2, rooms := [''room_1'' \<mapsto> ?r]\<rparr>"
  define s2 where "s2 = snd (JoinRoom ''room_1'' ''bob'' s1)"
  have j: "JoinRoom ''room_1'' ''bob'' s1 = ((status_ok, True), s2)" "rooms s2 ''room_1'' \<noteq> None"
    by (simp_all add: s2_def s1_def JoinRoom_def)
  have "interleaved ?step (RStart ''arena'' 1 # ?j, ?s) (RCache ''room_1'' ?r # ?j, s1)"
    using solo_interleaved [of 0 "RStart ''arena'' 1 # ?j" "RStart ''arena'' 1" ?step ?s 2]
    by (simp add: numeral_2_eq_2 s1_def GameServiceImpl_def room_id_one)
  also have "interleaved ?step (RCache ''room_1'' ?r # ?j, s1)
      ([RCache ''room_1'' ?r, JStart ''room_1'' ''ann'', JAnswered ''room_1'' ''bob'' (status_ok, True)], s2)"
    using solo_interleaved [of 2 "RCache ''room_1'' ?r # ?j" "JStart ''room_1'' ''bob''" ?step s1 1]
    by (simp add: j(1))
  finally (rtranclp_trans) have run: "interleaved ?step (RStart ''arena'' 1 # ?j, ?s)
      ([RCache ''room_1'' ?r, JStart ''room_1'' ''ann'', JAnswered ''room_1'' ''bob'' (status_ok, True)], s2)" .
  obtain room where room: "rooms s2 ''room_1'' = Some room" using j(2) by auto
  have "members room = {''bob''}"
    using concurrent_rooms [OF _ _ run room] by auto
  then show ?thesis using run room by blast
qed

end
