(* ===== verification/Resilience_Threads.thy ===== *)
theory Resilience_Threads
  imports Grpc_Router Threads
begin

text \<open>
  Concurrent calls of one service through the gateway. The coroutines of \<open>InvokeWithResilienceAsync\<close>
  (\<open>gateways/access_gateway/routing/grpc_router.cpp\<close>) run on several threads and share the service's
  rate limiter and circuit breaker, each an object with a mutex. A coroutine here stops at every use of
  one of the two, at every call and at every wait.
\<close>

section \<open>The coroutine\<close>

record invocation =
  iv_context :: request_context
  iv_runtime :: router_runtime_config
  iv_stub :: stub
  iv_request :: rpc_request

record 'w call_state =
  is_breaker :: circuit_breaker
  is_limiter :: token_bucket
  is_world :: 'w

text \<open>
  \<open>ICall iv n\<close> has \<open>n\<close> attempts left; \<open>IRefused\<close> is the answer of the limiter. \<open>IElsewhere\<close> is no
  coroutine: it is what else happens to the world in the meantime, such as the passing of time.
\<close>

datatype 'w invoke_thread =
    IStart invocation
  | IAdmit invocation
  | ICall invocation nat
  | IReturned invocation nat "grpc_status \<times> rpc_reply"
  | IWait invocation nat rpc_reply
  | IRefused invocation "grpc_status \<times> rpc_reply"
  | IAnswered invocation "grpc_status \<times> rpc_reply"
  | IElsewhere "('w \<Rightarrow> 'w) list"

definition iv_attempts :: "invocation \<Rightarrow> nat" where
  "iv_attempts iv = nat (max 1 (retry_attempts (iv_runtime iv)))"

definition iv_timeout :: "invocation \<Rightarrow> time_ns" where
  "iv_timeout iv = milliseconds (max 100 (grpc_timeout_ms (iv_runtime iv)))"

definition iv_backoff :: "invocation \<Rightarrow> time_ns" where
  "iv_backoff iv = milliseconds (max 0 (retry_backoff_ms (iv_runtime iv)))"

fun invoke_thread_step :: "'w grpc_env \<Rightarrow> (rat \<Rightarrow> rat) \<Rightarrow> 'w invoke_thread \<Rightarrow> 'w call_state \<Rightarrow>
    ('w invoke_thread \<times> 'w call_state) option" where
  "invoke_thread_step env rnd (IStart iv) s =
     (let (allowed, l) = Allow rnd (clock env (is_world s)) (is_limiter s)
      in Some (if allowed then IAdmit iv
               else IRefused iv (status_error RESOURCE_EXHAUSTED ''gateway rate limit exceeded'', NoReply),
               s\<lparr>is_limiter := l\<rparr>))"
| "invoke_thread_step env rnd (IAdmit iv) s =
     (let (admitted, b) = AllowRequest (clock env (is_world s)) (is_breaker s)
      in Some (if admitted then ICall iv (iv_attempts iv)
               else IAnswered iv (status_error UNAVAILABLE ''circuit breaker open'', NoReply),
               s\<lparr>is_breaker := b\<rparr>))"
| "invoke_thread_step env rnd (ICall iv 0) s = Some (IAnswered iv (status_ok, NoReply), s)"
| "invoke_thread_step env rnd (ICall iv (Suc n)) s =
     (let (r, w) = rpc_call env (iv_stub iv) (AddMetadata (iv_context iv)) (iv_timeout iv) (iv_request iv) (is_world s)
      in Some (IReturned iv n r, s\<lparr>is_world := w\<rparr>))"
| "invoke_thread_step env rnd (IReturned iv n r) s =
     (if is_ok (fst r) then Some (IAnswered iv r, s\<lparr>is_breaker := RecordSuccess (is_breaker s)\<rparr>)
      else Some (if \<not> IsRetryable (error_code_of (fst r)) \<or> n = 0 then IAnswered iv r
                 else if iv_backoff iv > 0 then IWait iv n (snd r) else ICall iv n,
                 s\<lparr>is_breaker := RecordFailure (clock env (is_world s)) (is_breaker s)\<rparr>))"
| "invoke_thread_step env rnd (IWait iv n reply) s =
     (let (aborted, w) = backoff_wait env (iv_backoff iv) (is_world s)
      in Some (if aborted then IAnswered iv (status_error CANCELLED ''retry_backoff_cancelled'', reply) else ICall iv n,
               s\<lparr>is_world := w\<rparr>))"
| "invoke_thread_step env rnd (IRefused iv r) s = None"
| "invoke_thread_step env rnd (IAnswered iv r) s = None"
| "invoke_thread_step env rnd (IElsewhere []) s = None"
| "invoke_thread_step env rnd (IElsewhere (f # fs)) s = Some (IElsewhere fs, s\<lparr>is_world := f (is_world s)\<rparr>)"

section \<open>They end\<close>

fun invoke_work :: "'w invoke_thread \<Rightarrow> nat" where
  "invoke_work (IStart iv) = 3 * iv_attempts iv + 3"
| "invoke_work (IAdmit iv) = 3 * iv_attempts iv + 2"
| "invoke_work (ICall iv n) = 3 * n + 1"
| "invoke_work (IReturned iv n r) = 3 * n + 3"
| "invoke_work (IWait iv n reply) = 3 * n + 2"
| "invoke_work (IRefused iv r) = 0"
| "invoke_work (IAnswered iv r) = 0"
| "invoke_work (IElsewhere fs) = length fs"

lemma invoke_thread_progress: "invoke_thread_step env rnd t s = Some (t', s') \<Longrightarrow> invoke_work t' < invoke_work t"
  by (cases "(env, rnd, t, s)" rule: invoke_thread_step.cases) (auto simp: Let_def split: prod.splits if_splits)

lemma invoke_thread_ended: "invoke_work t = 0 \<Longrightarrow> invoke_thread_step env rnd t s = None"
  by (cases t) simp_all

lemma invoke_thread_busy: "0 < invoke_work t \<Longrightarrow> invoke_thread_step env rnd t s \<noteq> None"
  by (cases "(env, rnd, t, s)" rule: invoke_thread_step.cases) (auto simp: Let_def split: prod.splits)

interpretation invocations: thread_work "invoke_thread_step env rnd" invoke_work "\<lambda>s. 0" "\<lambda>ts s. True"
  for env rnd
  by unfold_locales (simp_all add: invoke_thread_progress invoke_thread_busy invoke_thread_ended)

section \<open>A coroutine alone is the call\<close>

lemma solo_ended: "(\<And>s. step t s = None) \<Longrightarrow> solo step k t s = (t, s)"
  by (cases k) simp_all

lemma attempts_alone:
  "3 * n + 1 \<le> k \<Longrightarrow>
   solo (invoke_thread_step env rnd) k (ICall iv n) s =
     (let (r, b, w) = resilience_loop env (AddMetadata (iv_context iv)) (iv_timeout iv) (iv_backoff iv) (iv_stub iv)
                        (iv_request iv) n (is_breaker s) (is_world s)
      in (IAnswered iv r, s\<lparr>is_breaker := b, is_world := w\<rparr>))"
proof (induction n arbitrary: k s)
  case 0
  then obtain j where k: "k = Suc j" by (cases k) auto
  show ?case by (simp add: k solo_ended)
next
  case (Suc n)
  obtain j where k: "k = Suc (Suc (Suc j))" "3 * n + 1 \<le> j"
    using Suc.prems by (intro that [of "k - 3"]) auto
  obtain r w where c: "rpc_call env (iv_stub iv) (AddMetadata (iv_context iv)) (iv_timeout iv) (iv_request iv) (is_world s) = (r, w)"
    by (metis prod.exhaust)
  obtain st reply where r: "r = (st, reply)" by (cases r)
  obtain aborted w2 where bw: "backoff_wait env (iv_backoff iv) w = (aborted, w2)" by (metis prod.exhaust)
  have j: "3 * n + 1 \<le> Suc j" using k(2) by simp
  show ?case
    using Suc.IH [OF k(2)] Suc.IH [OF j]
    by (simp add: k(1) c r bw solo_ended split_beta Let_def)
qed

lemma Invoke_alone:
  assumes "3 * iv_attempts iv + 3 \<le> k"
  shows "solo (invoke_thread_step env rnd) k (IStart iv) s =
    (let (r, b, l, w) = InvokeWithResilienceAsync env rnd (iv_context iv) (iv_runtime iv) (iv_stub iv) (iv_request iv)
                          (is_breaker s) (is_limiter s) (is_world s);
         refused = \<not> fst (Allow rnd (clock env (is_world s)) (is_limiter s))
     in (if refused then IRefused iv r else IAnswered iv r,
         s\<lparr>is_breaker := b, is_limiter := l, is_world := w\<rparr>))"
proof -
  obtain j where k: "k = Suc (Suc j)" "3 * iv_attempts iv + 1 \<le> j"
    using assms by (intro that [of "k - 2"]) auto
  show ?thesis
    by (simp add: k(1) attempts_alone [OF k(2)] solo_ended InvokeWithResilienceAsync_def split_beta Let_def
        iv_attempts_def [symmetric] iv_timeout_def [symmetric] iv_backoff_def [symmetric])
qed

section \<open>The rate limit holds for all of them together\<close>

fun not_started :: "'w invoke_thread \<Rightarrow> bool" where
  "not_started (IStart iv) = True"
| "not_started _ = False"

fun let_through :: "'w invoke_thread \<Rightarrow> bool" where
  "let_through (IStart iv) = False"
| "let_through (IRefused iv r) = False"
| "let_through (IElsewhere fs) = False"
| "let_through _ = True"

fun elsewhere_steady :: "'w grpc_env \<Rightarrow> 'w invoke_thread \<Rightarrow> bool" where
  "elsewhere_steady env (IElsewhere fs) = (\<forall>f \<in> set fs. \<forall>w. clock env w \<le> clock env (f w))"
| "elsewhere_steady env _ = True"

text \<open>The steady clock does not go back, whatever happens.\<close>

definition steady :: "'w grpc_env \<Rightarrow> bool" where
  "steady env \<longleftrightarrow>
     (\<forall>stub md timeout req w. clock env w \<le> clock env (snd (rpc_call env stub md timeout req w))) \<and>
     (\<forall>d w. clock env w \<le> clock env (snd (backoff_wait env d w)))"

lemma steady_step:
  assumes "steady env" and "elsewhere_steady env t" and "invoke_thread_step env rnd t s = Some (t', s')"
  shows "clock env (is_world s) \<le> clock env (is_world s') \<and> elsewhere_steady env t'"
proof (cases "(env, rnd, t, s)" rule: invoke_thread_step.cases)
  case (4 env' rnd' iv n s0)
  then show ?thesis
    using assms by (auto simp: steady_def split_beta simp del: split_paired_All)
next
  case (6 env' rnd' iv n reply s0)
  then show ?thesis using assms by (auto simp: steady_def split_beta)
qed (use assms in \<open>auto simp: split_beta split: if_splits\<close>)

lemma allow_run_snoc:
  "allow_run rnd (ts @ [t]) l =
     (let (n, l1) = allow_run rnd ts l; (ok, l2) = Allow rnd t l1 in (if ok then Suc n else n, l2))"
  by (induction ts arbitrary: l) (simp_all add: split_beta Let_def)

lemma sorted_snoc: "xs \<noteq> [] \<Longrightarrow> sorted xs \<Longrightarrow> last xs \<le> b \<Longrightarrow> sorted (xs @ [b])"
  by (induction xs) (simp, force simp: sorted_append intro: order_trans dest: hd_in_set split: if_splits)

lemma limiter_step:
  assumes "invoke_thread_step env rnd t s = Some (t', s')"
  shows "(if not_started t
     then \<not> not_started t' \<and> \<not> let_through t \<and> is_limiter s' = snd (Allow rnd (clock env (is_world s)) (is_limiter s)) \<and>
       (let_through t' \<longleftrightarrow> fst (Allow rnd (clock env (is_world s)) (is_limiter s))) \<and> is_world s' = is_world s
     else \<not> not_started t' \<and> (let_through t' \<longleftrightarrow> let_through t) \<and> is_limiter s' = is_limiter s)"
  using assms
  by (cases "(env, rnd, t, s)" rule: invoke_thread_step.cases) (auto simp: split_beta Let_def split: if_splits)

lemma limiter_run:
  assumes run: "interleaved (invoke_thread_step env rnd) (ts, s) (ts', s')" and env: "steady env"
    and ts: "\<forall>t \<in> set ts. elsewhere_steady env t" and start: "last_refill (is_limiter s) \<le> clock env (is_world s)"
  shows "\<exists>times. sorted (last_refill (is_limiter s) # times) \<and>
    last (last_refill (is_limiter s) # times) \<le> clock env (is_world s') \<and>
    is_limiter s' = snd (allow_run rnd times (is_limiter s)) \<and>
    waiting let_through ts' = waiting let_through ts + fst (allow_run rnd times (is_limiter s)) \<and>
    length times + waiting not_started ts' = waiting not_started ts \<and> (\<forall>t \<in> set ts'. elsewhere_steady env t)"
  using run
proof (induction rule: rtranclp_induct2)
  case refl
  show ?case by (intro exI [of _ "[]"]) (use ts start in simp)
next
  case (step ts1 s1 ts2 s2)
  let ?l = "is_limiter s"
  obtain times where t: "sorted (last_refill ?l # times)" "last (last_refill ?l # times) \<le> clock env (is_world s1)"
    "is_limiter s1 = snd (allow_run rnd times ?l)"
    "waiting let_through ts1 = waiting let_through ts + fst (allow_run rnd times ?l)"
    "length times + waiting not_started ts1 = waiting not_started ts" "\<forall>t \<in> set ts1. elsewhere_steady env t"
    using step.IH by blast
  from step.hyps(2) obtain i t' where i: "ts2 = ts1[i := t']" "i < length ts1"
      "invoke_thread_step env rnd (ts1 ! i) s1 = Some (t', s2)"
    by (auto elim: interleaveE)
  note st = steady_step [OF env t(6) [rule_format, OF nth_mem [OF i(2)]] i(3)]
  note up = waiting_update [OF i(2), of let_through t'] waiting_update [OF i(2), of not_started t']
  note l = limiter_step [OF i(3)]
  have e: "\<forall>t \<in> set ts2. elsewhere_steady env t"
    using t(6) st set_update_subset_insert [of ts1 i t'] by (auto simp: i(1))
  show ?case
  proof (cases "not_started (ts1 ! i)")
    case True
    let ?now = "clock env (is_world s1)"
    have sorted: "sorted (last_refill ?l # (times @ [?now]))"
      using sorted_snoc [OF _ t(1,2)] by simp
    show ?thesis
      by (intro exI [of _ "times @ [?now]"] conjI sorted e)
        (use True t l up in \<open>auto simp: allow_run_snoc split_beta Let_def i(1)\<close>)
  next
    case False
    show ?thesis
      by (intro exI [of _ times] conjI t(1) e) (use False t l up st in \<open>auto simp: i(1)\<close>)
  qed
qed

text \<open>
  C23: the rate limit holds for concurrent requests. Whatever the interleaving of any number of calls of
  a service with each other and with the passing of time, as long as the clock does not go back, those let through
  are at most the tokens held at the start plus the rate times the time that has passed (with the
  relative error of the rounding), plus a rounding allowance for each call.
\<close>

theorem concurrent_rate_limit:
  assumes run: "interleaved (invoke_thread_step env rnd) (ts, s) (ts', s')" and env: "steady env"
    and ts: "\<forall>t \<in> set ts. elsewhere_steady env t \<and> \<not> let_through t"
    and start: "last_refill (is_limiter s) \<le> clock env (is_world s)"
    and r: "binary_rounding rnd u e" and ok: "bucket_ok rnd (is_limiter s)"
  shows "of_nat (waiting let_through ts') \<le>
    tokens (is_limiter s) +
    refill_slope u (rate_per_second (is_limiter s)) * of_int (clock env (is_world s') - last_refill (is_limiter s)) +
    of_nat (waiting not_started ts) *
      (refill_slack u e (rate_per_second (is_limiter s)) + 2 * (u * burst_capacity (is_limiter s) + e))"
proof -
  let ?l = "is_limiter s"
  let ?per = "refill_slack u e (rate_per_second ?l) + 2 * (u * burst_capacity ?l + e)"
  have steady: "\<forall>t \<in> set ts. elsewhere_steady env t" using ts by blast
  obtain times where t: "sorted (last_refill ?l # times)" "last (last_refill ?l # times) \<le> clock env (is_world s')"
    "waiting let_through ts' = waiting let_through ts + fst (allow_run rnd times ?l)"
    "length times + waiting not_started ts' = waiting not_started ts"
    using limiter_run [OF run env steady start] by blast
  have n: "waiting let_through ts' = fst (allow_run rnd times ?l)"
    using t(3) ts by (simp add: waiting_def filter_empty_conv)
  have u: "0 \<le> u" "0 \<le> e" and p: "0 \<le> rate_per_second ?l" "0 \<le> burst_capacity ?l"
    using r ok by (auto simp: binary_rounding_def bucket_ok_def)
  then have slope: "0 \<le> refill_slope u (rate_per_second ?l)" and per: "0 \<le> ?per"
    by (auto simp: refill_slope_def refill_slack_def intro!: add_nonneg_nonneg mult_nonneg_nonneg divide_nonneg_nonneg)
  have "refill_slope u (rate_per_second ?l) * of_int (last (last_refill ?l # times) - last_refill ?l) \<le>
      refill_slope u (rate_per_second ?l) * of_int (clock env (is_world s') - last_refill ?l)"
    using slope t(2) by (intro mult_left_mono) simp_all
  moreover have "of_nat (length times) * ?per \<le> of_nat (waiting not_started ts) * ?per"
    using per t(4) by (intro mult_right_mono) simp_all
  ultimately show ?thesis
    using allow_run_rate [OF r ok t(1)] unfolding n by linarith
qed

section \<open>The breaker between them\<close>

lemma steady_run:
  assumes "interleaved (invoke_thread_step env rnd) (ts, s) (ts', s')" and env: "steady env"
    and "\<forall>t \<in> set ts. elsewhere_steady env t"
  shows "clock env (is_world s) \<le> clock env (is_world s') \<and> (\<forall>t \<in> set ts'. elsewhere_steady env t)"
  using assms(1)
proof (induction rule: rtranclp_induct2)
  case refl
  show ?case using assms(3) by simp
next
  case (step ts1 s1 ts2 s2)
  from step.hyps(2) obtain i t' where i: "ts2 = ts1[i := t']" "i < length ts1"
      "invoke_thread_step env rnd (ts1 ! i) s1 = Some (t', s2)"
    by (auto elim: interleaveE)
  have "elsewhere_steady env (ts1 ! i)" using step.IH i(2) by simp
  from steady_step [OF env this i(3)] show ?case
    using step.IH set_update_subset_insert [of ts1 i t'] by (auto simp: i(1))
qed

fun kept_out :: "'w invoke_thread \<Rightarrow> bool" where
  "kept_out (IStart iv) = True"
| "kept_out (IAdmit iv) = True"
| "kept_out (IRefused iv r) = (error_code_of (fst r) = RESOURCE_EXHAUSTED)"
| "kept_out (IAnswered iv r) = (error_code_of (fst r) = UNAVAILABLE)"
| "kept_out (IElsewhere fs) = True"
| "kept_out _ = False"

text \<open>
  C24: an open breaker shields the service from concurrent requests. Take any number of calls that
  are not past the breaker yet. However they are interleaved, as long as the breaker's cool-down has not passed, none
  of them reaches the service: each is waiting its turn or was answered RESOURCE_EXHAUSTED or UNAVAILABLE, and the
  breaker is as it was.
\<close>

theorem open_breaker_shields:
  assumes run: "interleaved (invoke_thread_step env rnd) (ts, s) (ts', s')" and env: "steady env"
    and ts: "\<forall>t \<in> set ts. kept_out t \<and> elsewhere_steady env t"
    and state: "cb_state (is_breaker s) = KOpen"
    and cool: "clock env (is_world s') - opened_at (is_breaker s) < cool_down (is_breaker s)"
  shows "is_breaker s' = is_breaker s \<and> (\<forall>t \<in> set ts'. kept_out t)"
  using run cool
proof (induction rule: rtranclp_induct2)
  case refl
  show ?case using ts by simp
next
  case (step ts1 s1 ts2 s2)
  from step.hyps(2) obtain i t' where i: "ts2 = ts1[i := t']" "i < length ts1"
      "invoke_thread_step env rnd (ts1 ! i) s1 = Some (t', s2)"
    by (auto elim: interleaveE)
  have steady: "\<forall>t \<in> set ts1. elsewhere_steady env t" using steady_run [OF step.hyps(1) env] ts by blast
  then have "elsewhere_steady env (ts1 ! i)" using i(2) by simp
  from steady_step [OF env this i(3)]
  have cool: "clock env (is_world s1) - opened_at (is_breaker s) < cool_down (is_breaker s)" using step.prems by simp
  then have IH: "is_breaker s1 = is_breaker s" "\<forall>t \<in> set ts1. kept_out t" using step.IH by simp_all
  then have "kept_out (ts1 ! i)" using i(2) by simp
  then have "is_breaker s2 = is_breaker s \<and> kept_out t'"
    using i(3) IH(1) state cool
    by (cases "(env, rnd, ts1 ! i, s1)" rule: invoke_thread_step.cases)
      (auto simp: AllowRequest_def status_error_def split_beta Let_def split: if_splits)
  then show ?case using IH(2) set_update_subset_insert [of ts1 i t'] by (auto simp: i(1))
qed







section \<open>Concrete runs\<close>

text \<open>A service that is down, behind a breaker that opened at time 0; an attempt takes a millisecond.\<close>

definition down_env :: "time_ns grpc_env" where
  "down_env =
     \<lparr>rpc_call = (\<lambda>stub md timeout req w. ((status_error UNAVAILABLE ''down'', NoReply), w + milliseconds 1)),
      clock = (\<lambda>w. w), backoff_wait = (\<lambda>d w. (False, w + max 0 d))\<rparr>"

definition sample_invocation :: invocation where
  "sample_invocation =
     \<lparr>iv_context = empty_context, iv_runtime = \<lparr>grpc_timeout_ms = 800, retry_attempts = 2, retry_backoff_ms = 50\<rparr>,
      iv_stub = (0, ''game''), iv_request = RpcJoinRoom ''room_1'' ''ann''\<rparr>"

definition opened_state :: "time_ns \<Rightarrow> time_ns call_state" where
  "opened_state now =
     \<lparr>is_breaker = (CircuitBreaker 5 (seconds 5))\<lparr>cb_state := KOpen, failure_count := 5\<rparr>,
      is_limiter = TokenBucketRateLimiter 500 1000 0, is_world = now\<rparr>"

lemma down_steady: "steady down_env"
  by (simp add: steady_def down_env_def)


theorem open_breaker_shields_witness:
  "let (t, s) = solo (invoke_thread_step down_env fixed20) 1 (IAdmit sample_invocation) (opened_state 7)
   in is_breaker s = is_breaker (opened_state 7) \<and> kept_out t"
proof -
  let ?ts = "[IAdmit sample_invocation, IStart sample_invocation, IElsewhere [\<lambda>w. w + 5]]"
  have "interleaved (invoke_thread_step down_env fixed20) (?ts, opened_state 7)
      (?ts[0 := fst (solo (invoke_thread_step down_env fixed20) 1 (IAdmit sample_invocation) (opened_state 7))],
       snd (solo (invoke_thread_step down_env fixed20) 1 (IAdmit sample_invocation) (opened_state 7)))"
    by (rule solo_interleaved) simp_all
  from open_breaker_shields [OF this down_steady] show ?thesis
    by (auto simp: down_env_def opened_state_def CircuitBreaker_def AllowRequest_def)
qed

theorem concurrent_rate_limit_witness:
  "of_nat (waiting let_through (map (\<lambda>n. fst (solo (invoke_thread_step down_env fixed20) 1 (IStart sample_invocation) (opened_state 0)))
     [0..<1])) \<le> (1000 :: rat)"
proof -
  let ?s = "opened_state 0" and ?step = "invoke_thread_step down_env fixed20"
  let ?t = "fst (solo ?step 1 (IStart sample_invocation) ?s)" and ?s1 = "snd (solo ?step 1 (IStart sample_invocation) ?s)"
  have "interleaved ?step ([IStart sample_invocation], ?s) ([IStart sample_invocation][0 := ?t], ?s1)"
    by (rule solo_interleaved) simp_all
  moreover have "bucket_ok fixed20 (is_limiter ?s)"
    unfolding opened_state_def using bucket_ok_init [OF fixed20_rounding, of 500 1000 0] by (simp add: fixed20_def)
  ultimately show ?thesis
    using concurrent_rate_limit [OF _ down_steady _ _ fixed20_rounding, of "[IStart sample_invocation]" ?s "[?t]" ?s1]
    by (simp add: opened_state_def down_env_def TokenBucketRateLimiter_def refill_slack_def waiting_def split_beta)
qed

end
