(* ===== verification/Gateway_Threads.thy ===== *)
theory Gateway_Threads
  imports Http_Server Resilience_Threads
begin

text \<open>
  The gateway under concurrent requests. The coroutines of \<open>HandleRequestAsync\<close> and
  \<open>HandleWsMessageAsync\<close> (\<open>http/http_server.cpp\<close>) and of \<open>RouteWithStatusAsync\<close>
  (\<open>routing/grpc_router.cpp\<close>) run on the worker threads of the server and share the request counter,
  the router's configuration, stubs, breakers and limiters, the counters and the log level. A thread
  stops at every use of one of them, at every call and at every wait.
\<close>

section \<open>The coroutines\<close>

text \<open>An HTTP request (method, path, body, token, headers) or a WebSocket message (payload, user).\<close>

datatype job =
    HttpJob string string string string headers
  | WsJob string string

text \<open>The local variables of a routed job; \<open>tk_generated\<close> is \<open>generated_request_id\<close>.\<close>

record task =
  tk_job :: job
  tk_generated :: string
  tk_context :: request_context
  tk_path :: string
  tk_body :: string

text \<open>The branch of \<open>RouteWithStatusAsync\<close> that a path selects.\<close>

record 'j plan =
  pl_service :: string
  pl_fallback :: string
  pl_request :: "exn + rpc_request"
  pl_render :: "rpc_reply \<Rightarrow> (string \<times> 'j) list"

definition route_plan :: "'j json_api \<Rightarrow> router_targets \<Rightarrow> string \<Rightarrow> 'j \<Rightarrow> request_context \<Rightarrow> 'j plan option" where
  "route_plan J tg path json ctx =
     (if path = ''/config/get'' then
        Some \<lparr>pl_service = ''config_service'', pl_fallback = config_service_target tg,
              pl_request = config_get_request J json, pl_render = (\<lambda>reply. entry_response J (reply_entry reply))\<rparr>
      else if path = ''/config/publish'' then
        Some \<lparr>pl_service = ''config_service'', pl_fallback = config_service_target tg,
              pl_request = config_publish_request J json,
              pl_render = (\<lambda>reply. [(''version'', json_int J (reply_version reply))])\<rparr>
      else if path = ''/user/get'' then
        Some \<lparr>pl_service = ''user_service'', pl_fallback = user_service_target tg,
              pl_request = user_get_request J ctx json, pl_render = (\<lambda>reply. profile_response J (reply_profile reply))\<rparr>
      else if path = ''/user/create'' then
        Some \<lparr>pl_service = ''user_service'', pl_fallback = user_service_target tg,
              pl_request = user_create_request J json,
              pl_render = (\<lambda>reply. [(''user_id'', json_string J (up_user_id (reply_profile reply))),
                                    (''nickname'', json_string J (nickname (reply_profile reply)))])\<rparr>
      else if path = ''/game/create-room'' then
        Some \<lparr>pl_service = ''game_service'', pl_fallback = game_service_target tg,
              pl_request = create_room_request J json,
              pl_render = (\<lambda>reply. [(''room_id'', json_string J (reply_room reply))])\<rparr>
      else if path = ''/game/join-room'' then
        Some \<lparr>pl_service = ''game_service'', pl_fallback = game_service_target tg,
              pl_request = join_room_request J ctx json,
              pl_render = (\<lambda>reply. [(''success'', json_bool J (reply_success reply))])\<rparr>
      else None)"

definition stub_for :: "string \<Rightarrow> string \<Rightarrow> router \<Rightarrow> stub \<times> router" where
  "stub_for service =
     (if service = ''config_service'' then GetConfigStub
      else if service = ''user_service'' then GetUserStub
      else GetGameStub)"

lemma dispatch_plan:
  "dispatch ge path json ctx r g =
     map_option (\<lambda>pl. route_call ge ctx (pl_service pl) (stub_for (pl_service pl)) (pl_fallback pl) (pl_request pl) (pl_render pl) r g)
       (route_plan (ge_json ge) (targets r) path json ctx)"
  by (simp add: dispatch_def route_plan_def stub_for_def Let_def)

datatype answer = HttpAnswer "exn + http_response" | WsAnswer "exn + string"

text \<open>
  \<open>GAdmin\<close> to \<open>GShow\<close> are the administration handlers past the token check; \<open>GClaim\<close> is about to
  take a request number for the given user. \<open>GCount tk k rr\<close> has counted the first \<open>k\<close> of the names
  \<open>finish\<close> counts. An answered thread keeps the task it routed, with the route's result.
\<close>

datatype ('j, 'w) request_thread =
    GStart job
  | GAdmin job string string string
  | GLevel job
  | GUpdate job router_runtime_config
  | GShow job
  | GClaim job string
  | GRoute task
  | GResolve task "'j plan" router_runtime_config
  | GStub task "'j plan" router_runtime_config string
  | GCall task "'j plan" "'w invoke_thread"
  | GCount task nat route_result
  | GAnswered job "(task \<times> (exn + route_result)) option" answer
  | GElsewhere "('w \<Rightarrow> 'w) list"

definition local_answer :: "job \<Rightarrow> exn + http_response \<Rightarrow> ('j, 'w) request_thread" where
  "local_answer job r = GAnswered job None (HttpAnswer r)"

definition routed_answer :: "'j json_api \<Rightarrow> job \<Rightarrow> exn + route_result \<Rightarrow> answer" where
  "routed_answer J job routed =
     (case job of
        HttpJob method path body token hs \<Rightarrow>
          HttpAnswer (res_bind routed (\<lambda>rr. Inr (json_response (status_code rr) (rr_body rr))))
      | WsJob payload user \<Rightarrow>
          WsAnswer (res_bind routed (\<lambda>rr.
            if rr_body rr = [] then WsErrorJson J ''empty_downstream_response'' ''bad_gateway'' 502
            else Inr (rr_body rr))))"

text \<open>The coroutine of the route returns a result, which \<open>finish\<close> counts, or throws.\<close>

definition route_ends :: "'j json_api \<Rightarrow> task \<Rightarrow> exn + route_result \<Rightarrow> ('j, 'w) request_thread" where
  "route_ends J tk routed =
     (case routed of
        Inl e \<Rightarrow> GAnswered (tk_job tk) (Some (tk, Inl e)) (routed_answer J (tk_job tk) (Inl e))
      | Inr rr \<Rightarrow> GCount tk 0 rr)"

definition finish_names :: "string \<Rightarrow> route_result \<Rightarrow> string list" where
  "finish_names path result =
     [''gateway_requests_total'', ''gateway_requests_route_'' @ ToMetricSafe path @ ''_total'',
      ''gateway_requests_status_'' @ to_string (status_code result) @ ''_total''] @
     (if downstream_service result \<noteq> []
      then [''gateway_downstream_'' @ ToMetricSafe (downstream_service result) @ ''_total''] else [])"

section \<open>The shared state\<close>

definition the_router :: "'w gateway \<Rightarrow> router" where
  "the_router s = the (gt_router s)"

definition set_router :: "router \<Rightarrow> 'w gateway \<Rightarrow> 'w gateway" where
  "set_router r s = s\<lparr>gt_router := Some r\<rparr>"

definition set_outside :: "'w \<Rightarrow> 'w gateway \<Rightarrow> 'w gateway" where
  "set_outside w s = s\<lparr>gt_world := (gt_world s)\<lparr>gw_outside := w\<rparr>\<rparr>"

text \<open>What a call of a service sees and changes.\<close>

definition call_view :: "string \<Rightarrow> 'w gateway \<Rightarrow> 'w call_state" where
  "call_view service s =
     \<lparr>is_breaker = BreakerFor service (the_router s), is_limiter = RateLimiterFor service (the_router s),
      is_world = gw_outside (gt_world s)\<rparr>"

definition put_view :: "string \<Rightarrow> 'w call_state \<Rightarrow> 'w gateway \<Rightarrow> 'w gateway" where
  "put_view service c s =
     set_outside (is_world c)
       (set_router (put_limiter service (is_limiter c) (put_breaker service (is_breaker c) (the_router s))) s)"

definition count_name :: "string \<Rightarrow> 'w gateway \<Rightarrow> 'w gateway" where
  "count_name name s = s\<lparr>gt_world := (gt_world s)\<lparr>gw_metrics := Increment name 1 (gw_metrics (gt_world s))\<rparr>\<rparr>"

fun invoke_answer :: "'w invoke_thread \<Rightarrow> (grpc_status \<times> rpc_reply) option" where
  "invoke_answer (IRefused iv r) = Some r"
| "invoke_answer (IAnswered iv r) = Some r"
| "invoke_answer _ = None"

section \<open>Their actions\<close>

text \<open>The first action: public paths, the token, and what is answered without a route.\<close>

definition start_http :: "('j, 'w) http_env \<Rightarrow> job \<Rightarrow> string \<Rightarrow> string \<Rightarrow> string \<Rightarrow> string \<Rightarrow> 'w gateway \<Rightarrow> ('j, 'w) request_thread" where
  "start_http he job method path body token s =
     (if path = ''/health'' then
        local_answer job (Inr (json_response 200 ''{\"status\":\"ok\",\"service\":\"access_gateway\"}''))
      else if path = ''/ready'' then
        local_answer job (Inr (if gt_router s \<noteq> None then json_response 200 ''{\"status\":\"ready\"}''
          else json_response 503 ''{\"status\":\"not_ready\",\"reason\":\"router_unavailable\"}''))
      else if path = ''/metrics'' then
        local_answer job (Inr \<lparr>hr_status = 200, hr_body = RenderPrometheus (he_metrics_order he) (gw_metrics (gt_world s)),
          hr_type = ''text/plain; charset=utf-8''\<rparr>)
      else
        (case check_token he token s of
           Inl e \<Rightarrow> local_answer job (Inl e)
         | Inr ctx \<Rightarrow>
             if path = ''/admin/log-level'' \<or> path = ''/admin/runtime-config''
             then (if is_admin ctx then GAdmin job path method body else local_answer job (Inr unauthorized_admin))
             else
               (case ctx of
                  None \<Rightarrow> local_answer job (Inr (json_response 401 ''{\"error\":\"unauthorized\"}''))
                | Some auth_ctx \<Rightarrow>
                    (case gt_router s of
                       None \<Rightarrow> local_answer job (Inr (json_response 503 ''{\"error\":\"router_unavailable\"}''))
                     | Some r \<Rightarrow> GClaim job (user_id auth_ctx)))))"

definition log_level_action :: "('j, 'w) http_env \<Rightarrow> job \<Rightarrow> string \<Rightarrow> string \<Rightarrow> 'w gateway \<Rightarrow>
    ('j, 'w) request_thread \<times> 'w gateway" where
  "log_level_action he job method body s =
     (if method = ''get'' then (GLevel job, s)
      else if method = ''post'' then
        (let J = he_json he;
             wanted = (case parse_body J body of
                         None \<Rightarrow> None
                       | Some json \<Rightarrow>
                           (case json_find J json ''log_level'' of
                              None \<Rightarrow> None
                            | Some v \<Rightarrow> json_as_string J v))
         in case wanted of
              None \<Rightarrow> (local_answer job (Inr (json_response 400 ''{\"error\":\"invalid_json\"}'')), s)
            | Some name \<Rightarrow>
                (let (ok, p) = SetLogLevel (he_mkdir he) name (gt_log s)
                 in (if ok then GLevel job
                     else local_answer job (Inr (json_response 400 ''{\"error\":\"invalid_log_level\"}'')), s\<lparr>gt_log := p\<rparr>)))
      else (local_answer job (Inr (json_response 405 ''{\"error\":\"method_not_allowed\"}'')), s))"

text \<open>The fields of a posted configuration, over the values read from the router.\<close>

definition read_config :: "'j json_api \<Rightarrow> 'j \<Rightarrow> router_runtime_config \<Rightarrow> exn + router_runtime_config" where
  "read_config J json cfg =
     res_bind (int_field J json ''grpc_timeout_ms'' (grpc_timeout_ms cfg)) (\<lambda>t.
     res_bind (int_field J json ''retry_attempts'' (retry_attempts cfg)) (\<lambda>a.
     res_bind (int_field J json ''retry_backoff_ms'' (retry_backoff_ms cfg)) (\<lambda>b.
     Inr \<lparr>grpc_timeout_ms = t, retry_attempts = a, retry_backoff_ms = b\<rparr>)))"

definition runtime_config_action :: "('j, 'w) http_env \<Rightarrow> job \<Rightarrow> string \<Rightarrow> string \<Rightarrow> 'w gateway \<Rightarrow>
    ('j, 'w) request_thread" where
  "runtime_config_action he job method body s =
     (case gt_router s of
        None \<Rightarrow> local_answer job (Inr (json_response 503 ''{\"error\":\"router_unavailable\"}''))
      | Some r \<Rightarrow>
          if method = ''get'' then GShow job
          else if method = ''post'' then
            (case parse_body (he_json he) body of
               None \<Rightarrow> local_answer job (Inr (json_response 400 ''{\"error\":\"invalid_json\"}''))
             | Some json \<Rightarrow>
                 (case read_config (he_json he) json (GetRuntimeConfig r) of
                    Inl e \<Rightarrow> local_answer job (Inl e)
                  | Inr cfg \<Rightarrow> GUpdate job cfg))
          else local_answer job (Inr (json_response 405 ''{\"error\":\"method_not_allowed\"}'')))"

text \<open>Once the request number is taken: the context, and for a message its path and body.\<close>

definition claimed_task :: "('j, 'w) http_env \<Rightarrow> job \<Rightarrow> string \<Rightarrow> 'w gateway \<Rightarrow> ('j, 'w) request_thread" where
  "claimed_task he job user s =
     (case job of
        HttpJob method path body token hs \<Rightarrow>
          (let generated = ''gw-req-'' @ to_string (uint (request_seq s))
           in GRoute \<lparr>tk_job = job, tk_generated = generated,
                      tk_context = (header_context hs generated)\<lparr>user_id := user\<rparr>, tk_path = path, tk_body = body\<rparr>)
      | WsJob payload u \<Rightarrow>
          (let J = he_json he; json = the (parse_body J payload);
               generated = ''gw-ws-'' @ to_string (uint (request_seq s));
               ctx = (header_context (ws_headers J json) generated)\<lparr>user_id := user\<rparr>
           in case gt_router s of
                None \<Rightarrow> GAnswered job None (WsAnswer (WsErrorJson J ''router_unavailable'' ''service_unavailable'' 503))
              | Some r \<Rightarrow>
                  (case res_bind (json_value_string J json ''path'' []) (\<lambda>path.
                        res_bind (json_value_string J json ''body'' ''{}'') (\<lambda>body. Inr (path, body))) of
                     Inl e \<Rightarrow> GAnswered job None (WsAnswer (Inl e))
                   | Inr (path, body) \<Rightarrow>
                       GRoute \<lparr>tk_job = job, tk_generated = generated, tk_context = ctx, tk_path = path, tk_body = body\<rparr>)))"

text \<open>The route up to its branch; the configuration is read under its mutex.\<close>

definition route_branch :: "'j json_api \<Rightarrow> task \<Rightarrow> router \<Rightarrow> ('j, 'w) request_thread" where
  "route_branch J tk r =
     (case parse_body J (tk_body tk) of
        None \<Rightarrow> route_ends J tk (local_result J 400 ''invalid_json'' INVALID_ARGUMENT)
      | Some json \<Rightarrow>
          (case route_plan J (targets r) (tk_path tk) json (tk_context tk) of
             None \<Rightarrow> route_ends J tk (local_result J 404 ''route_not_found'' NOT_FOUND)
           | Some pl \<Rightarrow> GResolve tk pl (GetRuntimeConfig r)))"

fun request_step :: "('j, 'w) http_env \<Rightarrow> ('j, 'w) request_thread \<Rightarrow> 'w gateway \<Rightarrow>
    (('j, 'w) request_thread \<times> 'w gateway) option" where
  "request_step he (GStart (HttpJob method path body token hs)) s =
     Some (start_http he (HttpJob method path body token hs) method path body token s, s)"
| "request_step he (GStart (WsJob payload user)) s =
     Some (case parse_body (he_json he) payload of
             None \<Rightarrow> GAnswered (WsJob payload user) None (WsAnswer (WsErrorJson (he_json he) ''invalid_json'' ''bad_request'' 400))
           | Some json \<Rightarrow> GClaim (WsJob payload user) user, s)"
| "request_step he (GAdmin job path method body) s =
     (let method' = to_lower_ascii method
      in Some (if path = ''/admin/log-level'' then log_level_action he job method' body s
               else (runtime_config_action he job method' body s, s)))"
| "request_step he (GLevel job) s =
     (let (lvl, p) = GetLogLevel (he_mkdir he) (gt_log s)
      in Some (local_answer job (dumped (he_json he) [(''log_level'', json_string (he_json he) (LogLevelName lvl))]),
               s\<lparr>gt_log := p\<rparr>))"
| "request_step he (GUpdate job cfg) s = Some (GShow job, set_router (UpdateRuntimeConfig cfg (the_router s)) s)"
| "request_step he (GShow job) s =
     Some (local_answer job (config_response (he_json he) (GetRuntimeConfig (the_router s))), s)"
| "request_step he (GClaim job user) s =
     Some (claimed_task he job user s, s\<lparr>request_seq := request_seq s + 1\<rparr>)"
| "request_step he (GRoute tk) s = Some (route_branch (he_json he) tk (the_router s), s)"
| "request_step he (GResolve tk pl cfg) s =
     (let (target, ss) = ResolveTarget (ge_scan (he_route he)) (pl_service pl) (pl_fallback pl)
                           (traffic_tag (tk_context tk)) (the_router s) (gw_etcd (gt_world s))
      in Some (GStub tk pl cfg target, s\<lparr>gt_world := (gt_world s)\<lparr>gw_etcd := ss\<rparr>\<rparr>))"
| "request_step he (GStub tk pl cfg target) s =
     (let (stub, r) = stub_for (pl_service pl) target (the_router s)
      in Some (case pl_request pl of
                 Inl e \<Rightarrow> route_ends (he_json he) tk (Inl e)
               | Inr req \<Rightarrow>
                   GCall tk pl (IStart \<lparr>iv_context = tk_context tk, iv_runtime = cfg, iv_stub = stub, iv_request = req\<rparr>),
               set_router r s))"
| "request_step he (GCall tk pl t) s =
     (case invoke_answer t of
        Some (st, reply) \<Rightarrow>
          Some (route_ends (he_json he) tk
                  (if \<not> is_ok st then failed_result (he_json he) (pl_service pl) st
                   else ok_result (he_json he) (pl_service pl) (pl_render pl reply)), s)
      | None \<Rightarrow>
          map_option (\<lambda>(t', c). (GCall tk pl t', put_view (pl_service pl) c s))
            (invoke_thread_step (ge_grpc (he_route he)) (ge_round (he_route he)) t (call_view (pl_service pl) s)))"
| "request_step he (GCount tk k rr) s =
     (let names = finish_names (tk_path tk) rr
      in Some (if k < length names then (GCount tk (Suc k) rr, count_name (names ! k) s)
               else (GAnswered (tk_job tk) (Some (tk, Inr rr)) (routed_answer (he_json he) (tk_job tk) (Inr rr)), s)))"
| "request_step he (GAnswered job outcome a) s = None"
| "request_step he (GElsewhere []) s = None"
| "request_step he (GElsewhere (f # fs)) s = Some (GElsewhere fs, set_outside (f (gw_outside (gt_world s))) s)"


text \<open>What the local computations between two actions can come to.\<close>

lemma local_answer_form: "P (GAnswered job None (HttpAnswer r)) \<Longrightarrow> P (local_answer job r)"
  by (simp add: local_answer_def)

lemma route_ends_form:
  "(\<And>e a. P (GAnswered (tk_job tk) (Some (tk, Inl e)) a)) \<Longrightarrow> (\<And>rr. P (GCount tk 0 rr)) \<Longrightarrow> P (route_ends J tk routed)"
  by (simp add: route_ends_def split: sum.split)

lemma start_http_form:
  "(\<And>a. P (GAnswered job None a)) \<Longrightarrow> P (GAdmin job path m body) \<Longrightarrow> (\<And>u. P (GClaim job u)) \<Longrightarrow>
   P (start_http he job m path body token s)"
  by (auto simp: start_http_def local_answer_def split: sum.split option.split)

lemma claimed_task_form:
  "(\<And>a. P (GAnswered job None a)) \<Longrightarrow> (\<And>tk. tk_job tk = job \<Longrightarrow> P (GRoute tk)) \<Longrightarrow> P (claimed_task he job user s)"
  by (simp add: claimed_task_def Let_def split: sum.split option.split job.split)

lemma route_branch_form:
  "(\<And>e a. P (GAnswered (tk_job tk) (Some (tk, Inl e)) a)) \<Longrightarrow> (\<And>rr. P (GCount tk 0 rr)) \<Longrightarrow>
   (\<And>pl. P (GResolve tk pl (runtime_config r))) \<Longrightarrow> P (route_branch J tk r)"
  by (simp add: route_branch_def GetRuntimeConfig_def route_ends_form split: option.split)

lemma runtime_config_form:
  "(\<And>a. P (GAnswered job None a)) \<Longrightarrow> P (GShow job) \<Longrightarrow> (\<And>cfg. P (GUpdate job cfg)) \<Longrightarrow>
   P (runtime_config_action he job m body s)"
  by (simp add: runtime_config_action_def local_answer_def split: sum.split option.split)

lemma log_level_form:
  "(\<And>a l. P (GAnswered job None a, s\<lparr>gt_log := l\<rparr>)) \<Longrightarrow> (\<And>l. P (GLevel job, s\<lparr>gt_log := l\<rparr>)) \<Longrightarrow>
   P (log_level_action he job m body s)"
proof -
  assume a: "\<And>a l. P (GAnswered job None a, s\<lparr>gt_log := l\<rparr>)" and l: "\<And>l. P (GLevel job, s\<lparr>gt_log := l\<rparr>)"
  have "P (GAnswered job None a, s)" "P (GLevel job, s)" for a
    using a [of _ "gt_log s"] l [of "gt_log s"] by simp_all
  then show ?thesis
    using a l by (simp add: log_level_action_def local_answer_def Let_def split_beta split: option.split)
qed

lemmas request_forms = local_answer_form route_ends_form start_http_form claimed_task_form route_branch_form
  runtime_config_form

section \<open>They end\<close>

text \<open>
  \<open>B\<close> bounds the attempts of a call: whatever is configured while a request is on its way, an \<open>int\<close>
  is below \<open>2 ^ 31\<close>.
\<close>

fun request_work :: "nat \<Rightarrow> ('j, 'w) request_thread \<Rightarrow> nat" where
  "request_work B (GStart job) = 3 * B + 14"
| "request_work B (GAdmin job path method body) = 3"
| "request_work B (GLevel job) = 1"
| "request_work B (GUpdate job cfg) = 2"
| "request_work B (GShow job) = 1"
| "request_work B (GClaim job user) = 3 * B + 13"
| "request_work B (GRoute tk) = 3 * B + 12"
| "request_work B (GResolve tk pl cfg) = 3 * B + 11"
| "request_work B (GStub tk pl cfg target) = 3 * B + 10"
| "request_work B (GCall tk pl t) = (if invoke_work t = 0 \<and> invoke_answer t = None then 0 else invoke_work t + 6)"
| "request_work B (GCount tk k rr) = Suc (length (finish_names (tk_path tk) rr) - k)"
| "request_work B (GAnswered job outcome a) = 0"
| "request_work B (GElsewhere fs) = length fs"

fun thread_attempts :: "('j, 'w) request_thread \<Rightarrow> int" where
  "thread_attempts (GUpdate job cfg) = retry_attempts cfg"
| "thread_attempts (GResolve tk pl cfg) = retry_attempts cfg"
| "thread_attempts (GStub tk pl cfg target) = retry_attempts cfg"
| "thread_attempts t = 1"

text \<open>No thread is the rest of the world inside a call.\<close>

fun stray :: "('j, 'w) request_thread \<Rightarrow> bool" where
  "stray (GCall tk pl (IElsewhere fs)) = True"
| "stray t = False"

definition attempts_within :: "('j, 'w) http_env \<Rightarrow> nat \<Rightarrow> ('j, 'w) request_thread list \<Rightarrow> 'w gateway \<Rightarrow> bool" where
  "attempts_within he B ts s \<longleftrightarrow>
     1 \<le> B \<and> (\<forall>v n. json_get_int (he_json he) v = Inr n \<longrightarrow> n \<le> int B) \<and>
     (\<exists>r. gt_router s = Some r \<and> retry_attempts (runtime_config r) \<le> int B) \<and>
     (\<forall>t \<in> set ts. thread_attempts t \<le> int B \<and> \<not> stray t)"

lemma finish_names_length: "length (finish_names path rr) \<le> 4"
  by (simp add: finish_names_def)

lemma route_ends_work:
  "5 < n \<Longrightarrow> request_work B (route_ends J tk routed) < n"
  "thread_attempts (route_ends J tk routed) = 1"
  using finish_names_length [of "tk_path tk" "projr routed"]
  by (auto simp: route_ends_def split: sum.split)

lemma local_answer_work [simp]:
  "request_work B (local_answer job r) = 0" "thread_attempts (local_answer job r) = 1"
  by (simp_all add: local_answer_def)


lemma stub_for_keeps [simp]:
  "runtime_config (snd (stub_for service target r)) = runtime_config r"
  by (auto simp: stub_for_def GetConfigStub_def GetUserStub_def GetGameStub_def Let_def split: option.split)

lemma put_view_config:
  "gt_router s = Some r \<Longrightarrow> \<exists>r'. gt_router (put_view service c s) = Some r' \<and> runtime_config r' = runtime_config r"
  by (simp add: put_view_def set_outside_def set_router_def the_router_def put_limiter_def put_breaker_def)

lemma iv_attempts_within: "retry_attempts (iv_runtime iv) \<le> int B \<Longrightarrow> 1 \<le> B \<Longrightarrow> iv_attempts iv \<le> B"
  by (simp add: iv_attempts_def)

lemma start_http_work:
  "request_work B (start_http he job method path body token s) < 3 * B + 14"
  "thread_attempts (start_http he job method path body token s) = 1"
  by (auto simp: start_http_def split: sum.split option.split)

lemma claimed_task_work:
  "request_work B (claimed_task he job user s) < 3 * B + 13"
  "thread_attempts (claimed_task he job user s) = 1"
  by (auto simp: claimed_task_def Let_def split: sum.split option.split job.split)


lemma route_branch_work:
  "request_work B (route_branch J tk r) < 3 * B + 12"
  "1 \<le> b \<Longrightarrow> retry_attempts (runtime_config r) \<le> b \<Longrightarrow> thread_attempts (route_branch J tk r) \<le> b"
  by (auto simp: route_branch_def route_ends_work GetRuntimeConfig_def split: option.split)

lemma read_config_attempts:
  assumes "read_config J json cfg = Inr cfg'" and "\<forall>v n. json_get_int J v = Inr n \<longrightarrow> n \<le> b" and "retry_attempts cfg \<le> b"
  shows "retry_attempts cfg' \<le> b"
  using assms by (auto simp: read_config_def res_bind_eq_Inr int_field_def split: option.splits)

lemma admin_work:
  assumes "\<forall>v n. json_get_int (he_json he) v = Inr n \<longrightarrow> n \<le> int B" and "1 \<le> B"
    and "gt_router s = Some r" and "retry_attempts (runtime_config r) \<le> int B"
  shows "request_work B (runtime_config_action he job method body s) < 3"
    "thread_attempts (runtime_config_action he job method body s) \<le> int B"
    "request_work B (fst (log_level_action he job method body s)) < 3"
    "thread_attempts (fst (log_level_action he job method body s)) \<le> int B"
    "gt_router (snd (log_level_action he job method body s)) = gt_router s"
  using assms
  by (auto simp: runtime_config_action_def log_level_action_def GetRuntimeConfig_def Let_def split_beta
      split: option.split sum.split dest: read_config_attempts)

lemma invoke_call_work:
  "invoke_thread_step env rnd t c = Some (t', c') \<Longrightarrow> invoke_answer t = None \<Longrightarrow>
   request_work B (GCall tk pl t') < request_work B (GCall tk pl t)"
  using invoke_thread_progress [of env rnd t c t' c'] invoke_thread_ended [of t env rnd c] by auto

lemma request_own:
  assumes J: "\<forall>v n. json_get_int (he_json he) v = Inr n \<longrightarrow> n \<le> int B" and B: "1 \<le> B"
    and r: "gt_router s = Some r" "retry_attempts (runtime_config r) \<le> int B" and t: "thread_attempts t \<le> int B"
    and st: "request_step he t s = Some (t', s')"
  shows "(\<exists>r'. gt_router s' = Some r' \<and> retry_attempts (runtime_config r') \<le> int B) \<and> thread_attempts t' \<le> int B \<and>
    request_work B t' < request_work B t"
proof (cases t)
  case (GStart job)
  then show ?thesis
    using st r B by (cases job) (auto simp: start_http_work split: option.splits)
next
  case (GAdmin job path m body)
  then show ?thesis
    using st r admin_work [OF J B r, of job "to_lower_ascii m" body]
    by (auto simp: Let_def split: if_splits)
next
  case (GClaim job user)
  then show ?thesis using st r B by (auto simp: claimed_task_work)
next
  case (GRoute tk)
  then show ?thesis
    using st r B by (auto simp: the_router_def route_branch_work)
next
  case (GStub tk pl cfg target)
  have *: "iv_attempts \<lparr>iv_context = tk_context tk, iv_runtime = cfg,
      iv_stub = fst (stub_for (pl_service pl) target r), iv_request = q\<rparr> \<le> B" for q
    using t B by (intro iv_attempts_within) (simp_all add: GStub)
  have "runtime_config (snd (stub_for (pl_service pl) target r)) = runtime_config r" by simp
  then show ?thesis
    using st r B *
    by (auto simp: GStub the_router_def set_router_def split_beta route_ends_work less_Suc_eq_le split: sum.splits)
next
  case (GCall tk pl x)
  show ?thesis
  proof (cases "invoke_answer x")
    case None
    then obtain x' c where x: "invoke_thread_step (ge_grpc (he_route he)) (ge_round (he_route he)) x
        (call_view (pl_service pl) s) = Some (x', c)" "t' = GCall tk pl x'" "s' = put_view (pl_service pl) c s"
      using st by (auto simp: GCall)
    show ?thesis
      using invoke_call_work [OF x(1) None, of B tk pl] put_view_config [OF r(1), of "pl_service pl" c] r B
      unfolding GCall x(2,3) by auto
  next
    case (Some a)
    obtain q reply where a: "a = (q, reply)" by (cases a)
    have "invoke_work x = 0" using Some by (cases x) auto
    then show ?thesis
      using st r B Some by (auto simp: GCall a route_ends_work)
  qed
next
  case (GElsewhere fs)
  then show ?thesis using st r B by (cases fs) (auto simp: set_outside_def)
qed (use st r B t in \<open>auto simp: the_router_def set_router_def UpdateRuntimeConfig_def Let_def split_beta count_name_def
      split: if_splits\<close>)


lemma not_stray [simp]:
  "\<not> stray (local_answer job r)" "\<not> stray (route_ends J tk routed)" "\<not> stray (claimed_task he job user s)"
  "\<not> stray (start_http he job m path body token s)" "\<not> stray (route_branch J tk r')"
  "\<not> stray (runtime_config_action he job m body s)"
  by (rule request_forms [where P = "\<lambda>t. \<not> stray t"]; simp)+

lemma log_level_stray [simp]: "\<not> stray (fst (log_level_action he job m body s))"
  by (rule log_level_form [where P = "\<lambda>c. \<not> stray (fst c)"]) simp_all

lemma invoke_step_stray:
  "invoke_thread_step env rnd x c = Some (x', c') \<Longrightarrow> \<not> stray (GCall tk pl x) \<Longrightarrow> \<not> stray (GCall tk pl x')"
  by (cases "(env, rnd, x, c)" rule: invoke_thread_step.cases) (auto simp: Let_def split_beta split: if_splits)

lemma stray_step:
  assumes st: "request_step he t s = Some (t', s')" and t: "\<not> stray t"
  shows "\<not> stray t'"
proof (cases t)
  case (GStart job)
  then show ?thesis using st by (cases job) (auto split: option.splits)
next
  case (GAdmin job path m body)
  then show ?thesis
    using st log_level_stray [of he job "to_lower_ascii m" body s] by (auto simp: Let_def simp del: log_level_stray split: if_splits)
next
  case (GStub tk pl cfg target)
  then show ?thesis using st by (auto simp: split_beta split: sum.splits)
next
  case (GCall tk pl x)
  then show ?thesis using st t invoke_step_stray by (fastforce split: option.splits)
next
  case (GElsewhere fs)
  then show ?thesis using st by (cases fs) auto
qed (use st in \<open>auto simp: Let_def split_beta split: if_splits\<close>)

interpretation requests: thread_work "request_step he" "request_work B" "\<lambda>s. 0" "attempts_within he B"
  for he B
proof
  fix ts :: "('a, 'b) request_thread list" and s i t' s'
  assume ok: "attempts_within he B ts s" and i: "i < length ts" and st: "request_step he (ts ! i) s = Some (t', s')"
  have t: "thread_attempts (ts ! i) \<le> int B" "\<not> stray (ts ! i)"
    using ok i by (simp_all add: attempts_within_def)
  obtain r where "gt_router s = Some r" "retry_attempts (runtime_config r) \<le> int B"
    using ok by (auto simp: attempts_within_def)
  note own = request_own [OF _ _ this t(1) st] stray_step [OF st t(2)]
  show "request_work B t' + 0 < request_work B (ts ! i) + 0"
    using own ok by (simp add: attempts_within_def)
  show "attempts_within he B (ts[i := t']) s'"
    using own ok set_update_subset_insert [of ts i t'] by (auto simp: attempts_within_def)
next
  fix t :: "('a, 'b) request_thread" and s
  assume "0 < request_work B t"
  then show "request_step he t s \<noteq> None"
    by (cases "(he, t, s)" rule: request_step.cases)
      (auto simp: Let_def split_beta split: option.splits if_splits dest!: invoke_thread_busy)
next
  fix t :: "('a, 'b) request_thread" and s
  assume "request_work B t = 0"
  then show "request_step he t s = None"
    by (cases "(he, t, s)" rule: request_step.cases) (auto split: option.splits if_splits simp: invoke_thread_ended)
qed


section \<open>No count is lost\<close>

abbreviation gateway_counter :: "'w gateway \<Rightarrow> string \<Rightarrow> 64 word" where
  "gateway_counter s \<equiv> counter (gw_metrics (gt_world s))"

text \<open>The names a thread has counted so far.\<close>

fun counted_names :: "('j, 'w) request_thread \<Rightarrow> string list" where
  "counted_names (GCount tk k rr) = take k (finish_names (tk_path tk) rr)"
| "counted_names (GAnswered job (Some (tk, Inr rr)) a) = finish_names (tk_path tk) rr"
| "counted_names t = []"

lemma finish_names_route: "fold (\<lambda>name. Increment name 1) (finish_names path rr) m = route_finish path rr m"
  by (simp add: finish_names_def route_finish_def Let_def)

lemma names_step: "k < length names \<Longrightarrow> take (Suc k) names = take k names @ [names ! k]"
  by (rule take_Suc_conv_app_nth)

lemma local_counted [simp]:
  "counted_names (local_answer job r) = []" "counted_names (route_ends J tk routed) = []"
  "counted_names (claimed_task he job user s) = []" "counted_names (start_http he job m path body token s) = []"
  "counted_names (route_branch J tk r') = []" "counted_names (runtime_config_action he job m body s) = []"
  by (rule request_forms [where P = "\<lambda>t. counted_names t = []"]; simp)+

lemma log_level_counted:
  "log_level_action he job m body s = (t, s') \<Longrightarrow> counted_names t = [] \<and> gt_world s' = gt_world s"
  using log_level_form [where P = "\<lambda>c. counted_names (fst c) = [] \<and> gt_world (snd c) = gt_world s", of job s he m body] by simp

lemma gateway_counter_frame [simp]:
  "gt_world (set_router r s) = gt_world s" "gw_metrics (gt_world (set_outside w s)) = gw_metrics (gt_world s)"
  "gw_metrics (gt_world (put_view service c s)) = gw_metrics (gt_world s)"
  by (auto simp: set_router_def set_outside_def put_view_def)

lemma count_step:
  assumes st: "request_step he t s = Some (t', s')"
  shows "gateway_counter s' name + of_nat (count_list (counted_names t) name) =
    gateway_counter s name + of_nat (count_list (counted_names t') name)"
proof (cases t)
  case (GStart job)
  then show ?thesis using st by (cases job) (auto split: option.splits)
next
  case (GAdmin job path m body)
  then show ?thesis
    using st by (auto simp: Let_def dest!: log_level_counted split: if_splits)
next
  case (GStub tk pl cfg target)
  then show ?thesis using st by (auto simp: split_beta split: sum.splits)
next
  case (GCall tk pl x)
  then show ?thesis using st by (auto split: option.splits)
next
  case (GCount tk k rr)
  then show ?thesis
    using st by (auto simp: Let_def names_step count_name_def split: if_splits)
next
  case (GElsewhere fs)
  then show ?thesis using st by (cases fs) auto
qed (use st in \<open>auto simp: Let_def split_beta split: if_splits\<close>)

definition names_of :: "('j, 'w) request_thread list \<Rightarrow> string list" where
  "names_of ts = concat (map counted_names ts)"

lemma names_of_update:
  "i < length ts \<Longrightarrow> count_list (names_of (ts[i := t])) name + count_list (counted_names (ts ! i)) name =
     count_list (names_of ts) name + count_list (counted_names t) name"
  by (induction ts arbitrary: i) (auto simp: names_of_def nth_Cons split: nat.splits)

lemma balance:
  fixes a0 :: "'a :: ab_group_add"
  assumes "a2 + y = a1 + y'" and "n2 + y = n1 + y'" and "a1 + n0 = a0 + n1"
  shows "a2 + n0 = a0 + n2"
proof -
  have "a2 = a1 + y' - y" "n2 = n1 + y' - y" using assms(1,2) by (simp_all add: eq_diff_eq)
  then have "a2 + n0 = (a1 + n0) + y' - y" "a0 + n2 = (a0 + n1) + y' - y" by (simp_all add: algebra_simps)
  then show ?thesis using assms(3) by simp
qed

lemma count_run:
  assumes "interleaved (request_step he) (ts, s) (ts', s')"
  shows "gateway_counter s' name + of_nat (count_list (names_of ts) name) =
    gateway_counter s name + of_nat (count_list (names_of ts') name)"
  using assms
proof (induction rule: rtranclp_induct2)
  case refl
  show ?case by simp
next
  case (step ts1 s1 ts2 s2)
  from step.hyps(2) obtain i t' where i: "ts2 = ts1[i := t']" "i < length ts1" "request_step he (ts1 ! i) s1 = Some (t', s2)"
    by (auto elim: interleaveE)
  have "of_nat (count_list (names_of ts2) name) + of_nat (count_list (counted_names (ts1 ! i)) name) =
      (of_nat (count_list (names_of ts1) name) + of_nat (count_list (counted_names t') name) :: 64 word)"
    using names_of_update [OF i(2), of t' name] by (simp add: i(1) flip: of_nat_add)
  from balance [OF count_step [OF i(3), of name] this step.IH] show ?case .
qed


section \<open>A thread alone is the handler\<close>

lemma service_parts:
  "BreakerFor service (put_limiter service l (put_breaker service b r)) = b"
  "RateLimiterFor service (put_limiter service l r) = l"
  "put_limiter service l' (put_breaker service b' (put_limiter service l (put_breaker service b r))) =
     put_limiter service l' (put_breaker service b' r)"
  "put_limiter service (RateLimiterFor service r) (put_breaker service (BreakerFor service r) r) = r"
  by (simp_all add: put_limiter_def put_breaker_def BreakerFor_def RateLimiterFor_def)

lemma call_views:
  "call_view service (put_view service c s) = c"
  "put_view service c' (put_view service c s) = put_view service c' s"
  "gt_router s = Some r \<Longrightarrow> put_view service (call_view service s) s = s"
  by (simp_all add: call_view_def put_view_def set_router_def set_outside_def the_router_def service_parts)

lemma call_settles:
  assumes "solo (invoke_thread_step (ge_grpc (he_route he)) (ge_round (he_route he))) n t c = (t', c')"
    and "invoke_answer t' \<noteq> None"
    and "settles (request_step he) (GCall tk pl t') (put_view (pl_service pl) c' s) d"
  shows "settles (request_step he) (GCall tk pl t) (put_view (pl_service pl) c s) d"
  using assms(1)
proof (induction n arbitrary: t c)
  case 0
  then show ?case using assms(3) by simp
next
  case (Suc n)
  show ?case
  proof (cases "invoke_thread_step (ge_grpc (he_route he)) (ge_round (he_route he)) t c")
    case None
    then show ?thesis using Suc.prems assms(3) by simp
  next
    case (Some q)
    obtain t1 c1 where q: "q = (t1, c1)" by (cases q)
    have "invoke_answer t = None" using Some by (cases t) auto
    then have "request_step he (GCall tk pl t) (put_view (pl_service pl) c s) =
        Some (GCall tk pl t1, put_view (pl_service pl) c1 s)"
      by (simp add: Some q call_views)
    moreover have "settles (request_step he) (GCall tk pl t1) (put_view (pl_service pl) c1 s) d"
      using Suc.IH [of t1 c1] Suc.prems by (simp add: Some q)
    ultimately show ?thesis by (rule settles_move)
  qed
qed

definition metrics_of :: "counters \<Rightarrow> 'w gateway \<Rightarrow> 'w gateway" where
  "metrics_of m s = s\<lparr>gt_world := (gt_world s)\<lparr>gw_metrics := m\<rparr>\<rparr>"

lemma count_settles:
  "settles (request_step he) (GCount tk k rr) s
     (GAnswered (tk_job tk) (Some (tk, Inr rr)) (routed_answer (he_json he) (tk_job tk) (Inr rr)),
      metrics_of (fold (\<lambda>name. Increment name 1) (drop k (finish_names (tk_path tk) rr)) (gw_metrics (gt_world s))) s)"
proof (induction "length (finish_names (tk_path tk) rr) - k" arbitrary: k s)
  case 0
  let ?t = "GAnswered (tk_job tk) (Some (tk, Inr rr)) (routed_answer (he_json he) (tk_job tk) (Inr rr))"
  have "request_step he (GCount tk k rr) s = Some (?t, s)" using 0 by (simp add: Let_def)
  moreover have "settles (request_step he) ?t s (?t, s)" by (rule settles_stop) simp
  ultimately have "settles (request_step he) (GCount tk k rr) s (?t, s)" by (rule settles_move)
  then show ?case using 0 by (simp add: metrics_of_def)
next
  case (Suc n)
  let ?names = "finish_names (tk_path tk) rr"
  have k: "k < length ?names" using Suc.hyps(2) by simp
  then have "drop k ?names = ?names ! k # drop (Suc k) ?names" by (rule Cons_nth_drop_Suc [symmetric])
  moreover have "request_step he (GCount tk k rr) s = Some (GCount tk (Suc k) rr, count_name (?names ! k) s)"
    using k by (simp add: Let_def)
  ultimately show ?case
    using settles_move [OF _ Suc.hyps(1) [of "Suc k" "count_name (?names ! k) s"], of "GCount tk k rr" s] Suc.hyps(2)
    by (simp add: count_name_def metrics_of_def del: request_step.simps)
qed

lemma route_ends_settles:
  "settles (request_step he) (route_ends (he_json he) tk routed) s
     (GAnswered (tk_job tk) (Some (tk, routed)) (routed_answer (he_json he) (tk_job tk) routed),
      case routed of Inl e \<Rightarrow> s | Inr rr \<Rightarrow> metrics_of (route_finish (tk_path tk) rr (gw_metrics (gt_world s))) s)"
  using count_settles [of he tk 0 "projr routed" s]
  by (cases routed) (auto simp: route_ends_def finish_names_route intro: settles_stop)


text \<open>What is left once the call has its result.\<close>

definition call_result :: "'j json_api \<Rightarrow> 'j plan \<Rightarrow> grpc_status \<times> rpc_reply \<Rightarrow> exn + route_result" where
  "call_result J pl r =
     (if \<not> is_ok (fst r) then failed_result J (pl_service pl) (fst r)
      else ok_result J (pl_service pl) (pl_render pl (snd r)))"

definition ended_with :: "'j json_api \<Rightarrow> task \<Rightarrow> exn + route_result \<Rightarrow> 'w gateway \<Rightarrow> ('j, 'w) request_thread \<times> 'w gateway" where
  "ended_with J tk routed s =
     (GAnswered (tk_job tk) (Some (tk, routed)) (routed_answer J (tk_job tk) routed),
      case routed of Inl e \<Rightarrow> s | Inr rr \<Rightarrow> metrics_of (route_finish (tk_path tk) rr (gw_metrics (gt_world s))) s)"

lemma invoked_settles:
  assumes r: "gt_router s = Some r"
    and iv: "InvokeWithResilienceAsync (ge_grpc (he_route he)) (ge_round (he_route he)) (iv_context iv) (iv_runtime iv)
      (iv_stub iv) (iv_request iv) (BreakerFor (pl_service pl) r) (RateLimiterFor (pl_service pl) r) (gw_outside (gt_world s)) =
      (res, b, l, w)"
  shows "settles (request_step he) (GCall tk pl (IStart iv)) s
    (ended_with (he_json he) tk (call_result (he_json he) pl res)
      (set_outside w (set_router (put_limiter (pl_service pl) l (put_breaker (pl_service pl) b r)) s)))"
proof -
  let ?sv = "pl_service pl" and ?env = "ge_grpc (he_route he)" and ?rnd = "ge_round (he_route he)"
  let ?c = "call_view ?sv s"
  let ?s' = "set_outside w (set_router (put_limiter ?sv l (put_breaker ?sv b r)) s)"
  have c: "is_breaker ?c = BreakerFor ?sv r" "is_limiter ?c = RateLimiterFor ?sv r" "is_world ?c = gw_outside (gt_world s)"
    using r by (simp_all add: call_view_def the_router_def)
  define c' where "c' = ?c\<lparr>is_breaker := b, is_limiter := l, is_world := w\<rparr>"
  obtain t where t: "solo (invoke_thread_step ?env ?rnd) (3 * iv_attempts iv + 3) (IStart iv) ?c = (t, c')"
    and a: "invoke_answer t = Some res"
    using Invoke_alone [of iv "3 * iv_attempts iv + 3" ?env ?rnd ?c] by (simp add: c iv c'_def Let_def split: if_splits)
  have s': "put_view ?sv c' s = ?s'"
    using r by (simp add: put_view_def c'_def the_router_def)
  have "request_step he (GCall tk pl t) ?s' = Some (route_ends (he_json he) tk (call_result (he_json he) pl res), ?s')"
    by (simp add: a call_result_def split_beta)
  then have "settles (request_step he) (GCall tk pl t) (put_view ?sv c' s)
      (ended_with (he_json he) tk (call_result (he_json he) pl res) ?s')"
    unfolding s' ended_with_def by (rule settles_move) (rule route_ends_settles)
  from call_settles [OF t _ this] a show ?thesis
    by (simp add: call_views(3) [OF r])
qed


definition with_router :: "router \<Rightarrow> 'w gateway_world \<Rightarrow> 'w gateway \<Rightarrow> 'w gateway" where
  "with_router r w s = s\<lparr>gt_router := Some r, gt_world := w\<rparr>"

lemma branch_settles:
  assumes r: "gt_router s = Some r"
    and call: "route_call (he_route he) (tk_context tk) (pl_service pl) (stub_for (pl_service pl)) (pl_fallback pl)
      (pl_request pl) (pl_render pl) r (gt_world s) = (res, r1, w1)"
  shows "settles (request_step he) (GResolve tk pl (GetRuntimeConfig r)) s
    (ended_with (he_json he) tk res (with_router r1 w1 s))"
proof -
  let ?sv = "pl_service pl"
  obtain target ss where tg: "ResolveTarget (ge_scan (he_route he)) ?sv (pl_fallback pl) (traffic_tag (tk_context tk)) r
      (gw_etcd (gt_world s)) = (target, ss)" by fastforce
  obtain sb r2 where stub: "stub_for ?sv target r = (sb, r2)" by fastforce
  define s1 where "s1 = s\<lparr>gt_world := (gt_world s)\<lparr>gw_etcd := ss\<rparr>\<rparr>"
  have 1: "request_step he (GResolve tk pl (GetRuntimeConfig r)) s = Some (GStub tk pl (GetRuntimeConfig r) target, s1)"
    using r by (simp add: the_router_def tg s1_def)
  show ?thesis
  proof (cases "pl_request pl")
    case (Inl e)
    have 2: "request_step he (GStub tk pl (GetRuntimeConfig r) target) s1 =
        Some (route_ends (he_json he) tk (Inl e), set_router r2 s1)"
      using r by (simp add: the_router_def s1_def stub Inl)
    have "res = Inl e" "with_router r1 w1 s = set_router r2 s1"
      using call by (auto simp: route_call_def tg stub Inl s1_def with_router_def set_router_def)
    then show ?thesis
      using settles_move [where step = "request_step he", OF 1 settles_move [where step = "request_step he",
          OF 2 route_ends_settles [of he tk "Inl e"]]] by (simp add: ended_with_def)
  next
    case (Inr req)
    let ?iv = "\<lparr>iv_context = tk_context tk, iv_runtime = GetRuntimeConfig r, iv_stub = sb, iv_request = req\<rparr>"
    obtain out b l w where inv: "InvokeWithResilienceAsync (ge_grpc (he_route he)) (ge_round (he_route he)) (tk_context tk)
        (GetRuntimeConfig r) sb req (BreakerFor ?sv r2) (RateLimiterFor ?sv r2) (gw_outside (gt_world s)) = (out, b, l, w)"
      by (metis prod.exhaust)
    have 2: "request_step he (GStub tk pl (GetRuntimeConfig r) target) s1 =
        Some (GCall tk pl (IStart ?iv), set_router r2 s1)"
      using r by (simp add: the_router_def s1_def stub Inr)
    have "settles (request_step he) (GCall tk pl (IStart ?iv)) (set_router r2 s1)
      (ended_with (he_json he) tk (call_result (he_json he) pl out)
        (set_outside w (set_router (put_limiter ?sv l (put_breaker ?sv b r2)) (set_router r2 s1))))"
      by (rule invoked_settles) (simp_all add: set_router_def s1_def inv)
    moreover have "res = call_result (he_json he) pl out"
      "with_router r1 w1 s = set_outside w (set_router (put_limiter ?sv l (put_breaker ?sv b r2)) (set_router r2 s1))"
      using call by (cases out; auto simp: route_call_def Let_def tg stub Inr inv s1_def with_router_def set_router_def
          set_outside_def call_result_def)+
    ultimately show ?thesis using settles_move [where step = "request_step he", OF 1 settles_move [where step = "request_step he", OF 2]] by simp
  qed
qed

lemma route_settles:
  assumes r: "gt_router s = Some r"
    and route: "RouteWithStatusAsync (he_route he) (tk_path tk) (tk_body tk) (tk_context tk) r (gt_world s) = (res, r1, w1)"
  shows "settles (request_step he) (GRoute tk) s
    (GAnswered (tk_job tk) (Some (tk, res)) (routed_answer (he_json he) (tk_job tk) res), with_router r1 w1 s)"
proof -
  let ?J = "he_json he"
  obtain t where step: "request_step he (GRoute tk) s = Some (t, s)" and t: "t = route_branch ?J tk r"
    using r by (simp add: the_router_def)
  define x where "x = (case parse_body ?J (tk_body tk) of
      None \<Rightarrow> (local_result ?J 400 ''invalid_json'' INVALID_ARGUMENT, r, gt_world s)
    | Some json \<Rightarrow>
        (case dispatch (he_route he) (tk_path tk) json (tk_context tk) r (gt_world s) of
           Some x \<Rightarrow> x | None \<Rightarrow> (local_result ?J 404 ''route_not_found'' NOT_FOUND, r, gt_world s)))"
  obtain res0 r0 w0 where x: "x = (res0, r0, w0)" by (cases x)
  have res: "res = res0" "r1 = r0"
      "w1 = (case res0 of Inl e \<Rightarrow> w0 | Inr rr \<Rightarrow> w0\<lparr>gw_metrics := route_finish (tk_path tk) rr (gw_metrics w0)\<rparr>)"
    using route x unfolding RouteWithStatusAsync_def Let_def parse_body_def [symmetric] x_def [symmetric]
    by (auto split: sum.splits)
  have "settles (request_step he) t s (ended_with ?J tk res0 (with_router r0 w0 s))"
  proof (cases "\<exists>json pl. parse_body ?J (tk_body tk) = Some json \<and>
      route_plan ?J (targets r) (tk_path tk) json (tk_context tk) = Some pl")
    case True
    then obtain json pl where "parse_body ?J (tk_body tk) = Some json"
      "route_plan ?J (targets r) (tk_path tk) json (tk_context tk) = Some pl" by blast
    then show ?thesis
      using x branch_settles [OF r, of he tk pl res0 r0 w0] by (simp add: t route_branch_def x_def dispatch_plan)
  next
    case False
    then have "with_router r0 w0 s = s" "t = route_ends ?J tk res0"
      using x r by (auto simp: t x_def route_branch_def dispatch_plan with_router_def split: option.splits)
    then show ?thesis using route_ends_settles [of he tk res0 s] by (simp add: ended_with_def)
  qed
  moreover have "ended_with ?J tk res0 (with_router r0 w0 s) =
      (GAnswered (tk_job tk) (Some (tk, res)) (routed_answer ?J (tk_job tk) res), with_router r1 w1 s)"
    by (cases res0) (simp_all add: ended_with_def res metrics_of_def with_router_def)
  ultimately show ?thesis using step settles_move [of "request_step he" "GRoute tk" s t s] by simp
qed


lemma local_settles [intro]:
  "settles (request_step he) (local_answer job r) s (GAnswered job None (HttpAnswer r), s)"
  unfolding local_answer_def by (rule settles_stop) simp

lemma request_moves:
  "request_step he t s = Some (t', s') \<Longrightarrow> settles (request_step he) t' s' c \<Longrightarrow> settles (request_step he) t s c"
  by (rule settles_move)

lemma level_settles:
  "settles (request_step he) (GLevel job) s
     (GAnswered job None (HttpAnswer (fst (level_response he s))), snd (level_response he s))"
  by (rule request_moves [OF _ local_settles]) (simp add: level_response_def split_beta)

lemma show_settles:
  "settles (request_step he) (GShow job) s
     (GAnswered job None (HttpAnswer (config_response (he_json he) (GetRuntimeConfig (the_router s)))), s)"
  by (rule request_moves [OF _ local_settles]) simp

lemma update_settles:
  assumes "gt_router s = Some r"
  shows "settles (request_step he) (GUpdate job cfg) s
     (GAnswered job None (HttpAnswer (config_response (he_json he) (GetRuntimeConfig (UpdateRuntimeConfig cfg r)))),
      s\<lparr>gt_router := Some (UpdateRuntimeConfig cfg r)\<rparr>)"
  using request_moves [OF _ show_settles, of he "GUpdate job cfg" s job "set_router (UpdateRuntimeConfig cfg r) s"] assms
  by (simp add: the_router_def set_router_def)

lemma log_level_settles:
  assumes "check_token he token s = Inr ctx" and "is_admin ctx"
  shows "settles (request_step he) (GAdmin job ''/admin/log-level'' m body) s
    (GAnswered job None (HttpAnswer (fst (handle_log_level he (to_lower_ascii m) body token s))),
     snd (handle_log_level he (to_lower_ascii m) body token s))"
proof -
  let ?m = "to_lower_ascii m"
  obtain t s' where act: "log_level_action he job ?m body s = (t, s')" by fastforce
  have "settles (request_step he) t s'
      (GAnswered job None (HttpAnswer (fst (handle_log_level he ?m body token s))), snd (handle_log_level he ?m body token s))"
    using act assms level_settles [of he job s] level_settles [of he job s']
    by (auto simp: log_level_action_def handle_log_level_def Let_def split_beta split: if_splits option.splits)
  then show ?thesis by (rule request_moves [rotated]) (simp add: act Let_def)
qed

lemma runtime_config_settles:
  assumes "check_token he token s = Inr ctx" and "is_admin ctx" and "path \<noteq> ''/admin/log-level''"
  shows "settles (request_step he) (GAdmin job path m body) s
    (GAnswered job None (HttpAnswer (fst (handle_runtime_config he (to_lower_ascii m) body token s))),
     snd (handle_runtime_config he (to_lower_ascii m) body token s))"
proof -
  let ?m = "to_lower_ascii m"
  have "settles (request_step he) (runtime_config_action he job ?m body s) s
      (GAnswered job None (HttpAnswer (fst (handle_runtime_config he ?m body token s))),
       snd (handle_runtime_config he ?m body token s))"
    using assms show_settles [of he job s] update_settles [of s _ he job]
    by (auto simp: runtime_config_action_def handle_runtime_config_def Let_def read_config_def [symmetric] the_router_def
        split: if_splits option.splits sum.splits)
  then show ?thesis by (rule request_moves [rotated]) (simp add: assms(3) Let_def)
qed

lemma http_alone:
  "\<exists>routed. settles (request_step he) (GStart (HttpJob m path body token hs)) s
     (GAnswered (HttpJob m path body token hs) routed (HttpAnswer (fst (HandleRequestAsync he m path body token hs s))),
      snd (HandleRequestAsync he m path body token hs s))"
proof -
  let ?job = "HttpJob m path body token hs" and ?h = "HandleRequestAsync he m path body token hs s"
  let ?t = "start_http he ?job m path body token s"
  have "\<exists>routed. settles (request_step he) ?t s (GAnswered ?job routed (HttpAnswer (fst ?h)), snd ?h)"
  proof (cases "public_path path \<or> admin_path path \<or> gt_router s = None \<or> (\<nexists>c. check_token he token s = Inr (Some c))")
    case True
    show ?thesis
    proof (cases "admin_path path \<and> (\<exists>ctx. check_token he token s = Inr ctx \<and> is_admin ctx)")
      case admin: True
      then obtain ctx where "check_token he token s = Inr ctx" "is_admin ctx" by blast
      note admin = conjunct1 [OF admin] this
      show ?thesis
        using admin log_level_settles [OF admin(2,3), of ?job m body] runtime_config_settles [OF admin(2,3), of path ?job m body]
        by (intro exI [of _ None]) (auto simp: start_http_def HandleRequestAsync_def admin_path_def)
    next
      case False
      have "?t = local_answer ?job (fst ?h) \<and> snd ?h = s"
      proof (cases "public_path path")
        case True
        then show ?thesis by (auto simp: start_http_def HandleRequestAsync_def public_path_def)
      next
        case public: False
        show ?thesis
        proof (cases "admin_path path")
          case True
          then show ?thesis
            using False by (cases "check_token he token s")
              (auto simp: start_http_def HandleRequestAsync_def admin_path_def handle_log_level_def handle_runtime_config_def)
        next
          case admin: False
          then have "path \<noteq> ''/health''" "path \<noteq> ''/ready''" "path \<noteq> ''/metrics''" "path \<noteq> ''/admin/log-level''"
            "path \<noteq> ''/admin/runtime-config''"
            using public by (simp_all add: public_path_def admin_path_def)
          then show ?thesis
            using True public admin unfolding start_http_def HandleRequestAsync_def
            by (simp split: sum.split option.split) auto
        qed
      qed
      then show ?thesis using local_settles [of he ?job "fst ?h" s] by metis
    qed
  next
    case False
    then obtain c r where c: "check_token he token s = Inr (Some c)" and r: "gt_router s = Some r"
      and paths: "\<not> public_path path" "\<not> admin_path path" by auto
    let ?s1 = "s\<lparr>request_seq := request_seq s + 1\<rparr>" and ?gen = "''gw-req-'' @ to_string (uint (request_seq s))"
    define tk where "tk = \<lparr>tk_job = ?job, tk_generated = ?gen,
      tk_context = (header_context hs ?gen)\<lparr>user_id := user_id c\<rparr>, tk_path = path, tk_body = body\<rparr>"
    obtain res r1 w1 where route: "RouteWithStatusAsync (he_route he) (tk_path tk) (tk_body tk) (tk_context tk) r (gt_world ?s1) =
        (res, r1, w1)" by (metis prod.exhaust)
    have t: "?t = GClaim ?job (user_id c)"
      using paths c r by (simp add: start_http_def public_path_def admin_path_def)
    have h: "?h = (res_bind res (\<lambda>rr. Inr (json_response (status_code rr) (rr_body rr))), with_router r1 w1 ?s1)"
      using paths c r route by (simp add: HandleRequestAsync_def public_path_def admin_path_def with_router_def tk_def Let_def)
    have "request_step he (GClaim ?job (user_id c)) s = Some (GRoute tk, ?s1)"
      by (simp add: claimed_task_def tk_def Let_def)
    from request_moves [OF this route_settles [OF _ route]]
    show ?thesis unfolding t h using r by (auto simp: routed_answer_def tk_def)
  qed
  then obtain routed where "settles (request_step he) ?t s (GAnswered ?job routed (HttpAnswer (fst ?h)), snd ?h)" by blast
  from request_moves [OF _ this] show ?thesis by (intro exI [of _ routed]) simp
qed


lemma ws_alone:
  "\<exists>routed. settles (request_step he) (GStart (WsJob payload user)) s
     (GAnswered (WsJob payload user) routed (WsAnswer (fst (HandleWsMessageAsync he payload user s))),
      snd (HandleWsMessageAsync he payload user s))"
proof -
  let ?J = "he_json he" and ?job = "WsJob payload user" and ?h = "HandleWsMessageAsync he payload user s"
  have stop: "settles (request_step he) (GAnswered j o' a) s' (GAnswered j o' a, s')" for j o' a and s' :: "'b gateway"
    by (rule settles_stop) simp
  show ?thesis
  proof (cases "parse_body ?J payload")
    case None
    then show ?thesis
      using request_moves [of he "GStart ?job" s, OF _ stop [of ?job None "WsAnswer (fst ?h)" s]]
      by (auto simp: async_message_def)
  next
    case json: (Some json)
    let ?s1 = "s\<lparr>request_seq := request_seq s + 1\<rparr>" and ?gen = "''gw-ws-'' @ to_string (uint (request_seq s))"
    let ?read = "res_bind (json_value_string ?J json ''path'' []) (\<lambda>path.
                 res_bind (json_value_string ?J json ''body'' ''{}'') (\<lambda>body. Inr (path, body)))"
    let ?ctx = "(header_context (ws_headers ?J json) ?gen)\<lparr>user_id := user\<rparr>"
    have claim: "request_step he (GClaim ?job user) s = Some (claimed_task he ?job user s, ?s1)" by simp
    have "\<exists>routed. settles (request_step he) (claimed_task he ?job user s) ?s1 (GAnswered ?job routed (WsAnswer (fst ?h)), snd ?h)"
    proof (cases "gt_router s = None \<or> (\<exists>e. ?read = Inl e)")
      case True
      then have "claimed_task he ?job user s = GAnswered ?job None (WsAnswer (fst ?h)) \<and> snd ?h = ?s1"
        using json by (cases "gt_router s") (auto simp: claimed_task_def async_message_def Let_def)
      then show ?thesis using stop [of ?job None "WsAnswer (fst ?h)" ?s1] by auto
    next
      case False
      then obtain r path body where r: "gt_router s = Some r" and read: "?read = Inr (path, body)"
        by (cases ?read) auto
      define tk where "tk = \<lparr>tk_job = ?job, tk_generated = ?gen, tk_context = ?ctx, tk_path = path, tk_body = body\<rparr>"
      obtain res r1 w1 where route: "RouteWithStatusAsync (he_route he) (tk_path tk) (tk_body tk) (tk_context tk) r
          (gt_world ?s1) = (res, r1, w1)" by (metis prod.exhaust)
      have t: "claimed_task he ?job user s = GRoute tk"
        using json r read by (simp add: claimed_task_def tk_def Let_def)
      have h: "?h = (res_bind res (\<lambda>rr. if rr_body rr = []
          then WsErrorJson ?J ''empty_downstream_response'' ''bad_gateway'' 502 else Inr (rr_body rr)), with_router r1 w1 ?s1)"
        using json r read route by (simp add: async_message_def with_router_def tk_def Let_def)
      show ?thesis
        using route_settles [OF _ route] r unfolding t h by (auto simp: routed_answer_def tk_def)
    qed
    then obtain routed where "settles (request_step he) (claimed_task he ?job user s) ?s1
        (GAnswered ?job routed (WsAnswer (fst ?h)), snd ?h)" by blast
    from request_moves [OF _ request_moves [OF claim this], of "GStart ?job" s] json
    show ?thesis by (intro exI [of _ routed]) simp
  qed
qed


section \<open>Every request is answered, and counted\<close>

fun starting :: "('j, 'w) request_thread \<Rightarrow> bool" where
  "starting (GStart job) = True"
| "starting (GElsewhere fs) = True"
| "starting t = False"

fun thread_ended :: "('j, 'w) request_thread \<Rightarrow> bool" where
  "thread_ended (GAnswered job routed a) = True"
| "thread_ended (GElsewhere fs) = (fs = [])"
| "thread_ended t = False"

fun thread_job :: "('j, 'w) request_thread \<Rightarrow> job option" where
  "thread_job (GStart job) = Some job"
| "thread_job (GAdmin job path method body) = Some job"
| "thread_job (GLevel job) = Some job"
| "thread_job (GUpdate job cfg) = Some job"
| "thread_job (GShow job) = Some job"
| "thread_job (GClaim job user) = Some job"
| "thread_job (GRoute tk) = Some (tk_job tk)"
| "thread_job (GResolve tk pl cfg) = Some (tk_job tk)"
| "thread_job (GStub tk pl cfg target) = Some (tk_job tk)"
| "thread_job (GCall tk pl t) = Some (tk_job tk)"
| "thread_job (GCount tk k rr) = Some (tk_job tk)"
| "thread_job (GAnswered job routed a) = Some job"
| "thread_job (GElsewhere fs) = None"

lemma local_job [simp]:
  "thread_job (local_answer job r) = Some job" "thread_job (start_http he job m path body token s) = Some job"
  "thread_job (claimed_task he job user s) = Some job" "thread_job (runtime_config_action he job m body s) = Some job"
  by (rule request_forms [where P = "\<lambda>t. thread_job t = Some job"]; simp)+

lemma routed_job [simp]:
  "thread_job (route_ends J tk routed) = Some (tk_job tk)" "thread_job (route_branch J tk r') = Some (tk_job tk)"
  by (rule request_forms [where P = "\<lambda>t. thread_job t = Some (tk_job tk)"]; simp)+

lemma log_level_job: "log_level_action he job m body s = (t, s') \<Longrightarrow> thread_job t = Some job"
  using log_level_form [where P = "\<lambda>c. thread_job (fst c) = Some job", of job s he m body] by simp

lemma job_step:
  assumes st: "request_step he t s = Some (t', s')"
  shows "thread_job t' = thread_job t"
proof (cases t)
  case (GStart job)
  then show ?thesis using st by (cases job) (auto split: option.splits)
next
  case (GAdmin job path m body)
  then show ?thesis using st by (auto simp: Let_def log_level_job split: if_splits)
next
  case (GStub tk pl cfg target)
  then show ?thesis using st by (auto simp: split_beta split: sum.splits)
next
  case (GCall tk pl x)
  then show ?thesis using st by (auto split: option.splits)
next
  case (GElsewhere fs)
  then show ?thesis using st by (cases fs) auto
qed (use st in \<open>auto simp: Let_def split_beta split: if_splits\<close>)

lemma jobs_run:
  assumes "interleaved (request_step he) (ts, s) (ts', s')"
  shows "map thread_job ts' = map thread_job ts"
  using assms
proof (induction rule: rtranclp_induct2)
  case refl
  show ?case by simp
next
  case (step ts1 s1 ts2 s2)
  from step.hyps(2) obtain i t' where i: "ts2 = ts1[i := t']" "i < length ts1" "request_step he (ts1 ! i) s1 = Some (t', s2)"
    by (auto elim: interleaveE)
  have "(map thread_job ts1)[i := thread_job t'] = map thread_job ts1"
    using job_step [OF i(3)] i(2) by (metis list_update_id nth_map)
  then show ?case using step.IH by (simp add: i(1) map_update)
qed

lemma ended_work: "thread_ended t \<Longrightarrow> request_work B t = 0"
  by (cases t) auto

lemma work_ended: "request_work B t = 0 \<Longrightarrow> \<not> stray t \<Longrightarrow> thread_ended t"
proof (cases t)
  case (GCall tk pl x)
  assume "request_work B t = 0" and "\<not> stray t"
  then show ?thesis using GCall by (cases x) auto
qed auto

subsection \<open>What is thrown\<close>

text \<open>
  A coroutine that threw has no response: \<open>HandleSession\<close> drops the connection. What the libraries throw for a job: the
  check of its token, a field of its body that is not of the type asked for, and the writing of a
  document as text.
\<close>

definition reads_throw :: "'j json_api \<Rightarrow> string \<Rightarrow> exn \<Rightarrow> bool" where
  "reads_throw J body e \<longleftrightarrow>
     (\<exists>json. parse_body J body = Some json \<and>
        ((\<exists>key d. json_value_string J json key d = Inl e) \<or> (\<exists>key d. json_value_int J json key d = Inl e) \<or>
         (\<exists>key v. json_find J json key = Some v \<and> json_get_int J v = Inl e)))"

definition dump_throws :: "'j json_api \<Rightarrow> exn \<Rightarrow> bool" where
  "dump_throws J e \<longleftrightarrow> (\<exists>kvs. json_dump J (json_object J kvs) = Inl e)"

fun library_throws :: "('j, 'w) http_env \<Rightarrow> auth_options option \<Rightarrow> job \<Rightarrow> exn \<Rightarrow> bool" where
  "library_throws he auth (HttpJob method path body token hs) e \<longleftrightarrow>
     (\<exists>g. gt_auth g = auth \<and> check_token he token g = Inl e) \<or>
     reads_throw (he_json he) body e \<or> dump_throws (he_json he) e"
| "library_throws he auth (WsJob payload user) e \<longleftrightarrow>
     reads_throw (he_json he) payload e \<or>
     (\<exists>json body. parse_body (he_json he) payload = Some json \<and>
        json_value_string (he_json he) json ''body'' ''{}'' = Inr body \<and> reads_throw (he_json he) body e) \<or>
     dump_throws (he_json he) e"

fun thrown :: "answer \<Rightarrow> exn option" where
  "thrown (HttpAnswer r) = (case r of Inl e \<Rightarrow> Some e | Inr resp \<Rightarrow> None)"
| "thrown (WsAnswer r) = (case r of Inl e \<Rightarrow> Some e | Inr t \<Rightarrow> None)"

text \<open>A job has its response, or an exception that a library threw for it; a passing moment has passed.\<close>

fun finished :: "('j, 'w) http_env \<Rightarrow> auth_options option \<Rightarrow> ('j, 'w) request_thread \<Rightarrow> bool" where
  "finished he auth (GAnswered job routed a) = (\<forall>e. thrown a = Some e \<longrightarrow> library_throws he auth job e)"
| "finished he auth (GElsewhere fs) = (fs = [])"
| "finished he auth t = False"

text \<open>On its way a job only holds text of its own, so that what is thrown is thrown for it.\<close>

definition own_text :: "('j, 'w) http_env \<Rightarrow> auth_options option \<Rightarrow> job \<Rightarrow> string \<Rightarrow> bool" where
  "own_text he auth job body \<longleftrightarrow> (\<forall>e. reads_throw (he_json he) body e \<longrightarrow> library_throws he auth job e)"

definition own_request :: "('j, 'w) http_env \<Rightarrow> auth_options option \<Rightarrow> job \<Rightarrow> 'j plan \<Rightarrow> bool" where
  "own_request he auth job pl \<longleftrightarrow> (\<forall>e. pl_request pl = Inl e \<longrightarrow> library_throws he auth job e)"

fun throws_own :: "('j, 'w) http_env \<Rightarrow> auth_options option \<Rightarrow> ('j, 'w) request_thread \<Rightarrow> bool" where
  "throws_own he auth (GAdmin job path method body) = own_text he auth job body"
| "throws_own he auth (GClaim job user) = (case job of WsJob payload u \<Rightarrow> parse_body (he_json he) payload \<noteq> None | _ \<Rightarrow> True)"
| "throws_own he auth (GRoute tk) = own_text he auth (tk_job tk) (tk_body tk)"
| "throws_own he auth (GResolve tk pl cfg) = own_request he auth (tk_job tk) pl"
| "throws_own he auth (GStub tk pl cfg target) = own_request he auth (tk_job tk) pl"
| "throws_own he auth (GAnswered job routed a) = (\<forall>e. thrown a = Some e \<longrightarrow> library_throws he auth job e)"
| "throws_own he auth t = True"

lemma dump_is_library: "dump_throws (he_json he) e \<Longrightarrow> library_throws he auth job e"
  by (cases job) simp_all

lemma document_throws:
  "ok_result J service kvs = Inl e \<Longrightarrow> dump_throws J e" "failed_result J service st = Inl e \<Longrightarrow> dump_throws J e"
  "local_result J n c ds = Inl e \<Longrightarrow> dump_throws J e" "dumped J kvs = Inl e \<Longrightarrow> dump_throws J e"
  "config_response J cfg = Inl e \<Longrightarrow> dump_throws J e" "WsErrorJson J a b n = Inl e \<Longrightarrow> dump_throws J e"
  by (auto simp: ok_result_def failed_result_def local_result_def config_response_def dumped_def WsErrorJson_def
      ErrorJson_def dump_throws_def res_bind_eq_Inl)

lemma routed_answer_throws:
  "thrown (routed_answer J job routed) = Some e \<Longrightarrow> routed = Inl e \<or> dump_throws J e"
  by (auto simp: routed_answer_def res_bind_eq_Inl split: job.splits sum.splits if_splits dest!: document_throws(6))

lemma route_ends_own:
  assumes "\<And>e. routed = Inl e \<Longrightarrow> library_throws he auth (tk_job tk) e"
  shows "throws_own he auth (route_ends (he_json he) tk routed)"
  using assms dump_is_library routed_answer_throws [of "he_json he" "tk_job tk" routed]
  by (auto simp: route_ends_def split: sum.split)

lemma route_plan_own:
  assumes "route_plan J tg path json ctx = Some pl" and "pl_request pl = Inl e" and "parse_body J body = Some json"
  shows "reads_throw J body e"
  using assms
  by (auto simp: route_plan_def reads_throw_def res_bind_eq_Inl config_get_request_def config_publish_request_def
      user_get_request_def user_create_request_def create_room_request_def join_room_request_def split: if_splits)

lemma start_http_own:
  "throws_own he (gt_auth s) (start_http he (HttpJob method path body token hs) method path body token s)"
  by (auto simp: start_http_def local_answer_def own_text_def split: sum.split option.split)

lemma claimed_task_own:
  assumes "throws_own he auth (GClaim job user)"
  shows "throws_own he auth (claimed_task he job user s)"
proof (cases job)
  case (HttpJob m path body token hs)
  then show ?thesis by (simp add: claimed_task_def own_text_def Let_def)
next
  case (WsJob payload u)
  then obtain json where json: "parse_body (he_json he) payload = Some json" using assms by auto
  show ?thesis
  proof (cases "gt_router s")
    case None
    then show ?thesis using dump_is_library by (auto simp: WsJob claimed_task_def Let_def dest!: document_throws split: sum.splits)
  next
    case (Some r)
    have "reads_throw (he_json he) payload e"
      if "json_value_string (he_json he) json ''path'' [] = Inl e \<or> json_value_string (he_json he) json ''body'' ''{}'' = Inl e" for e
      using that json unfolding reads_throw_def by blast
    then show ?thesis
      using json Some by (auto simp: WsJob claimed_task_def own_text_def Let_def res_bind_eq_Inl res_bind_eq_Inr split: sum.split)
  qed
qed

lemma route_branch_own:
  assumes "throws_own he auth (GRoute tk)"
  shows "throws_own he auth (route_branch (he_json he) tk r)"
proof (cases "parse_body (he_json he) (tk_body tk)")
  case None
  then show ?thesis
    by (auto simp: route_branch_def intro!: route_ends_own dump_is_library dest!: document_throws)
next
  case (Some json)
  note plan = route_plan_own [of "he_json he" "targets r" "tk_path tk" json "tk_context tk" _ _ "tk_body tk"]
  show ?thesis
  proof (cases "route_plan (he_json he) (targets r) (tk_path tk) json (tk_context tk)")
    case None
    then show ?thesis
      using Some by (auto simp: route_branch_def intro!: route_ends_own dump_is_library dest!: document_throws)
  next
    case (Some pl)
    then show ?thesis
      using plan [OF Some _ \<open>parse_body (he_json he) (tk_body tk) = Some json\<close>] assms \<open>parse_body (he_json he) (tk_body tk) = Some json\<close>
      by (auto simp: route_branch_def own_request_def own_text_def)
  qed
qed

lemma admin_own:
  assumes "own_text he auth job body"
  shows "throws_own he auth (fst (log_level_action he job m body s))" "throws_own he auth (runtime_config_action he job m body s)"
proof -
  show "throws_own he auth (fst (log_level_action he job m body s))"
    by (auto simp: log_level_action_def local_answer_def Let_def split_beta split: option.split)
  have "reads_throw (he_json he) body e" if "read_config (he_json he) json cfg = Inl e" "parse_body (he_json he) body = Some json" for json cfg e
    using that by (auto simp: read_config_def int_field_def reads_throw_def res_bind_eq_Inl res_bind_eq_Inr split: option.splits)
  then show "throws_own he auth (runtime_config_action he job m body s)"
    using assms by (auto simp: runtime_config_action_def local_answer_def own_text_def split: sum.splits option.splits)
qed

lemma throws_own_step:
  assumes own: "throws_own he (gt_auth s) t" and st: "request_step he t s = Some (t', s')"
  shows "throws_own he (gt_auth s) t'"
proof (cases t)
  case (GStart job)
  then show ?thesis
    using st start_http_own dump_is_library by (cases job) (auto dest!: document_throws split: option.splits sum.splits)
next
  case (GAdmin job path m body)
  then show ?thesis
    using st own admin_own [of he "gt_auth s" job body] by (auto simp: Let_def split: if_splits) (metis fst_conv)
next
  case (GLevel job)
  then show ?thesis
    using st dump_is_library by (auto simp: local_answer_def split_beta dest!: document_throws split: sum.splits)
next
  case (GShow job)
  then show ?thesis
    using st dump_is_library by (auto simp: local_answer_def dest!: document_throws split: sum.splits)
next
  case (GClaim job user)
  then show ?thesis using st own claimed_task_own [of he "gt_auth s" job user s] by auto
next
  case (GRoute tk)
  then show ?thesis using st own route_branch_own [of he "gt_auth s" tk] by auto
next
  case (GStub tk pl cfg target)
  then show ?thesis
    using st own by (auto simp: own_request_def split_beta intro!: route_ends_own split: sum.splits)
next
  case (GCall tk pl x)
  then show ?thesis
    using st by (auto intro!: route_ends_own dump_is_library dest!: document_throws split: option.splits if_splits)
next
  case (GCount tk k rr)
  then show ?thesis
    using st dump_is_library routed_answer_throws [of "he_json he" "tk_job tk" "Inr rr"] by (auto simp: Let_def split: if_splits)
next
  case (GElsewhere fs)
  then show ?thesis using st by (cases fs) auto
qed (use st own in \<open>auto simp: Let_def split_beta split: if_splits\<close>)

lemma put_view_auth [simp]: "gt_auth (put_view service c s) = gt_auth s"
  by (simp add: put_view_def set_outside_def set_router_def)

lemma auth_step:
  assumes st: "request_step he t s = Some (t', s')"
  shows "gt_auth s' = gt_auth s"
proof (cases t)
  case (GStart job)
  then show ?thesis using st by (cases job) auto
next
  case (GAdmin job path m body)
  then show ?thesis
    using st log_level_form [where P = "\<lambda>c. gt_auth (snd c) = gt_auth s" and s = s and he = he and job = job and m = "to_lower_ascii m" and body = body]
    by (auto simp: Let_def split: if_splits)
next
  case (GCall tk pl x)
  then show ?thesis using st by (auto split: option.splits)
next
  case (GElsewhere fs)
  then show ?thesis using st by (cases fs) (auto simp: set_outside_def)
qed (use st in \<open>auto simp: Let_def split_beta set_router_def count_name_def split: if_splits\<close>)

lemma throws_own_run:
  assumes "interleaved (request_step he) (ts, s) (ts', s')" and "\<forall>t \<in> set ts. throws_own he (gt_auth s) t"
  shows "gt_auth s' = gt_auth s \<and> (\<forall>t \<in> set ts'. throws_own he (gt_auth s) t)"
  using assms
proof (induction rule: rtranclp_induct2)
  case (step ts1 s1 ts2 s2)
  from step.hyps(2) obtain i t' where i: "ts2 = ts1[i := t']" "i < length ts1" "request_step he (ts1 ! i) s1 = Some (t', s2)"
    by (auto elim: interleaveE)
  have c: "gt_auth s1 = gt_auth s" "\<forall>t \<in> set ts1. throws_own he (gt_auth s) t" using step by simp_all
  have "throws_own he (gt_auth s1) (ts1 ! i)" using c i(2) by simp
  from throws_own_step [OF this i(3)] have "throws_own he (gt_auth s) t'" using c(1) by simp
  then show ?case
    using auth_step [OF i(3)] c by (auto simp: i(1) dest!: set_update_subset_insert [THEN subsetD])
qed simp

lemma ended_finished: "throws_own he auth t \<Longrightarrow> thread_ended t \<Longrightarrow> finished he auth t"
  by (cases t) auto

lemma finished_ended: "finished he auth t \<Longrightarrow> thread_ended t"
  by (cases t) auto

text \<open>
  C22: concurrent requests all come to an end, and none is missing in the counters. Take any number of
  HTTP requests and WebSocket messages at a gateway with a router, and the passing of time. Every interleaving of
  their actions ends, within a bound given by the attempts an \<open>int\<close> can configure; it can only stop
  with every job finished: it has its response or message, or an exception that a library threw for this very job, on the check of its
  token, on a field of its own body, or on the writing of a document as text (the session then sends nothing). The
  gateway's counters then stand exactly where counting the names of every routed request one after the
  other would have left them.
\<close>

theorem concurrent_requests_counted:
  assumes ok: "attempts_within he B ts s" and start: "\<forall>t \<in> set ts. starting t"
  shows "(\<exists>ts' s'. interleaved (request_step he) (ts, s) (ts', s') \<and> (\<forall>t \<in> set ts'. finished he (gt_auth s) t)) \<and>
    (\<forall>n ts' s'. (interleave (request_step he) ^^ n) (ts, s) (ts', s') \<longrightarrow>
       n \<le> sum_list (map (request_work B) ts) \<and>
       ((\<nexists>c. interleave (request_step he) (ts', s') c) \<longleftrightarrow> (\<forall>t \<in> set ts'. finished he (gt_auth s) t)) \<and>
       map thread_job ts' = map thread_job ts \<and>
       (\<forall>name. gateway_counter s' name = gateway_counter s name + of_nat (count_list (names_of ts') name)))"
proof (intro conjI allI impI)
  have "\<forall>t \<in> set ts. throws_own he (gt_auth s) t"
  proof
    fix t assume "t \<in> set ts"
    then have "starting t" using start by blast
    then show "throws_own he (gt_auth s) t" by (cases t) simp_all
  qed
  note own = throws_own_run [OF _ this, THEN conjunct2]
  obtain ts' s' where run: "interleaved (request_step he) (ts, s) (ts', s')" "attempts_within he B ts' s'"
      "\<forall>t \<in> set ts'. request_work B t = 0"
    using requests.run_to_end [OF ok] by blast
  then have "\<forall>t \<in> set ts'. thread_ended t" by (auto simp: attempts_within_def intro: work_ended)
  then show "\<exists>ts' s'. interleaved (request_step he) (ts, s) (ts', s') \<and> (\<forall>t \<in> set ts'. finished he (gt_auth s) t)"
    using run(1) own [OF run(1)] ended_finished by blast
  fix n ts' s' name
  assume run: "(interleave (request_step he) ^^ n) (ts, s) (ts', s')"
  then have steps: "interleaved (request_step he) (ts, s) (ts', s')" by (rule relpowp_imp_rtranclp)
  note b = requests.steps_bounded [OF run ok]
  show "n \<le> sum_list (map (request_work B) ts)" using b(1) by simp
  have "request_work B t = 0 \<longleftrightarrow> finished he (gt_auth s) t" if "t \<in> set ts'" for t
  proof -
    have "finished he (gt_auth s) t \<longleftrightarrow> thread_ended t"
      using own [OF steps] that ended_finished finished_ended by blast
    then show ?thesis using that b(2) ended_work [of t B] work_ended [of B t] by (auto simp: attempts_within_def)
  qed
  then show "(\<nexists>c. interleave (request_step he) (ts', s') c) \<longleftrightarrow> (\<forall>t \<in> set ts'. finished he (gt_auth s) t)"
    unfolding requests.stuck_iff_done [where B = B] by simp
  show "map thread_job ts' = map thread_job ts" by (rule jobs_run [OF steps])
  have "counted_names t = []" if "t \<in> set ts" for t using start that by (cases t) auto
  then have "names_of ts = []" by (simp add: names_of_def)
  then show "gateway_counter s' name = gateway_counter s name + of_nat (count_list (names_of ts') name)"
    using count_run [OF steps, of name] by simp
qed

text \<open>Two requests and a moment that passes.\<close>

definition sample_requests :: "(document, nat) request_thread list" where
  "sample_requests =
     [GStart (HttpJob ''POST'' ''/user/get'' [] ''user:ann'' (\<lambda>_. None)),
      GStart (HttpJob ''POST'' ''/user/get'' [] ''user:ann'' (\<lambda>_. None)), GElsewhere [Suc]]"

definition bounded_http_env :: "(document, nat) http_env" where
  "bounded_http_env = sample_http_env\<lparr>he_route := (he_route sample_http_env)\<lparr>ge_json :=
     sample_json\<lparr>json_get_int := (\<lambda>j. case j of DNum n \<Rightarrow> Inr (min n 2147483647) | _ \<Rightarrow> Inl Json_type_error)\<rparr>\<rparr>\<rparr>"

theorem concurrent_requests_counted_witness:
  "\<exists>ts' s'. interleaved (request_step bounded_http_env) (sample_requests, sample_gateway) (ts', s') \<and>
     (\<forall>t \<in> set ts'. finished bounded_http_env (gt_auth sample_gateway) t)"
proof -
  have "attempts_within bounded_http_env 2147483647 sample_requests sample_gateway"
    by (auto simp: attempts_within_def bounded_http_env_def sample_gateway_def sample_requests_def sample_router_def
        GrpcRouter_def StartGrpcWorkers_def default_runtime_config_def split: document.splits)
  from concurrent_requests_counted [OF this] show ?thesis by (simp add: sample_requests_def)
qed

end
