(* ===== verification/Gateway_Identities.thy ===== *)
theory Gateway_Identities
  imports Gateway_Threads
begin

text \<open>
  Whose requests the concurrent coroutines of \<open>Gateway_Threads\<close> are: the tickets of the request
  counter, the users and the contexts they run with; and what two updates of the router's
  configuration (\<open>http/http_server.cpp\<close>) do to each other.
\<close>

section \<open>Whose requests they are\<close>

text \<open>The user a job may act for: that of an accepted token, or of the upgraded connection.\<close>

definition may_act_for :: "('j, 'w) http_env \<Rightarrow> auth_options option \<Rightarrow> job \<Rightarrow> string \<Rightarrow> bool" where
  "may_act_for he auth job user =
     (case job of
        HttpJob m path body token hs \<Rightarrow>
          \<not> public_path path \<and> \<not> admin_path path \<and>
          (\<exists>g auth_ctx. gt_auth g = auth \<and> check_token he token g = Inr (Some auth_ctx) \<and> user = user_id auth_ctx)
      | WsJob payload u \<Rightarrow> user = u)"

lemma may_act_message [simp]: "may_act_for he auth (WsJob payload u) user \<longleftrightarrow> user = u"
  by (simp add: may_act_for_def)

definition job_headers :: "'j json_api \<Rightarrow> job \<Rightarrow> headers" where
  "job_headers J job =
     (case job of
        HttpJob m path body token hs \<Rightarrow> hs
      | WsJob payload u \<Rightarrow> ws_headers J (the (parse_body J payload)))"

definition ticket :: "job \<Rightarrow> 64 word \<Rightarrow> string" where
  "ticket job n = (case job of HttpJob m path body token hs \<Rightarrow> ''gw-req-'' | WsJob payload u \<Rightarrow> ''gw-ws-'') @ to_string (uint n)"

lemma ticket_inj: "ticket job n = ticket job' n' \<Longrightarrow> n = n'"
  by (auto simp: ticket_def word_uint_eq_iff split: job.splits)

fun claimed :: "('j, 'w) request_thread \<Rightarrow> task option" where
  "claimed (GRoute tk) = Some tk"
| "claimed (GResolve tk pl cfg) = Some tk"
| "claimed (GStub tk pl cfg target) = Some tk"
| "claimed (GCall tk pl t) = Some tk"
| "claimed (GCount tk k rr) = Some tk"
| "claimed (GAnswered job routed a) = map_option fst routed"
| "claimed t = None"

fun may_claim :: "('j, 'w) request_thread \<Rightarrow> bool" where
  "may_claim (GStart job) = True"
| "may_claim (GClaim job user) = True"
| "may_claim t = False"

fun claims_now :: "('j, 'w) request_thread \<Rightarrow> bool" where
  "claims_now (GClaim job user) = True"
| "claims_now t = False"

fun call_context :: "'w invoke_thread \<Rightarrow> request_context option" where
  "call_context (IStart iv) = Some (iv_context iv)"
| "call_context (IAdmit iv) = Some (iv_context iv)"
| "call_context (ICall iv n) = Some (iv_context iv)"
| "call_context (IReturned iv n r) = Some (iv_context iv)"
| "call_context (IWait iv n reply) = Some (iv_context iv)"
| "call_context (IRefused iv r) = Some (iv_context iv)"
| "call_context (IAnswered iv r) = Some (iv_context iv)"
| "call_context (IElsewhere fs) = None"

lemma call_context_step: "invoke_thread_step env rnd t s = Some (t', s') \<Longrightarrow> call_context t' = call_context t"
  by (cases "(env, rnd, t, s)" rule: invoke_thread_step.cases) (auto simp: Let_def split_beta split: if_splits)

lemma local_claims [simp]:
  "claimed (local_answer job r) = None" "claimed (runtime_config_action he job m body s) = None"
  "claimed (start_http he job m path body token s) = None"
  by (rule request_forms [where P = "\<lambda>t. claimed t = None"]; simp)+

lemma routed_claims [simp]:
  "claimed (route_ends J tk routed) = Some tk" "claimed (route_branch J tk r') = Some tk"
  by (rule request_forms [where P = "\<lambda>t. claimed t = Some tk"]; simp)+

lemma past_claiming [simp]:
  "\<not> may_claim (local_answer job r)" "\<not> may_claim (runtime_config_action he job m body s)"
  "\<not> may_claim (route_ends J tk routed)" "\<not> may_claim (route_branch J tk r')" "\<not> may_claim (claimed_task he job user s)"
  by (rule request_forms [where P = "\<lambda>t. \<not> may_claim t"]; simp)+

lemma log_level_claims:
  "log_level_action he job m body s = (t, s') \<Longrightarrow>
   claimed t = None \<and> \<not> may_claim t \<and> request_seq s' = request_seq s \<and> gt_auth s' = gt_auth s"
  using log_level_form [where P = "\<lambda>c. claimed (fst c) = None \<and> \<not> may_claim (fst c) \<and>
    request_seq (snd c) = request_seq s \<and> gt_auth (snd c) = gt_auth s", of job s he m body] by simp

lemma claim_frame [simp]:
  "request_seq (set_router r s) = request_seq s" "request_seq (set_outside w s) = request_seq s"
  "request_seq (put_view service c s) = request_seq s" "request_seq (count_name name s) = request_seq s"
  "gt_auth (set_router r s) = gt_auth s" "gt_auth (set_outside w s) = gt_auth s"
  "gt_auth (put_view service c s) = gt_auth s" "gt_auth (count_name name s) = gt_auth s"
  by (simp_all add: set_router_def set_outside_def put_view_def count_name_def)

lemma claim_step:
  assumes st: "request_step he t s = Some (t', s')"
  shows "request_seq s' = request_seq s + (if claims_now t then 1 else 0) \<and> gt_auth s' = gt_auth s \<and>
    (may_claim t' \<longrightarrow> may_claim t \<and> \<not> claims_now t) \<and>
    (claims_now t \<or> claimed t' = claimed t)"
proof (cases t)
  case (GStart job)
  then show ?thesis using st by (cases job) (auto split: option.splits)
next
  case (GAdmin job path m body)
  then show ?thesis using st by (auto simp: Let_def dest: log_level_claims split: if_splits)
next
  case (GStub tk pl cfg target)
  then show ?thesis using st by (auto simp: split_beta split: sum.splits)
next
  case (GCall tk pl x)
  then show ?thesis using st by (auto split: option.splits)
next
  case (GElsewhere fs)
  then show ?thesis using st by (cases fs) auto
qed (use st in \<open>auto simp: Let_def split_beta split: if_splits\<close>)

interpretation request_ids: thread_counter "request_step he" request_seq may_claim claims_now
  for he
proof
  fix t :: "('a, 'b) request_thread"
  show "claims_now t \<Longrightarrow> may_claim t" by (cases t) auto
qed (use claim_step in blast)+


definition task_holds :: "('j, 'w) http_env \<Rightarrow> auth_options option \<Rightarrow> task \<Rightarrow> 'w gateway \<Rightarrow> bool" where
  "task_holds he auth tk s \<longleftrightarrow>
     (\<exists>n < request_seq s. tk_generated tk = ticket (tk_job tk) n) \<and>
     may_act_for he auth (tk_job tk) (user_id (tk_context tk)) \<and>
     (\<exists>user. tk_context tk = (header_context (job_headers (he_json he) (tk_job tk)) (tk_generated tk))\<lparr>user_id := user\<rparr>)"

definition request_holds :: "('j, 'w) http_env \<Rightarrow> auth_options option \<Rightarrow> ('j, 'w) request_thread \<Rightarrow> 'w gateway \<Rightarrow> bool" where
  "request_holds he auth t s \<longleftrightarrow>
     (\<forall>job user. t = GClaim job user \<longrightarrow> may_act_for he auth job user) \<and>
     (\<forall>tk. claimed t = Some tk \<longrightarrow> task_holds he auth tk s \<and> thread_job t = Some (tk_job tk)) \<and>
     (\<forall>tk pl x ctx. t = GCall tk pl x \<longrightarrow> call_context x = Some ctx \<longrightarrow> ctx = tk_context tk)"

definition own_tickets :: "('j, 'w) request_thread \<Rightarrow> ('j, 'w) request_thread \<Rightarrow> bool" where
  "own_tickets t u \<longleftrightarrow>
     (\<forall>tk tk'. claimed t = Some tk \<longrightarrow> claimed u = Some tk' \<longrightarrow> tk_generated tk \<noteq> tk_generated tk')"

lemma own_tickets_sym: "own_tickets t u \<Longrightarrow> own_tickets u t"
  unfolding own_tickets_def by metis

lemma task_holds_later: "task_holds he auth tk s \<Longrightarrow> request_seq s \<le> request_seq s' \<Longrightarrow> task_holds he auth tk s'"
  unfolding task_holds_def by (meson order_less_le_trans)

lemma start_may_act:
  "start_http he (HttpJob m path body token hs) m path body token s = GClaim job user \<Longrightarrow>
   may_act_for he (gt_auth s) job user"
  by (auto simp: start_http_def local_answer_def may_act_for_def public_path_def admin_path_def
      intro!: exI [of _ s] split: if_splits sum.splits option.splits)

lemma claimed_task_holds:
  assumes "claimed (claimed_task he job user s) = Some tk" and "may_act_for he auth job user"
    and "request_seq s < request_seq s + 1"
  shows "task_holds he auth tk (s\<lparr>request_seq := request_seq s + 1\<rparr>)" and "tk_generated tk = ticket job (request_seq s)"
    and "tk_job tk = job"
  using assms
  by (auto simp: claimed_task_def task_holds_def ticket_def job_headers_def may_act_for_def Let_def
      split: job.splits sum.splits option.splits prod.splits)


lemma GClaim_from:
  assumes "request_step he t s = Some (GClaim job user, s')"
  shows "may_act_for he (gt_auth s) job user"
proof -
  have "may_claim t \<and> \<not> claims_now t" using claim_step [OF assms] by simp
  then obtain job' where "t = GStart job'" by (cases t) auto
  then show ?thesis using assms by (cases job') (auto dest: start_may_act split: option.splits)
qed

lemma GCall_from:
  assumes "request_step he t s = Some (GCall tk pl x, s')"
  shows "call_context x = Some (tk_context tk) \<or> (\<exists>y. t = GCall tk pl y \<and> call_context x = call_context y)"
proof -
  have "claims_now t \<or> claimed t = Some tk" using claim_step [OF assms] by auto
  then show ?thesis
    using assms call_context_step
    by (cases t) (auto simp: Let_def split_beta claimed_task_def route_branch_def route_ends_def
        split: if_splits option.splits sum.splits job.splits)
qed


lemma request_own_holds:
  assumes left: "values_left request_seq may_claim ts s" and i: "i < length ts" and auth: "gt_auth s = auth"
    and t: "request_holds he auth (ts ! i) s" and st: "request_step he (ts ! i) s = Some (t', s')"
  shows "gt_auth s' = auth \<and> request_holds he auth t' s'"
proof -
  note step = claim_step [OF st]
  have "may_act_for he auth job user" if "t' = GClaim job user" for job user
    using GClaim_from st that auth by blast
  moreover have "task_holds he auth tk s' \<and> thread_job t' = Some (tk_job tk)" if tk: "claimed t' = Some tk" for tk
  proof (cases "claims_now (ts ! i)")
    case True
    then obtain job user where ti: "ts ! i = GClaim job user" by (cases "ts ! i") auto
    show ?thesis
      using claimed_task_holds(1,3) [OF _ _ request_ids.no_wrap(2) [OF left i st True], of he job user tk auth] st t tk
      by (auto simp: ti request_holds_def)
  next
    case False
    then have "claimed (ts ! i) = Some tk" "request_seq s \<le> request_seq s'" using step tk by simp_all
    then show ?thesis using t job_step [OF st] by (auto simp: request_holds_def intro: task_holds_later)
  qed
  moreover have "ctx = tk_context tk" if "t' = GCall tk pl x" "call_context x = Some ctx" for tk pl x ctx
    using GCall_from [of he "ts ! i" s tk pl x s'] st that t by (auto simp: request_holds_def)
  ultimately show ?thesis using step auth by (simp add: request_holds_def)
qed

lemma request_others_hold:
  assumes left: "values_left request_seq may_claim ts s" and i: "i < length ts"
    and t: "request_holds he auth (ts ! i) s" and u: "request_holds he auth u s"
    and p: "own_tickets (ts ! i) u" "own_tickets u (ts ! i)" and st: "request_step he (ts ! i) s = Some (t', s')"
  shows "request_holds he auth u s' \<and> own_tickets t' u \<and> own_tickets u t'"
proof -
  note step = claim_step [OF st]
  have le: "request_seq s \<le> request_seq s'"
    using step request_ids.no_wrap(2) [OF left i st] by (auto simp: less_imp_le)
  then have "request_holds he auth u s'"
    using u task_holds_later by (auto simp: request_holds_def)
  moreover have "own_tickets t' u"
    unfolding own_tickets_def
  proof (intro allI impI)
    fix tk tk' assume tk: "claimed t' = Some tk" "claimed u = Some tk'"
    show "tk_generated tk \<noteq> tk_generated tk'"
    proof (cases "claims_now (ts ! i)")
      case True
      then obtain job user where ti: "ts ! i = GClaim job user" by (cases "ts ! i") auto
      have "tk_generated tk = ticket job (request_seq s)"
        using claimed_task_holds(2) [OF _ _ request_ids.no_wrap(2) [OF left i st True], of he job user tk auth] st t tk
        by (auto simp: ti request_holds_def)
      moreover obtain n where "n < request_seq s" "tk_generated tk' = ticket (tk_job tk') n"
        using u tk(2) by (auto simp: request_holds_def task_holds_def)
      ultimately show ?thesis using ticket_inj by (metis less_irrefl)
    next
      case False
      then show ?thesis using step tk p by (auto simp: own_tickets_def)
    qed
  qed
  ultimately show ?thesis using own_tickets_sym by blast
qed

interpretation identified: thread_invariant "request_step he" "\<lambda>s. gt_auth s = auth" "request_holds he auth" own_tickets
    "values_left request_seq may_claim"
  for he auth
  by unfold_locales (erule (2) request_ids.values_left_step, erule (4) request_own_holds, erule (6) request_others_hold)


text \<open>
  C21: concurrent requests keep their identities. However any number of requests and messages are
  interleaved, as long as the 64-bit counter has a number left for each, no two that are routed have
  the same generated id; each runs with the user its own token stood for when it was checked, or the user of
  its connection; its calls carry its own context; and where the client sent no \<open>x-request-id\<close>, the
  generated one goes downstream.
\<close>

theorem concurrent_requests_identified:
  assumes run: "interleaved (request_step he) (ts, s) (ts', s')" and start: "\<forall>t \<in> set ts. starting t"
    and left: "unat (request_seq s) + length ts < 2 ^ 64"
    and i: "i < length ts" "claimed (ts' ! i) = Some tk" and j: "j < length ts" "claimed (ts' ! j) = Some tk2" "i \<noteq> j"
  shows "tk_generated tk \<noteq> tk_generated tk2 \<and> ts ! i = GStart (tk_job tk) \<and>
    may_act_for he (gt_auth s) (tk_job tk) (user_id (tk_context tk)) \<and>
    (\<forall>pl x ctx. ts' ! i = GCall tk pl x \<longrightarrow> call_context x = Some ctx \<longrightarrow> ctx = tk_context tk) \<and>
    (HeaderOrEmpty (job_headers (he_json he) (tk_job tk)) ''x-request-id'' = [] \<longrightarrow>
       last_value kMetaRequestId (AddMetadata (tk_context tk)) = tk_generated tk)"
proof -
  have len: "length ts' = length ts" by (rule interleaved_length [OF run])
  have none: "claimed t = None \<and> (\<forall>job user. t \<noteq> GClaim job user) \<and> (\<forall>tk pl x. t \<noteq> GCall tk pl x)" if "t \<in> set ts" for t
    using start that by (cases t) auto
  then have holds: "\<forall>t \<in> set ts. request_holds he (gt_auth s) t s" by (auto simp: request_holds_def)
  have apart: "\<forall>i < length ts. \<forall>j < length ts. i \<noteq> j \<longrightarrow> own_tickets (ts ! i) (ts ! j)"
    using none by (simp add: own_tickets_def)
  have room: "values_left request_seq may_claim ts s"
    using left waiting_le [of may_claim ts] by (simp add: values_left_def)
  note keeps = identified.run_keeps [OF run room refl holds apart]
  have h: "request_holds he (gt_auth s) (ts' ! i) s'" using keeps(2) i(1) len by simp
  have "own_tickets (ts' ! i) (ts' ! j)" using keeps(3) i(1) j(1,3) len by simp
  then have "tk_generated tk \<noteq> tk_generated tk2" using i(2) j(2) by (simp add: own_tickets_def)
  moreover have "ts ! i = GStart (tk_job tk)"
  proof -
    have "thread_job (ts ! i) = Some (tk_job tk)"
      using jobs_run [OF run] h i len by (metis nth_map request_holds_def)
    moreover have "starting (ts ! i)" using start i(1) by simp
    ultimately show ?thesis by (cases "ts ! i") auto
  qed
  moreover obtain user where "tk_context tk =
      (header_context (job_headers (he_json he) (tk_job tk)) (tk_generated tk))\<lparr>user_id := user\<rparr>"
    using h i(2) by (auto simp: request_holds_def task_holds_def)
  then have "HeaderOrEmpty (job_headers (he_json he) (tk_job tk)) ''x-request-id'' = [] \<longrightarrow>
       request_id (tk_context tk) = tk_generated tk"
    by (simp add: header_context_def or_default_def BuildContextFromHeaders_def Let_def)
  moreover have "last_value kMetaRequestId (AddMetadata ctx) = request_id ctx" for ctx
    by (simp add: AddMetadata_def add_unless_empty_def last_value_def)
  ultimately show ?thesis using h i(2) by (auto simp: request_holds_def task_holds_def)
qed


section \<open>An update of the configuration can be lost\<close>

text \<open>
  The handler of a posted configuration reads the configuration, changes the fields that were sent
  and writes all of it back, under the mutex for each access but not in between. Of two requests of \<open>dev-user\<close>,
  one for the attempts and one for the time-out, both can be answered with 200 and their new values,
  and the first is gone.
\<close>

definition post_config :: "string \<Rightarrow> headers \<Rightarrow> string \<Rightarrow> job" where
  "post_config token hs body = HttpJob ''POST'' ''/admin/runtime-config'' body token hs"

lemma runtime_update_lost:
  fixes he :: "('j, 'w) http_env"
  assumes token: "check_token he token s = Inr ctx" "is_admin ctx" and r: "gt_router s = Some r"
    and a: "parse_body (he_json he) ba = Some ja" "\<And>cfg. read_config (he_json he) ja cfg = Inr (cfg\<lparr>retry_attempts := n\<rparr>)"
    and b: "parse_body (he_json he) bb = Some jb" "\<And>cfg. read_config (he_json he) jb cfg = Inr (cfg\<lparr>grpc_timeout_ms := m\<rparr>)"
  shows "\<exists>s'. interleaved (request_step he) ([GStart (post_config token hs ba), GStart (post_config token hs bb)], s)
      ([GAnswered (post_config token hs ba) None (HttpAnswer (config_response (he_json he)
          (GetRuntimeConfig (UpdateRuntimeConfig ((runtime_config r)\<lparr>retry_attempts := n\<rparr>) r)))),
        GAnswered (post_config token hs bb) None (HttpAnswer (config_response (he_json he) (GetRuntimeConfig (the_router s'))))], s') \<and>
    runtime_config (the_router s') = runtime_config (UpdateRuntimeConfig ((runtime_config r)\<lparr>grpc_timeout_ms := m\<rparr>) r)"
proof -
  let ?step = "request_step he" and ?ja = "post_config token hs ba" and ?jb = "post_config token hs bb"
  let ?ca = "(runtime_config r)\<lparr>retry_attempts := n\<rparr>" and ?cb = "(runtime_config r)\<lparr>grpc_timeout_ms := m\<rparr>"
  let ?sa = "set_router (UpdateRuntimeConfig ?ca r) s"
  let ?sb = "set_router (UpdateRuntimeConfig ?cb (UpdateRuntimeConfig ?ca r)) s"
  let ?adm = "\<lambda>job body. GAdmin job ''/admin/runtime-config'' ''POST'' body"
  note post_config_def [simp]
  have post: "to_lower_ascii ''POST'' = ''post''" by code_simp
  have start: "?step (GStart (post_config token hs body)) s = Some (?adm (post_config token hs body) body, s)" for body
    using token by (simp add: start_http_def)
  have reads: "?step (?adm ?ja ba) s = Some (GUpdate ?ja ?ca, s)" "?step (?adm ?jb bb) s = Some (GUpdate ?jb ?cb, s)"
    using r a b by (simp_all add: runtime_config_action_def post GetRuntimeConfig_def)
  have upd: "?step (GUpdate ?ja ?ca) s = Some (GShow ?ja, ?sa)" "?step (GUpdate ?jb ?cb) ?sa = Some (GShow ?jb, ?sb)"
    using r by (simp_all add: the_router_def set_router_def)
  define A :: "('j, 'w) request_thread" where "A = GAnswered ?ja None (HttpAnswer (config_response (he_json he)
      (GetRuntimeConfig (UpdateRuntimeConfig ?ca r))))"
  define C :: "('j, 'w) request_thread" where "C = GAnswered ?jb None (HttpAnswer (config_response (he_json he) (GetRuntimeConfig (the_router ?sb))))"
  have answers: "?step (GShow ?ja) ?sa = Some (A, ?sa)" "?step (GShow ?jb) ?sb = Some (C, ?sb)"
    by (simp_all add: A_def C_def local_answer_def the_router_def set_router_def)
  have go: "interleaved ?step ([t, u], x) d" if "?step t x = Some (t', x')" "interleaved ?step ([t', u], x') d" for t t' u x x' d
    using interleave.move [of 0 "[t, u]" ?step x t' x'] that by (simp add: converse_rtranclp_into_rtranclp)
  have go2: "interleaved ?step ([t, u], x) d" if "?step u x = Some (u', x')" "interleaved ?step ([t, u'], x') d" for t u u' x x' d
    using interleave.move [of 1 "[t, u]" ?step x u' x'] that by (simp add: converse_rtranclp_into_rtranclp)
  have "interleaved ?step ([GStart ?ja, GStart ?jb], s) ([A, C], ?sb)"
    by (rule go [OF start], rule go2 [OF start], rule go [OF reads(1)], rule go2 [OF reads(2)], rule go [OF upd(1)],
        rule go [OF answers(1)], rule go2 [OF upd(2)], rule go2 [OF answers(2)]) (rule rtranclp.rtrancl_refl)
  moreover have "runtime_config (the_router ?sb) = runtime_config (UpdateRuntimeConfig ?cb r)"
    by (simp add: the_router_def set_router_def UpdateRuntimeConfig_def Let_def)
  ultimately show ?thesis unfolding A_def C_def by blast
qed


section \<open>A concrete run\<close>

lemma token_of_ann:
  "gt_auth g = Some default_auth_options \<Longrightarrow>
   check_token sample_http_env ''user:ann'' g = Inr (Some (empty_context\<lparr>user_id := ''ann''\<rparr>))"
  by (simp add: check_token_def Authenticate_def strip_bearer_def default_auth_options_def kLegacyDevToken_def Let_def)

text \<open>Both requests start and take their numbers.\<close>

lemma sample_tickets:
  "\<exists>ts' s' tk tk2. interleaved (request_step sample_http_env) (sample_requests, sample_gateway) (ts', s') \<and>
     claimed (ts' ! 0) = Some tk \<and> claimed (ts' ! 1) = Some tk2"
proof -
  let ?step = "request_step sample_http_env" and ?t = "GStart (HttpJob ''POST'' ''/user/get'' [] ''user:ann'' (\<lambda>_. None))"
  let ?g1 = "snd (solo ?step 2 ?t sample_gateway)" and ?t1 = "fst (solo ?step 2 ?t sample_gateway)"
  let ?t2 = "fst (solo ?step 2 ?t ?g1)" and ?g2 = "snd (solo ?step 2 ?t ?g1)"
  have two: "\<exists>tk. claimed (fst (solo ?step 2 ?t g)) = Some tk" "snd (solo ?step 2 ?t g) = g\<lparr>request_seq := request_seq g + 1\<rparr>"
    if "gt_auth g = Some default_auth_options" "gt_router g = Some sample_router" for g
    using that by (simp_all add: numeral_2_eq_2 start_http_def token_of_ann claimed_task_def Let_def)
  have g: "gt_auth sample_gateway = Some default_auth_options" "gt_router sample_gateway = Some sample_router"
    by (simp_all add: sample_gateway_def)
  have "interleaved ?step (sample_requests, sample_gateway) (sample_requests[0 := ?t1], ?g1)"
    by (rule solo_interleaved) (simp_all add: sample_requests_def)
  moreover have "interleaved ?step (sample_requests[0 := ?t1], ?g1) (sample_requests[0 := ?t1, 1 := ?t2], ?g2)"
    by (rule solo_interleaved) (simp_all add: sample_requests_def)
  ultimately have "interleaved ?step (sample_requests, sample_gateway) (sample_requests[0 := ?t1, 1 := ?t2], ?g2)" by simp
  moreover have "\<exists>tk. claimed ?t1 = Some tk" "\<exists>tk. claimed ?t2 = Some tk"
    using two(1) [OF g] two(1) [of ?g1] g two(2) [OF g] by simp_all
  ultimately show ?thesis by (force simp: sample_requests_def)
qed

theorem concurrent_requests_identified_witness:
  "\<exists>ts' s' tk tk2. interleaved (request_step sample_http_env) (sample_requests, sample_gateway) (ts', s') \<and>
     claimed (ts' ! 0) = Some tk \<and> claimed (ts' ! 1) = Some tk2 \<and> tk_generated tk \<noteq> tk_generated tk2 \<and>
     last_value kMetaRequestId (AddMetadata (tk_context tk)) = tk_generated tk"
proof -
  obtain ts' s' tk tk2 where run: "interleaved (request_step sample_http_env) (sample_requests, sample_gateway) (ts', s')"
    and c: "claimed (ts' ! 0) = Some tk" "claimed (ts' ! 1) = Some tk2"
    using sample_tickets by blast
  have start: "\<forall>t \<in> set sample_requests. starting t" by (simp add: sample_requests_def)
  have left: "unat (request_seq sample_gateway) + length sample_requests < 2 ^ 64"
    by (simp add: sample_gateway_def sample_requests_def)
  note id = concurrent_requests_identified [OF run start left _ c(1) _ c(2)]
  have "tk_job tk = HttpJob ''POST'' ''/user/get'' [] ''user:ann'' (\<lambda>_. None)"
    using id by (simp add: sample_requests_def)
  then show ?thesis
    using id run c by (auto simp: sample_requests_def job_headers_def HeaderOrEmpty_def)
qed

end
