(* ===== verification/Deployment.thy ===== *)
theory Deployment
  imports Http_Server Game_Service Message_Queue Config_Loader Application
begin

text \<open>
  The four \<open>main\<close> functions and what joins the processes they start. A \<open>main\<close> reads its configuration
  file, initialises the logger, builds its service on fresh backends, and listens; the second part
  of the theory puts the three services behind the gateway's gRPC calls: a call on a stub reaches
  the service that listens at the stub's target, or nobody.
\<close>

section \<open>Starting up\<close>

text \<open>
  The logger after the configuration was read: a file that cannot be opened is reported through the
  logger, before \<open>InitLogger\<close>.
\<close>

definition boot_log :: "(string \<Rightarrow> bool) \<Rightarrow> string list option \<Rightarrow> logger_options \<Rightarrow> log_process" where
  "boot_log mkdir_ok file options =
     InitLogger mkdir_ok options (if file = None then Raw mkdir_ok log_start else log_start)"

definition log_options :: "string \<Rightarrow> string \<Rightarrow> int \<Rightarrow> int \<Rightarrow> string \<Rightarrow> logger_options" where
  "log_options name dir size_mb n_files lvl =
     \<lparr>lo_service_name = name, lo_log_dir = dir, lo_max_file_size_mb = word_of_int size_mb,
      lo_max_files = word_of_int n_files, lo_level = lvl, lo_enable_console = True\<rparr>"

definition service_log_options :: "service_config \<Rightarrow> logger_options" where
  "service_log_options cfg =
     log_options (sc_service_name cfg) (sc_log_dir cfg) (sc_log_max_size_mb cfg) (sc_log_max_files cfg)
       (sc_log_level cfg)"

definition listen_addr :: "service_config \<Rightarrow> string" where
  "listen_addr cfg = sc_bind_host cfg @ '':'' @ to_string (uint (sc_grpc_port cfg))"

definition own_instance :: "service_config \<Rightarrow> service_instance" where
  "own_instance cfg =
     \<lparr>service_name = sc_service_name cfg,
      instance_id = sc_service_name cfg @ ''-'' @ to_string (uint (sc_grpc_port cfg)),
      host = sc_bind_host cfg, port = sc_grpc_port cfg, protocol = ''grpc'',
      version_tag = ''v1'', zone_name = ''default''\<rparr>"

text \<open>
  A process that serves until the server is shut down, or an exit code. \<open>built\<close> tells whether
  \<open>BuildAndStart\<close> got a server.
\<close>

record 's service_process =
  sp_log :: log_process
  sp_address :: string
  sp_service :: 's
  sp_etcd :: "etcd_state shared_states"
  sp_consumer :: "(string \<Rightarrow> unit) consumer option"

datatype 'p started = Exited int | Serving 'p

definition registered :: "scan_order \<Rightarrow> service_config \<Rightarrow> etcd_state shared_states \<Rightarrow> etcd_state shared_states" where
  "registered sc cfg ss = snd (with_state (sc_etcd_endpoints cfg) (Register_body sc (own_instance cfg)) ss)"

definition config_main :: "(string \<Rightarrow> bool) \<Rightarrow> scan_order \<Rightarrow> bool \<Rightarrow> string list option \<Rightarrow>
    exn + config_service service_process started" where
  "config_main mkdir_ok sc built file =
     res_bind (LoadServiceConfig file ''config_service'' 50051) (\<lambda>cfg.
       let lg = boot_log mkdir_ok file (service_log_options cfg);
           service = ConfigServiceImpl (Some mysql_empty) (Some redis_empty)
             (Some (sc_etcd_endpoints cfg, no_states)) (Some empty_bus)
       in if \<not> built then Inr (Exited 1)
          else
            (let ss = registered sc cfg no_states
             in Inr (Serving
               \<lparr>sp_log = lg, sp_address = listen_addr cfg,
                sp_service = service\<lparr>cs_provider := Some (sc_etcd_endpoints cfg, ss)\<rparr>,
                sp_etcd = ss, sp_consumer = None\<rparr>)))"

definition user_main :: "(string \<Rightarrow> bool) \<Rightarrow> scan_order \<Rightarrow> bool \<Rightarrow> string list option \<Rightarrow>
    exn + user_service service_process started" where
  "user_main mkdir_ok sc built file =
     res_bind (LoadServiceConfig file ''user_service'' 50052) (\<lambda>cfg.
       let lg = boot_log mkdir_ok file (service_log_options cfg);
           c = consumer_Start (Subscribe ''config.changed'' (\<lambda>payload. ())
                 (CreateRedisStreamsConsumer (sc_mq_uri cfg) ''config_group'' (sc_service_name cfg)));
           service = UserServiceImpl (Some mysql_empty) (Some redis_empty)
       in if \<not> built then Inr (Exited 1)
          else Inr (Serving
            \<lparr>sp_log = lg, sp_address = listen_addr cfg, sp_service = service,
             sp_etcd = registered sc cfg no_states, sp_consumer = Some c\<rparr>))"

definition game_main :: "(string \<Rightarrow> bool) \<Rightarrow> scan_order \<Rightarrow> bool \<Rightarrow> string list option \<Rightarrow>
    exn + game_service service_process started" where
  "game_main mkdir_ok sc built file =
     res_bind (LoadServiceConfig file ''game_service'' 50053) (\<lambda>cfg.
       let lg = boot_log mkdir_ok file (service_log_options cfg);
           service = GameServiceImpl (Some redis_empty)
       in if \<not> built then Inr (Exited 1)
          else Inr (Serving
            \<lparr>sp_log = lg, sp_address = listen_addr cfg, sp_service = service,
             sp_etcd = registered sc cfg no_states, sp_consumer = None\<rparr>))"

text \<open>What \<open>server->Wait()\<close> is followed by: the user service stops its consumer.\<close>

definition service_exit :: "'s service_process \<Rightarrow> 's service_process" where
  "service_exit p = p\<lparr>sp_consumer := map_option consumer_Stop (sp_consumer p)\<rparr>"

subsection \<open>The gateway\<close>

record 'w gateway_process =
  gp_gateway :: "'w gateway"
  gp_server :: http_server
  gp_app :: "(http_server \<Rightarrow> http_server) application"

definition gateway_main :: "(string \<Rightarrow> bool) \<Rightarrow> nat \<Rightarrow> time_ns \<Rightarrow> 'w \<Rightarrow> listen_outcome \<Rightarrow> string list option \<Rightarrow>
    exn + 'w gateway_process" where
  "gateway_main mkdir_ok hardware_concurrency now outside bound file =
     res_bind (LoadGatewayConfig file) (\<lambda>cfg.
       let lg = boot_log mkdir_ok file
             (log_options ''access_gateway'' (gc_log_dir cfg) (gc_log_max_size_mb cfg) (gc_log_max_files cfg)
                (gc_log_level cfg));
           app = new_application ''access_gateway'';
           r = GrpcRouter
             \<lparr>config_service_target = gc_config_service_target cfg, user_service_target = gc_user_service_target cfg,
              game_service_target = gc_game_service_target cfg\<rparr>
             (Some (gc_etcd_endpoints cfg))
             \<lparr>grpc_timeout_ms = gc_grpc_timeout_ms cfg, retry_attempts = gc_grpc_retry_attempts cfg,
              retry_backoff_ms = gc_grpc_retry_backoff_ms cfg\<rparr>
             hardware_concurrency now;
           auth = \<lparr>jwt_secret = gc_jwt_secret cfg, jwt_issuer = gc_jwt_issuer cfg,
              jwt_audience = gc_jwt_audience cfg, allow_legacy_token = gc_allow_legacy_token cfg\<rparr>;
           gw = \<lparr>gt_router = Some r, gt_auth = Some auth,
              gt_world = \<lparr>gw_metrics = [], gw_etcd = no_states, gw_outside = outside\<rparr>,
              gt_log = lg, request_seq = 1\<rparr>;
           (bind_result, server) = http_Start bound (HttpServer (gc_http_port cfg) (gc_http_io_threads cfg))
       in case bind_result of
            Inl e \<Rightarrow> Inl e
          | Inr _ \<Rightarrow>
              Inr \<lparr>gp_gateway = gw, gp_server = server, gp_app = AddShutdownHook http_Stop app\<rparr>)"

text \<open>The server once \<open>Run\<close> has gone through the hooks.\<close>

definition after_hooks :: "(http_server \<Rightarrow> http_server) run_state \<Rightarrow> http_server \<Rightarrow> http_server" where
  "after_hooks s server = fold (\<lambda>hook. hook) (hooks_ran s) server"

section \<open>The services behind the gateway\<close>

record deployment =
  dp_config :: config_service
  dp_user :: user_service
  dp_game :: game_service
  dp_config_at :: string
  dp_user_at :: string
  dp_game_at :: string
  dp_time :: time_ns
  dp_wall :: int

text \<open>
  gRPC's server side: the response of a handler, or, where it threw, a status the library makes.
  \<open>no_service\<close> is the answer of its client side where nobody listens, and \<open>too_late\<close> the one after
  the deadline.
\<close>

definition grpc_reply :: "exn + grpc_status \<times> 'a \<Rightarrow> ('a \<Rightarrow> rpc_reply) \<Rightarrow> grpc_status \<times> rpc_reply" where
  "grpc_reply r f =
     (case r of
        Inl e \<Rightarrow> (status_error UNKNOWN ''Unexpected error in RPC handling'', NoReply)
      | Inr (st, x) \<Rightarrow> (st, f x))"

definition no_service :: "grpc_status \<times> rpc_reply" where
  "no_service = (status_error UNAVAILABLE ''failed to connect to all addresses'', NoReply)"

definition too_late :: "grpc_status \<times> rpc_reply" where
  "too_late = (status_error DEADLINE_EXCEEDED ''Deadline Exceeded'', NoReply)"

fun serve :: "'j json_api \<Rightarrow> scan_order \<Rightarrow> ((string \<times> query_row) list \<Rightarrow> (string \<times> query_row) list) \<Rightarrow>
    rpc_request \<Rightarrow> deployment \<Rightarrow> (grpc_status \<times> rpc_reply) \<times> deployment" where
  "serve J sc ord (RpcGetConfig ns k) d =
     (let (r, s) = GetConfig J ord (dp_time d) ns k (dp_config d)
      in (grpc_reply r (\<lambda>e. case e of Some x \<Rightarrow> EntryReply x | None \<Rightarrow> NoReply), d\<lparr>dp_config := s\<rparr>))"
| "serve J sc ord (RpcPublishConfig e) d =
     (let (r, s) = PublishConfig J sc e (dp_config d)
      in (grpc_reply r (\<lambda>v. case v of Some n \<Rightarrow> VersionReply n | None \<Rightarrow> NoReply), d\<lparr>dp_config := s\<rparr>))"
| "serve J sc ord (RpcGetUser u) d =
     (let (r, s) = GetUser J ord (dp_time d) u (dp_user d)
      in (grpc_reply r (\<lambda>p. case p of Some x \<Rightarrow> ProfileReply x | None \<Rightarrow> NoReply), d\<lparr>dp_user := s\<rparr>))"
| "serve J sc ord (RpcCreateUser n) d =
     (let (r, s) = CreateUser J (dp_wall d) n (dp_user d)
      in (grpc_reply r ProfileReply, d\<lparr>dp_user := s\<rparr>))"
| "serve J sc ord (RpcCreateRoom n m) d =
     (let (r, s) = CreateRoom J n m (dp_game d)
      in (grpc_reply r RoomReply, d\<lparr>dp_game := s\<rparr>))"
| "serve J sc ord (RpcJoinRoom i u) d =
     (let (r, s) = JoinRoom i u (dp_game d)
      in (grpc_reply (Inr r) SuccessReply, d\<lparr>dp_game := s\<rparr>))"

fun address_of :: "rpc_request \<Rightarrow> deployment \<Rightarrow> string" where
  "address_of (RpcGetConfig ns k) d = dp_config_at d"
| "address_of (RpcPublishConfig e) d = dp_config_at d"
| "address_of (RpcGetUser u) d = dp_user_at d"
| "address_of (RpcCreateUser n) d = dp_user_at d"
| "address_of (RpcCreateRoom n m) d = dp_game_at d"
| "address_of (RpcJoinRoom i u) d = dp_game_at d"

text \<open>
  A scenario of gRPC, the one in which calls get through: a call is executed exactly once and at once where the stub points at
  a service, takes \<open>latency\<close> to be answered, and a deadline that passes meanwhile does not undo what the service did. Connections that
  break before or after an execution are not in it.
\<close>

definition net_call :: "'j json_api \<Rightarrow> scan_order \<Rightarrow> ((string \<times> query_row) list \<Rightarrow> (string \<times> query_row) list) \<Rightarrow>
    time_ns \<Rightarrow> stub \<Rightarrow> metadata \<Rightarrow> time_ns \<Rightarrow> rpc_request \<Rightarrow> deployment \<Rightarrow>
    (grpc_status \<times> rpc_reply) \<times> deployment" where
  "net_call J sc ord latency stub md timeout req d =
     (if snd stub \<noteq> address_of req d then (no_service, d)
      else
        (let (answer, d1) = serve J sc ord req d;
             d2 = d1\<lparr>dp_time := dp_time d + latency\<rparr>
         in (if latency > timeout then too_late else answer, d2)))"

definition net_env :: "'j json_api \<Rightarrow> scan_order \<Rightarrow> ((string \<times> query_row) list \<Rightarrow> (string \<times> query_row) list) \<Rightarrow>
    time_ns \<Rightarrow> deployment grpc_env" where
  "net_env J sc ord latency =
     \<lparr>rpc_call = net_call J sc ord latency, clock = dp_time,
      backoff_wait = (\<lambda>t d. (False, d\<lparr>dp_time := dp_time d + t\<rparr>))\<rparr>"

end
