(* ===== verification/Delivery.thy ===== *)
theory Delivery
  imports Deployment
begin

text \<open>
  Requests that get through. A router in working order towards a service, and what a request does that the
  service answers OK: \<open>HandleRequestAsync\<close> passes it on, and brings the reply back. The argument is made once for
  the three services (\<open>stub_getter\<close>), and a gateway that \<open>gateway_main\<close> has just started is in working
  order towards them all.
\<close>

section \<open>Requests that get through\<close>

text \<open>
  A limiter with \<open>n\<close> requests to spare and a closed breaker: each request that is answered OK leaves
  the breaker closed and the limiter with one less.
\<close>

definition plenty :: "(rat \<Rightarrow> rat) \<Rightarrow> nat \<Rightarrow> time_ns \<Rightarrow> token_bucket \<Rightarrow> bool" where
  "plenty rnd n now l \<longleftrightarrow> bucket_ok rnd l \<and> of_nat n \<le> tokens l \<and> last_refill l \<le> now"

lemma Allow_plenty:
  assumes r: "binary_rounding rnd u e" and p: "plenty rnd (Suc n) now l" and n: "n < 2 ^ 53"
  shows "fst (Allow rnd now l)" and "now \<le> later \<Longrightarrow> plenty rnd n later (snd (Allow rnd now l))"
proof -
  have b: "bucket_ok rnd l" "last_refill l \<le> now" "of_nat (Suc n) \<le> tokens l" using p by (simp_all add: plenty_def)
  let ?f = "filled_tokens rnd now l"
  have "tokens l \<le> rnd (tokens l + refill rnd (rate_per_second l) (now - last_refill l))"
    using rounding_mono [OF r, of "tokens l" "tokens l + refill rnd (rate_per_second l) (now - last_refill l)"]
      refill_nonneg [OF r, of "rate_per_second l" "now - last_refill l"] b by (simp add: bucket_ok_def)
  then have f: "of_nat (Suc n) \<le> ?f"
    using b by (simp add: filled_tokens_def bucket_ok_def)
  then have one: "\<not> ?f < 1" by simp
  then show "fst (Allow rnd now l)" by (simp add: Allow_def Let_def)
  have "of_nat n = rnd (of_nat n)" using rounding_int [OF r, of "int n"] n by simp
  also have "\<dots> \<le> rnd (?f - 1)" by (rule rounding_mono [OF r]) (use f in simp)
  finally have "of_nat n \<le> tokens (snd (Allow rnd now l))" using one by (simp add: Allow_def Let_def)
  then show "plenty rnd n later (snd (Allow rnd now l))" if "now \<le> later"
    using bucket_ok_Allow [OF r b(1,2)] that by (simp add: plenty_def)
qed

lemma AllowRequest_closed [simp]: "cb_state b = KClosed \<Longrightarrow> AllowRequest now b = (True, b)"
  by (simp add: AllowRequest_def)

lemma RecordSuccess_closed [simp]: "cb_state (RecordSuccess b) = KClosed"
  by (simp add: RecordSuccess_def)

lemma InvokeWithResilience_ok:
  assumes r: "binary_rounding rnd u e" and p: "plenty rnd (Suc n) (clock env w) l" "n < 2 ^ 53"
    and b: "cb_state b = KClosed"
    and call: "rpc_call env stub (AddMetadata ctx) (milliseconds (max 100 (grpc_timeout_ms runtime))) req w =
      ((st, reply), w1)" "is_ok st"
  shows "InvokeWithResilienceAsync env rnd ctx runtime stub req b l w =
    ((st, reply), RecordSuccess b, snd (Allow rnd (clock env w) l), w1)"
proof -
  obtain m where m: "nat (max 1 (retry_attempts runtime)) = Suc m"
    by (metis not0_implies_Suc nat_0_iff max.cobounded1 not_one_le_zero order_trans)
  show ?thesis
    using Allow_plenty(1) [OF r p] b call
    by (simp add: InvokeWithResilienceAsync_def split_beta Let_def m)
qed


lemma ResolveTarget_quiet:
  assumes "quiet ss" and "scan_ok sc"
  shows "fst (ResolveTarget sc name fallback tag r ss) = fallback"
    and "quiet (snd (ResolveTarget sc name fallback tag r ss))"
proof -
  have "SnapshotInstances sc etcd_empty name = []"
    using assms(2) by (simp add: SnapshotInstances_def etcd_empty_def scan_ok_def)
  then show "fst (ResolveTarget sc name fallback tag r ss) = fallback"
    and "quiet (snd (ResolveTarget sc name fallback tag r ss))"
    using assms(1)
    by (simp_all add: ResolveTarget_def split_beta Let_def Resolve_body_def
        with_state_quiet [OF assms(1)] split: option.split)
qed

text \<open>
  A router in working order towards one of the services of a deployment: its target is where the
  service listens, its breaker is closed and its limiter has \<open>n\<close> requests to spare.
\<close>

definition service_target :: "string \<Rightarrow> router_targets \<Rightarrow> string" where
  "service_target svc tg =
     (if svc = ''config_service'' then config_service_target tg
      else if svc = ''user_service'' then user_service_target tg else game_service_target tg)"

definition service_address :: "string \<Rightarrow> deployment \<Rightarrow> string" where
  "service_address svc d =
     (if svc = ''config_service'' then dp_config_at d
      else if svc = ''user_service'' then dp_user_at d else dp_game_at d)"

definition service_ready :: "string \<Rightarrow> (rat \<Rightarrow> rat) \<Rightarrow> nat \<Rightarrow> router \<Rightarrow> deployment gateway_world \<Rightarrow> bool" where
  "service_ready svc rnd n r gw \<longleftrightarrow>
     cb_state (BreakerFor svc r) = KClosed \<and>
     plenty rnd n (dp_time (gw_outside gw)) (RateLimiterFor svc r) \<and>
     service_target svc (targets r) = service_address svc (gw_outside gw) \<and> quiet (gw_etcd gw)"

definition prompt :: "('j, deployment) gateway_env \<Rightarrow> bool" where
  "prompt ge \<longleftrightarrow>
     (\<exists>ord latency. ge_grpc ge = net_env (ge_json ge) (ge_scan ge) ord latency \<and> traversal ord \<and>
        0 \<le> latency \<and> latency \<le> milliseconds 100) \<and>
     scan_ok (ge_scan ge) \<and> (\<exists>u e. binary_rounding (ge_round ge) u e)"

lemma serve_frame:
  assumes "serve J sc ord req d = (a, d1)"
  shows "service_address svc d1 = service_address svc d" and "dp_time d1 = dp_time d" and "dp_wall d1 = dp_wall d"
  using assms by (cases req; auto simp: service_address_def split_beta Let_def)+

lemma put_breaker_simps [simp]:
  "BreakerFor svc (put_breaker svc b r) = b"
  "RateLimiterFor svc (put_breaker svc' b r) = RateLimiterFor svc r"
  "targets (put_breaker svc b r) = targets r"
  "BreakerFor svc (put_limiter svc' l r) = BreakerFor svc r"
  "RateLimiterFor svc (put_limiter svc l r) = l"
  "targets (put_limiter svc l r) = targets r"
  by (simp_all add: BreakerFor_def RateLimiterFor_def put_breaker_def put_limiter_def)

text \<open>
  A request's path and body lead to the call \<open>req\<close> of a service, whose reply \<open>render\<close> turns into the
  entries of the response.
\<close>

definition routes_to :: "('j, deployment) http_env \<Rightarrow> string \<Rightarrow> (string \<Rightarrow> router \<Rightarrow> stub \<times> router) \<Rightarrow> request_context \<Rightarrow>
    string \<Rightarrow> string \<Rightarrow> rpc_request \<Rightarrow> (rpc_reply \<Rightarrow> (string \<times> 'j) list) \<Rightarrow> bool" where
  "routes_to he svc stubs c path body req render \<longleftrightarrow>
     \<not> public_path path \<and> \<not> admin_path path \<and> (\<forall>d. address_of req d = service_address svc d) \<and>
     (\<exists>json. parse_body (he_json he) body = Some json \<and>
        (\<forall>ctx r gw. user_id ctx = user_id c \<longrightarrow>
           dispatch (he_route he) path json ctx r gw =
             Some (route_call (he_route he) ctx svc stubs (service_target svc (targets r)) (Inr req) render r gw)))"

text \<open>The answer of 200 with these entries.\<close>

definition answered :: "'j json_api \<Rightarrow> (string \<times> 'j) list \<Rightarrow> exn + http_response" where
  "answered J kvs = res_bind (json_dump J (json_object J kvs)) (\<lambda>b. Inr (json_response 200 b))"

lemma answered_ok: "json_dump J (json_object J kvs) = Inr out \<Longrightarrow> answered J kvs = Inr (json_response 200 out)"
  by (simp add: answered_def)

text \<open>A request over HTTP is the call of the service with its context.\<close>

lemma http_routed:
  assumes r: "gt_router g = Some r" and token: "check_token he token g = Inr (Some c)"
    and routes: "routes_to he svc stubs c path body req render"
  obtains ctx res r' gw' ms where "user_id ctx = user_id c"
    "route_call (he_route he) ctx svc stubs (service_target svc (targets r)) (Inr req) render r (gt_world g) = (res, r', gw')"
    "HandleRequestAsync he m path body token hs g =
       (res_bind res (\<lambda>rr. Inr (json_response (status_code rr) (rr_body rr))),
        g\<lparr>request_seq := request_seq g + 1, gt_router := Some r', gt_world := gw'\<lparr>gw_metrics := ms\<rparr>\<rparr>)"
proof -
  let ?ctx = "(header_context hs (''gw-req-'' @ to_string (uint (request_seq g))))\<lparr>user_id := user_id c\<rparr>"
  obtain json where path: "\<not> public_path path" "\<not> admin_path path" "parse_body (he_json he) body = Some json"
    and disp: "\<And>ctx. user_id ctx = user_id c \<Longrightarrow> dispatch (he_route he) path json ctx r (gt_world g) =
      Some (route_call (he_route he) ctx svc stubs (service_target svc (targets r)) (Inr req) render r (gt_world g))"
    using routes unfolding routes_to_def by blast
  obtain res r' gw' where call: "route_call (he_route he) ?ctx svc stubs (service_target svc (targets r)) (Inr req) render r (gt_world g) =
       (res, r', gw')" by (metis prod.exhaust)
  define ms where "ms = (case res of Inl e \<Rightarrow> gw_metrics gw' | Inr rr \<Rightarrow> route_finish path rr (gw_metrics gw'))"
  have "RouteWithStatusAsync (he_route he) path body ?ctx r (gt_world g) = (res, r', gw'\<lparr>gw_metrics := ms\<rparr>)"
    using path(3) call unfolding RouteWithStatusAsync_def parse_body_def
    by (simp add: disp ms_def split: sum.split)
  then have "HandleRequestAsync he m path body token hs g =
       (res_bind res (\<lambda>rr. Inr (json_response (status_code rr) (rr_body rr))),
        g\<lparr>request_seq := request_seq g + 1, gt_router := Some r', gt_world := gw'\<lparr>gw_metrics := ms\<rparr>\<rparr>)"
    using path(1,2)
    by (simp add: HandleRequestAsync_def public_path_def admin_path_def token r Let_def del: append.simps)
  then show ?thesis by (intro that [OF _ call]) simp_all
qed

text \<open>What the three stub tables have in common.\<close>

locale stub_getter =
  fixes svc :: string and get_stub :: "string \<Rightarrow> router \<Rightarrow> stub \<times> router"
  assumes stub_target: "snd (fst (get_stub t r)) = t"
    and stub_breaker: "BreakerFor s (snd (get_stub t r)) = BreakerFor s r"
    and stub_limiter: "RateLimiterFor s (snd (get_stub t r)) = RateLimiterFor s r"
    and stub_targets: "targets (snd (get_stub t r)) = targets r"
begin

lemma route_delivers:
  assumes env: "ge_grpc ge = net_env (ge_json ge) (ge_scan ge) ord latency" "0 \<le> latency" "latency \<le> milliseconds 100"
      "scan_ok (ge_scan ge)" "binary_rounding (ge_round ge) u e"
    and ready: "service_ready svc (ge_round ge) (Suc n) r gw" "n < 2 ^ 53"
    and req: "address_of req (gw_outside gw) = service_address svc (gw_outside gw)"
    and served: "serve (ge_json ge) (ge_scan ge) ord req (gw_outside gw) = ((st, reply), d1)" "is_ok st"
  shows "\<exists>r' gw'. route_call ge ctx svc get_stub (service_target svc (targets r)) (Inr req) render r gw =
      (ok_result (ge_json ge) svc (render reply), r', gw') \<and>
    service_ready svc (ge_round ge) n r' gw' \<and> gw_outside gw' = d1\<lparr>dp_time := dp_time (gw_outside gw) + latency\<rparr>"
proof -
  let ?t = "service_target svc (targets r)" and ?d = "gw_outside gw"
  note frame = serve_frame [OF served(1)]
  have "quiet (gw_etcd gw)" using ready(1) by (simp add: service_ready_def)
  note rt = ResolveTarget_quiet [OF this env(4), of svc ?t "traffic_tag ctx" r]
  obtain x ss where xs: "ResolveTarget (ge_scan ge) svc ?t (traffic_tag ctx) r (gw_etcd gw) = (x, ss)"
    by (cases "ResolveTarget (ge_scan ge) svc ?t (traffic_tag ctx) r (gw_etcd gw)")
  have res: "ResolveTarget (ge_scan ge) svc ?t (traffic_tag ctx) r (gw_etcd gw) = (?t, ss)" and ss: "quiet ss"
    using rt by (simp_all add: xs)
  obtain stub r1 where stub: "get_stub ?t r = (stub, r1)" by (cases "get_stub ?t r")
  have r1: "snd stub = ?t" "BreakerFor s r1 = BreakerFor s r" "RateLimiterFor s r1 = RateLimiterFor s r"
    "targets r1 = targets r" for s
    using stub_target [of ?t r] stub_breaker [of s ?t r] stub_limiter [of s ?t r] stub_targets [of ?t r]
    by (simp_all add: stub)
  let ?d2 = "d1\<lparr>dp_time := dp_time ?d + latency\<rparr>"
  have "snd stub = address_of req ?d" using r1(1) req ready(1) by (simp add: service_ready_def)
  moreover have "\<not> latency > milliseconds (max 100 (grpc_timeout_ms (GetRuntimeConfig r)))"
    using env(3) by linarith
  ultimately have call: "rpc_call (ge_grpc ge) stub (AddMetadata ctx)
      (milliseconds (max 100 (grpc_timeout_ms (GetRuntimeConfig r)))) req ?d = ((st, reply), ?d2)"
    by (simp add: env(1) net_env_def net_call_def served(1))
  let ?l = "snd (Allow (ge_round ge) (dp_time ?d) (RateLimiterFor svc r))"
  have inv: "InvokeWithResilienceAsync (ge_grpc ge) (ge_round ge) ctx (GetRuntimeConfig r) stub req
      (BreakerFor svc r1) (RateLimiterFor svc r1) ?d = ((st, reply), RecordSuccess (BreakerFor svc r), ?l, ?d2)"
    using InvokeWithResilience_ok [OF env(5), of n "ge_grpc ge" ?d "RateLimiterFor svc r" "BreakerFor svc r"
        stub ctx "GetRuntimeConfig r" req st reply ?d2] ready call served(2) env(1) r1
    by (simp add: service_ready_def net_env_def)
  let ?r' = "put_limiter svc ?l (put_breaker svc (RecordSuccess (BreakerFor svc r)) r1)"
  let ?gw' = "gw\<lparr>gw_etcd := ss, gw_outside := ?d2\<rparr>"
  have "route_call ge ctx svc get_stub ?t (Inr req) render r gw =
      (ok_result (ge_json ge) svc (render reply), ?r', ?gw')"
    using served(2) by (simp add: route_call_def res stub inv)
  moreover have "service_address svc ?d2 = service_address svc ?d"
    using frame(1) [of svc] by (simp add: service_address_def split: if_splits)
  then have "service_ready svc (ge_round ge) n ?r' ?gw'"
    using ready env(2) ss r1 Allow_plenty(2) [OF env(5), of n "dp_time ?d" "RateLimiterFor svc r" "dp_time ?d + latency"]
    by (simp add: service_ready_def)
  ultimately show ?thesis by (intro exI [of _ ?r'] exI [of _ ?gw']) simp
qed

text \<open>A request over HTTP that reaches the service and is answered OK there.\<close>

lemma http_delivers:
  fixes he :: "('j, deployment) http_env"
  defines "ge \<equiv> he_route he"
  assumes env: "ge_grpc ge = net_env (ge_json ge) (ge_scan ge) ord latency" "0 \<le> latency" "latency \<le> milliseconds 100"
      "scan_ok (ge_scan ge)" "binary_rounding (ge_round ge) u e"
    and ready: "gt_router g = Some r" "service_ready svc (ge_round ge) (Suc n) r (gt_world g)" "n < 2 ^ 53"
    and token: "check_token he token g = Inr (Some c)"
    and routes: "routes_to he svc get_stub c path body req render"
    and served: "serve (ge_json ge) (ge_scan ge) ord req (gw_outside (gt_world g)) = ((st, reply), d1)" "is_ok st"
  shows "\<exists>r' g'.
    HandleRequestAsync he m path body token hs g = (answered (he_json he) (render reply), g') \<and>
    gt_router g' = Some r' \<and> service_ready svc (ge_round ge) n r' (gt_world g') \<and> gt_auth g' = gt_auth g \<and>
    gw_outside (gt_world g') = d1\<lparr>dp_time := dp_time (gw_outside (gt_world g)) + latency\<rparr>"
proof -
  obtain ctx res r' gw' ms where
    call: "route_call ge ctx svc get_stub (service_target svc (targets r)) (Inr req) render r (gt_world g) = (res, r', gw')"
    and handle: "HandleRequestAsync he m path body token hs g =
       (res_bind res (\<lambda>rr. Inr (json_response (status_code rr) (rr_body rr))),
        g\<lparr>request_seq := request_seq g + 1, gt_router := Some r', gt_world := gw'\<lparr>gw_metrics := ms\<rparr>\<rparr>)"
    unfolding ge_def by (rule http_routed [OF ready(1) token routes, where m = m and hs = hs])
  have req: "address_of req (gw_outside (gt_world g)) = service_address svc (gw_outside (gt_world g))"
    using routes unfolding routes_to_def by blast
  from route_delivers [OF env ready(2,3) req served, of ctx render] call
  have res: "res = ok_result (ge_json ge) svc (render reply)" and r': "service_ready svc (ge_round ge) n r' gw'"
      "gw_outside gw' = d1\<lparr>dp_time := dp_time (gw_outside (gt_world g)) + latency\<rparr>" by auto
  have "res_bind res (\<lambda>rr. Inr (json_response (status_code rr) (rr_body rr))) = answered (he_json he) (render reply)"
    by (cases "json_dump (he_json he) (json_object (he_json he) (render reply))")
      (simp_all add: res ok_result_def ge_def answered_def)
  moreover have "service_ready svc (ge_round ge) n r' (gw'\<lparr>gw_metrics := ms\<rparr>)"
    using r'(1) by (simp add: service_ready_def)
  ultimately show ?thesis
    using r'(2) unfolding handle
    by (intro exI [of _ r'] exI [of _ "g\<lparr>request_seq := request_seq g + 1, gt_router := Some r',
        gt_world := gw'\<lparr>gw_metrics := ms\<rparr>\<rparr>"] conjI) simp_all
qed

text \<open>Two requests one after the other, the second of which meets what the first has done.\<close>

lemma two_delivered:
  fixes he :: "('j, deployment) http_env"
  defines "ge \<equiv> he_route he"
  assumes env: "ge_grpc ge = net_env (ge_json ge) (ge_scan ge) ord latency" "0 \<le> latency" "latency \<le> milliseconds 100"
      "scan_ok (ge_scan ge)" "binary_rounding (ge_round ge) u e"
    and ready: "gt_router g = Some r" "service_ready svc (ge_round ge) (Suc (Suc n)) r (gt_world g)" "Suc n < 2 ^ 53"
    and token: "\<forall>g'. gt_auth g' = gt_auth g \<longrightarrow> check_token he token g' = Inr (Some c)"
    and routes: "routes_to he svc get_stub c path body req render" "routes_to he svc get_stub c path' body' req' render'"
    and served: "serve (ge_json ge) (ge_scan ge) ord req (gw_outside (gt_world g)) = ((st, reply), d1)" "is_ok st"
      "serve (ge_json ge) (ge_scan ge) ord req' (d1\<lparr>dp_time := dp_time (gw_outside (gt_world g)) + latency\<rparr>) =
         ((st', reply'), d2)" "is_ok st'"
  shows "\<exists>g1 g2. HandleRequestAsync he m path body token hs g = (answered (he_json he) (render reply), g1) \<and>
    HandleRequestAsync he m' path' body' token hs' g1 = (answered (he_json he) (render' reply'), g2) \<and>
    gw_outside (gt_world g2) = d2\<lparr>dp_time := dp_time (gw_outside (gt_world g)) + latency + latency\<rparr>"
proof -
  from http_delivers [OF env [unfolded ge_def] ready [unfolded ge_def] token [rule_format, OF refl] routes(1)
      served(1,2) [unfolded ge_def], of m hs]
  obtain r1 g1 where one: "HandleRequestAsync he m path body token hs g = (answered (he_json he) (render reply), g1)"
    and g1: "gt_router g1 = Some r1" "service_ready svc (ge_round (he_route he)) (Suc n) r1 (gt_world g1)" "gt_auth g1 = gt_auth g"
      "gw_outside (gt_world g1) = d1\<lparr>dp_time := dp_time (gw_outside (gt_world g)) + latency\<rparr>" by blast
  have "n < 2 ^ 53" using ready(3) by simp
  from http_delivers [OF env [unfolded ge_def] g1(1,2) this token [rule_format, OF g1(3)] routes(2)
      served(3,4) [unfolded ge_def, folded g1(4)], of m' hs']
  show ?thesis using one g1(4) by auto
qed

end

interpretation config_stubs: stub_getter "''config_service''" GetConfigStub
  by unfold_locales (simp_all add: GetConfigStub_def BreakerFor_def RateLimiterFor_def Let_def split: option.split)

interpretation user_stubs: stub_getter "''user_service''" GetUserStub
  by unfold_locales (simp_all add: GetUserStub_def BreakerFor_def RateLimiterFor_def Let_def split: option.split)

interpretation game_stubs: stub_getter "''game_service''" GetGameStub
  by unfold_locales (simp_all add: GetGameStub_def BreakerFor_def RateLimiterFor_def Let_def split: option.split)

text \<open>The six paths.\<close>

lemmas route_simps = routes_to_def dispatch_def public_path_def admin_path_def service_target_def service_address_def Let_def

lemma config_get_routes:
  "parse_body (he_json he) body = Some j \<Longrightarrow> config_get_request (he_json he) j = Inr (RpcGetConfig ns k) \<Longrightarrow>
   routes_to he ''config_service'' GetConfigStub c ''/config/get'' body (RpcGetConfig ns k)
     (\<lambda>reply. entry_response (he_json he) (reply_entry reply))"
  by (simp add: route_simps)

lemma config_publish_routes:
  "parse_body (he_json he) body = Some j \<Longrightarrow> config_publish_request (he_json he) j = Inr (RpcPublishConfig e) \<Longrightarrow>
   routes_to he ''config_service'' GetConfigStub c ''/config/publish'' body (RpcPublishConfig e)
     (\<lambda>reply. [(''version'', json_int (he_json he) (reply_version reply))])"
  by (simp add: route_simps)

lemma user_get_routes:
  "parse_body (he_json he) body = Some j \<Longrightarrow> json_value_string (he_json he) j ''user_id'' (user_id c) = Inr u \<Longrightarrow>
   routes_to he ''user_service'' GetUserStub c ''/user/get'' body (RpcGetUser u)
     (\<lambda>reply. profile_response (he_json he) (reply_profile reply))"
  by (simp add: route_simps user_get_request_def)

lemma user_create_routes:
  "parse_body (he_json he) body = Some j \<Longrightarrow> user_create_request (he_json he) j = Inr (RpcCreateUser name) \<Longrightarrow>
   routes_to he ''user_service'' GetUserStub c ''/user/create'' body (RpcCreateUser name)
     (\<lambda>reply. [(''user_id'', json_string (he_json he) (up_user_id (reply_profile reply))),
               (''nickname'', json_string (he_json he) (nickname (reply_profile reply)))])"
  by (simp add: route_simps)

lemma create_room_routes:
  "parse_body (he_json he) body = Some j \<Longrightarrow> create_room_request (he_json he) j = Inr (RpcCreateRoom name players) \<Longrightarrow>
   routes_to he ''game_service'' GetGameStub c ''/game/create-room'' body (RpcCreateRoom name players)
     (\<lambda>reply. [(''room_id'', json_string (he_json he) (reply_room reply))])"
  by (simp add: route_simps)

lemma join_room_routes:
  "parse_body (he_json he) body = Some j \<Longrightarrow> json_value_string (he_json he) j ''room_id'' [] = Inr i \<Longrightarrow>
   json_value_string (he_json he) j ''user_id'' (user_id c) = Inr u \<Longrightarrow>
   routes_to he ''game_service'' GetGameStub c ''/game/join-room'' body (RpcJoinRoom i u)
     (\<lambda>reply. [(''success'', json_bool (he_json he) (reply_success reply))])"
  by (simp add: route_simps join_room_request_def)

section \<open>A started gateway\<close>

lemma gateway_main_ready:
  assumes "gateway_main mkdir_ok hc now d (Listening p) file = Inr gp" and "LoadGatewayConfig file = Inr cfg"
    and "now \<le> dp_time d" and "binary_rounding rnd u e" and "n \<le> 1000"
  obtains r where "gt_router (gp_gateway gp) = Some r" "gw_outside (gt_world (gp_gateway gp)) = d"
    "gc_config_service_target cfg = dp_config_at d \<Longrightarrow> service_ready ''config_service'' rnd n r (gt_world (gp_gateway gp))"
    "gc_user_service_target cfg = dp_user_at d \<Longrightarrow> service_ready ''user_service'' rnd n r (gt_world (gp_gateway gp))"
    "gc_game_service_target cfg = dp_game_at d \<Longrightarrow> service_ready ''game_service'' rnd n r (gt_world (gp_gateway gp))"
proof -
  let ?l = "TokenBucketRateLimiter 500 1000 now"
  have "rnd 1000 = 1000" using rounding_int [OF assms(4), of 1000] by simp
  then have "bucket_ok rnd ?l" using bucket_ok_init [OF assms(4)] by simp
  moreover have "(of_nat n :: rat) \<le> 1000" using assms(5) of_nat_le_iff [of n 1000, where 'a = rat] by simp
  ultimately have "plenty rnd n (dp_time d) ?l"
    using assms(3) by (simp add: plenty_def TokenBucketRateLimiter_def)
  moreover define r where "r = the (gt_router (gp_gateway gp))"
  ultimately show ?thesis
    using assms(1,2) that
    by (auto simp: gateway_main_def http_Start_def HttpServer_def Let_def service_ready_def GrpcRouter_def
        StartGrpcWorkers_def CircuitBreaker_def BreakerFor_def RateLimiterFor_def service_target_def service_address_def)
qed

lemma config_main_service:
  assumes "config_main mkdir_ok sc True file = Inr (Serving p)"
  obtains pr where "sp_service p = ConfigServiceImpl (Some mysql_empty) (Some redis_empty) pr (Some empty_bus)"
  using assms by (auto simp: config_main_def res_bind_eq_Inr Let_def ConfigServiceImpl_def)

lemma version_flat: "json_laws J \<Longrightarrow> int64_range n \<Longrightarrow> flat_document J [(''version'', json_int J n)]"
  by (simp add: flat_document_def json_laws_ascii) blast

lemma entry_response_document: "entry_response J e = entry_document J e"
  by (simp add: entry_response_def entry_document_def)

lemma prompt_env:
  assumes "prompt ge"
  obtains ord latency u e where "ge_grpc ge = net_env (ge_json ge) (ge_scan ge) ord latency" "traversal ord"
    "0 \<le> latency" "latency \<le> milliseconds 100" "scan_ok (ge_scan ge)" "binary_rounding (ge_round ge) u e"
  using assms unfolding prompt_def by blast

end
