(* ===== verification/Journeys.thy ===== *)
theory Journeys
  imports Delivery
begin

text \<open>
  What a client achieves through the gateway: the processes started by their \<open>main\<close> functions, requests
  over HTTP, and what the services hold afterwards. The configuration service's journey is in the
  root theory.
\<close>

section \<open>A user\<close>

lemma user_main_service:
  assumes "user_main mkdir_ok sc True file = Inr (Serving p)"
  shows "sp_service p = UserServiceImpl (Some mysql_empty) (Some redis_empty)"
  using assms by (auto simp: user_main_def res_bind_eq_Inr Let_def)

lemma created_document: "json_laws J \<Longrightarrow> json_utf8 J a \<Longrightarrow> json_utf8 J b \<Longrightarrow>
    flat_document J [(''user_id'', json_string J a), (''nickname'', json_string J b)]"
  by (auto simp: flat_document_def json_laws_ascii)

lemma profile_response_document: "profile_response J p = profile_document J p"
  by (simp add: profile_response_def profile_document_def)

text \<open>
  C5: a user created through the gateway is found through it. Take a gateway and a user service as their
  \<open>main\<close> functions start them, and any history of requests the service has answered. An authorised
  \<open>/user/create\<close> is answered with 200 and the next id, and an authorised \<open>/user/get\<close> that
  names this id, or names none with a token of that user, with 200 and the profile that was made.
\<close>

theorem created_user_is_served:
  fixes he :: "('j, deployment) http_env"
  assumes J: "json_laws (he_json he)" and env: "prompt (he_route he)"
    and started: "user_main mk sc True file = Inr (Serving p)"
      "gateway_main mk' hc now d (Listening bound) file' = Inr gp"
    and target: "LoadGatewayConfig file' = Inr cfg" "gc_user_service_target cfg = dp_user_at d" "now \<le> dp_time d"
    and before: "dp_user d = snd (user_run (he_json he) reqs (sp_service p))"
      "\<forall>req \<in> set reqs. user_request_ok (he_json he) req" "int64_range (dp_wall d)"
    and token: "\<forall>g. gt_auth g = gt_auth (gp_gateway gp) \<longrightarrow> check_token he token g = Inr (Some c)"
    and create: "parse_body (he_json he) body = Some jc" "user_create_request (he_json he) jc = Inr (RpcCreateUser name)"
      "json_utf8 (he_json he) name"
    and get: "parse_body (he_json he) body' = Some jg"
      "json_value_string (he_json he) jg ''user_id'' (user_id c) = Inr (user_id_of (next_user_id (dp_user d)))"
  shows "let (created, g1) = HandleRequestAsync he m ''/user/create'' body token hs (gp_gateway gp);
             (got, g2) = HandleRequestAsync he m' ''/user/get'' body' token hs' g1;
             u = new_profile (user_id_of (next_user_id (dp_user d))) (dp_wall d) name
         in \<exists>out out'.
              json_dump (he_json he) (json_object (he_json he)
                [(''user_id'', json_string (he_json he) (up_user_id u)), (''nickname'', json_string (he_json he) (nickname u))]) = Inr out \<and>
              created = Inr (json_response 200 out) \<and>
              json_dump (he_json he) (json_object (he_json he) (profile_response (he_json he) u)) = Inr out' \<and>
              got = Inr (json_response 200 out')"
proof -
  let ?J = "he_json he" and ?ge = "he_route he" and ?g = "gp_gateway gp"
  obtain ord latency u e where ge: "ge_grpc ?ge = net_env ?J (ge_scan ?ge) ord latency"
      "0 \<le> latency" "latency \<le> milliseconds 100" "scan_ok (ge_scan ?ge)" "binary_rounding (ge_round ?ge) u e"
    and ord: "traversal ord"
    using prompt_env [OF env] by metis
  obtain r where r: "gt_router ?g = Some r" "service_ready ''user_service'' (ge_round ?ge) (Suc (Suc 0)) r (gt_world ?g)"
    and d: "gw_outside (gt_world ?g) = d"
    using gateway_main_ready [OF started(2) target(1,3) ge(5), of "Suc (Suc 0)"] target(2) by auto
  have inv: "user_inv ?J (dp_user d)"
    using user_run_map_run [OF J before(2) fresh_user_inv] before(1) user_main_service [OF started(1)] by simp
  define n where "n = next_user_id (dp_user d)"
  define x where "x = new_profile (user_id_of n) (dp_wall d) name"
  note c = CreateUser_writes_table [OF J inv before(3) create(3), folded n_def, folded x_def]
  let ?d1 = "d\<lparr>dp_user := snd (CreateUser ?J (dp_wall d) name (dp_user d))\<rparr>"
  have made: "serve ?J (ge_scan ?ge) ord (RpcCreateUser name) (gw_outside (gt_world ?g)) = ((status_ok, ProfileReply x), ?d1)"
    using c(1) by (simp add: d split_beta Let_def grpc_reply_def)
  let ?w = "?d1\<lparr>dp_time := dp_time (gw_outside (gt_world ?g)) + latency\<rparr>"
  have "up_user_id x = user_id_of n" by (simp add: x_def new_profile_def)
  then have "fst (GetUser ?J ord (dp_time ?w) (user_id_of n) (dp_user ?w)) = Inr (status_ok, Some x)"
    using GetUser_reads_table(1) [OF J ord c(2), of "dp_time ?w" "user_id_of n"] c(3) by simp
  then have found: "serve ?J (ge_scan ?ge) ord (RpcGetUser (user_id_of n)) ?w =
      ((status_ok, ProfileReply x), ?w\<lparr>dp_user := snd (GetUser ?J ord (dp_time ?w) (user_id_of n) (dp_user ?w))\<rparr>)"
    by (simp add: split_beta Let_def grpc_reply_def)
  note two = user_stubs.two_delivered [OF ge r _ token user_create_routes [OF create(1,2)]
      user_get_routes [OF get [folded n_def]] made _ found, of m hs m' hs']
  note ok = new_profile_ok [OF J before(3) create(3), of n, folded x_def]
  obtain out where out: "json_dump ?J (json_object ?J
      [(''user_id'', json_string ?J (up_user_id x)), (''nickname'', json_string ?J (nickname x))]) = Inr out"
    using json_laws_document [OF J created_document [OF J]] ok(2) by (metis profile_text_def)
  obtain out' where out': "json_dump ?J (json_object ?J (profile_response ?J x)) = Inr out'"
    using json_laws_document [OF J profile_flat [OF J ok]] unfolding profile_response_document by blast
  show ?thesis
    using two by (auto simp: is_ok_def status_ok_def answered_ok out out' simp flip: x_def n_def)
qed

section \<open>A room\<close>

lemma room_document: "json_laws J \<Longrightarrow> flat_document J [(''room_id'', json_string J (room_id_of n))]"
  using json_laws_ascii [of J "room_id_of n"] json_laws_ascii [of J "''room_id''"]
  by (auto simp: flat_document_def room_id_of_def to_string_ascii)

lemma CreateRoom_ok:
  assumes "name \<noteq> []" and "0 < players"
    and "room_payload J (room_id_of (next_room_id s)) \<lparr>room_name = name, max_players = players, members = {}\<rparr> = Inr t"
  shows "fst (CreateRoom J name players s) = Inr (status_ok, room_id_of (next_room_id s))"
  using assms by (simp add: CreateRoom_def Let_def split: option.split)

text \<open>
  C8: a room made through the gateway is joined through it, by whom the body names. Take a gateway as its
  \<open>main\<close> starts it, in front of a game service in any state. An authorised \<open>/game/create-room\<close> is
  answered with 200 and the room's id, and an authorised \<open>/game/join-room\<close> with this id with 200 and
  success; afterwards the service holds the room with one member. This is the \<open>user_id\<close> of the
  second body: the user of the token only where the body names none.
\<close>

theorem joined_room_is_served:
  fixes he :: "('j, deployment) http_env"
  assumes J: "json_laws (he_json he)" and env: "prompt (he_route he)"
    and started: "gateway_main mk' hc now d (Listening bound) file' = Inr gp"
    and target: "LoadGatewayConfig file' = Inr cfg" "gc_game_service_target cfg = dp_game_at d" "now \<le> dp_time d"
    and token: "\<forall>g. gt_auth g = gt_auth (gp_gateway gp) \<longrightarrow> check_token he token g = Inr (Some c)"
    and create: "parse_body (he_json he) body = Some jc" "create_room_request (he_json he) jc = Inr (RpcCreateRoom name players)"
      "name \<noteq> []" "0 < players"
      "room_payload (he_json he) (room_id_of (next_room_id (dp_game d)))
         \<lparr>room_name = name, max_players = players, members = {}\<rparr> = Inr payload"
    and join: "parse_body (he_json he) body' = Some jj"
      "json_value_string (he_json he) jj ''room_id'' [] = Inr (room_id_of (next_room_id (dp_game d)))"
      "json_value_string (he_json he) jj ''user_id'' (user_id c) = Inr who"
  shows "let (created, g1) = HandleRequestAsync he m ''/game/create-room'' body token hs (gp_gateway gp);
             (entered, g2) = HandleRequestAsync he m' ''/game/join-room'' body' token hs' g1;
             i = room_id_of (next_room_id (dp_game d))
         in (\<exists>out. json_dump (he_json he) (json_object (he_json he) [(''room_id'', json_string (he_json he) i)]) = Inr out \<and>
               created = Inr (json_response 200 out)) \<and>
            entered = res_bind (json_dump (he_json he) (json_object (he_json he) [(''success'', json_bool (he_json he) True)]))
               (\<lambda>out. Inr (json_response 200 out)) \<and>
            rooms (dp_game (gw_outside (gt_world g2))) =
              (rooms (dp_game d))(i \<mapsto> \<lparr>room_name = name, max_players = players, members = {who}\<rparr>)"
proof -
  let ?J = "he_json he" and ?ge = "he_route he" and ?g = "gp_gateway gp"
  obtain ord latency u e where ge: "ge_grpc ?ge = net_env ?J (ge_scan ?ge) ord latency"
      "0 \<le> latency" "latency \<le> milliseconds 100" "scan_ok (ge_scan ?ge)" "binary_rounding (ge_round ?ge) u e"
    using prompt_env [OF env] by metis
  obtain r where r: "gt_router ?g = Some r" "service_ready ''game_service'' (ge_round ?ge) (Suc (Suc 0)) r (gt_world ?g)"
    and d: "gw_outside (gt_world ?g) = d"
    using gateway_main_ready [OF started target(1,3) ge(5), of "Suc (Suc 0)"] target(2) by auto
  define i where "i = room_id_of (next_room_id (dp_game d))"
  let ?room = "\<lparr>room_name = name, max_players = players, members = {who}\<rparr>"
  let ?s1 = "snd (CreateRoom ?J name players (dp_game d))"
  let ?d1 = "d\<lparr>dp_game := ?s1\<rparr>"
  have made: "serve ?J (ge_scan ?ge) ord (RpcCreateRoom name players) (gw_outside (gt_world ?g)) =
      ((status_ok, RoomReply i), ?d1)"
    using CreateRoom_ok [OF create(3,4,5)] by (simp add: d split_beta Let_def grpc_reply_def i_def)
  let ?w = "?d1\<lparr>dp_time := dp_time (gw_outside (gt_world ?g)) + latency\<rparr>"
  have "JoinRoom i who ?s1 = ((status_ok, True), ?s1\<lparr>rooms := (rooms (dp_game d))(i \<mapsto> ?room)\<rparr>)"
    using create(3,4) by (simp add: JoinRoom_def CreateRoom_rooms(1) flip: i_def)
  then have entered: "serve ?J (ge_scan ?ge) ord (RpcJoinRoom i who) ?w =
      ((status_ok, SuccessReply True), ?w\<lparr>dp_game := ?s1\<lparr>rooms := (rooms (dp_game d))(i \<mapsto> ?room)\<rparr>\<rparr>)"
    by (simp add: grpc_reply_def)
  note two = game_stubs.two_delivered [OF ge r _ token create_room_routes [OF create(1,2)]
      join_room_routes [OF join [folded i_def]] made _ entered, of m hs m' hs']
  obtain out where out: "json_dump ?J (json_object ?J [(''room_id'', json_string ?J i)]) = Inr out"
    using json_laws_document [OF J room_document [OF J]] unfolding i_def by blast
  show ?thesis
    using two by (auto simp: is_ok_def status_ok_def answered_ok out answered_def [of _ "[(''success'', _)]"] simp flip: i_def)
qed

section \<open>A deployment to try it on\<close>

definition demo_env :: "(document, deployment) http_env" where
  "demo_env =
     \<lparr>he_route = \<lparr>ge_json = sample_json, ge_grpc = net_env sample_json sample_scan rev (milliseconds 3),
        ge_round = fixed20, ge_scan = sample_scan, ge_what = (\<lambda>e. ''error'')\<rparr>,
      he_hmac = (\<lambda>k d. k), he_time = (\<lambda>d. dp_wall d), he_mkdir = (\<lambda>d. True), he_metrics_order = rev\<rparr>"

definition demo_config :: "config_service service_process" where
  "demo_config = (case config_main (\<lambda>d. True) sample_scan True None of Inr (Serving p) \<Rightarrow> p)"

definition demo_deployment :: deployment where
  "demo_deployment =
     \<lparr>dp_config = sp_service demo_config, dp_user = UserServiceImpl (Some mysql_empty) (Some redis_empty), dp_game = GameServiceImpl (Some redis_empty),
      dp_config_at = ''127.0.0.1:50051'', dp_user_at = ''127.0.0.1:50052'', dp_game_at = ''127.0.0.1:50053'',
      dp_time = 0, dp_wall = 0\<rparr>"

definition demo_gateway :: "deployment gateway_process" where
  "demo_gateway = projr (gateway_main (\<lambda>d. True) 8 0 demo_deployment (Listening 8080) None)"

lemma demo_config_started: "config_main (\<lambda>d. True) sample_scan True None = Inr (Serving demo_config)"
  by (simp add: demo_config_def config_main_def LoadServiceConfig_def LoadFlatConfig_def GetOr_uint16_def
      GetOr_int_def Let_def)

lemma demo_gateway_file: "\<exists>cfg. LoadGatewayConfig None = Inr cfg \<and>
    gc_config_service_target cfg = ''127.0.0.1:50051'' \<and> gc_user_service_target cfg = ''127.0.0.1:50052'' \<and>
    gc_game_service_target cfg = ''127.0.0.1:50053'' \<and> gc_allow_legacy_token cfg"
  by (simp add: LoadGatewayConfig_def LoadFlatConfig_def GetOr_uint16_def GetOr_string_def GetOr_bool_def
      GetOr_int_def Let_def)

lemma demo_gateway_started: "gateway_main (\<lambda>d. True) 8 0 demo_deployment (Listening 8080) None = Inr demo_gateway"
  by (simp add: demo_gateway_def gateway_main_def LoadGatewayConfig_def LoadFlatConfig_def GetOr_uint16_def
      GetOr_int_def http_Start_def HttpServer_def Let_def)

lemma demo_token:
  assumes "gt_auth g = gt_auth (gp_gateway demo_gateway)"
  shows "check_token he ''user:ann'' g = Inr (Some (empty_context\<lparr>user_id := ''ann''\<rparr>))"
proof -
  obtain cfg where cfg: "LoadGatewayConfig None = Inr cfg" "gc_allow_legacy_token cfg"
    using demo_gateway_file by blast
  then obtain options where "gt_auth (gp_gateway demo_gateway) = Some options" "allow_legacy_token options"
    by (simp add: demo_gateway_def gateway_main_def http_Start_def HttpServer_def Let_def)
  then show ?thesis
    using assms by (auto simp: check_token_def Authenticate_def strip_bearer_def kLegacyDevToken_def Let_def)
qed

lemma demo_prompt: "prompt (he_route demo_env)"
  unfolding prompt_def demo_env_def
  by (intro conjI exI [of _ rev] exI [of _ "milliseconds 3"] exI [of _ 0])
    (simp_all add: fixed20_rounding scan_ok_def sample_scan_def)

definition demo_body :: "(string \<times> string) list \<Rightarrow> string" where
  "demo_body kvs = projr (json_dump sample_json (DObject (map (\<lambda>(k, v). (k, DText v)) kvs)))"

lemma demo_body_parse: "parse_body sample_json (demo_body kvs) = Some (DObject (map (\<lambda>(k, v). (k, DText v)) kvs))"
  by (simp add: parse_body_def demo_body_def sample_json_def)

section \<open>The journeys on it\<close>

lemma demo_env_json: "he_json demo_env = sample_json"
  by (simp add: demo_env_def)

lemma demo_user_started: "\<exists>p. user_main (\<lambda>d. True) sample_scan True None = Inr (Serving p)"
  by (simp add: user_main_def LoadServiceConfig_def LoadFlatConfig_def GetOr_uint16_def GetOr_int_def Let_def)

theorem created_user_is_served_witness:
  "let (created, g1) = HandleRequestAsync demo_env ''POST'' ''/user/create'' (demo_body [(''nickname'', ''Ann'')])
         ''user:ann'' (\<lambda>_. None) (gp_gateway demo_gateway);
       (got, g2) = HandleRequestAsync demo_env ''POST'' ''/user/get'' (demo_body [(''user_id'', ''user_1'')])
         ''user:ann'' (\<lambda>_. None) g1
   in \<exists>out. got = Inr (json_response 200 out) \<and>
        json_dump sample_json (json_object sample_json (profile_response sample_json
          (new_profile ''user_1'' 0 ''Ann''))) = Inr out"
proof -
  obtain p where p: "user_main (\<lambda>d. True) sample_scan True None = Inr (Serving p)"
    using demo_user_started by blast
  obtain cfg where cfg: "LoadGatewayConfig None = Inr cfg" "gc_user_service_target cfg = dp_user_at demo_deployment"
    using demo_gateway_file by (auto simp: demo_deployment_def)
  have n: "user_id_of (next_user_id (dp_user demo_deployment)) = ''user_1''"
    by (simp add: demo_deployment_def UserServiceImpl_def) code_simp
  have start: "dp_user demo_deployment = snd (user_run sample_json [] (sp_service p))" "int64_range (dp_wall demo_deployment)"
      "0 \<le> dp_time demo_deployment" "dp_wall demo_deployment = 0"
    by (simp_all add: demo_deployment_def user_main_service [OF p])
  have create: "user_create_request sample_json (DObject (map (\<lambda>(k, v). (k, DText v)) [(''nickname'', ''Ann'')])) =
      Inr (RpcCreateUser ''Ann'')"
    by (simp add: user_create_request_def sample_json_def)
  have get: "json_value_string sample_json (DObject (map (\<lambda>(k, v). (k, DText v)) [(''user_id'', ''user_1'')])) ''user_id'' u =
      Inr ''user_1''" for u
    by (simp add: sample_json_def)
  show ?thesis
    using created_user_is_served [where he = demo_env and token = "''user:ann''" and body' = "demo_body [(''user_id'', ''user_1'')]"
          and c = "empty_context\<lparr>user_id := ''ann''\<rparr>" and m = "''POST''" and hs = "\<lambda>_. None"
          and m' = "''POST''" and hs' = "\<lambda>_. None",
        unfolded demo_env_json, OF sample_json_laws demo_prompt p
        demo_gateway_started cfg start(3,1) _ start(2) _ demo_body_parse create sample_json_utf8 demo_body_parse]
      demo_token [where he = demo_env] get
    by (auto simp: n start(4) split_beta Let_def)
qed

theorem joined_room_is_served_witness:
  "let (created, g1) = HandleRequestAsync demo_env ''POST'' ''/game/create-room'' (demo_body [(''room_name'', ''arena'')])
         ''user:ann'' (\<lambda>_. None) (gp_gateway demo_gateway);
       (entered, g2) = HandleRequestAsync demo_env ''POST'' ''/game/join-room''
         (demo_body [(''room_id'', ''room_1''), (''user_id'', ''bob'')]) ''user:ann'' (\<lambda>_. None) g1
   in rooms (dp_game (gw_outside (gt_world g2))) ''room_1'' =
        Some \<lparr>room_name = ''arena'', max_players = 4, members = {''bob''}\<rparr>"
proof -
  obtain cfg where cfg: "LoadGatewayConfig None = Inr cfg" "gc_game_service_target cfg = dp_game_at demo_deployment"
    using demo_gateway_file by (auto simp: demo_deployment_def)
  have n: "room_id_of (next_room_id (dp_game demo_deployment)) = ''room_1''"
    by (simp add: demo_deployment_def GameServiceImpl_def room_id_one)
  have start: "0 \<le> dp_time demo_deployment" by (simp add: demo_deployment_def)
  have create: "create_room_request sample_json (DObject (map (\<lambda>(k, v). (k, DText v)) [(''room_name'', ''arena'')])) =
      Inr (RpcCreateRoom ''arena'' 4)"
    by (simp add: create_room_request_def sample_json_def)
  have payload: "room_payload sample_json i s = Inr (projr (room_payload sample_json i s))" for i s
    by (simp add: room_payload_def sample_json_def)
  let ?join = "[(''room_id'', ''room_1''), (''user_id'', ''bob'')]"
  have join: "json_value_string sample_json (DObject (map (\<lambda>(k, v). (k, DText v)) ?join)) ''room_id'' u = Inr ''room_1''"
    "json_value_string sample_json (DObject (map (\<lambda>(k, v). (k, DText v)) ?join)) ''user_id'' u = Inr ''bob''" for u
    by (simp_all add: sample_json_def)
  show ?thesis
    using joined_room_is_served [where he = demo_env and token = "''user:ann''" and body' = "demo_body ?join"
          and c = "empty_context\<lparr>user_id := ''ann''\<rparr>" and m = "''POST''" and who = "''bob''" and hs = "\<lambda>_. None"
          and m' = "''POST''" and hs' = "\<lambda>_. None",
        unfolded demo_env_json, OF sample_json_laws demo_prompt
        demo_gateway_started cfg start _ demo_body_parse create _ _ payload demo_body_parse]
      demo_token [where he = demo_env] join
    by (auto simp: n split_beta Let_def)
qed

end
