(* ===== verification/Late_Answers.thy ===== *)
theory Late_Answers
  imports Gateway_Threads Journeys
begin

text \<open>
  Answers that come too late. A call has a deadline, and one that passes does not undo what the
  service did; \<open>InvokeWithResilienceAsync\<close> (\<open>gateways/access_gateway/routing/grpc_router.cpp\<close>) then tries again.
  Here the services of a deployment take their time, and the question is how often a request was
  carried out, and what its HTTP status says of it.
\<close>

section \<open>Services that take their time\<close>

text \<open>
  A call that starts at time \<open>t\<close> takes \<open>lat t\<close>, and a wait that starts at \<open>t\<close> is aborted where \<open>stop t\<close> says so.
\<close>

definition timed_env :: "'j json_api \<Rightarrow> scan_order \<Rightarrow> ((string \<times> query_row) list \<Rightarrow> (string \<times> query_row) list) \<Rightarrow>
    (time_ns \<Rightarrow> time_ns) \<Rightarrow> (time_ns \<Rightarrow> bool) \<Rightarrow> deployment grpc_env" where
  "timed_env J sc ord lat stop =
     \<lparr>rpc_call = (\<lambda>stub md timeout req d. net_call J sc ord (lat (dp_time d)) stub md timeout req d), clock = dp_time,
      backoff_wait = (\<lambda>t d. (stop (dp_time d), d\<lparr>dp_time := dp_time d + t\<rparr>))\<rparr>"

lemma timed_env_simps [simp]:
  "rpc_call (timed_env J sc ord lat stop) stub md timeout req d = net_call J sc ord (lat (dp_time d)) stub md timeout req d"
  "clock (timed_env J sc ord lat stop) d = dp_time d"
  "backoff_wait (timed_env J sc ord lat stop) t d = (stop (dp_time d), d\<lparr>dp_time := dp_time d + t\<rparr>)"
  by (simp_all add: timed_env_def)

lemma timed_net_env: "timed_env J sc ord (\<lambda>t. latency) (\<lambda>t. False) = net_env J sc ord latency"
  by (simp add: timed_env_def net_env_def)

text \<open>The deployment after the service has carried out the request at the times \<open>ts\<close>.\<close>

definition executions :: "'j json_api \<Rightarrow> scan_order \<Rightarrow> ((string \<times> query_row) list \<Rightarrow> (string \<times> query_row) list) \<Rightarrow>
    rpc_request \<Rightarrow> time_ns list \<Rightarrow> deployment \<Rightarrow> deployment" where
  "executions J sc ord req ts d = fold (\<lambda>t d. snd (serve J sc ord req (d\<lparr>dp_time := t\<rparr>))) ts d"

lemma executions_simps [simp]:
  "executions J sc ord req [] d = d"
  "executions J sc ord req (t # ts) d = executions J sc ord req ts (snd (serve J sc ord req (d\<lparr>dp_time := t\<rparr>)))"
  by (simp_all add: executions_def)

lemma address_of_frame [simp]:
  "address_of req (snd (serve J sc ord req' d)) = address_of req d"
  "address_of req (d\<lparr>dp_time := t\<rparr>) = address_of req d"
  by (cases req'; cases req; simp add: split_beta Let_def)+

text \<open>The codes of gRPC and of the gateway are never those of a service.\<close>

definition transport_codes :: "grpc_code set" where
  "transport_codes = {DEADLINE_EXCEEDED, UNAVAILABLE, RESOURCE_EXHAUSTED, CANCELLED}"

lemma handler_codes:
  "fst (GetConfig J ord now ns k sv) = Inr (st, x) \<Longrightarrow> error_code_of st \<in> {OK, INVALID_ARGUMENT, NOT_FOUND}"
  "fst (PublishConfig J sc e sv) = Inr (st, v) \<Longrightarrow> error_code_of st \<in> {OK, INVALID_ARGUMENT}"
  "fst (GetUser J ord now u us) = Inr (st, y) \<Longrightarrow> error_code_of st \<in> {OK, NOT_FOUND}"
  "fst (CreateUser J wall n us) = Inr (st, p) \<Longrightarrow> error_code_of st = OK"
  "fst (CreateRoom J n m gs) = Inr (st, i) \<Longrightarrow> error_code_of st \<in> {OK, INVALID_ARGUMENT}"
  "fst (JoinRoom i u gs) = (st, b) \<Longrightarrow> error_code_of st \<in> {OK, NOT_FOUND, FAILED_PRECONDITION}"
  by (auto simp: GetConfig_def PublishConfig_def GetUser_def CreateUser_def CreateRoom_def JoinRoom_def Let_def split_beta
      split: sum.splits option.splits if_splits)

lemma grpc_reply_codes:
  assumes "\<And>st x. r = Inr (st, x) \<Longrightarrow> error_code_of st \<notin> transport_codes"
  shows "error_code_of (fst (grpc_reply r f)) \<notin> transport_codes"
  using assms by (auto simp: grpc_reply_def transport_codes_def split: sum.split prod.split)

lemma serve_codes: "error_code_of (fst (fst (serve J sc ord req d))) \<notin> transport_codes"
  by (cases req; simp add: split_beta Let_def; rule grpc_reply_codes)
    (auto simp: transport_codes_def dest!: handler_codes)

section \<open>How often a request is carried out\<close>

text \<open>
  What the result of at most \<open>n\<close> attempts tells of the times \<open>ts\<close> at which the request was carried out.
\<close>

definition carried_out :: "'j json_api \<Rightarrow> scan_order \<Rightarrow> ((string \<times> query_row) list \<Rightarrow> (string \<times> query_row) list) \<Rightarrow>
    rpc_request \<Rightarrow> nat \<Rightarrow> time_ns list \<Rightarrow> deployment \<Rightarrow> grpc_status \<times> rpc_reply \<Rightarrow> deployment \<Rightarrow> bool" where
  "carried_out J sc ord req n ts d result d' \<longleftrightarrow>
     ts \<noteq> [] \<and> length ts \<le> n \<and> d' = (executions J sc ord req ts d)\<lparr>dp_time := dp_time d'\<rparr> \<and>
     (error_code_of (fst result) = DEADLINE_EXCEEDED \<longrightarrow> length ts = n) \<and>
     error_code_of (fst result) \<notin> {UNAVAILABLE, RESOURCE_EXHAUSTED} \<and>
     (error_code_of (fst result) \<notin> transport_codes \<longrightarrow>
        result = fst (serve J sc ord req ((executions J sc ord req (butlast ts) d)\<lparr>dp_time := last ts\<rparr>)))"

lemma executions_time:
  "(executions J sc ord req ts (d\<lparr>dp_time := x\<rparr>))\<lparr>dp_time := y\<rparr> = (executions J sc ord req ts d)\<lparr>dp_time := y\<rparr>"
  by (cases ts) simp_all

lemma carried_out_Cons:
  assumes "carried_out J sc ord req n ts (d1\<lparr>dp_time := x\<rparr>) result d'" and "serve J sc ord req d = (a, d1)"
  shows "carried_out J sc ord req (Suc n) (dp_time d # ts) d result d'"
proof -
  have time: "(executions J sc ord req us (d1\<lparr>dp_time := x\<rparr>))\<lparr>dp_time := y\<rparr> = (executions J sc ord req us d1)\<lparr>dp_time := y\<rparr>" for us y
    by (rule executions_time)
  from assms show ?thesis by (simp add: carried_out_def time)
qed

lemma carried_out_one:
  assumes "serve J sc ord req d = (a, d1)" and "d' = d1\<lparr>dp_time := t\<rparr>"
    and "result = a \<or> error_code_of (fst result) = CANCELLED \<or> error_code_of (fst result) = DEADLINE_EXCEEDED \<and> n = 0"
  shows "carried_out J sc ord req (Suc n) [dp_time d] d result d'"
  using assms serve_codes [of J sc ord req d] by (auto simp: carried_out_def transport_codes_def)

lemma too_late_status [simp]: "\<not> is_ok (fst too_late)" "error_code_of (fst too_late) = DEADLINE_EXCEEDED"
  by (simp_all add: too_late_def is_ok_def)

lemma serve_not_retryable: "serve J sc ord req d = ((st, reply), d1) \<Longrightarrow> \<not> IsRetryable (error_code_of st)"
  using serve_codes [of J sc ord req d] by (auto simp: IsRetryable_def transport_codes_def)

lemma loop_carried_out:
  assumes "snd stub = address_of req d"
    and "resilience_loop (timed_env J sc ord lat stop) md timeout wait stub req (Suc n) b d = (result, b', d')"
  shows "\<exists>ts. carried_out J sc ord req (Suc n) ts d result d'"
  using assms
proof (induction n arbitrary: d b)
  case 0
  obtain a d1 where sv: "serve J sc ord req d = (a, d1)" by fastforce
  have "d' = d1\<lparr>dp_time := dp_time d + lat (dp_time d)\<rparr> \<and> (result = a \<or> result = too_late)"
    using 0 by (auto simp: net_call_def sv Let_def split_beta split: if_splits)
  moreover from this have "result = a \<or> error_code_of (fst result) = CANCELLED \<or>
      error_code_of (fst result) = DEADLINE_EXCEEDED \<and> (0::nat) = 0" by auto
  ultimately show ?case using carried_out_one [OF sv] by blast
next
  case (Suc n)
  obtain st reply d1 where sv: "serve J sc ord req d = ((st, reply), d1)" by (metis prod.exhaust)
  let ?d2 = "d1\<lparr>dp_time := dp_time d + lat (dp_time d)\<rparr>"
  note unfold = resilience_loop.simps(2) [of _ _ _ _ _ _ "Suc n"]
  show ?case
  proof (cases "lat (dp_time d) > timeout")
    case False
    then have call: "net_call J sc ord (lat (dp_time d)) stub md timeout req d = ((st, reply), ?d2)"
      using Suc.prems(1) by (simp add: net_call_def sv)
    have "d' = ?d2" "result = (st, reply)"
      using Suc.prems(2) serve_not_retryable [OF sv]
      by (simp_all add: unfold call Let_def del: resilience_loop.simps split: if_splits)
    then have "d' = ?d2 \<and> (result = (st, reply) \<or> error_code_of (fst result) = CANCELLED \<or>
      error_code_of (fst result) = DEADLINE_EXCEEDED \<and> Suc n = 0)" by simp
    then show ?thesis using carried_out_one [OF sv] by blast
  next
    case True
    then have call: "net_call J sc ord (lat (dp_time d)) stub md timeout req d = (too_late, ?d2)"
      using Suc.prems(1) by (simp add: net_call_def sv)
    obtain lst lreply where late: "too_late = (lst, lreply)" by (cases too_late)
    have lst: "\<not> is_ok lst" "error_code_of lst = DEADLINE_EXCEEDED" using too_late_status by (simp_all add: late)
    define t where "t = (if wait > 0 then dp_time ?d2 + wait else dp_time ?d2)"
    have d3: "(if wait > 0 then ?d2\<lparr>dp_time := dp_time ?d2 + wait\<rparr> else ?d2) = d1\<lparr>dp_time := t\<rparr>"
      by (simp add: t_def)
    show ?thesis
    proof (cases "wait > 0 \<and> stop (dp_time ?d2)")
      case True
      then have "d' = d1\<lparr>dp_time := t\<rparr>" "error_code_of (fst result) = CANCELLED"
        using Suc.prems(2) lst
        by (auto simp: unfold call late IsRetryable_def t_def simp del: resilience_loop.simps)
      then show ?thesis using carried_out_one [OF sv] by blast
    next
      case False
      then have "resilience_loop (timed_env J sc ord lat stop) md timeout wait stub req (Suc n)
          (RecordFailure (dp_time ?d2) b) (d1\<lparr>dp_time := t\<rparr>) = (result, b', d')"
        using Suc.prems(2) lst
        by (auto simp: unfold call late IsRetryable_def t_def Let_def simp del: resilience_loop.simps split: if_splits)
      moreover have "snd stub = address_of req (d1\<lparr>dp_time := t\<rparr>)"
        using Suc.prems(1) address_of_frame(1) [of req J sc ord req d] by (simp add: sv)
      ultimately obtain ts where "carried_out J sc ord req (Suc n) ts (d1\<lparr>dp_time := t\<rparr>) result d'"
        using Suc.IH by blast
      then show ?thesis using carried_out_Cons [OF _ sv] by blast
    qed
  qed
qed

text \<open>
  What the result of a call tells: refused by the gateway it was not carried out, and otherwise at least once.
\<close>

definition call_tells :: "'j json_api \<Rightarrow> scan_order \<Rightarrow> ((string \<times> query_row) list \<Rightarrow> (string \<times> query_row) list) \<Rightarrow>
    rpc_request \<Rightarrow> nat \<Rightarrow> time_ns list \<Rightarrow> deployment \<Rightarrow> grpc_status \<times> rpc_reply \<Rightarrow> deployment \<Rightarrow> bool" where
  "call_tells J sc ord req n ts d result d' \<longleftrightarrow>
     ts = [] \<and> error_code_of (fst result) \<in> {RESOURCE_EXHAUSTED, UNAVAILABLE} \<and> d' = d \<or>
     carried_out J sc ord req n ts d result d'"

lemma invoke_tells:
  assumes "snd stub = address_of req d"
    and "InvokeWithResilienceAsync (timed_env J sc ord lat stop) rnd ctx runtime stub req b l d = (result, b', l', d')"
  shows "\<exists>ts. call_tells J sc ord req (nat (max 1 (retry_attempts runtime))) ts d result d'"
proof -
  obtain n where n: "nat (max 1 (retry_attempts runtime)) = Suc n"
    by (metis not0_implies_Suc nat_0_iff max.cobounded1 not_one_le_zero order_trans)
  consider (refused) "error_code_of (fst result) \<in> {RESOURCE_EXHAUSTED, UNAVAILABLE}" "d' = d"
    | (tried) b1 where "resilience_loop (timed_env J sc ord lat stop) (AddMetadata ctx)
        (milliseconds (max 100 (grpc_timeout_ms runtime))) (milliseconds (max 0 (retry_backoff_ms runtime))) stub req (Suc n) b1 d =
      (result, b', d')"
    using assms(2) by (auto simp: InvokeWithResilienceAsync_def n Let_def simp del: resilience_loop.simps split: prod.splits if_splits)
  then show ?thesis
  proof cases
    case refused
    then show ?thesis by (auto simp: call_tells_def)
  next
    case tried
    then show ?thesis unfolding call_tells_def n using loop_carried_out [OF assms(1) tried] by blast
  qed
qed

section \<open>What a status tells\<close>

interpretation any_stub: stub_getter svc "stub_for svc"
  by unfold_locales
    (simp_all add: stub_for_def config_stubs.stub_target config_stubs.stub_breaker config_stubs.stub_limiter
      config_stubs.stub_targets user_stubs.stub_target user_stubs.stub_breaker user_stubs.stub_limiter user_stubs.stub_targets
      game_stubs.stub_target game_stubs.stub_breaker game_stubs.stub_limiter game_stubs.stub_targets)

text \<open>The answer to a call that the service did not answer OK.\<close>

definition failure_answer :: "'j json_api \<Rightarrow> grpc_status \<Rightarrow> exn + http_response" where
  "failure_answer J st =
     res_bind (json_dump J (ErrorJson J ''downstream_error'' (error_message st) (grpc_code_value (error_code_of st))))
       (\<lambda>b. Inr (json_response (HttpStatusFromGrpc (error_code_of st)) b))"

lemma route_tells:
  assumes env: "ge_grpc ge = timed_env (ge_json ge) (ge_scan ge) ord lat stop" "scan_ok (ge_scan ge)"
    and target: "service_target svc (targets r) = address_of req (gw_outside gw)" "quiet (gw_etcd gw)"
    and call: "route_call ge ctx svc (stub_for svc) (service_target svc (targets r)) (Inr req) render r gw = (res, r', gw')"
  shows "\<exists>ts st reply. call_tells (ge_json ge) (ge_scan ge) ord req (nat (max 1 (retry_attempts (runtime_config r)))) ts
      (gw_outside gw) (st, reply) (gw_outside gw') \<and>
    res_bind res (\<lambda>rr. Inr (json_response (status_code rr) (rr_body rr))) =
      (if is_ok st then answered (ge_json ge) (render reply) else failure_answer (ge_json ge) st)"
proof -
  let ?t = "service_target svc (targets r)"
  obtain ss where ss: "ResolveTarget (ge_scan ge) svc ?t (traffic_tag ctx) r (gw_etcd gw) = (?t, ss)"
    using ResolveTarget_quiet(1) [OF target(2) env(2), of svc ?t "traffic_tag ctx" r] by (metis prod.collapse)
  obtain stub r1 where stub: "stub_for svc ?t r = (stub, r1)" by fastforce
  have to: "snd stub = address_of req (gw_outside gw)"
    using any_stub.stub_target [of svc ?t r] unfolding stub by (simp add: target(1))
  obtain st reply b l w where inv: "InvokeWithResilienceAsync (ge_grpc ge) (ge_round ge) ctx (GetRuntimeConfig r) stub req
      (BreakerFor svc r1) (RateLimiterFor svc r1) (gw_outside gw) = ((st, reply), b, l, w)"
    by (metis prod.exhaust)
  have out: "gw_outside gw' = w"
    and res: "res = (if \<not> is_ok st then failed_result (ge_json ge) svc st else ok_result (ge_json ge) svc (render reply))"
    using call by (auto simp: route_call_def ss stub inv)
  have "res_bind res (\<lambda>rr. Inr (json_response (status_code rr) (rr_body rr))) =
      (if is_ok st then answered (ge_json ge) (render reply) else failure_answer (ge_json ge) st)"
    by (cases "json_dump (ge_json ge) (json_object (ge_json ge) (render reply))";
      cases "json_dump (ge_json ge) (ErrorJson (ge_json ge) ''downstream_error'' (error_message st) (grpc_code_value (error_code_of st)))")
      (simp_all add: res failed_result_def ok_result_def answered_def failure_answer_def)
  then show ?thesis
    using invoke_tells [OF to inv [unfolded env(1)]] by (simp add: out GetRuntimeConfig_def) blast
qed

lemma HttpStatus_refused: "HttpStatusFromGrpc c \<in> {429, 503} \<longleftrightarrow> c \<in> {RESOURCE_EXHAUSTED, UNAVAILABLE}"
  by (cases c) simp_all

lemma HttpStatus_late: "HttpStatusFromGrpc c = 504 \<longleftrightarrow> c = DEADLINE_EXCEEDED"
  by (cases c) simp_all

lemma failure_answer_status: "failure_answer J st = Inr resp \<Longrightarrow> hr_status resp = HttpStatusFromGrpc (error_code_of st)"
  by (auto simp: failure_answer_def res_bind_eq_Inr json_response_def)

lemma answered_status: "answered J kvs = Inr resp \<Longrightarrow> hr_status resp = 200"
  by (auto simp: answered_def res_bind_eq_Inr json_response_def)

lemma status_tells:
  assumes tells: "call_tells J sc ord req n ts d (st, reply) d'"
    and answer: "(if is_ok st then answered J (render reply) else failure_answer J st) = Inr resp"
  shows "ts = [] \<longleftrightarrow> hr_status resp \<in> {429, 503}"
    and "hr_status resp = 504 \<Longrightarrow> length ts = n"
    and "hr_status resp \<notin> {429, 502, 503, 504} \<Longrightarrow>
      fst (serve J sc ord req ((executions J sc ord req (butlast ts) d)\<lparr>dp_time := last ts\<rparr>)) = (st, reply)"
proof -
  have ok: "hr_status resp = 200 \<and> error_code_of st = OK" if "is_ok st"
    using answer that answered_status by (auto simp: is_ok_def)
  have err: "hr_status resp = HttpStatusFromGrpc (error_code_of st)" if "\<not> is_ok st"
    using answer that failure_answer_status by auto
  show "ts = [] \<longleftrightarrow> hr_status resp \<in> {429, 503}"
    using tells ok err HttpStatus_refused [of "error_code_of st"]
    by (cases "is_ok st") (auto simp: call_tells_def carried_out_def is_ok_def)
  show "length ts = n" if "hr_status resp = 504"
    using that tells ok err HttpStatus_late [of "error_code_of st"]
    by (cases "is_ok st") (auto simp: call_tells_def carried_out_def is_ok_def)
  show "fst (serve J sc ord req ((executions J sc ord req (butlast ts) d)\<lparr>dp_time := last ts\<rparr>)) = (st, reply)"
    if "hr_status resp \<notin> {429, 502, 503, 504}"
  proof -
    have "error_code_of st \<notin> transport_codes"
      using that ok err by (cases "is_ok st") (auto simp: transport_codes_def is_ok_def)
    then show ?thesis using tells by (auto simp: call_tells_def carried_out_def transport_codes_def)
  qed
qed

text \<open>
  C10: what the HTTP status of a request tells of its effects. Take a gateway in any state in front of a
  deployment in which every call reaches its service, is executed there at once and takes any time to be answered, and
  a request whose token is accepted and whose path and body lead to a call (so that the gateway's own
  401, 400 and 404 are not meant, nor requests whose fields throw). Answered 429 or 503 the
  request was not carried out at all, and only then; answered 504 it was carried out as often as there are
  attempts; with any other status at least once and at most that often, and unless it is 502 the answer is what
  its last execution gave. Apart from the time that has passed the deployment is the one these executions
  leave.
\<close>

theorem status_tells_executions:
  fixes he :: "('j, deployment) http_env"
  assumes env: "ge_grpc (he_route he) = timed_env (he_json he) (ge_scan (he_route he)) ord lat stop" "scan_ok (ge_scan (he_route he))"
    and router: "gt_router g = Some r" "service_target svc (targets r) = service_address svc (gw_outside (gt_world g))"
      "quiet (gw_etcd (gt_world g))"
    and token: "check_token he token g = Inr (Some c)"
    and routes: "routes_to he svc (stub_for svc) c path body req render"
  shows "let (answer, g') = HandleRequestAsync he m path body token hs g;
             d = gw_outside (gt_world g); d' = gw_outside (gt_world g');
             n = nat (max 1 (retry_attempts (runtime_config r)));
             run = executions (he_json he) (ge_scan (he_route he)) ord req
         in \<exists>ts. d' = (run ts d)\<lparr>dp_time := dp_time d'\<rparr> \<and> length ts \<le> n \<and>
              (\<forall>resp. answer = Inr resp \<longrightarrow>
                 (ts = [] \<longleftrightarrow> hr_status resp \<in> {429, 503}) \<and>
                 (hr_status resp = 504 \<longrightarrow> length ts = n) \<and>
                 (hr_status resp \<notin> {429, 502, 503, 504} \<longrightarrow>
                    (let (st, reply) = fst (serve (he_json he) (ge_scan (he_route he)) ord req ((run (butlast ts) d)\<lparr>dp_time := last ts\<rparr>))
                     in answer = (if is_ok st then answered (he_json he) (render reply) else failure_answer (he_json he) st))))"
proof -
  let ?d = "gw_outside (gt_world g)"
  have addr: "service_target svc (targets r) = address_of req ?d"
    using routes router(2) by (simp add: routes_to_def)
  obtain ctx res r' gw' ms where
    call: "route_call (he_route he) ctx svc (stub_for svc) (service_target svc (targets r)) (Inr req) render r (gt_world g) = (res, r', gw')"
    and handle: "HandleRequestAsync he m path body token hs g =
       (res_bind res (\<lambda>rr. Inr (json_response (status_code rr) (rr_body rr))),
        g\<lparr>request_seq := request_seq g + 1, gt_router := Some r', gt_world := gw'\<lparr>gw_metrics := ms\<rparr>\<rparr>)"
    by (rule http_routed [OF router(1) token routes, where m = m and hs = hs])
  from route_tells [OF env addr router(3) call] obtain ts st reply where
    tells: "call_tells (he_json he) (ge_scan (he_route he)) ord req (nat (max 1 (retry_attempts (runtime_config r)))) ts ?d (st, reply) (gw_outside gw')"
    and answer: "res_bind res (\<lambda>rr. Inr (json_response (status_code rr) (rr_body rr))) =
      (if is_ok st then answered (he_json he) (render reply) else failure_answer (he_json he) st)" by blast
  have world: "gw_outside (gt_world (g\<lparr>request_seq := request_seq g + 1, gt_router := Some r', gt_world := gw'\<lparr>gw_metrics := ms\<rparr>\<rparr>)) =
      gw_outside gw'" by simp
  show ?thesis
    unfolding handle answer prod.case Let_def world
  proof (intro exI [of _ ts] conjI allI impI)
    show "gw_outside gw' = (executions (he_json he) (ge_scan (he_route he)) ord req ts ?d)\<lparr>dp_time := dp_time (gw_outside gw')\<rparr>"
      "length ts \<le> nat (max 1 (retry_attempts (runtime_config r)))"
      using tells unfolding call_tells_def carried_out_def by auto
  next
    fix resp
    assume "(if is_ok st then answered (he_json he) (render reply) else failure_answer (he_json he) st) = Inr resp"
    note told = status_tells [OF tells, where render = render, OF this]
    show "ts = [] \<longleftrightarrow> hr_status resp \<in> {429, 503}" by (rule told(1))
    show "length ts = nat (max 1 (retry_attempts (runtime_config r)))" if "hr_status resp = 504" by (rule told(2) [OF that])
    show "case fst (serve (he_json he) (ge_scan (he_route he)) ord req
        ((executions (he_json he) (ge_scan (he_route he)) ord req (butlast ts) ?d)\<lparr>dp_time := last ts\<rparr>)) of
      (st', reply') \<Rightarrow>
        (if is_ok st then answered (he_json he) (render reply) else failure_answer (he_json he) st) =
        (if is_ok st' then answered (he_json he) (render reply') else failure_answer (he_json he) st')"
      if "hr_status resp \<notin> {429, 502, 503, 504}"
      unfolding told(3) [OF that] by simp
  qed
qed

section \<open>Requests that are carried out again\<close>

text \<open>Every execution of \<open>CreateUser\<close> makes a user of its own.\<close>

lemma create_step:
  "next_user_id (dp_user (snd (serve J sc ord (RpcCreateUser name) d))) = next_user_id (dp_user d) + 1"
  "users (dp_user (snd (serve J sc ord (RpcCreateUser name) d))) =
     (users (dp_user d))(user_id_of (next_user_id (dp_user d)) \<mapsto> new_profile (user_id_of (next_user_id (dp_user d))) (dp_wall d) name)"
  "dp_wall (snd (serve J sc ord req d)) = dp_wall d"
  using serve_frame(3) [of J sc ord req d]
  by (auto simp: CreateUser_def new_profile_def Let_def split_beta split: option.splits sum.splits) (metis prod.collapse)

lemma late_create_repeats:
  "next_user_id (dp_user (executions J sc ord (RpcCreateUser name) ts d)) = next_user_id (dp_user d) + of_nat (length ts)"
  "users (dp_user (executions J sc ord (RpcCreateUser name) ts d)) u =
     (if \<exists>i<length ts. u = user_id_of (next_user_id (dp_user d) + of_nat i)
      then Some (new_profile u (dp_wall d) name) else users (dp_user d) u)"
proof (induction ts arbitrary: d)
  case (Cons t ts)
  case 1
  show ?case by (simp add: Cons(1) create_step del: serve.simps)
  case 2
  show ?case
    by (auto simp: Cons(2) create_step Ex_less_Suc2 add.assoc add.commute [of 1] simp del: serve.simps)
qed simp_all

text \<open>Every further execution of \<open>JoinRoom\<close> leaves the rooms as the first has left them.\<close>

lemma join_step:
  "rooms (dp_game (snd (serve J sc ord (RpcJoinRoom i u) d))) = rooms (snd (JoinRoom i u (dp_game d)))"
  by (simp add: split_beta Let_def)

lemma JoinRoom_again: "rooms s = rooms (snd (JoinRoom i u s0)) \<Longrightarrow> rooms (snd (JoinRoom i u s)) = rooms s"
  by (auto simp: JoinRoom_def fun_upd_def insert_absorb split: option.splits if_splits)

lemma join_executions:
  "rooms (dp_game (executions J sc ord (RpcJoinRoom i u) (t # ts) d)) = rooms (snd (JoinRoom i u (dp_game d)))"
proof (induction ts rule: rev_induct)
  case Nil
  then show ?case by (simp add: split_beta Let_def)
next
  case (snoc x xs)
  then show ?case
    using JoinRoom_again by (simp add: executions_def join_step del: serve.simps)
qed

text \<open>A first answer that comes too late means a second execution, and the client gets the answer of that.\<close>

lemma loop_second:
  assumes "snd stub = address_of req d" and "lat (dp_time d) > timeout" and "\<not> stop (dp_time d + lat (dp_time d))" and "0 \<le> wait"
    and t: "t = dp_time d + lat (dp_time d) + wait" and "lat t \<le> timeout"
    and sv: "serve J sc ord req d = (a, d1)" "serve J sc ord req (d1\<lparr>dp_time := t\<rparr>) = ((st, reply), d2)"
  shows "\<exists>b'. resilience_loop (timed_env J sc ord lat stop) md timeout wait stub req (Suc (Suc n)) b d =
    ((st, reply), b', d2\<lparr>dp_time := t + lat t\<rparr>)"
proof -
  let ?d2 = "d1\<lparr>dp_time := dp_time d + lat (dp_time d)\<rparr>"
  obtain lst lreply where late: "too_late = (lst, lreply)" by (cases too_late)
  have lst: "\<not> is_ok lst" "error_code_of lst = DEADLINE_EXCEEDED" using too_late_status by (simp_all add: late)
  have one: "net_call J sc ord (lat (dp_time d)) stub md timeout req d = ((lst, lreply), ?d2)"
    using assms(1,2) by (simp add: net_call_def sv late)
  have "snd stub = address_of req (d1\<lparr>dp_time := t\<rparr>)"
    using assms(1) address_of_frame(1) [of req J sc ord req d] by (simp add: sv)
  then have two: "net_call J sc ord (lat t) stub md timeout req (d1\<lparr>dp_time := t\<rparr>) = ((st, reply), d2\<lparr>dp_time := t + lat t\<rparr>)"
    using assms(6) by (simp add: net_call_def sv)
  have "resilience_loop (timed_env J sc ord lat stop) md timeout wait stub req (Suc (Suc n)) b d =
      resilience_loop (timed_env J sc ord lat stop) md timeout wait stub req (Suc n) (RecordFailure (dp_time ?d2) b) (d1\<lparr>dp_time := t\<rparr>)"
    using lst assms(3,4) t
    by (cases "wait > 0") (simp_all add: resilience_loop.simps(2) [of _ _ _ _ _ _ "Suc n"] one IsRetryable_def Let_def del: resilience_loop.simps)
  then show ?thesis
    using serve_not_retryable [OF sv(2)] by (auto simp: two)
qed

lemma route_second:
  fixes ge :: "('j, deployment) gateway_env" and r gw and lat :: "time_ns \<Rightarrow> time_ns"
  defines "d \<equiv> gw_outside gw" and "timeout \<equiv> milliseconds (max 100 (grpc_timeout_ms (runtime_config r)))"
    and "t \<equiv> dp_time (gw_outside gw) + lat (dp_time (gw_outside gw)) + milliseconds (max 0 (retry_backoff_ms (runtime_config r)))"
  assumes env: "ge_grpc ge = timed_env (ge_json ge) (ge_scan ge) ord lat stop" "scan_ok (ge_scan ge)" "binary_rounding (ge_round ge) u e"
    and ready: "service_ready svc (ge_round ge) 1 r gw" "2 \<le> retry_attempts (runtime_config r)"
    and req: "address_of req d = service_address svc d"
    and timing: "lat (dp_time d) > timeout" "\<not> stop (dp_time d + lat (dp_time d))" "lat t \<le> timeout"
    and sv: "serve (ge_json ge) (ge_scan ge) ord req d = (a, d1)"
      "serve (ge_json ge) (ge_scan ge) ord req (d1\<lparr>dp_time := t\<rparr>) = ((st, reply), d2)"
    and call: "route_call ge ctx svc (stub_for svc) (service_target svc (targets r)) (Inr req) render r gw = (res, r', gw')"
  shows "gw_outside gw' = d2\<lparr>dp_time := t + lat t\<rparr> \<and>
    res = (if is_ok st then ok_result (ge_json ge) svc (render reply) else failed_result (ge_json ge) svc st)"
proof -
  let ?t = "service_target svc (targets r)"
  have q: "quiet (gw_etcd gw)" and target: "?t = address_of req d"
    using ready(1) req by (simp_all add: service_ready_def d_def)
  obtain ss where ss: "ResolveTarget (ge_scan ge) svc ?t (traffic_tag ctx) r (gw_etcd gw) = (?t, ss)"
    using ResolveTarget_quiet(1) [OF q env(2), of svc ?t "traffic_tag ctx" r] by (metis prod.collapse)
  obtain stub r1 where stub: "stub_for svc ?t r = (stub, r1)" by fastforce
  have to: "snd stub = address_of req d" and r1: "BreakerFor svc r1 = BreakerFor svc r" "RateLimiterFor svc r1 = RateLimiterFor svc r"
    using any_stub.stub_target [of svc ?t r] any_stub.stub_breaker [of svc svc ?t r] any_stub.stub_limiter [of svc svc ?t r]
    unfolding stub by (simp_all add: target)
  obtain n where n: "nat (max 1 (retry_attempts (runtime_config r))) = Suc (Suc n)"
  proof (rule that [of "nat (retry_attempts (runtime_config r) - 2)"])
    show "nat (max 1 (retry_attempts (runtime_config r))) = Suc (Suc (nat (retry_attempts (runtime_config r) - 2)))"
      using ready(2) by simp
  qed
  have wait: "0 \<le> milliseconds (max 0 (retry_backoff_ms (runtime_config r)))" by simp
  have "fst (Allow (ge_round ge) (dp_time d) (RateLimiterFor svc r))" "cb_state (BreakerFor svc r) = KClosed"
    using Allow_plenty(1) [OF env(3), of 0] ready(1) by (simp_all add: service_ready_def d_def)
  moreover have t: "t = dp_time d + lat (dp_time d) + milliseconds (max 0 (retry_backoff_ms (runtime_config r)))"
    by (simp add: t_def d_def)
  moreover obtain b' where "resilience_loop (timed_env (ge_json ge) (ge_scan ge) ord lat stop) (AddMetadata ctx) timeout
      (milliseconds (max 0 (retry_backoff_ms (runtime_config r)))) stub req (Suc (Suc n)) (BreakerFor svc r) d =
    ((st, reply), b', d2\<lparr>dp_time := t + lat t\<rparr>)"
    using loop_second [where lat = lat and stop = stop, OF to timing(1,2) wait t timing(3) sv] by blast
  ultimately have "\<exists>l. InvokeWithResilienceAsync (ge_grpc ge) (ge_round ge) ctx (GetRuntimeConfig r) stub req
      (BreakerFor svc r1) (RateLimiterFor svc r1) (gw_outside gw) = ((st, reply), b', l, d2\<lparr>dp_time := t + lat t\<rparr>)"
    by (simp add: InvokeWithResilienceAsync_def env(1) r1 n GetRuntimeConfig_def timeout_def d_def split_beta Let_def
        del: resilience_loop.simps)
  then show ?thesis
    using call by (auto simp: route_call_def ss stub)
qed

lemma JoinRoom_last_seat:
  assumes "rooms s i = Some room" "u \<notin> members room" "finite (members room)" "int (card (members room)) + 1 = max_players room"
  shows "JoinRoom i u s = ((status_ok, True), s\<lparr>rooms := (rooms s)(i \<mapsto> room\<lparr>members := insert u (members room)\<rparr>)\<rparr>)"
    and "s' = s\<lparr>rooms := (rooms s)(i \<mapsto> room\<lparr>members := insert u (members room)\<rparr>)\<rparr> \<Longrightarrow>
      JoinRoom i u s' = ((status_error FAILED_PRECONDITION ''room full'', False), s')"
  using assms by (simp_all add: JoinRoom_def)

text \<open>
  C18: a user who got the last seat is told that the room is full. Take a gateway in working order in front of a game service
  that answers the first attempt too late and the second in time. A \<open>/game/join-room\<close> for the last seat of a
  room takes the seat, and is answered with 412 and \<open>room full\<close>: \<open>JoinRoom\<close> compares the number of members
  with the limit before it looks whether the user is one of them.
\<close>

theorem late_join_refused:
  fixes he :: "('j, deployment) http_env"
  assumes env: "ge_grpc (he_route he) = timed_env (he_json he) (ge_scan (he_route he)) ord lat stop"
      "scan_ok (ge_scan (he_route he))" "binary_rounding (ge_round (he_route he)) u e"
    and router: "gt_router g = Some r" "service_ready ''game_service'' (ge_round (he_route he)) 1 r (gt_world g)"
      "2 \<le> retry_attempts (runtime_config r)"
    and d: "d = gw_outside (gt_world g)"
    and timing: "t = dp_time d + lat (dp_time d) + milliseconds (max 0 (retry_backoff_ms (runtime_config r)))"
      "lat (dp_time d) > milliseconds (max 100 (grpc_timeout_ms (runtime_config r)))" "\<not> stop (dp_time d + lat (dp_time d))"
      "lat t \<le> milliseconds (max 100 (grpc_timeout_ms (runtime_config r)))"
    and token: "check_token he token g = Inr (Some c)"
    and join: "parse_body (he_json he) body = Some j" "json_value_string (he_json he) j ''room_id'' [] = Inr i"
      "json_value_string (he_json he) j ''user_id'' (user_id c) = Inr who"
    and room: "rooms (dp_game d) i = Some room" "who \<notin> members room" "finite (members room)"
      "int (card (members room)) + 1 = max_players room"
  shows "let (answer, g') = HandleRequestAsync he m ''/game/join-room'' body token hs g
         in answer = failure_answer (he_json he) (status_error FAILED_PRECONDITION ''room full'') \<and>
            rooms (dp_game (gw_outside (gt_world g'))) = (rooms (dp_game d))(i \<mapsto> room\<lparr>members := insert who (members room)\<rparr>)"
proof -
  let ?J = "he_json he" and ?sc = "ge_scan (he_route he)" and ?req = "RpcJoinRoom i who"
    and ?full = "status_error FAILED_PRECONDITION ''room full''"
  let ?s = "(dp_game d)\<lparr>rooms := (rooms (dp_game d))(i \<mapsto> room\<lparr>members := insert who (members room)\<rparr>)\<rparr>"
  have sv: "serve ?J ?sc ord ?req d = ((status_ok, SuccessReply True), d\<lparr>dp_game := ?s\<rparr>)"
    "serve ?J ?sc ord ?req (d\<lparr>dp_game := ?s, dp_time := t\<rparr>) = ((?full, SuccessReply False), d\<lparr>dp_game := ?s, dp_time := t\<rparr>)"
    using JoinRoom_last_seat(1) [OF room] JoinRoom_last_seat(2) [OF room refl] by (simp_all add: grpc_reply_def)
  have routes: "routes_to he ''game_service'' (stub_for ''game_service'') c ''/game/join-room'' body ?req
      (\<lambda>reply. [(''success'', json_bool ?J (reply_success reply))])"
    using join_room_routes [OF join] by (simp add: stub_for_def)
  obtain ctx res r' gw' ms where
    call: "route_call (he_route he) ctx ''game_service'' (stub_for ''game_service'') (service_target ''game_service'' (targets r))
      (Inr ?req) (\<lambda>reply. [(''success'', json_bool ?J (reply_success reply))]) r (gt_world g) = (res, r', gw')"
    and handle: "HandleRequestAsync he m ''/game/join-room'' body token hs g =
       (res_bind res (\<lambda>rr. Inr (json_response (status_code rr) (rr_body rr))),
        g\<lparr>request_seq := request_seq g + 1, gt_router := Some r', gt_world := gw'\<lparr>gw_metrics := ms\<rparr>\<rparr>)"
    by (rule http_routed [OF router(1) token routes, where m = m and hs = hs])
  have "address_of ?req d = service_address ''game_service'' d" by (simp add: service_address_def)
  note second = route_second [OF env router(2,3) this [unfolded d] timing(2,3,4) [unfolded timing(1) d]
      sv(1) [unfolded d] _ call]
  have "gw_outside gw' = d\<lparr>dp_game := ?s, dp_time := t, dp_time := t + lat t\<rparr>" "res = failed_result ?J ''game_service'' ?full"
    using second [of ?full "SuccessReply False" "d\<lparr>dp_game := ?s, dp_time := t\<rparr>"] sv(2) by (simp_all add: d timing(1) is_ok_def status_error_def)
  moreover from this(2) have "res_bind res (\<lambda>rr. Inr (json_response (status_code rr) (rr_body rr))) = failure_answer ?J ?full"
    by (cases "json_dump ?J (ErrorJson ?J ''downstream_error'' (error_message ?full) (grpc_code_value (error_code_of ?full)))")
      (simp_all add: failed_result_def failure_answer_def)
  ultimately show ?thesis by (simp add: handle)
qed

section \<open>A slow deployment to try them on\<close>

text \<open>The first call takes ten seconds, every other three milliseconds.\<close>

definition slow_env :: "(document, deployment) http_env" where
  "slow_env = demo_env\<lparr>he_route := (he_route demo_env)\<lparr>ge_grpc :=
     timed_env sample_json sample_scan rev (\<lambda>t. if t = 0 then seconds 10 else milliseconds 3) (\<lambda>t. False)\<rparr>\<rparr>"

lemma slow_env_simps: "he_json slow_env = sample_json" "ge_scan (he_route slow_env) = sample_scan"
  "ge_grpc (he_route slow_env) = timed_env sample_json sample_scan rev (\<lambda>t. if t = 0 then seconds 10 else milliseconds 3) (\<lambda>t. False)"
  "ge_round (he_route slow_env) = fixed20"
  by (simp_all add: slow_env_def demo_env_def)

lemma sample_scan_ok: "scan_ok sample_scan"
  by (simp add: scan_ok_def sample_scan_def)

definition one_seat :: deployment where
  "one_seat = demo_deployment\<lparr>dp_game := (dp_game demo_deployment)\<lparr>rooms :=
     (\<lambda>_. None)(''room_1'' \<mapsto> \<lparr>room_name = ''arena'', max_players = 1, members = {}\<rparr>)\<rparr>\<rparr>"

definition one_seat_gateway :: "deployment gateway_process" where
  "one_seat_gateway = projr (gateway_main (\<lambda>d. True) 8 0 one_seat (Listening 8080) None)"

lemma one_seat_started: "gateway_main (\<lambda>d. True) 8 0 one_seat (Listening 8080) None = Inr one_seat_gateway"
  by (simp add: one_seat_gateway_def gateway_main_def LoadGatewayConfig_def LoadFlatConfig_def GetOr_uint16_def
      GetOr_int_def http_Start_def HttpServer_def Let_def)

lemma started_runtime:
  assumes "gateway_main mk hc now w (Listening p) file = Inr gp" and "LoadGatewayConfig file = Inr cfg" and "gt_router (gp_gateway gp) = Some r"
  shows "runtime_config r = \<lparr>grpc_timeout_ms = gc_grpc_timeout_ms cfg, retry_attempts = gc_grpc_retry_attempts cfg,
    retry_backoff_ms = gc_grpc_retry_backoff_ms cfg\<rparr>"
  using assms by (auto simp: gateway_main_def http_Start_def HttpServer_def GrpcRouter_def StartGrpcWorkers_def Let_def)

lemma started_auth:
  assumes "gateway_main mk hc now w (Listening p) file = Inr gp" and "gateway_main mk' hc' now' w' (Listening p') file = Inr gp'"
  shows "gt_auth (gp_gateway gp) = gt_auth (gp_gateway gp')"
proof -
  obtain cfg where "LoadGatewayConfig file = Inr cfg" using assms(1) by (auto simp: gateway_main_def res_bind_eq_Inr)
  then show ?thesis using assms by (auto simp: gateway_main_def http_Start_def HttpServer_def Let_def)
qed

lemma default_runtime: "LoadGatewayConfig None = Inr cfg \<Longrightarrow>
    gc_grpc_timeout_ms cfg = 800 \<and> gc_grpc_retry_attempts cfg = 2 \<and> gc_grpc_retry_backoff_ms cfg = 50"
  by (auto simp: LoadGatewayConfig_def LoadFlatConfig_def GetOr_uint16_def GetOr_string_def GetOr_bool_def GetOr_int_def Let_def)

lemma sample_dump: "\<exists>out. json_dump sample_json j = Inr out"
  by (simp add: sample_json_def)

theorem late_join_refused_witness:
  "let (answer, g') = HandleRequestAsync slow_env ''POST'' ''/game/join-room'' (demo_body [(''room_id'', ''room_1'')])
         ''user:ann'' (\<lambda>_. None) (gp_gateway one_seat_gateway)
   in (\<exists>out. answer = Inr (json_response 412 out)) \<and>
      rooms (dp_game (gw_outside (gt_world g'))) ''room_1'' =
        Some \<lparr>room_name = ''arena'', max_players = 1, members = {''ann''}\<rparr>"
proof -
  obtain cfg where cfg: "LoadGatewayConfig None = Inr cfg" "gc_game_service_target cfg = dp_game_at one_seat"
    using demo_gateway_file by (auto simp: one_seat_def demo_deployment_def)
  have "0 \<le> dp_time one_seat" by (simp add: one_seat_def demo_deployment_def)
  then obtain r where r: "gt_router (gp_gateway one_seat_gateway) = Some r" "gw_outside (gt_world (gp_gateway one_seat_gateway)) = one_seat"
      "service_ready ''game_service'' fixed20 1 r (gt_world (gp_gateway one_seat_gateway))"
    using gateway_main_ready [OF one_seat_started cfg(1) _ fixed20_rounding, of 1] cfg(2) by auto
  note config = started_runtime [OF one_seat_started cfg(1) r(1)] default_runtime [OF cfg(1)]
  have token: "check_token slow_env ''user:ann'' (gp_gateway one_seat_gateway) = Inr (Some (empty_context\<lparr>user_id := ''ann''\<rparr>))"
    by (rule demo_token [OF started_auth [OF one_seat_started demo_gateway_started]])
  have join: "json_value_string sample_json (DObject (map (\<lambda>(k, v). (k, DText v)) [(''room_id'', ''room_1'')])) ''room_id'' [] = Inr ''room_1''"
    "json_value_string sample_json (DObject (map (\<lambda>(k, v). (k, DText v)) [(''room_id'', ''room_1'')])) ''user_id'' ''ann'' = Inr ''ann''"
    by (simp_all add: sample_json_def)
  have dump: "\<exists>out. failure_answer sample_json (status_error FAILED_PRECONDITION ''room full'') = Inr (json_response 412 out)"
    using sample_dump [of "ErrorJson sample_json ''downstream_error'' ''room full'' 9"]
    by (auto simp: failure_answer_def status_error_def)
  have room: "rooms (dp_game one_seat) ''room_1'' = Some \<lparr>room_name = ''arena'', max_players = 1, members = {}\<rparr>" "dp_time one_seat = 0"
    by (simp_all add: one_seat_def demo_deployment_def)
  from late_join_refused [where he = slow_env, unfolded slow_env_simps(1,2), OF slow_env_simps(3) sample_scan_ok
      fixed20_rounding [folded slow_env_simps(4)] r(1) r(3) [folded slow_env_simps(4)] _ r(2) [symmetric] refl _ _ _
      token demo_body_parse join(1) _ room(1), where who = "''ann''" and m = "''POST''" and hs = "\<lambda>_. None"]
  show ?thesis
    using config join(2) dump by (auto simp: room(2) split_beta Let_def)
qed

theorem status_tells_executions_witness:
  "let (answer, g') = HandleRequestAsync slow_env ''POST'' ''/user/create'' (demo_body [(''nickname'', ''Ann'')])
         ''user:ann'' (\<lambda>_. None) (gp_gateway demo_gateway)
   in \<exists>k \<le> 2. next_user_id (dp_user (gw_outside (gt_world g'))) = 1 + of_nat k \<and>
        (\<forall>resp. answer = Inr resp \<and> hr_status resp = 504 \<longrightarrow> k = 2)"
proof -
  obtain cfg where cfg: "LoadGatewayConfig None = Inr cfg" "gc_user_service_target cfg = dp_user_at demo_deployment"
    using demo_gateway_file by (auto simp: demo_deployment_def)
  have "0 \<le> dp_time demo_deployment" by (simp add: demo_deployment_def)
  then obtain r where r: "gt_router (gp_gateway demo_gateway) = Some r" "gw_outside (gt_world (gp_gateway demo_gateway)) = demo_deployment"
      "service_ready ''user_service'' fixed20 1 r (gt_world (gp_gateway demo_gateway))"
    using gateway_main_ready [OF demo_gateway_started cfg(1) _ fixed20_rounding, of 1] cfg(2) by auto
  have ready: "service_target ''user_service'' (targets r) = service_address ''user_service'' (gw_outside (gt_world (gp_gateway demo_gateway)))"
    "quiet (gw_etcd (gt_world (gp_gateway demo_gateway)))" using r(3) by (simp_all add: service_ready_def)
  note config = started_runtime [OF demo_gateway_started cfg(1) r(1)] default_runtime [OF cfg(1)]
  have token: "check_token slow_env ''user:ann'' (gp_gateway demo_gateway) = Inr (Some (empty_context\<lparr>user_id := ''ann''\<rparr>))"
    by (rule demo_token [OF refl])
  have "user_create_request sample_json (DObject (map (\<lambda>(k, v). (k, DText v)) [(''nickname'', ''Ann'')])) = Inr (RpcCreateUser ''Ann'')"
    by (simp add: user_create_request_def sample_json_def)
  from user_create_routes [where he = slow_env, unfolded slow_env_simps(1), OF demo_body_parse this]
  have routes: "routes_to slow_env ''user_service'' (stub_for ''user_service'') c ''/user/create'' (demo_body [(''nickname'', ''Ann'')])
      (RpcCreateUser ''Ann'') (\<lambda>reply. [(''user_id'', json_string sample_json (up_user_id (reply_profile reply))),
               (''nickname'', json_string sample_json (nickname (reply_profile reply)))])" for c
    by (simp add: stub_for_def slow_env_simps(1))
  have "next_user_id (dp_user demo_deployment) = 1" by (simp add: demo_deployment_def UserServiceImpl_def)
  then have made: "w = (executions sample_json sample_scan rev (RpcCreateUser ''Ann'') ts demo_deployment)\<lparr>dp_time := t\<rparr> \<Longrightarrow>
      next_user_id (dp_user w) = 1 + of_nat (length ts)" for w ts t
    by (simp add: late_create_repeats(1))
  obtain answer g' where handle: "HandleRequestAsync slow_env ''POST'' ''/user/create'' (demo_body [(''nickname'', ''Ann'')])
         ''user:ann'' (\<lambda>_. None) (gp_gateway demo_gateway) = (answer, g')" by fastforce
  have two: "nat (max 1 (retry_attempts (runtime_config r))) = 2" using config by simp
  from status_tells_executions [where he = slow_env, unfolded slow_env_simps(1,2), OF slow_env_simps(3) sample_scan_ok
      r(1) ready token routes, of "''POST''" "\<lambda>_. None"]
  obtain ts where ts: "gw_outside (gt_world g') =
      (executions sample_json sample_scan rev (RpcCreateUser ''Ann'') ts demo_deployment)\<lparr>dp_time := dp_time (gw_outside (gt_world g'))\<rparr>"
      "length ts \<le> 2" "\<forall>resp. answer = Inr resp \<longrightarrow> hr_status resp = 504 \<longrightarrow> length ts = 2"
    unfolding handle prod.case Let_def r(2) two by blast
  show ?thesis
    unfolding handle prod.case Let_def using ts(2,3) made [OF ts(1)] by (intro exI [of _ "length ts"]) simp
qed

end
