(* ===== verification/Live_Gateway.thy ===== *)
theory Live_Gateway
  imports Gateway_Identities Late_Answers
begin

text \<open>
  The concurrent gateway of \<open>Gateway_Threads\<close> in front of the services of a deployment. What a reply says
  of the users and rooms is true when the service gives it, and stays true whatever the others do:
  the services' tables only grow.
\<close>

section \<open>What a reply says\<close>

fun reply_true :: "rpc_request \<Rightarrow> rpc_reply \<Rightarrow> deployment \<Rightarrow> bool" where
  "reply_true (RpcCreateUser n) reply d =
     (\<exists>p. reply = ProfileReply p \<and> users (dp_user d) (up_user_id p) = Some p \<and> nickname p = (if n = [] then ''anonymous'' else n))"
| "reply_true (RpcGetUser u) reply d = (\<exists>p. reply = ProfileReply p \<and> users (dp_user d) u = Some p)"
| "reply_true (RpcCreateRoom n m) reply d =
     (\<exists>i room. reply = RoomReply i \<and> rooms (dp_game d) i = Some room \<and> room_name room = n \<and> max_players room = m)"
| "reply_true (RpcJoinRoom i u) reply d =
     (reply = SuccessReply True \<and> (\<exists>room. rooms (dp_game d) i = Some room \<and> u \<in> members room))"
| "reply_true req reply d = True"

text \<open>Tables that grow: users are never changed, and rooms only gain members.\<close>

definition room_grows :: "room_state \<Rightarrow> room_state \<Rightarrow> bool" where
  "room_grows room room' \<longleftrightarrow>
     room_name room' = room_name room \<and> max_players room' = max_players room \<and> members room \<subseteq> members room'"

definition grows :: "deployment \<Rightarrow> deployment \<Rightarrow> bool" where
  "grows d d' \<longleftrightarrow>
     users (dp_user d) \<subseteq>\<^sub>m users (dp_user d') \<and>
     (\<forall>i room. rooms (dp_game d) i = Some room \<longrightarrow> (\<exists>room'. rooms (dp_game d') i = Some room' \<and> room_grows room room'))"

lemma grows_same: "users (dp_user d') = users (dp_user d) \<Longrightarrow> rooms (dp_game d') = rooms (dp_game d) \<Longrightarrow> grows d d'"
  by (simp add: grows_def room_grows_def)

lemma reply_true_grows:
  assumes g: "grows d d'" and "reply_true req reply d"
  shows "reply_true req reply d'"
proof -
  have u: "users (dp_user d') k = Some p" if "users (dp_user d) k = Some p" for k p
    using g that by (auto simp: grows_def map_le_def dom_def)
  have r: "\<exists>room'. rooms (dp_game d') i = Some room' \<and> room_grows room room'" if "rooms (dp_game d) i = Some room" for i room
    using g that by (auto simp: grows_def)
  show ?thesis using assms(2)
  proof (cases req)
    case (RpcCreateRoom n m)
    then show ?thesis using assms(2) r by (fastforce simp: room_grows_def)
  next
    case (RpcJoinRoom i x)
    then show ?thesis using assms(2) r by (fastforce simp: room_grows_def)
  qed (use u in auto)
qed

section \<open>The services\<close>

text \<open>
  The ids in use were handed out, and there are \<open>n\<close> more to hand out before the 64-bit counters come
  round.
\<close>

definition dep_ok :: "'j json_api \<Rightarrow> deployment \<Rightarrow> bool" where
  "dep_ok J d \<longleftrightarrow>
     user_inv J (dp_user d) \<and> int64_range (dp_wall d) \<and>
     (\<forall>k p. users (dp_user d) k = Some p \<longrightarrow> (\<exists>n < next_user_id (dp_user d). k = user_id_of n)) \<and>
     (\<forall>k room. rooms (dp_game d) k = Some room \<longrightarrow> (\<exists>n < next_room_id (dp_game d). k = room_id_of n))"

definition ids_left :: "nat \<Rightarrow> deployment \<Rightarrow> bool" where
  "ids_left n d \<longleftrightarrow> unat (next_user_id (dp_user d)) + n < 2 ^ 64 \<and> unat (next_room_id (dp_game d)) + n < 2 ^ 64"

definition request_utf8 :: "'j json_api \<Rightarrow> rpc_request \<Rightarrow> bool" where
  "request_utf8 J req \<longleftrightarrow> (\<forall>n. req = RpcCreateUser n \<longrightarrow> json_utf8 J n)"

lemma dep_time_frame [simp]:
  "dep_ok J (d\<lparr>dp_time := t\<rparr>) = dep_ok J d" "ids_left n (d\<lparr>dp_time := t\<rparr>) = ids_left n d"
  "grows d0 (d\<lparr>dp_time := t\<rparr>) = grows d0 d" "reply_true req reply (d\<lparr>dp_time := t\<rparr>) = reply_true req reply d"
  by (simp_all add: dep_ok_def ids_left_def grows_def) (cases req; simp)

lemma next_id:
  fixes c :: "64 word"
  assumes "unat c + Suc n < 2 ^ 64"
  shows "unat (c + 1) + n < 2 ^ 64" and "k < c + 1 \<longleftrightarrow> k < c \<or> k = c" and "k < c \<Longrightarrow> k \<noteq> c"
proof -
  have one: "unat (c + 1) = unat c + 1" using assms by (simp add: unat_word_ariths)
  then show "unat (c + 1) + n < 2 ^ 64" using assms by simp
  show "k < c + 1 \<longleftrightarrow> k < c \<or> k = c"
    by (auto simp: word_less_nat_alt one less_Suc_eq word_unat_eq_iff)
qed simp

lemma ids_left_less: "ids_left (Suc n) d \<Longrightarrow> ids_left n d"
  by (simp add: ids_left_def)

lemma CreateRoom_reply:
  assumes "fst (CreateRoom J name m s) = Inr (st, i)" and "is_ok st"
  shows "i = room_id_of (next_room_id s) \<and> name \<noteq> [] \<and> 0 < m"
  using assms
  by (cases "gs_redis s"; cases "name = [] \<or> m \<le> 0")
    (auto simp: CreateRoom_def Let_def is_ok_def status_error_def split: sum.splits)

lemma JoinRoom_reply: "is_ok (fst (fst (JoinRoom i u s))) \<longleftrightarrow> snd (fst (JoinRoom i u s))"
  by (simp add: JoinRoom_def is_ok_def status_error_def status_ok_def split: option.split)

lemma create_user_live:
  assumes J: "json_laws J" and d: "dep_ok J d" "ids_left (Suc n) d" and utf8: "json_utf8 J name"
    and serve: "serve J sc ord (RpcCreateUser name) d = ((st, reply), d')"
  shows "dep_ok J d' \<and> ids_left n d' \<and> grows d d' \<and> (is_ok st \<longrightarrow> reply_true (RpcCreateUser name) reply d')"
proof -
  let ?s = "dp_user d" and ?k = "next_user_id (dp_user d)"
  have "user_inv J ?s" "int64_range (dp_wall d)" "json_utf8 J name"
    using d(1) utf8 by (simp_all add: dep_ok_def)
  note c = CreateUser_writes_table [OF J this]
  have left: "unat ?k + Suc n < 2 ^ 64" using d(2) by (simp add: ids_left_def)
  note k = next_id [OF left]
  have fresh: "users ?s (user_id_of ?k) = None"
    using d(1) by (cases "users ?s (user_id_of ?k)") (auto simp: dep_ok_def user_id_of_inj)
  have d': "dp_user d' = snd (CreateUser J (dp_wall d) name ?s)" "dp_game d' = dp_game d" "dp_wall d' = dp_wall d"
    and r: "(st, reply) = (status_ok, ProfileReply (new_profile (user_id_of ?k) (dp_wall d) name))"
    using serve c(1) by (auto simp: split_beta Let_def grpc_reply_def)
  have "dep_ok J d'" using d(1) c(2-4) k(2) by (auto simp: dep_ok_def d')
  moreover have "ids_left n d'" using d(2) k(1) by (simp add: ids_left_def d' c(4))
  moreover have "grows d d'" using fresh by (auto simp: grows_def room_grows_def map_le_def d' c(3))
  ultimately show ?thesis using r by (simp add: d' c(3))
qed

lemma get_user_live:
  assumes J: "json_laws J" and ord: "traversal ord" and d: "dep_ok J d" "ids_left (Suc n) d"
    and serve: "serve J sc ord (RpcGetUser u) d = ((st, reply), d')"
  shows "dep_ok J d' \<and> ids_left n d' \<and> grows d d' \<and> (is_ok st \<longrightarrow> reply_true (RpcGetUser u) reply d')"
proof -
  have "user_inv J (dp_user d)" using d(1) by (simp add: dep_ok_def)
  note g = GetUser_reads_table [OF J ord this, of "dp_time d" u]
  have d': "dp_user d' = snd (GetUser J ord (dp_time d) u (dp_user d))" "dp_game d' = dp_game d" "dp_wall d' = dp_wall d"
    using serve by (auto simp: split_beta Let_def)
  have "is_ok st \<longrightarrow> (\<exists>p. reply = ProfileReply p \<and> users (dp_user d) u = Some p)"
    using serve g(1) by (auto simp: split_beta Let_def grpc_reply_def is_ok_def status_error_def split: option.splits)
  moreover have "grows d d'" by (rule grows_same) (simp_all add: d' g(3))
  ultimately show ?thesis
    using d ids_left_less [of n d] by (simp add: d' g(2,3) dep_ok_def ids_left_def GetUser_counter)
qed

lemma create_room_live:
  assumes d: "dep_ok J d" "ids_left (Suc n) d"
    and serve: "serve J sc ord (RpcCreateRoom name m) d = ((st, reply), d')"
  shows "dep_ok J d' \<and> ids_left n d' \<and> grows d d' \<and> (is_ok st \<longrightarrow> reply_true (RpcCreateRoom name m) reply d')"
proof -
  let ?s = "dp_game d" and ?k = "next_room_id (dp_game d)"
  have left: "unat ?k + Suc n < 2 ^ 64" using d(2) by (simp add: ids_left_def)
  note k = next_id [OF left]
  have fresh: "rooms ?s (room_id_of ?k) = None"
    using d(1) by (cases "rooms ?s (room_id_of ?k)") (auto simp: dep_ok_def room_id_of_inj)
  have d': "dp_game d' = snd (CreateRoom J name m ?s)" "dp_user d' = dp_user d" "dp_wall d' = dp_wall d"
    using serve by (auto simp: split_beta Let_def)
  note r = CreateRoom_rooms [of J name m ?s]
  have "dep_ok J d'" using d(1) k(2) by (auto simp: dep_ok_def d' r)
  moreover have "ids_left n d'" using d(2) k(1) by (simp add: ids_left_def d' r)
  moreover have "grows d d'" using fresh by (auto simp: grows_def room_grows_def d' r)
  moreover have "is_ok st \<longrightarrow> reply_true (RpcCreateRoom name m) reply d'"
    using CreateRoom_reply [of J name m ?s] serve
    by (auto simp: split_beta Let_def grpc_reply_def d' r is_ok_def status_error_def split: sum.splits)
  ultimately show ?thesis by blast
qed

lemma join_room_live:
  assumes d: "dep_ok J d" "ids_left (Suc n) d"
    and serve: "serve J sc ord (RpcJoinRoom i u) d = ((st, reply), d')"
  shows "dep_ok J d' \<and> ids_left n d' \<and> grows d d' \<and> (is_ok st \<longrightarrow> reply_true (RpcJoinRoom i u) reply d')"
proof -
  have d': "dp_game d' = snd (JoinRoom i u (dp_game d))" "dp_user d' = dp_user d" "dp_wall d' = dp_wall d"
    and r: "st = fst (fst (JoinRoom i u (dp_game d)))" "reply = SuccessReply (snd (fst (JoinRoom i u (dp_game d))))"
    using serve by (auto simp: split_beta Let_def grpc_reply_def)
  show ?thesis
  proof (cases rule: JoinRoom_cases [of "dp_game d" i u])
    case (joined room)
    then show ?thesis using d r by (auto simp: d' dep_ok_def ids_left_def grows_def room_grows_def split: if_splits)
  next
    case (refused st')
    then show ?thesis
      using d r JoinRoom_reply [of i u "dp_game d"] by (simp add: d' dep_ok_def ids_left_def grows_same)
  qed
qed

lemma serve_live:
  assumes J: "json_laws J" and ord: "traversal ord" and d: "dep_ok J d" "ids_left (Suc n) d" and utf8: "request_utf8 J req"
    and serve: "serve J sc ord req d = ((st, reply), d')"
  shows "dep_ok J d' \<and> ids_left n d' \<and> grows d d' \<and> (is_ok st \<longrightarrow> reply_true req reply d')"
proof (cases req)
  case (RpcCreateUser name)
  then have "json_utf8 J name" using utf8 by (simp add: request_utf8_def)
  from create_user_live [OF J d this serve [unfolded RpcCreateUser]] show ?thesis by (simp add: RpcCreateUser)
next
  case (RpcGetUser u)
  from get_user_live [OF J ord d serve [unfolded RpcGetUser]] show ?thesis by (simp add: RpcGetUser)
next
  case (RpcCreateRoom name m)
  from create_room_live [OF d serve [unfolded RpcCreateRoom]] show ?thesis by (simp add: RpcCreateRoom)
next
  case (RpcJoinRoom i u)
  from join_room_live [OF d serve [unfolded RpcJoinRoom]] show ?thesis by (simp add: RpcJoinRoom)
next
  case (RpcGetConfig ns k)
  then have "dp_user d' = dp_user d" "dp_game d' = dp_game d" "dp_wall d' = dp_wall d"
    using serve by (auto simp: split_beta Let_def)
  then show ?thesis using d by (simp add: RpcGetConfig dep_ok_def ids_left_def grows_same)
next
  case (RpcPublishConfig e)
  then have "dp_user d' = dp_user d" "dp_game d' = dp_game d" "dp_wall d' = dp_wall d"
    using serve by (auto simp: split_beta Let_def)
  then show ?thesis using d by (simp add: RpcPublishConfig dep_ok_def ids_left_def grows_same)
qed

section \<open>The threads of the gateway\<close>

abbreviation deployed :: "deployment gateway \<Rightarrow> deployment" where
  "deployed s \<equiv> gw_outside (gt_world s)"

text \<open>The invocation a call works on, and the result it holds.\<close>

fun invoked :: "'w invoke_thread \<Rightarrow> invocation option" where
  "invoked (IStart iv) = Some iv"
| "invoked (IAdmit iv) = Some iv"
| "invoked (ICall iv n) = (if n = 0 then None else Some iv)"
| "invoked (IReturned iv n r) = Some iv"
| "invoked (IWait iv n reply) = (if n = 0 then None else Some iv)"
| "invoked (IRefused iv r) = Some iv"
| "invoked (IAnswered iv r) = Some iv"
| "invoked (IElsewhere fs) = None"

fun held :: "'w invoke_thread \<Rightarrow> (grpc_status \<times> rpc_reply) option" where
  "held (IReturned iv n r) = Some r"
| "held (IRefused iv r) = Some r"
| "held (IAnswered iv r) = Some r"
| "held t = None"

definition call_holds :: "rpc_request \<Rightarrow> deployment invoke_thread \<Rightarrow> deployment \<Rightarrow> bool" where
  "call_holds req t d \<longleftrightarrow>
     (\<exists>iv. invoked t = Some iv \<and> iv_request iv = req) \<and>
     (\<forall>st reply. held t = Some (st, reply) \<longrightarrow> is_ok st \<longrightarrow> reply_true req reply d)"

text \<open>The plan of a task, and what an answer of 200 says.\<close>

definition planned :: "'j json_api \<Rightarrow> task \<Rightarrow> 'j plan \<Rightarrow> bool" where
  "planned J tk pl \<longleftrightarrow>
     (\<exists>tg json. parse_body J (tk_body tk) = Some json \<and> route_plan J tg (tk_path tk) json (tk_context tk) = Some pl)"

definition answer_true :: "'j json_api \<Rightarrow> task \<Rightarrow> route_result \<Rightarrow> deployment \<Rightarrow> bool" where
  "answer_true J tk rr d \<longleftrightarrow>
     (\<exists>pl req reply. planned J tk pl \<and> pl_request pl = Inr req \<and> reply_true req reply d \<and>
        json_dump J (json_object J (pl_render pl reply)) = Inr (rr_body rr))"

definition passes_time :: "(deployment \<Rightarrow> deployment) \<Rightarrow> bool" where
  "passes_time f \<longleftrightarrow> (\<forall>d. f d = d\<lparr>dp_time := dp_time (f d)\<rparr>)"

text \<open>
  A routed job runs with its own path and body and for a user it may act for; a request that was not routed
  is answered 200 only on a public or an administration path.
\<close>

definition task_ok :: "('j, deployment) http_env \<Rightarrow> auth_options option \<Rightarrow> task \<Rightarrow> bool" where
  "task_ok he auth tk \<longleftrightarrow>
     may_act_for he auth (tk_job tk) (user_id (tk_context tk)) \<and>
     (\<forall>m path body token hs. tk_job tk = HttpJob m path body token hs \<longrightarrow> tk_path tk = path \<and> tk_body tk = body)"

definition admin_job :: "job \<Rightarrow> bool" where
  "admin_job job \<longleftrightarrow> (\<exists>m path body token hs. job = HttpJob m path body token hs \<and> admin_path path)"

definition local_ok :: "job \<Rightarrow> answer \<Rightarrow> bool" where
  "local_ok job a \<longleftrightarrow>
     (\<forall>m path body token hs resp. job = HttpJob m path body token hs \<longrightarrow> a = HttpAnswer (Inr resp) \<longrightarrow> hr_status resp = 200 \<longrightarrow>
        public_path path \<or> admin_path path)"

fun answer_holds :: "('j, deployment) http_env \<Rightarrow> auth_options option \<Rightarrow> ('j, deployment) request_thread \<Rightarrow> deployment \<Rightarrow> bool" where
  "answer_holds he auth (GStart job) d = True"
| "answer_holds he auth (GAdmin job path m body) d = admin_job job"
| "answer_holds he auth (GLevel job) d = admin_job job"
| "answer_holds he auth (GUpdate job cfg) d = admin_job job"
| "answer_holds he auth (GShow job) d = admin_job job"
| "answer_holds he auth (GClaim job user) d = may_act_for he auth job user"
| "answer_holds he auth (GRoute tk) d = task_ok he auth tk"
| "answer_holds he auth (GResolve tk pl cfg) d = (task_ok he auth tk \<and> planned (he_json he) tk pl)"
| "answer_holds he auth (GStub tk pl cfg target) d = (task_ok he auth tk \<and> planned (he_json he) tk pl)"
| "answer_holds he auth (GCall tk pl t) d =
     (task_ok he auth tk \<and> planned (he_json he) tk pl \<and> (\<exists>req. pl_request pl = Inr req \<and> call_holds req t d))"
| "answer_holds he auth (GCount tk k rr) d = (task_ok he auth tk \<and> (status_code rr = 200 \<longrightarrow> answer_true (he_json he) tk rr d))"
| "answer_holds he auth (GAnswered job None a) d = local_ok job a"
| "answer_holds he auth (GAnswered job (Some (tk, routed)) a) d =
     (task_ok he auth tk \<and> job = tk_job tk \<and> a = routed_answer (he_json he) job routed \<and>
      (\<forall>rr. routed = Inr rr \<longrightarrow> status_code rr = 200 \<longrightarrow> answer_true (he_json he) tk rr d))"
| "answer_holds he auth (GElsewhere fs) d = (\<forall>f \<in> set fs. passes_time f)"

lemma answer_true_grows: "grows d d' \<Longrightarrow> answer_true J tk rr d \<Longrightarrow> answer_true J tk rr d'"
  unfolding answer_true_def using reply_true_grows by blast

lemma answer_holds_grows: "grows d d' \<Longrightarrow> answer_holds he auth t d \<Longrightarrow> answer_holds he auth t d'"
  by (cases "(he, auth, t, d)" rule: answer_holds.cases) (auto simp: call_holds_def intro: answer_true_grows reply_true_grows)

section \<open>Every action keeps them true\<close>

text \<open>The JSON library accepts no text that is not UTF-8.\<close>

definition parses_utf8 :: "'j json_api \<Rightarrow> bool" where
  "parses_utf8 J \<longleftrightarrow>
     (\<forall>body json k v. parse_body J body = Some json \<longrightarrow> json_value_string J json k [] = Inr v \<longrightarrow> json_utf8 J v)"

lemma planned_utf8: "parses_utf8 J \<Longrightarrow> planned J tk pl \<Longrightarrow> pl_request pl = Inr req \<Longrightarrow> request_utf8 J req"
  by (auto simp: planned_def route_plan_def request_utf8_def parses_utf8_def res_bind_eq_Inr user_create_request_def
      config_get_request_def config_publish_request_def user_get_request_def create_room_request_def join_room_request_def
      split: if_splits)

lemma net_call_live:
  assumes "json_laws J" and "traversal ord" and "dep_ok J d" "ids_left (Suc n) d" and "request_utf8 J req"
    and call: "net_call J sc ord latency stub md timeout req d = ((st, reply), d')"
  shows "dep_ok J d' \<and> ids_left n d' \<and> grows d d' \<and> (is_ok st \<longrightarrow> reply_true req reply d')"
proof (cases "snd stub = address_of req d")
  case True
  obtain st1 reply1 d1 where sv: "serve J sc ord req d = ((st1, reply1), d1)" by (metis prod.exhaust)
  have "d' = d1\<lparr>dp_time := dp_time d + latency\<rparr>" "(st, reply) = (st1, reply1) \<or> \<not> is_ok st"
    using call True by (auto simp: net_call_def sv too_late_def is_ok_def status_error_def split: if_splits)
  then show ?thesis using serve_live [OF assms(1-5) sv] by auto
next
  case False
  then show ?thesis
    using assms(3,4) call ids_left_less by (auto simp: net_call_def no_service_def is_ok_def status_error_def grows_same)
qed

lemma invoke_live:
  assumes J: "json_laws J" "traversal ord" and d: "dep_ok J (is_world c)" "ids_left (Suc n) (is_world c)" and utf8: "request_utf8 J req"
    and t: "call_holds req t (is_world c)"
    and st: "invoke_thread_step (timed_env J sc ord lat stop) rnd t c = Some (t', c')"
  shows "dep_ok J (is_world c') \<and> ids_left n (is_world c') \<and> grows (is_world c) (is_world c') \<and> call_holds req t' (is_world c')"
proof -
  note less = ids_left_less [OF d(2)]
  show ?thesis
  proof (cases t)
    case (IStart iv)
    then show ?thesis
      using st t d less by (auto simp: Let_def split_beta call_holds_def is_ok_def status_error_def grows_same split: if_splits)
  next
    case (IAdmit iv)
    then show ?thesis
      using st t d less by (auto simp: Let_def split_beta call_holds_def is_ok_def status_error_def grows_same iv_attempts_def split: if_splits)
  next
    case (ICall iv k)
    then obtain m where m: "k = Suc m" "iv_request iv = req" using t by (cases k) (auto simp: call_holds_def)
    obtain s reply w where call: "net_call J sc ord (lat (dp_time (is_world c))) (iv_stub iv) (AddMetadata (iv_context iv)) (iv_timeout iv) req (is_world c) =
        ((s, reply), w)" by (metis prod.exhaust)
    show ?thesis using net_call_live [OF J d utf8 call] st by (auto simp: ICall m call call_holds_def)
  next
    case (IReturned iv k r)
    then show ?thesis using st t d less by (cases r) (auto simp: call_holds_def grows_same split: if_splits)
  next
    case (IWait iv k reply)
    then show ?thesis
      using st t d less by (auto simp: call_holds_def grows_same is_ok_def status_error_def split: if_splits)
  next
    case (IElsewhere fs)
    then show ?thesis using t by (simp add: call_holds_def)
  qed (use st in simp_all)
qed

lemma deployed_frame [simp]:
  "deployed (set_router r s) = deployed s" "deployed (set_outside w s) = w" "deployed (put_view service c s) = is_world c"
  "deployed (count_name name s) = deployed s" "is_world (call_view service s) = gw_outside (gt_world s)"
  by (simp_all add: set_router_def set_outside_def put_view_def count_name_def call_view_def)

lemma local_answer_holds [simp]: "answer_holds he auth (local_answer job r) d \<longleftrightarrow> local_ok job (HttpAnswer r)"
  by (simp add: local_answer_def)

lemma local_ok_simps [simp]:
  "local_ok job (HttpAnswer (Inl e))" "st \<noteq> 200 \<Longrightarrow> local_ok job (HttpAnswer (Inr (json_response st b)))"
  "local_ok job (WsAnswer x)" "admin_job job \<Longrightarrow> local_ok job a"
  "public_path path \<Longrightarrow> local_ok (HttpJob m path body token hs) a"
  by (auto simp: local_ok_def admin_job_def json_response_def)

lemma start_http_holds:
  assumes "gt_auth s = auth"
  shows "answer_holds he auth (start_http he (HttpJob m path body token hs) m path body token s) d"
proof -
  consider "public_path path" | "admin_path path" "\<not> public_path path" | "\<not> public_path path" "\<not> admin_path path" by blast
  then show ?thesis
  proof cases
    case 1
    then show ?thesis by (auto simp: start_http_def public_path_def)
  next
    case 2
    then show ?thesis
      by (auto simp: start_http_def public_path_def admin_path_def admin_job_def unauthorized_admin_def split: sum.split)
  next
    case 3
    have may: "may_act_for he auth (HttpJob m path body token hs) (user_id c)" if "check_token he token s = Inr (Some c)" for c
      using that 3 assms by (auto simp: may_act_for_def)
    show ?thesis
      using 3 may by (simp add: start_http_def public_path_def admin_path_def split: sum.split option.split)
  qed
qed

lemma log_level_holds:
  "log_level_action he job m body s = (t, s') \<Longrightarrow> admin_job job \<Longrightarrow> answer_holds he auth t d \<and> deployed s' = deployed s"
  using log_level_form [where P = "\<lambda>c. admin_job job \<longrightarrow> answer_holds he auth (fst c) d \<and> deployed (snd c) = deployed s", of job s he m body]
  by simp

lemma runtime_config_holds: "admin_job job \<Longrightarrow> answer_holds he auth (runtime_config_action he job m body s) d"
  by (rule runtime_config_form) simp_all

lemma claim_answer_holds: "may_act_for he auth job user \<Longrightarrow> answer_holds he auth (claimed_task he job user s) d"
  by (auto simp: claimed_task_def task_ok_def Let_def split: job.split option.split sum.split)

lemma route_ends_holds:
  "task_ok he auth tk \<Longrightarrow> (\<And>rr. routed = Inr rr \<Longrightarrow> status_code rr = 200 \<Longrightarrow> answer_true (he_json he) tk rr d) \<Longrightarrow>
   answer_holds he auth (route_ends (he_json he) tk routed) d"
  by (auto simp: route_ends_def split: sum.split)

lemma route_branch_holds: "task_ok he auth tk \<Longrightarrow> answer_holds he auth (route_branch (he_json he) tk r) d"
  by (auto simp: route_branch_def local_result_def res_bind_eq_Inr planned_def intro!: route_ends_holds split: option.split)

lemma result_holds:
  assumes "task_ok he auth tk" and "planned (he_json he) tk pl" and "pl_request pl = Inr req" and "is_ok st \<longrightarrow> reply_true req reply d"
  shows "answer_holds he auth (route_ends (he_json he) tk (if \<not> is_ok st then failed_result (he_json he) (pl_service pl) st
      else ok_result (he_json he) (pl_service pl) (pl_render pl reply))) d"
proof (rule route_ends_holds [OF assms(1)])
  let ?J = "he_json he"
  fix rr
  assume rr: "(if \<not> is_ok st then failed_result ?J (pl_service pl) st else ok_result ?J (pl_service pl) (pl_render pl reply)) = Inr rr"
    and ok: "status_code rr = 200"
  have "is_ok st"
  proof (rule ccontr)
    assume "\<not> is_ok st"
    then have "status_code rr = HttpStatusFromGrpc (error_code_of st)" using rr by (auto simp: failed_result_def res_bind_eq_Inr)
    then show False using ok HttpStatusFromGrpc_error [of "error_code_of st"] by simp
  qed
  moreover from this have "json_dump ?J (json_object ?J (pl_render pl reply)) = Inr (rr_body rr)"
    using rr by (auto simp: ok_result_def res_bind_eq_Inr)
  ultimately show "answer_true ?J tk rr d"
    using assms unfolding answer_true_def by blast
qed

definition live_env :: "('j, deployment) http_env \<Rightarrow> bool" where
  "live_env he \<longleftrightarrow>
     json_laws (he_json he) \<and> parses_utf8 (he_json he) \<and>
     (\<exists>sc ord lat stop. traversal ord \<and> ge_grpc (he_route he) = timed_env (he_json he) sc ord lat stop)"

lemma call_live:
  assumes he: "live_env he" and d: "dep_ok (he_json he) (deployed s)" "ids_left (Suc n) (deployed s)"
    and t: "answer_holds he auth (GCall tk pl x) (deployed s)" and st: "request_step he (GCall tk pl x) s = Some (t', s')"
  shows "dep_ok (he_json he) (deployed s') \<and> ids_left n (deployed s') \<and> grows (deployed s) (deployed s') \<and>
    answer_holds he auth t' (deployed s')"
proof -
  let ?J = "he_json he"
  obtain req where req: "task_ok he auth tk" "planned ?J tk pl" "pl_request pl = Inr req" "call_holds req x (deployed s)"
    using t by auto
  show ?thesis
  proof (cases "invoke_answer x")
    case None
    then obtain x' c where x': "invoke_thread_step (ge_grpc (he_route he)) (ge_round (he_route he)) x (call_view (pl_service pl) s) = Some (x', c)"
        "t' = GCall tk pl x'" "s' = put_view (pl_service pl) c s"
      using st by auto
    obtain sc ord lat stop where env: "json_laws ?J" "traversal ord" "ge_grpc (he_route he) = timed_env ?J sc ord lat stop"
        "parses_utf8 ?J"
      using he by (auto simp: live_env_def)
    show ?thesis
      using invoke_live [OF env(1,2) _ _ planned_utf8 [OF env(4) req(2,3)] _ x'(1) [unfolded env(3)], of n] d req
      by (auto simp: x'(2,3))
  next
    case (Some r)
    obtain st' reply where r: "r = (st', reply)" by (cases r)
    then have "held x = Some (st', reply)" using Some by (cases x) simp_all
    then have "answer_holds he auth (route_ends ?J tk (if \<not> is_ok st' then failed_result ?J (pl_service pl) st'
        else ok_result ?J (pl_service pl) (pl_render pl reply))) (deployed s)"
      using req(4) by (intro result_holds [OF req(1-3)]) (auto simp: call_holds_def)
    then show ?thesis using st d ids_left_less by (auto simp: Some r grows_same)
  qed
qed

lemma request_live:
  assumes he: "live_env he" and auth: "gt_auth s = auth" and d: "dep_ok (he_json he) (deployed s)" "ids_left (Suc n) (deployed s)"
    and t: "answer_holds he auth t (deployed s)" and st: "request_step he t s = Some (t', s')"
  shows "dep_ok (he_json he) (deployed s') \<and> ids_left n (deployed s') \<and> grows (deployed s) (deployed s') \<and>
    answer_holds he auth t' (deployed s')"
proof -
  let ?J = "he_json he"
  have still: ?thesis if "deployed s' = deployed s" "answer_holds he auth t' (deployed s)"
    using that d ids_left_less by (simp add: grows_same)
  show ?thesis
  proof (cases t)
    case (GStart job)
    show ?thesis
    proof (cases job)
      case (HttpJob m path body token hs)
      then show ?thesis using st start_http_holds [OF auth] by (intro still) (auto simp: GStart)
    next
      case (WsJob payload user)
      then show ?thesis using st by (intro still) (auto simp: GStart split: option.splits)
    qed
  next
    case (GAdmin job path m body)
    then show ?thesis
      using st t log_level_holds [of he job "to_lower_ascii m" body s]
      by (intro still) (auto simp: Let_def runtime_config_holds split: if_splits)
  next
    case (GClaim job user)
    then show ?thesis using st t by (intro still) (auto simp: claim_answer_holds)
  next
    case (GRoute tk)
    then show ?thesis using st t by (intro still) (auto simp: route_branch_holds)
  next
    case (GStub tk pl cfg target)
    then show ?thesis using st t by (intro still) (auto simp: split_beta call_holds_def intro!: route_ends_holds split: sum.splits)
  next
    case (GCall tk pl x)
    from call_live [OF he d t [unfolded GCall] st [unfolded GCall]] show ?thesis .
  next
    case (GElsewhere fs)
    then obtain f gs where fs: "fs = f # gs" using st by (cases fs) auto
    then have f: "passes_time f" "\<forall>g \<in> set gs. passes_time g" using t by (simp_all add: GElsewhere)
    then obtain u where "f (deployed s) = (deployed s)\<lparr>dp_time := u\<rparr>" unfolding passes_time_def by blast
    then show ?thesis using st f(2) d ids_left_less by (auto simp: GElsewhere fs grows_same)
  qed (use st t in \<open>intro still; auto simp: Let_def split_beta split: if_splits\<close>)+
qed

definition live :: "('j, deployment) http_env \<Rightarrow> auth_options option \<Rightarrow> nat \<Rightarrow>
    ('j, deployment) request_thread list \<times> deployment gateway \<Rightarrow> bool" where
  "live he auth n c \<longleftrightarrow>
     gt_auth (snd c) = auth \<and> dep_ok (he_json he) (deployed (snd c)) \<and> ids_left n (deployed (snd c)) \<and>
     (\<forall>t \<in> set (fst c). answer_holds he auth t (deployed (snd c)))"

lemma live_step:
  assumes "live_env he" and c: "live he auth (Suc n) c" and "interleave (request_step he) c c'"
  shows "live he auth n c'"
proof -
  obtain ts s where ts: "c = (ts, s)" by (cases c)
  obtain i t' s' where i: "i < length ts" "request_step he (ts ! i) s = Some (t', s')" "c' = (ts[i := t'], s')"
    using assms(3) by (auto simp: ts elim: interleaveE)
  have t: "answer_holds he auth u (deployed s)" if "u \<in> set ts" for u using c that by (simp add: live_def ts)
  have d: "gt_auth s = auth" "dep_ok (he_json he) (deployed s)" "ids_left (Suc n) (deployed s)" using c by (simp_all add: live_def ts)
  note step = request_live [OF assms(1) d t [OF nth_mem [OF i(1)]] i(2)]
  have "answer_holds he auth u (deployed s')" if "u \<in> set (ts[i := t'])" for u
    using that set_update_subset_insert [of ts i t'] step answer_holds_grows [OF _ t] by blast
  then show ?thesis using step d(1) claim_step [OF i(2)] by (simp add: live_def i(3))
qed

lemma live_run:
  assumes "live_env he" and "(interleave (request_step he) ^^ n) c c'" and "live he auth (n + m) c"
  shows "live he auth m c'"
  using assms(2,3)
proof (induction n arbitrary: c)
  case (Suc n)
  obtain c1 where "interleave (request_step he) c c1" "(interleave (request_step he) ^^ n) c1 c'"
    using relpowp_Suc_D2 [OF Suc.prems(1)] by blast
  then show ?case using Suc.IH live_step [OF assms(1)] Suc.prems(2) by simp
qed simp

section \<open>What a client knows\<close>

text \<open>
  An answer of 200, path by path, with the document it answers and the user the request was made for.
\<close>

definition answer_says :: "('j, deployment) http_env \<Rightarrow> auth_options option \<Rightarrow> job \<Rightarrow> string \<Rightarrow> string \<Rightarrow> string \<Rightarrow> deployment \<Rightarrow> bool" where
  "answer_says he auth job path body reply d \<longleftrightarrow>
     (let J = he_json he in
      \<exists>json who. parse_body J body = Some json \<and> may_act_for he auth job who \<and>
       (path = ''/user/create'' \<longrightarrow>
          (\<exists>p name. json_value_string J json ''nickname'' [] = Inr name \<and> users (dp_user d) (up_user_id p) = Some p \<and>
             nickname p = (if name = [] then ''anonymous'' else name) \<and>
             json_dump J (json_object J [(''user_id'', json_string J (up_user_id p)), (''nickname'', json_string J (nickname p))]) = Inr reply)) \<and>
       (path = ''/user/get'' \<longrightarrow>
          (\<exists>u p. json_value_string J json ''user_id'' who = Inr u \<and> users (dp_user d) u = Some p \<and>
             json_dump J (json_object J (profile_response J p)) = Inr reply)) \<and>
       (path = ''/game/create-room'' \<longrightarrow>
          (\<exists>i room. rooms (dp_game d) i = Some room \<and> json_value_string J json ''room_name'' [] = Inr (room_name room) \<and>
             json_value_int J json ''max_players'' 4 = Inr (max_players room) \<and>
             json_dump J (json_object J [(''room_id'', json_string J i)]) = Inr reply)) \<and>
       (path = ''/game/join-room'' \<longrightarrow>
          (\<exists>i u room. json_value_string J json ''room_id'' [] = Inr i \<and> json_value_string J json ''user_id'' who = Inr u \<and>
             rooms (dp_game d) i = Some room \<and> u \<in> members room)))"

lemma answer_true_says:
  assumes "answer_true (he_json he) tk rr d" and "task_ok he auth tk" and "tk_job tk = HttpJob m path body token hs"
  shows "answer_says he auth (tk_job tk) path body (rr_body rr) d"
proof -
  let ?J = "he_json he"
  have tk: "tk_path tk = path" "tk_body tk = body" "may_act_for he auth (tk_job tk) (user_id (tk_context tk))"
    using assms(2,3) by (auto simp: task_ok_def)
  obtain pl req reply tg json where pl: "parse_body ?J body = Some json" "route_plan ?J tg path json (tk_context tk) = Some pl"
      "pl_request pl = Inr req" "reply_true req reply d" "json_dump ?J (json_object ?J (pl_render pl reply)) = Inr (rr_body rr)"
    using assms(1) unfolding answer_true_def planned_def tk(1,2) by blast
  show ?thesis
    unfolding answer_says_def Let_def
  proof (rule exI [of _ json], rule exI [of _ "user_id (tk_context tk)"], intro conjI impI)
    assume "path = ''/user/create''"
    then obtain name where "json_value_string ?J json ''nickname'' [] = Inr name" "req = RpcCreateUser name"
        "pl_render pl = (\<lambda>reply. [(''user_id'', json_string ?J (up_user_id (reply_profile reply))),
           (''nickname'', json_string ?J (nickname (reply_profile reply)))])"
      using pl(2,3) by (auto simp: route_plan_def res_bind_eq_Inr user_create_request_def)
    then show "\<exists>p name. json_value_string ?J json ''nickname'' [] = Inr name \<and> users (dp_user d) (up_user_id p) = Some p \<and>
        nickname p = (if name = [] then ''anonymous'' else name) \<and>
        json_dump ?J (json_object ?J [(''user_id'', json_string ?J (up_user_id p)), (''nickname'', json_string ?J (nickname p))]) = Inr (rr_body rr)"
      using pl(4,5) by auto
  next
    assume "path = ''/user/get''"
    then obtain u where "json_value_string ?J json ''user_id'' (user_id (tk_context tk)) = Inr u" "req = RpcGetUser u"
        "pl_render pl = (\<lambda>reply. profile_response ?J (reply_profile reply))"
      using pl(2,3) by (auto simp: route_plan_def res_bind_eq_Inr user_get_request_def)
    then show "\<exists>u p. json_value_string ?J json ''user_id'' (user_id (tk_context tk)) = Inr u \<and> users (dp_user d) u = Some p \<and>
        json_dump ?J (json_object ?J (profile_response ?J p)) = Inr (rr_body rr)"
      using pl(4,5) by auto
  next
    assume "path = ''/game/create-room''"
    then obtain n mp where r: "json_value_string ?J json ''room_name'' [] = Inr n" "json_value_int ?J json ''max_players'' 4 = Inr mp"
        "req = RpcCreateRoom n mp" "pl_render pl = (\<lambda>reply. [(''room_id'', json_string ?J (reply_room reply))])"
      using pl(2,3) by (auto simp: route_plan_def res_bind_eq_Inr create_room_request_def)
    moreover obtain k room where "reply = RoomReply k" "rooms (dp_game d) k = Some room" "room_name room = n" "max_players room = mp"
      using pl(4) by (auto simp: r(3))
    ultimately show "\<exists>i room. rooms (dp_game d) i = Some room \<and> json_value_string ?J json ''room_name'' [] = Inr (room_name room) \<and>
        json_value_int ?J json ''max_players'' 4 = Inr (max_players room) \<and>
        json_dump ?J (json_object ?J [(''room_id'', json_string ?J i)]) = Inr (rr_body rr)"
      using pl(5) by (intro exI [of _ k] exI [of _ room]) simp
  next
    assume "path = ''/game/join-room''"
    then obtain i u where "json_value_string ?J json ''room_id'' [] = Inr i" "req = RpcJoinRoom i u"
        "json_value_string ?J json ''user_id'' (user_id (tk_context tk)) = Inr u"
      using pl(2,3) by (auto simp: route_plan_def res_bind_eq_Inr join_room_request_def)
    then show "\<exists>i u room. json_value_string ?J json ''room_id'' [] = Inr i \<and>
        json_value_string ?J json ''user_id'' (user_id (tk_context tk)) = Inr u \<and> rooms (dp_game d) i = Some room \<and> u \<in> members room"
      using pl(4) by auto
  qed (rule pl(1) tk(3))+
qed

text \<open>
  C9: what concurrent clients are told of users and rooms is true and stays true. Take a gateway in any state in
  front of a deployment whose services answer after any time, and interleave any number of HTTP requests and
  WebSocket messages with each other and with the passing of time. At every moment of the run, and
  whatever else has happened since, an answer of 200 says what is so: the user made has the profile
  and the nickname that were asked for, the profile read is that of the user named, the room made has the
  name and the limit asked for, and who joined is a member. The 64-bit id counters must have a value
  left for every action of the run.
\<close>

theorem concurrent_answers_hold:
  fixes he :: "('j, deployment) http_env"
  assumes he: "live_env he" and run: "interleaved (request_step he) (ts, s) (ts', s')"
    and start: "\<forall>t \<in> set ts. (\<exists>job. t = GStart job) \<or> (\<exists>fs. t = GElsewhere fs \<and> (\<forall>f \<in> set fs. passes_time f))"
    and within: "attempts_within he B ts s"
    and services: "dep_ok (he_json he) (deployed s)" "ids_left (sum_list (map (request_work B) ts)) (deployed s)"
    and request: "i < length ts" "ts ! i = GStart (HttpJob m path body token hs)"
      "path \<in> {''/user/create'', ''/user/get'', ''/game/create-room'', ''/game/join-room''}"
    and answer: "ts' ! i = GAnswered job routed (HttpAnswer (Inr resp))" "hr_status resp = 200"
  shows "answer_says he (gt_auth s) job path body (hr_body resp) (deployed s')"
proof -
  obtain n where n: "(interleave (request_step he) ^^ n) (ts, s) (ts', s')" using run by (auto dest: rtranclp_imp_relpowp)
  then obtain k where k: "sum_list (map (request_work B) ts) = n + k"
    using requests.steps_bounded(1) [OF n within] le_Suc_ex by (metis add_leD1 add_0_right)
  have "answer_holds he (gt_auth s) t (deployed s)" if "t \<in> set ts" for t using start that by fastforce
  then have "live he (gt_auth s) (n + k) (ts, s)" using services by (simp add: live_def k)
  from live_run [OF he n this] have t: "answer_holds he (gt_auth s) (ts' ! i) (deployed s')"
    using request(1) interleaved_length [OF run] by (simp add: live_def)
  have "thread_job (ts' ! i) = thread_job (ts ! i)"
    using jobs_run [OF run] request(1) interleaved_length [OF run] by (metis nth_map)
  then have job: "job = HttpJob m path body token hs" by (simp add: answer(1) request(2))
  have "\<not> public_path path" "\<not> admin_path path" using request(3) by (auto simp: public_path_def admin_path_def)
  then obtain tk res where routed: "routed = Some (tk, res)" using t answer job by (cases routed) (auto simp: local_ok_def)
  then have tk: "task_ok he (gt_auth s) tk" "tk_job tk = job" "HttpAnswer (Inr resp) = routed_answer (he_json he) job res"
      "\<forall>rr. res = Inr rr \<longrightarrow> status_code rr = 200 \<longrightarrow> answer_true (he_json he) tk rr (deployed s')"
    using t answer by auto
  obtain rr where rr: "res = Inr rr" "resp = json_response (status_code rr) (rr_body rr)"
    using tk(3) by (cases res) (auto simp: routed_answer_def job)
  then have "answer_true (he_json he) tk rr (deployed s')" using tk(4) answer(2) by (simp add: json_response_def)
  from answer_true_says [OF this tk(1) tk(2) [unfolded job]] show ?thesis
    using rr(2) by (simp add: tk(2) json_response_def)
qed

section \<open>A run\<close>

text \<open>Documents whose integers are those of an \<open>int\<close>, and a request on its own.\<close>

definition capped_json :: "document json_api" where
  "capped_json = sample_json\<lparr>json_get_int := (\<lambda>j. case j of DNum n \<Rightarrow> Inr (min n 2147483647) | _ \<Rightarrow> Inl Json_type_error)\<rparr>"

definition capped_env :: "(document, deployment) http_env" where
  "capped_env = demo_env\<lparr>he_route := (he_route demo_env)\<lparr>ge_json := capped_json,
     ge_grpc := net_env capped_json sample_scan rev (milliseconds 3)\<rparr>\<rparr>"

lemma capped_json_simps [simp]:
  "json_value_string capped_json = json_value_string sample_json" "json_dump capped_json = json_dump sample_json"
  "json_object capped_json = json_object sample_json" "json_string capped_json = json_string sample_json"
  "json_parse capped_json = json_parse sample_json" "json_find capped_json = json_find sample_json"
  by (simp_all add: capped_json_def)

lemma capped_json_laws: "json_laws capped_json"
  by (auto simp: json_laws_def capped_json_def sample_json_def reads_back_def)

lemma capped_env_simps: "he_json capped_env = capped_json" "ge_scan (he_route capped_env) = sample_scan"
  "ge_grpc (he_route capped_env) = net_env capped_json sample_scan rev (milliseconds 3)" "ge_round (he_route capped_env) = fixed20"
  by (simp_all add: capped_env_def demo_env_def)

lemma capped_live: "live_env capped_env"
  unfolding live_env_def capped_env_simps
  by (intro conjI capped_json_laws exI [of _ sample_scan] exI [of _ rev] exI [of _ "\<lambda>t. milliseconds 3"] exI [of _ "\<lambda>t. False"])
    (simp_all add: parses_utf8_def timed_net_env capped_json_def sample_json_def)

lemma demo_services: "dep_ok J demo_deployment" "n < 2 ^ 64 - 1 \<Longrightarrow> ids_left n demo_deployment"
  by (simp_all add: dep_ok_def ids_left_def demo_deployment_def UserServiceImpl_def GameServiceImpl_def fresh_user_inv [unfolded UserServiceImpl_def])

lemma alone_run:
  "\<exists>routed. interleaved (request_step he) ([GStart (HttpJob m path body token hs)], s)
     ([GAnswered (HttpJob m path body token hs) routed (HttpAnswer (fst (HandleRequestAsync he m path body token hs s)))],
      snd (HandleRequestAsync he m path body token hs s))"
proof -
  let ?t = "GStart (HttpJob m path body token hs)"
  obtain routed k where "solo (request_step he) k ?t s =
     (GAnswered (HttpJob m path body token hs) routed (HttpAnswer (fst (HandleRequestAsync he m path body token hs s))),
      snd (HandleRequestAsync he m path body token hs s))"
    using http_alone [of he m path body token hs s] unfolding settles_def by blast
  then show ?thesis using solo_interleaved [of 0 "[?t]" ?t "request_step he" s k] by (intro exI [of _ routed]) simp
qed

lemma demo_create_answer:
  "\<exists>resp. fst (HandleRequestAsync capped_env ''POST'' ''/user/create'' (demo_body [(''nickname'', ''Ann'')]) ''user:ann'' (\<lambda>_. None)
     (gp_gateway demo_gateway)) = Inr resp \<and> hr_status resp = 200"
proof -
  obtain cfg where cfg: "LoadGatewayConfig None = Inr cfg" "gc_user_service_target cfg = dp_user_at demo_deployment"
    using demo_gateway_file by (auto simp: demo_deployment_def)
  have "0 \<le> dp_time demo_deployment" by (simp add: demo_deployment_def)
  then obtain r where r: "gt_router (gp_gateway demo_gateway) = Some r" "gw_outside (gt_world (gp_gateway demo_gateway)) = demo_deployment"
      "service_ready ''user_service'' fixed20 (Suc 0) r (gt_world (gp_gateway demo_gateway))"
    using gateway_main_ready [OF demo_gateway_started cfg(1) _ fixed20_rounding, of "Suc 0"] cfg(2) by auto
  have token: "check_token capped_env ''user:ann'' (gp_gateway demo_gateway) = Inr (Some (empty_context\<lparr>user_id := ''ann''\<rparr>))"
    by (rule demo_token [OF refl])
  have body: "parse_body capped_json (demo_body kvs) = Some (DObject (map (\<lambda>(k, v). (k, DText v)) kvs))" for kvs
    using demo_body_parse [of kvs] by (simp add: parse_body_def)
  have "user_create_request capped_json (DObject (map (\<lambda>(k, v). (k, DText v)) [(''nickname'', ''Ann'')])) = Inr (RpcCreateUser ''Ann'')"
    by (simp add: user_create_request_def) (simp add: sample_json_def)
  note routes = user_create_routes [where he = capped_env, unfolded capped_env_simps(1), OF body this]
  have "user_inv capped_json (dp_user demo_deployment)" "int64_range (dp_wall demo_deployment)" "json_utf8 capped_json ''Ann''"
    using demo_services(1) [of capped_json] by (simp_all add: dep_ok_def capped_json_def)
  note created = CreateUser_writes_table(1) [OF capped_json_laws this]
  then obtain p d1 where served: "serve capped_json sample_scan rev (RpcCreateUser ''Ann'') demo_deployment = ((status_ok, ProfileReply p), d1)"
    by (simp add: split_beta Let_def grpc_reply_def)
  have ok: "is_ok status_ok" by (simp add: is_ok_def status_ok_def)
  note delivered = user_stubs.http_delivers [where he = capped_env, unfolded capped_env_simps, OF refl _ _ sample_scan_ok fixed20_rounding
      r(1) r(3) _ token routes served [folded r(2)] ok, of "''POST''" "\<lambda>_. None"]
  obtain out where "json_dump capped_json (json_object capped_json [(''user_id'', json_string capped_json (up_user_id (reply_profile (ProfileReply p)))),
      (''nickname'', json_string capped_json (nickname (reply_profile (ProfileReply p))))]) = Inr out"
    using sample_dump by (metis capped_json_simps(2))
  from answered_ok [OF this] show ?thesis using delivered by (auto simp: json_response_def)
qed

theorem concurrent_answers_hold_witness:
  "\<exists>ts' s' p. interleaved (request_step capped_env)
     ([GStart (HttpJob ''POST'' ''/user/create'' (demo_body [(''nickname'', ''Ann'')]) ''user:ann'' (\<lambda>_. None))], gp_gateway demo_gateway) (ts', s') \<and>
     users (dp_user (deployed s')) (up_user_id p) = Some p \<and> nickname p = ''Ann''"
proof -
  let ?body = "demo_body [(''nickname'', ''Ann'')]"
  let ?job = "HttpJob ''POST'' ''/user/create'' ?body ''user:ann'' (\<lambda>_. None)" and ?g = "gp_gateway demo_gateway"
  obtain resp where resp: "fst (HandleRequestAsync capped_env ''POST'' ''/user/create'' ?body ''user:ann'' (\<lambda>_. None) ?g) = Inr resp" "hr_status resp = 200"
    using demo_create_answer by blast
  obtain routed s' where run: "interleaved (request_step capped_env) ([GStart ?job], ?g) ([GAnswered ?job routed (HttpAnswer (Inr resp))], s')"
    using alone_run [of capped_env "''POST''" "''/user/create''" ?body "''user:ann''" "\<lambda>_. None" ?g] unfolding resp(1) by blast
  obtain cfg where cfg: "LoadGatewayConfig None = Inr cfg" using demo_gateway_file by blast
  have "0 \<le> dp_time demo_deployment" by (simp add: demo_deployment_def)
  then obtain r where r: "gt_router ?g = Some r" "deployed ?g = demo_deployment"
    using gateway_main_ready [OF demo_gateway_started cfg(1) _ fixed20_rounding, of "Suc 0"] by auto
  have within: "attempts_within capped_env 2147483647 [GStart ?job] ?g"
    using started_runtime [OF demo_gateway_started cfg r(1)] default_runtime [OF cfg]
    by (auto simp: attempts_within_def r(1) capped_env_simps(1) capped_json_def split: document.splits)
  have "answer_says capped_env (gt_auth ?g) ?job ''/user/create'' ?body (hr_body resp) (deployed s')"
    by (rule concurrent_answers_hold [OF capped_live run _ within, where i = 0])
      (simp_all add: r(2) demo_services resp(2))
  then obtain json who p name where says: "parse_body capped_json ?body = Some json" "json_value_string sample_json json ''nickname'' [] = Inr name"
      "users (dp_user (deployed s')) (up_user_id p) = Some p" "nickname p = (if name = [] then ''anonymous'' else name)"
    unfolding answer_says_def Let_def capped_env_simps(1) by auto
  have "json = DObject (map (\<lambda>(k, v). (k, DText v)) [(''nickname'', ''Ann'')])"
    using says(1) demo_body_parse [of "[(''nickname'', ''Ann'')]"] by (simp add: parse_body_def)
  then have "name = ''Ann''" using says(2) by (simp add: sample_json_def)
  then show ?thesis using run says(3,4) by auto
qed

end
