(* ===== verification/Bus_Threads.thy ===== *)
theory Bus_Threads
  imports Message_Queue Threads
begin

text \<open>
  The message bus under concurrency: publishers, the worker of a consumer and the callers of its \<open>Start\<close> and
  \<open>Stop\<close>, action by action. \<open>QueueFor\<close> is a critical section of the bus's mutex, each access to the messages of a
  topic one of that queue's; between them the other threads may act. The queues are objects with addresses that the
  bus hands out (\<open>shared_ptr\<close>). Nobody waits on a queue's condition variable, so that \<open>notify_all\<close> does nothing.
\<close>

section \<open>What the threads share\<close>

text \<open>
  Where the worker is: at the head of its loop, before its next subscription (\<open>True\<close> once something was handled
  in this pass), with the queue of a topic, with the messages popped from it, asleep, or at its end.
\<close>

datatype 'h worker_at =
    WCheck
  | WNext "(string \<times> 'h) list" bool
  | WPop string 'h nat "(string \<times> 'h) list" bool
  | WHandle string 'h "string list" "(string \<times> 'h) list" bool
  | WSleep
  | WDone

text \<open>
  The bus, and one consumer: \<open>running_\<close>, its \<open>std::thread\<close> when it is joinable, and the handler calls made so
  far. \<open>aborted\<close> is set by \<open>std::terminate\<close>, after which nothing runs.
\<close>

record 'h bus_world =
  slots :: "string \<rightharpoonup> nat"
  queues :: "nat \<Rightarrow> string list"
  next_queue :: nat
  flag :: bool
  worker :: "'h worker_at option"
  handler_calls :: "(string \<times> 'h \<times> string) list"
  aborted :: bool

definition bus_start :: "'h bus_world" where
  "bus_start =
     \<lparr>slots = (\<lambda>_. None), queues = (\<lambda>_. []), next_queue = 0, flag = False, worker = None,
      handler_calls = [], aborted = False\<rparr>"

definition slot_for :: "string \<Rightarrow> 'h bus_world \<Rightarrow> nat \<times> 'h bus_world" where
  "slot_for topic w =
     (case slots w topic of
        Some q \<Rightarrow> (q, w)
      | None \<Rightarrow>
          (next_queue w,
           w\<lparr>slots := (slots w)(topic \<mapsto> next_queue w), queues := (queues w)(next_queue w := []),
             next_queue := Suc (next_queue w)\<rparr>))"

section \<open>The threads\<close>

text \<open>
  A publisher has messages behind it and before it; it is between two calls of \<open>Publish\<close>, or holds the queue of
  its next message. A caller of the consumer has calls to make; in \<open>Start\<close> it has set the flag and not yet
  started the thread, in \<open>Stop\<close> it has cleared the flag and waits for the thread to end.
\<close>

datatype consumer_call = CallStart | CallStop

datatype bus_thread =
    Publishing "(string \<times> string) list" "(string \<times> string) list"
  | Pushing nat "(string \<times> string) list" string string "(string \<times> string) list"
  | Controlling "consumer_call list"
  | Starting "consumer_call list"
  | Joining "consumer_call list"
  | Worker

text \<open>An iteration of the worker goes through \<open>subs\<close>, the subscriptions in the order of their table.\<close>

fun worker_step :: "(string \<times> 'h) list \<Rightarrow> 'h worker_at \<Rightarrow> 'h bus_world \<Rightarrow> ('h worker_at \<times> 'h bus_world) option" where
  "worker_step subs WCheck w = Some (if flag w then WNext subs False else WDone, w)"
| "worker_step subs (WNext [] handled) w = Some (if handled then WCheck else WSleep, w)"
| "worker_step subs (WNext ((topic, h) # rest) handled) w =
     (let (q, w1) = slot_for topic w in Some (WPop topic h q rest handled, w1))"
| "worker_step subs (WPop topic h q rest handled) w =
     (let (out, left) = pop_loop 32 (queues w q) []
      in Some (WHandle topic h out rest handled, w\<lparr>queues := (queues w)(q := left)\<rparr>))"
| "worker_step subs (WHandle topic h [] rest handled) w = Some (WNext rest handled, w)"
| "worker_step subs (WHandle topic h (p # ps) rest handled) w =
     Some (WHandle topic h ps rest True, w\<lparr>handler_calls := handler_calls w @ [(topic, h, p)]\<rparr>)"
| "worker_step subs WSleep w = Some (WCheck, w)"
| "worker_step subs WDone w = None"

text \<open>Starting a thread into a \<open>std::thread\<close> that is still joinable is \<open>std::terminate\<close>.\<close>

fun bus_thread_move :: "(string \<times> 'h) list \<Rightarrow> bus_thread \<Rightarrow> 'h bus_world \<Rightarrow> (bus_thread \<times> 'h bus_world) option" where
  "bus_thread_move subs (Publishing sent []) w = None"
| "bus_thread_move subs (Publishing sent ((topic, payload) # todo)) w =
     (let (q, w1) = slot_for topic w in Some (Pushing q sent topic payload todo, w1))"
| "bus_thread_move subs (Pushing q sent topic payload todo) w =
     Some (Publishing (sent @ [(topic, payload)]) todo, w\<lparr>queues := (queues w)(q := queues w q @ [payload])\<rparr>)"
| "bus_thread_move subs (Controlling []) w = None"
| "bus_thread_move subs (Controlling (CallStart # rest)) w =
     Some (if flag w then Controlling rest else Starting rest, w\<lparr>flag := True\<rparr>)"
| "bus_thread_move subs (Controlling (CallStop # rest)) w =
     Some (if flag w then Joining rest else Controlling rest, w\<lparr>flag := False\<rparr>)"
| "bus_thread_move subs (Starting rest) w =
     Some (Controlling rest, if worker w = None then w\<lparr>worker := Some WCheck\<rparr> else w\<lparr>aborted := True\<rparr>)"
| "bus_thread_move subs (Joining rest) w =
     (case worker w of
        None \<Rightarrow> Some (Controlling rest, w)
      | Some WDone \<Rightarrow> Some (Controlling rest, w\<lparr>worker := None\<rparr>)
      | Some _ \<Rightarrow> None)"
| "bus_thread_move subs Worker w =
     (case worker w of
        None \<Rightarrow> None
      | Some at \<Rightarrow> (case worker_step subs at w of
                      None \<Rightarrow> None
                    | Some (at', w') \<Rightarrow> Some (Worker, w'\<lparr>worker := Some at'\<rparr>)))"

definition bus_thread_step :: "(string \<times> 'h) list \<Rightarrow> bus_thread \<Rightarrow> 'h bus_world \<Rightarrow> (bus_thread \<times> 'h bus_world) option" where
  "bus_thread_step subs t w = (if aborted w then None else bus_thread_move subs t w)"

section \<open>The messages of a topic\<close>

text \<open>
  The merges of lists: every element once, those of one list in their order.
\<close>

fun merges :: "'a list list \<Rightarrow> 'a list set" where
  "merges [] = {[]}"
| "merges (xs # xss) = (\<Union>ys \<in> merges xss. shuffles xs ys)"

lemma shuffles_last: "ys @ [a] \<in> shuffles [a] ys" "ys @ [a] \<in> shuffles ys [a]"
  by (induction ys) (auto simp: Cons_in_shuffles_iff)

lemma shuffles_snoc:
  "zs \<in> shuffles xs ys \<Longrightarrow> zs @ [a] \<in> shuffles (xs @ [a]) ys \<and> zs @ [a] \<in> shuffles xs (ys @ [a])"
proof (induction xs ys arbitrary: zs rule: shuffles.induct)
  case (3 x xs y ys)
  then show ?case by (auto simp: Cons_in_shuffles_iff)
qed (auto simp: shuffles_last)

lemma merges_snoc:
  "zs \<in> merges xss \<Longrightarrow> i < length xss \<Longrightarrow> zs @ [a] \<in> merges (xss[i := xss ! i @ [a]])"
proof (induction xss arbitrary: zs i)
  case (Cons xs xss)
  then obtain ys where ys: "ys \<in> merges xss" "zs \<in> shuffles xs ys" by auto
  show ?case
  proof (cases i)
    case 0
    then show ?thesis using ys shuffles_snoc [of zs xs ys a] by auto
  next
    case (Suc j)
    then have "ys @ [a] \<in> merges (xss[j := xss ! j @ [a]])" using Cons ys(1) by simp
    then show ?thesis using ys(2) shuffles_snoc [of zs xs ys a] Suc by auto
  qed
qed simp

lemma merges_mset: "zs \<in> merges xss \<Longrightarrow> mset zs = sum_list (map mset xss)"
  by (induction xss arbitrary: zs) (auto simp: mset_shuffles)

lemma merges_empty: "merges (map (\<lambda>_. []) xs) = {[]}"
  by (induction xs) simp_all

section \<open>Exactly once, in order\<close>

definition topic_queue :: "string \<Rightarrow> 'h bus_world \<Rightarrow> string list" where
  "topic_queue t w = (case slots w t of None \<Rightarrow> [] | Some q \<Rightarrow> queues w q)"

text \<open>The messages of a topic that a thread has published, and those the worker has popped but not yet handled.\<close>

definition on_topic :: "string \<Rightarrow> (string \<times> string) list \<Rightarrow> string list" where
  "on_topic t ms = map snd (filter (\<lambda>m. fst m = t) ms)"

fun published :: "string \<Rightarrow> bus_thread \<Rightarrow> string list" where
  "published t (Publishing sent todo) = on_topic t sent"
| "published t (Pushing q sent topic payload todo) = on_topic t sent"
| "published t _ = []"

fun in_hand :: "string \<Rightarrow> 'h worker_at \<Rightarrow> string list" where
  "in_hand t (WHandle topic h ps rest handled) = (if topic = t then ps else [])"
| "in_hand t _ = []"

definition handled_messages :: "string \<Rightarrow> 'h bus_world \<Rightarrow> string list" where
  "handled_messages t w = map (snd \<circ> snd) (filter (\<lambda>c. fst c = t) (handler_calls w))"

definition on_the_way :: "string \<Rightarrow> 'h bus_world \<Rightarrow> string list" where
  "on_the_way t w = (case worker w of None \<Rightarrow> [] | Some at \<Rightarrow> in_hand t at) @ topic_queue t w"

definition bus_conserved :: "bus_thread list \<Rightarrow> 'h bus_world \<Rightarrow> bool" where
  "bus_conserved ts w \<longleftrightarrow> (\<forall>t. handled_messages t w @ on_the_way t w \<in> merges (map (published t) ts))"

text \<open>The queues are apart, and who holds one holds that of its topic.\<close>

definition slots_ok :: "'h bus_world \<Rightarrow> bool" where
  "slots_ok w \<longleftrightarrow>
     (\<forall>t q. slots w t = Some q \<longrightarrow> q < next_queue w \<and> (\<forall>u. slots w u = Some q \<longrightarrow> u = t))"

fun holds_queue :: "'h worker_at \<Rightarrow> 'h bus_world \<Rightarrow> bool" where
  "holds_queue (WPop topic h q rest handled) w = (slots w topic = Some q)"
| "holds_queue _ w = True"

fun at_subs :: "(string \<times> 'h) list \<Rightarrow> 'h worker_at \<Rightarrow> bool" where
  "at_subs subs (WNext rest handled) = (set rest \<subseteq> set subs)"
| "at_subs subs (WPop topic h q rest handled) = ((topic, h) \<in> set subs \<and> set rest \<subseteq> set subs)"
| "at_subs subs (WHandle topic h ps rest handled) = ((topic, h) \<in> set subs \<and> set rest \<subseteq> set subs)"
| "at_subs subs _ = True"

definition bus_ok :: "(string \<times> 'h) list \<Rightarrow> 'h bus_world \<Rightarrow> bool" where
  "bus_ok subs w \<longleftrightarrow> slots_ok w \<and> (\<forall>(t, h, p) \<in> set (handler_calls w). (t, h) \<in> set subs) \<and>
     (case worker w of None \<Rightarrow> True | Some at \<Rightarrow> holds_queue at w \<and> at_subs subs at)"

fun bus_thread_ok :: "bus_thread \<Rightarrow> 'h bus_world \<Rightarrow> bool" where
  "bus_thread_ok (Pushing q sent topic payload todo) w = (slots w topic = Some q)"
| "bus_thread_ok _ w = True"

lemma bus_frame [simp]:
  "slots_ok (w\<lparr>handler_calls := c\<rparr>) = slots_ok w" "slots_ok (w\<lparr>worker := a\<rparr>) = slots_ok w"
  "slots_ok (w\<lparr>flag := f\<rparr>) = slots_ok w" "slots_ok (w\<lparr>aborted := b\<rparr>) = slots_ok w"
  "slots_ok (w\<lparr>queues := q\<rparr>) = slots_ok w"
  "topic_queue t (w\<lparr>handler_calls := c\<rparr>) = topic_queue t w" "topic_queue t (w\<lparr>worker := a\<rparr>) = topic_queue t w"
  "topic_queue t (w\<lparr>flag := f\<rparr>) = topic_queue t w" "topic_queue t (w\<lparr>aborted := b\<rparr>) = topic_queue t w"
  by (simp_all add: slots_ok_def topic_queue_def split: option.split)

lemma holds_queue_frame [simp]:
  "holds_queue at (w\<lparr>worker := a\<rparr>) = holds_queue at w" "holds_queue at (w\<lparr>flag := f\<rparr>) = holds_queue at w"
  "holds_queue at (w\<lparr>aborted := b\<rparr>) = holds_queue at w" "holds_queue at (w\<lparr>queues := q\<rparr>) = holds_queue at w"
  "holds_queue at (w\<lparr>handler_calls := c\<rparr>) = holds_queue at w"
  by (cases at; simp)+

lemma slot_for_props:
  assumes "slots_ok w" and "slot_for topic w = (q, w1)"
  shows "slots w1 topic = Some q" and "slots_ok w1" and "topic_queue t w1 = topic_queue t w"
    and "slots w t = Some q' \<Longrightarrow> slots w1 t = Some q'"
    and "handler_calls w1 = handler_calls w" and "worker w1 = worker w" and "flag w1 = flag w" and "aborted w1 = aborted w"
proof -
  have props: "slots w1 topic = Some q \<and> slots_ok w1 \<and> topic_queue t w1 = topic_queue t w \<and>
    (slots w t = Some q' \<longrightarrow> slots w1 t = Some q') \<and> handler_calls w1 = handler_calls w \<and> worker w1 = worker w \<and>
    flag w1 = flag w \<and> aborted w1 = aborted w"
  proof (cases "slots w topic")
    case None
    then have w1: "w1 = w\<lparr>slots := (slots w)(topic \<mapsto> next_queue w), queues := (queues w)(next_queue w := []),
        next_queue := Suc (next_queue w)\<rparr>" and q: "q = next_queue w"
      using assms(2) by (auto simp: slot_for_def)
    have new: "slots w u \<noteq> Some (next_queue w)" for u using assms(1) by (auto simp: slots_ok_def)
    have "slots_ok w1" using assms(1) new by (auto simp: w1 slots_ok_def less_Suc_eq)
    moreover have "topic_queue t w1 = topic_queue t w"
      using None new [of t] by (auto simp: w1 topic_queue_def split: option.splits)
    ultimately show ?thesis using None by (auto simp: w1 q)
  next
    case (Some p)
    then show ?thesis using assms by (simp add: slot_for_def)
  qed
  then show "slots w1 topic = Some q" and "slots_ok w1" and "topic_queue t w1 = topic_queue t w"
    and "slots w t = Some q' \<Longrightarrow> slots w1 t = Some q'"
    and "handler_calls w1 = handler_calls w" and "worker w1 = worker w" and "flag w1 = flag w" and "aborted w1 = aborted w"
    by simp_all
qed

lemma topic_queue_update:
  assumes "slots_ok w" and "slots w topic = Some q"
  shows "topic_queue t (w\<lparr>queues := (queues w)(q := v)\<rparr>) = (if t = topic then v else topic_queue t w)"
  using assms by (auto simp: topic_queue_def slots_ok_def split: option.splits)

text \<open>What a step may do to the messages of a topic: nothing, or publish one at the end.\<close>

definition topic_step :: "string \<Rightarrow> bus_thread \<Rightarrow> 'h bus_world \<Rightarrow> bus_thread \<Rightarrow> 'h bus_world \<Rightarrow> bool" where
  "topic_step t u w u' w' \<longleftrightarrow>
     (handled_messages t w' @ on_the_way t w' = handled_messages t w @ on_the_way t w \<and> published t u' = published t u) \<or>
     (\<exists>p. handled_messages t w' @ on_the_way t w' = (handled_messages t w @ on_the_way t w) @ [p] \<and>
        published t u' = published t u @ [p])"

lemma topic_step_world:
  assumes "topic_queue t w' = topic_queue t w" and "handler_calls w' = handler_calls w" and "worker w' = worker w"
    and "published t u' = published t u"
  shows "topic_step t u w u' w'"
  using assms by (simp add: topic_step_def handled_messages_def on_the_way_def)

lemma worker_step_keeps:
  assumes ok: "slots_ok w" "holds_queue at w" "at_subs subs at" "\<forall>(t, h, p) \<in> set (handler_calls w). (t, h) \<in> set subs"
    and step: "worker_step subs at w = Some (at', w')"
  shows "slots_ok w'" and "holds_queue at' w'" and "at_subs subs at'"
    and "\<forall>(t, h, p) \<in> set (handler_calls w'). (t, h) \<in> set subs"
    and "slots w t = Some q \<Longrightarrow> slots w' t = Some q" and "worker w' = worker w" and "flag w' = flag w"
    and "handled_messages t w' @ in_hand t at' @ topic_queue t w' = handled_messages t w @ in_hand t at @ topic_queue t w"
proof -
  have "slots_ok w' \<and> holds_queue at' w' \<and> at_subs subs at' \<and> (\<forall>(t, h, p) \<in> set (handler_calls w'). (t, h) \<in> set subs) \<and>
      (slots w t = Some q \<longrightarrow> slots w' t = Some q) \<and> worker w' = worker w \<and> flag w' = flag w \<and>
      handled_messages t w' @ in_hand t at' @ topic_queue t w' = handled_messages t w @ in_hand t at @ topic_queue t w"
  proof (cases "(subs, at, w)" rule: worker_step.cases)
    case (3 subs' topic h rest handled w0)
    obtain q' w1 where s: "slot_for topic w = (q', w1)" by (cases "slot_for topic w")
    note p = slot_for_props [OF ok(1) s]
    show ?thesis
      using 3 s p ok step by (auto simp: handled_messages_def)
  next
    case (4 subs' topic h q' rest handled w0)
    note u = topic_queue_update [OF ok(1), of topic q' t]
    have q: "slots w topic = Some q'" using ok(2) 4 by simp
    then have "topic_queue topic w = queues w q'" by (simp add: topic_queue_def)
    then show ?thesis
      using 4 q u [OF q] ok step
      by (auto simp: pop_loop_spec handled_messages_def)
  qed (use ok step in \<open>auto simp: handled_messages_def split: if_splits\<close>)
  then show "slots_ok w'" and "holds_queue at' w'" and "at_subs subs at'"
    and "\<forall>(t, h, p) \<in> set (handler_calls w'). (t, h) \<in> set subs"
    and "slots w t = Some q \<Longrightarrow> slots w' t = Some q" and "worker w' = worker w" and "flag w' = flag w"
    and "handled_messages t w' @ in_hand t at' @ topic_queue t w' = handled_messages t w @ in_hand t at @ topic_queue t w"
    by simp_all
qed

lemma bus_thread_keeps:
  assumes ok: "bus_ok subs w" "bus_thread_ok u w" and step: "bus_thread_step subs u w = Some (u', w')"
  shows "bus_ok subs w'" and "bus_thread_ok u' w'" and "slots w t = Some q \<Longrightarrow> slots w' t = Some q" and "topic_step t u w u' w'"
proof -
  have s: "slots_ok w" using ok(1) by (simp add: bus_ok_def)
  have move: "bus_thread_move subs u w = Some (u', w')" using step by (simp add: bus_thread_step_def split: if_splits)
  have "bus_ok subs w' \<and> bus_thread_ok u' w' \<and> (slots w t = Some q \<longrightarrow> slots w' t = Some q) \<and> topic_step t u w u' w'"
  proof (cases "(subs, u, w)" rule: bus_thread_move.cases)
    case (2 subs' sent topic payload todo w0)
    obtain q' w1 where f: "slot_for topic w = (q', w1)" by (cases "slot_for topic w")
    note p = slot_for_props [OF s f]
    have "holds_queue at w1" if "holds_queue at w" for at :: "'a worker_at"
      using that p(4) by (cases at) simp_all
    then have "bus_ok subs w1" using ok(1) p by (auto simp: bus_ok_def split: option.splits)
    then show ?thesis using 2 move f p by (auto intro: topic_step_world)
  next
    case (3 subs' q' sent topic payload todo w0)
    have q': "slots w topic = Some q'" using ok(2) 3 by simp
    have "topic_queue topic w = queues w q'" using q' by (simp add: topic_queue_def)
    then have tq: "topic_queue t w' = (if t = topic then topic_queue t w @ [payload] else topic_queue t w)"
      using 3 move topic_queue_update [OF s q'] by auto
    have w': "worker w' = worker w" "handler_calls w' = handler_calls w" "slots w' = slots w" "slots_ok w'"
      using 3 move s by auto
    have "holds_queue at w'" if "holds_queue at w" for at :: "'a worker_at"
      using that w'(3) by (cases at) simp_all
    then have "bus_ok subs w'" using ok(1) w' by (auto simp: bus_ok_def split: option.splits)
    moreover have "topic_step t u w u' w'"
      using 3 move w' tq by (auto simp: topic_step_def handled_messages_def on_the_way_def on_topic_def)
    ultimately show ?thesis using 3 move by auto
  next
    case (9 subs' w0)
    then obtain at at' w1 where at: "worker w = Some at" "worker_step subs at w = Some (at', w1)"
      "u' = Worker" "w' = w1\<lparr>worker := Some at'\<rparr>"
      using move by (auto split: option.splits)
    have o: "holds_queue at w" "at_subs subs at" "\<forall>(t, h, p) \<in> set (handler_calls w). (t, h) \<in> set subs"
      using ok(1) at(1) by (simp_all add: bus_ok_def)
    note k = worker_step_keeps [OF s o at(2)]
    have "holds_queue at' w'" using k(2) by (cases at') (simp_all add: at(4))
    then have "bus_ok subs w'" using k by (simp add: bus_ok_def at(4))
    moreover have "topic_step t u w u' w'"
      using 9 k(8) [of t] at by (simp add: topic_step_def handled_messages_def on_the_way_def)
    ultimately show ?thesis using 9 k(5) at(3,4) by simp
  qed (use ok move in \<open>auto simp: bus_ok_def topic_step_def handled_messages_def on_the_way_def
      split: if_splits option.splits worker_at.splits\<close>)
  then show "bus_ok subs w'" and "bus_thread_ok u' w'" and "slots w t = Some q \<Longrightarrow> slots w' t = Some q" and "topic_step t u w u' w'"
    by simp_all
qed

interpretation bus_run: thread_invariant "bus_thread_step subs" "bus_ok subs" bus_thread_ok "\<lambda>t u. True" bus_conserved
  for subs
proof unfold_locales
  fix ts w i u' w'
  assume c: "bus_conserved ts w" and i: "i < length ts" and ok: "bus_ok subs w" "bus_thread_ok (ts ! i) w"
    and m: "bus_thread_step subs (ts ! i) w = Some (u', w')"
  note k = bus_thread_keeps [OF ok m]
  show "bus_ok subs w' \<and> bus_thread_ok u' w'" using k by simp
  have "handled_messages t w' @ on_the_way t w' \<in> merges (map (published t) (ts[i := u']))" for t
  proof -
    have z: "handled_messages t w @ on_the_way t w \<in> merges (map (published t) ts)" using c by (simp add: bus_conserved_def)
    have upd: "map (published t) (ts[i := u']) = (map (published t) ts)[i := published t u']" by (simp add: map_update)
    have same: "(map (published t) ts)[i := published t (ts ! i)] = map (published t) ts"
      using i by (metis list_update_id map_update nth_map)
    show ?thesis
      using k(4) [of t] z merges_snoc [OF z, of i] i unfolding topic_step_def upd by (auto simp: same)
  qed
  then show "bus_conserved (ts[i := u']) w'" by (simp add: bus_conserved_def)
next
  fix ts w i u u' w'
  assume "bus_ok subs w" "bus_thread_ok (ts ! i) w" "bus_thread_ok u w"
    and m: "bus_thread_step subs (ts ! i) w = Some (u', w')"
  then show "bus_thread_ok u w' \<and> True \<and> True" using bus_thread_keeps(3) [OF _ _ m] by (cases u) auto
qed

fun bus_thread_fresh :: "bus_thread \<Rightarrow> bool" where
  "bus_thread_fresh (Publishing sent todo) = (sent = [])"
| "bus_thread_fresh (Controlling calls) = True"
| "bus_thread_fresh Worker = True"
| "bus_thread_fresh _ = False"

text \<open>
  C15: the bus delivers every message once, in order, to the handler of its topic. Take any number of publishers with any
  messages, any calls of \<open>Start\<close> and \<open>Stop\<close> on the consumer by any threads, and the worker, interleaved in any way. At every
  moment, for every topic: the messages whose handler was called, then those the worker has popped, then those queued, are
  the messages published so far, each once and those of one publisher in its order; and no handler gets a
  message of a topic other than its own.
\<close>

theorem concurrent_bus_delivery:
  assumes "interleaved (bus_thread_step subs) (ts, bus_start) (ts', w)" and "\<forall>u \<in> set ts. bus_thread_fresh u"
  shows "handled_messages t w @ on_the_way t w \<in> merges (map (published t) ts') \<and>
    (\<forall>(t, h, p) \<in> set (handler_calls w). (t, h) \<in> set subs)"
proof -
  have "published t u = []" if "u \<in> set ts" for t u
    using assms(2) that by (cases u) (auto simp: on_topic_def)
  then have "map (published t) ts = map (\<lambda>_. []) ts" for t by simp
  then have "merges (map (published t) ts) = {[]}" for t by (metis merges_empty)
  then have c: "bus_conserved ts (bus_start :: 'a bus_world)"
    by (simp add: bus_conserved_def handled_messages_def on_the_way_def topic_queue_def bus_start_def)
  have i: "bus_ok subs bus_start" by (simp add: bus_ok_def slots_ok_def bus_start_def)
  have a: "bus_thread_ok u bus_start" if "u \<in> set ts" for u using assms(2) that by (cases u) auto
  note k = bus_run.run_keeps [OF assms(1) c i]
  show ?thesis
    using k(1,4) a by (auto simp: bus_conserved_def bus_ok_def)
qed

theorem concurrent_bus_delivery_witness:
  "\<exists>w. interleaved (bus_thread_step [(''t'', ''log'')])
      ([Publishing [] [(''t'', ''a''), (''t'', ''b'')], Controlling [CallStart], Worker], bus_start)
      ([Publishing [(''t'', ''a''), (''t'', ''b'')] [], Controlling [], Worker], w) \<and>
    handler_calls w = [(''t'', ''log'', ''a'')] \<and> handled_messages ''t'' w @ on_the_way ''t'' w \<in> merges [[''a'', ''b''], [], []]"
proof -
  let ?subs = "[(''t'', ''log'')]" and ?ms = "[(''t'', ''a''), (''t'', ''b'')]"
  let ?step = "bus_thread_step ?subs"
  let ?w1 = "snd (solo ?step 4 (Publishing [] ?ms) bus_start)"
  let ?w2 = "snd (solo ?step 2 (Controlling [CallStart]) ?w1)"
  let ?w3 = "snd (solo ?step 4 Worker ?w2)"
  have e: "fst (solo ?step 4 (Publishing [] ?ms) bus_start) = Publishing ?ms []"
    "fst (solo ?step 2 (Controlling [CallStart]) ?w1) = Controlling []" "fst (solo ?step 4 Worker ?w2) = Worker"
    "handler_calls ?w3 = [(''t'', ''log'', ''a'')]"
    by code_simp+
  have run: "interleaved ?step ([Publishing [] ?ms, Controlling [CallStart], Worker], bus_start)
      ([Publishing ?ms [], Controlling [], Worker], ?w3)"
    using solo_interleaved [of 0 "[Publishing [] ?ms, Controlling [CallStart], Worker]" "Publishing [] ?ms" ?step bus_start 4]
      solo_interleaved [of 1 "[Publishing ?ms [], Controlling [CallStart], Worker]" "Controlling [CallStart]" ?step ?w1 2]
      solo_interleaved [of 2 "[Publishing ?ms [], Controlling [], Worker]" Worker ?step ?w2 4]
    by (simp only: e) simp
  have "handled_messages ''t'' ?w3 @ on_the_way ''t'' ?w3 \<in> merges (map (published ''t'') [Publishing ?ms [], Controlling [], Worker])"
    using concurrent_bus_delivery [OF run] by simp
  then show ?thesis using run e(4) by (intro exI [of _ ?w3]) (simp add: on_topic_def)
qed

section \<open>Stop returns\<close>

text \<open>The actions the worker has left once the flag is down: at most 32 messages of each topic still to come in its pass.\<close>

fun worker_left :: "'h worker_at \<Rightarrow> nat" where
  "worker_left WCheck = 1"
| "worker_left (WNext rest handled) = 35 * length rest + 3"
| "worker_left (WPop topic h q rest handled) = 35 * length rest + 37"
| "worker_left (WHandle topic h ps rest handled) = 35 * length rest + length ps + 4"
| "worker_left WSleep = 2"
| "worker_left WDone = 0"

definition worker_slack :: "'h bus_world \<Rightarrow> nat" where
  "worker_slack w = (case worker w of None \<Rightarrow> 0 | Some at \<Rightarrow> worker_left at)"

fun bus_work :: "bus_thread \<Rightarrow> nat" where
  "bus_work (Publishing sent todo) = 2 * length todo"
| "bus_work (Pushing q sent topic payload todo) = 2 * length todo + 1"
| "bus_work (Controlling calls) = 2 * length calls"
| "bus_work (Starting calls) = 2 * length calls + 1"
| "bus_work (Joining calls) = 2 * length calls + 1"
| "bus_work Worker = 0"

text \<open>The flag is down and nobody is going to raise it.\<close>

fun never_starts :: "bus_thread \<Rightarrow> bool" where
  "never_starts (Controlling calls) = (CallStart \<notin> set calls)"
| "never_starts (Starting calls) = False"
| "never_starts (Joining calls) = (CallStart \<notin> set calls)"
| "never_starts _ = True"

definition stopping :: "bus_thread list \<Rightarrow> 'h bus_world \<Rightarrow> bool" where
  "stopping ts w \<longleftrightarrow> \<not> flag w \<and> \<not> aborted w \<and> (\<forall>u \<in> set ts. never_starts u)"

lemma slot_for_frame:
  "slot_for topic w = (q, w1) \<Longrightarrow> flag w1 = flag w \<and> worker w1 = worker w \<and> aborted w1 = aborted w"
  by (auto simp: slot_for_def split: option.splits)

lemma worker_step_left:
  assumes "worker_step subs at w = Some (at', w')" and "\<not> flag w"
  shows "worker_left at' < worker_left at \<and> \<not> flag w' \<and> aborted w' = aborted w"
  using assms
  by (cases "(subs, at, w)" rule: worker_step.cases)
    (auto simp: pop_loop_spec dest: slot_for_frame split: prod.splits)

lemma bus_stop_step:
  assumes q: "stopping ts w" and i: "i < length ts" and m: "bus_thread_step subs (ts ! i) w = Some (u', w')"
  shows "bus_work u' + worker_slack w' < bus_work (ts ! i) + worker_slack w" and "stopping (ts[i := u']) w'"
proof -
  have f: "\<not> flag w" "\<not> aborted w" "never_starts (ts ! i)" using q i by (simp_all add: stopping_def)
  have move: "bus_thread_move subs (ts ! i) w = Some (u', w')" using m f(2) by (simp add: bus_thread_step_def)
  have "bus_work u' + worker_slack w' < bus_work (ts ! i) + worker_slack w \<and> \<not> flag w' \<and> \<not> aborted w' \<and> never_starts u'"
  proof (cases "(subs, ts ! i, w)" rule: bus_thread_move.cases)
    case (9 subs' w0)
    then show ?thesis
      using move f worker_step_left by (fastforce simp: worker_slack_def split: option.splits)
  qed (use move f in \<open>auto simp: worker_slack_def dest: slot_for_frame split: prod.splits option.splits worker_at.splits\<close>)
  then show "bus_work u' + worker_slack w' < bus_work (ts ! i) + worker_slack w" and "stopping (ts[i := u']) w'"
    using q set_update_subset_insert [of ts i u'] by (auto simp: stopping_def)
qed

interpretation bus_stop: thread_measure "bus_thread_step subs" bus_work worker_slack stopping for subs
  by unfold_locales (rule bus_stop_step; assumption)+

lemma worker_can_act: "at \<noteq> WDone \<Longrightarrow> worker_step subs at w \<noteq> None"
  by (cases "(subs, at, w)" rule: worker_step.cases) (simp_all split: prod.splits)

fun bus_thread_over :: "bus_thread \<Rightarrow> bool" where
  "bus_thread_over (Publishing sent todo) = (todo = [])"
| "bus_thread_over (Controlling calls) = (calls = [])"
| "bus_thread_over Worker = True"
| "bus_thread_over _ = False"

lemma bus_stuck:
  assumes q: "stopping ts w" and stuck: "\<nexists>c. interleave (bus_thread_step subs) (ts, w) c" and w: "Worker \<in> set ts"
  shows "worker w \<in> {None, Some WDone}" and "u \<in> set ts \<Longrightarrow> bus_thread_over u"
proof -
  have none: "bus_thread_move subs u w = None" if u: "u \<in> set ts" for u
  proof -
    obtain i where i: "i < length ts" "ts ! i = u" using u by (auto simp: in_set_conv_nth)
    have "bus_thread_step subs u w = None"
    proof (cases "bus_thread_step subs u w")
      case (Some c)
      then show ?thesis using stuck i interleave.move [of i ts "bus_thread_step subs" w "fst c" "snd c"] by auto
    qed
    then show ?thesis using q by (simp add: bus_thread_step_def stopping_def)
  qed
  show w': "worker w \<in> {None, Some WDone}"
  proof (cases "worker w")
    case (Some at)
    then show ?thesis using none [OF w] worker_can_act [of at subs w] by (auto split: option.splits)
  qed simp
  show "bus_thread_over u" if "u \<in> set ts"
  proof (cases "([] :: (string \<times> 'a) list, u, w)" rule: bus_thread_move.cases)
    case (8 subs' rest w0)
    then show ?thesis using none [OF that] w' by auto
  qed (use none [OF that] q that in \<open>auto simp: stopping_def split: prod.splits\<close>)
qed

text \<open>
  C29: \<open>Stop\<close> returns. Once the flag is down and nobody calls \<open>Start\<close> again, then from any state, whatever the publishers
  still send: every run ends, after at most two actions for each message and call that is left and as many as the
  worker has left in its pass, which are at most 35 for each subscription and 3; and when no thread can act, the worker has
  ended, every publisher has sent its messages and every caller of \<open>Stop\<close> has returned.
\<close>

theorem consumer_stop_returns:
  assumes "stopping ts w" and "Worker \<in> set ts"
  shows "((interleave (bus_thread_step subs) ^^ n) (ts, w) c \<longrightarrow> n \<le> sum_list (map bus_work ts) + worker_slack w) \<and>
    (interleaved (bus_thread_step subs) (ts, w) (ts', w') \<and> (\<nexists>c. interleave (bus_thread_step subs) (ts', w') c) \<longrightarrow>
      worker w' \<in> {None, Some WDone} \<and> (\<forall>u \<in> set ts'. bus_thread_over u))"
proof -
  have "n \<le> sum_list (map bus_work ts) + worker_slack w" if "(interleave (bus_thread_step subs) ^^ n) (ts, w) c"
    using bus_stop.steps_bounded(1) [of n subs ts w "fst c" "snd c"] that assms(1) by simp
  moreover have "stopping ts' w' \<and> Worker \<in> set ts'" if "interleaved (bus_thread_step subs) (ts, w) (ts', w')" for ts' w'
    using that
  proof (induction rule: rtranclp_induct2)
    case refl
    then show ?case using assms by simp
  next
    case (step ts1 w1 ts2 w2)
    from step.hyps(2) obtain i u where i: "ts2 = ts1[i := u]" "i < length ts1" "bus_thread_step subs (ts1 ! i) w1 = Some (u, w2)"
      by (auto elim: interleaveE)
    have "u = Worker" if "ts1 ! i = Worker"
      using i(3) that by (auto simp: bus_thread_step_def split: if_splits option.splits)
    then have "Worker \<in> set ts2"
      using step.IH i by (metis in_set_conv_nth length_list_update nth_list_update)
    then show ?case using bus_stop.keeps [OF _ i(2,3)] step.IH i(1) by simp
  qed
  then have "worker w' \<in> {None, Some WDone} \<and> (\<forall>u \<in> set ts'. bus_thread_over u)"
    if "interleaved (bus_thread_step subs) (ts, w) (ts', w')" "\<nexists>c. interleave (bus_thread_step subs) (ts', w') c"
    using bus_stuck that by blast
  ultimately show ?thesis by blast
qed

theorem consumer_stop_returns_witness:
  "\<nexists>c. (interleave (bus_thread_step [(''t'', ''log'')]) ^^ 5)
     ([Joining [], Publishing [] [(''t'', ''a'')], Worker], bus_start\<lparr>worker := Some WCheck\<rparr>) c"
proof
  let ?ts = "[Joining [], Publishing [] [(''t'', ''a'')], Worker]" and ?w = "bus_start\<lparr>worker := Some WCheck\<rparr> :: string bus_world"
  assume "\<exists>c. (interleave (bus_thread_step [(''t'', ''log'')]) ^^ 5) (?ts, ?w) c"
  moreover have "stopping ?ts ?w" by (simp add: stopping_def bus_start_def)
  ultimately show False
    using consumer_stop_returns [of ?ts ?w 5 "[(''t'', ''log'')]"] by (auto simp: worker_slack_def)
qed

section \<open>A thread alone\<close>

text \<open>The bus of \<open>Message_Queue\<close> that a state stands for.\<close>

definition bus_of :: "'h bus_world \<Rightarrow> local_bus" where
  "bus_of w = \<lparr>topics = (\<lambda>t. map_option (queues w) (slots w t))\<rparr>"

lemma bus_of_frame [simp]:
  "bus_of (w\<lparr>handler_calls := c\<rparr>) = bus_of w" "bus_of (w\<lparr>worker := a\<rparr>) = bus_of w" "bus_of (w\<lparr>flag := f\<rparr>) = bus_of w"
  by (simp_all add: bus_of_def)

lemma slot_for_QueueFor:
  assumes "slots_ok w" and "slot_for topic w = (q, w1)"
  shows "QueueFor topic (bus_of w) = (queues w1 q, bus_of w1)"
proof (cases "slots w topic")
  case None
  have "slots w u \<noteq> Some (next_queue w)" for u using assms(1) by (auto simp: slots_ok_def)
  then have "map_option ((queues w)(next_queue w := [])) (slots w u) = map_option (queues w) (slots w u)" for u
    by (cases "slots w u") auto
  then show ?thesis
    using assms(2) None by (auto simp: QueueFor_def bus_of_def slot_for_def fun_eq_iff)
next
  case (Some p)
  then show ?thesis using assms(2) by (simp add: QueueFor_def bus_of_def slot_for_def)
qed

lemma bus_of_update:
  assumes "slots_ok w" and "slots w topic = Some q"
  shows "bus_of (w\<lparr>queues := (queues w)(q := v)\<rparr>) = (bus_of w)\<lparr>topics := (topics (bus_of w))(topic \<mapsto> v)\<rparr>"
proof -
  have "map_option ((queues w)(q := v)) (slots w u) = (if u = topic then Some v else map_option (queues w) (slots w u))" for u
    using assms by (cases "slots w u") (auto simp: slots_ok_def)
  then show ?thesis by (auto simp: bus_of_def fun_eq_iff)
qed

lemma Publish_alone:
  assumes "slots_ok w" and "\<not> aborted w"
  shows "fst (solo (bus_thread_step subs) 2 (Publishing sent ((topic, payload) # todo)) w) = Publishing (sent @ [(topic, payload)]) todo"
    and "bus_of (snd (solo (bus_thread_step subs) 2 (Publishing sent ((topic, payload) # todo)) w)) = bus_Publish topic payload (bus_of w)"
proof -
  obtain q w1 where s: "slot_for topic w = (q, w1)" by (cases "slot_for topic w")
  note p = slot_for_props [OF assms(1) s] and Q = slot_for_QueueFor [OF assms(1) s]
  show "fst (solo (bus_thread_step subs) 2 (Publishing sent ((topic, payload) # todo)) w) = Publishing (sent @ [(topic, payload)]) todo"
    and "bus_of (snd (solo (bus_thread_step subs) 2 (Publishing sent ((topic, payload) # todo)) w)) = bus_Publish topic payload (bus_of w)"
    using assms(2) p s bus_of_update [OF p(2,1)]
    by (simp_all add: bus_thread_step_def numeral_2_eq_2 bus_Publish_def Q)
qed

lemma solo_add: "solo step (m + n) t s = (let (t', s') = solo step m t s in solo step n t' s')"
proof (induction m arbitrary: t s)
  case (Suc m)
  show ?case
  proof (cases "step t s")
    case None
    then have "solo step n t s = (t, s)" for n by (cases n) simp_all
    then show ?thesis using None by simp
  next
    case (Some c)
    then show ?thesis using Suc by (simp split: prod.split)
  qed
qed simp

lemma handlers_alone:
  "solo (worker_step subs) (Suc (length ps)) (WHandle topic h ps rest handled) w =
     (WNext rest (handled \<or> ps \<noteq> []), w\<lparr>handler_calls := handler_calls w @ map (\<lambda>p. (topic, h, p)) ps\<rparr>)"
  by (induction ps arbitrary: handled w) (simp_all del: solo.simps(2) add: solo.simps(2) [of _ "Suc _"] solo.simps(2) [of _ 0])

text \<open>
  The worker alone does what \<open>Message_Queue\<close> says of a pass. From any subscription on, as many actions as it takes
  make the handler calls of \<open>poll_subscriptions\<close>, in its order, and leave its bus, and whether anything was handled is
  remembered.
\<close>

theorem worker_pass_alone:
  assumes "slots_ok w"
  shows "\<exists>n w'. solo (worker_step subs) n (WNext rest handled) w =
      (WNext [] (handled \<or> fst (poll_subscriptions rest (bus_of w)) \<noteq> []), w') \<and>
    bus_of w' = snd (poll_subscriptions rest (bus_of w)) \<and>
    handler_calls w' = handler_calls w @ fst (poll_subscriptions rest (bus_of w))"
  using assms
proof (induction rest arbitrary: w handled)
  case Nil
  show ?case by (intro exI [of _ 0]) simp
next
  case (Cons sub rest)
  obtain topic h where sub: "sub = (topic, h)" by (cases sub)
  obtain q w1 where s: "slot_for topic w = (q, w1)" by (cases "slot_for topic w")
  note p = slot_for_props [OF Cons.prems s] and Q = slot_for_QueueFor [OF Cons.prems s]
  obtain out left where pop: "pop_loop 32 (queues w1 q) [] = (out, left)" by (cases "pop_loop 32 (queues w1 q) []")
  let ?w2 = "w1\<lparr>queues := (queues w1)(q := left)\<rparr>"
  let ?w3 = "?w2\<lparr>handler_calls := handler_calls ?w2 @ map (\<lambda>p. (topic, h, p)) out\<rparr>"
  have Pop: "Pop topic 32 (bus_of w) = (out, bus_of ?w3)"
    using bus_of_update [OF p(2,1)] by (simp add: Pop_def Q pop)
  define k where "k = Suc (Suc (Suc (length out)))"
  have one: "solo (worker_step subs) k (WNext (sub # rest) handled) w = (WNext rest (handled \<or> out \<noteq> []), ?w3)"
    unfolding k_def
    by (simp add: sub s pop handlers_alone del: solo.simps(2) add: solo.simps(2) [of _ "Suc (Suc _)"] solo.simps(2) [of _ "Suc (length out)"])
  obtain n w' where n: "solo (worker_step subs) n (WNext rest (handled \<or> out \<noteq> [])) ?w3 =
      (WNext [] ((handled \<or> out \<noteq> []) \<or> fst (poll_subscriptions rest (bus_of ?w3)) \<noteq> []), w')"
      "bus_of w' = snd (poll_subscriptions rest (bus_of ?w3))"
      "handler_calls w' = handler_calls ?w3 @ fst (poll_subscriptions rest (bus_of ?w3))"
    using Cons.IH [of ?w3 "handled \<or> out \<noteq> []"] p(2) by auto
  have poll: "poll_subscriptions (sub # rest) (bus_of w) =
      (map (\<lambda>p. (topic, h, p)) out @ fst (poll_subscriptions rest (bus_of ?w3)), snd (poll_subscriptions rest (bus_of ?w3)))"
    by (simp only: sub poll_subscriptions.simps Pop Let_def split_beta fst_conv snd_conv)
  have "solo (worker_step subs) (k + n) (WNext (sub # rest) handled) w =
      (WNext [] (handled \<or> fst (poll_subscriptions (sub # rest) (bus_of w)) \<noteq> []), w')"
    unfolding solo_add one Let_def split n(1) poll by simp
  moreover have "bus_of w' = snd (poll_subscriptions (sub # rest) (bus_of w))" using n(2) poll by simp
  moreover have "handler_calls w' = handler_calls w @ fst (poll_subscriptions (sub # rest) (bus_of w))"
    using n(3) poll p(5) by simp
  ultimately show ?case by blast
qed

text \<open>A topic with two messages, and one that does not exist yet.\<close>

theorem worker_pass_alone_witness:
  "\<exists>n w'. solo (worker_step []) n (WNext [(''u'', ''log''), (''t'', ''log'')] False)
      (bus_start\<lparr>slots := [''t'' \<mapsto> 0], queues := (\<lambda>_. [''a'', ''b'']), next_queue := 1\<rparr>) = (WNext [] True, w') \<and>
    handler_calls w' = [(''t'', ''log'', ''a''), (''t'', ''log'', ''b'')]"
proof -
  let ?w = "bus_start\<lparr>slots := [''t'' \<mapsto> 0], queues := (\<lambda>_. [''a'', ''b'']), next_queue := 1\<rparr> :: string bus_world"
  have "slots_ok ?w" by (simp add: slots_ok_def)
  moreover have "fst (poll_subscriptions [(''u'', ''log''), (''t'', ''log'')] (bus_of ?w)) = [(''t'', ''log'', ''a''), (''t'', ''log'', ''b'')]"
    by code_simp
  moreover have "handler_calls ?w = []" by (simp add: bus_start_def)
  ultimately show ?thesis
    using worker_pass_alone [of ?w "[]" "[(''u'', ''log''), (''t'', ''log'')]" False]
    by (auto simp del: poll_subscriptions.simps)
qed

section \<open>Start and Stop at once\<close>

text \<open>
  \<open>Start\<close> sets the flag before the thread is there. A \<open>Stop\<close> in between clears it, finds no thread to join and returns;
  the thread that is then started ends at once but stays joinable, and the next \<open>Start\<close> assigns to it, which is
  \<open>std::terminate\<close>.
\<close>

lemma start_stop_aborts:
  "\<exists>w. interleaved (bus_thread_step subs)
      ([Controlling [CallStart, CallStart], Controlling [CallStop], Worker], bus_start)
      ([Controlling [], Controlling [], Worker], w) \<and> aborted w"
proof -
  let ?step = "bus_thread_step subs"
  define w1 :: "'a bus_world" where "w1 = bus_start\<lparr>flag := True\<rparr>"
  define w2 where "w2 = w1\<lparr>flag := False\<rparr>"
  define w3 where "w3 = w2\<lparr>worker := Some WCheck, flag := True, aborted := True\<rparr>"
  have e: "solo ?step 1 (Controlling [CallStart, CallStart]) bus_start = (Starting [CallStart], w1)"
    "solo ?step 2 (Controlling [CallStop]) w1 = (Controlling [], w2)"
    "solo ?step 3 (Starting [CallStart]) w2 = (Controlling [], w3)"
    by (simp_all add: bus_thread_step_def w1_def w2_def w3_def bus_start_def numeral_eq_Suc)
  have "interleaved ?step ([Controlling [CallStart, CallStart], Controlling [CallStop], Worker], bus_start)
      ([Controlling [], Controlling [], Worker], w3)"
    using solo_interleaved [of 0 "[Controlling [CallStart, CallStart], Controlling [CallStop], Worker]" "Controlling [CallStart, CallStart]" ?step bus_start 1]
      solo_interleaved [of 1 "[Starting [CallStart], Controlling [CallStop], Worker]" "Controlling [CallStop]" ?step w1 2]
      solo_interleaved [of 0 "[Starting [CallStart], Controlling [], Worker]" "Starting [CallStart]" ?step w2 3]
    by (simp only: e) simp
  then show ?thesis by (intro exI [of _ w3]) (simp add: w3_def)
qed

end
