(* ===== verification/Std_Double.thy ===== *)
theory Std_Double
  imports Std_Text Rate_Limiter
begin

text \<open>
  What the program uses of C++ doubles beside the rate limiter: \<open>std::stod\<close>, \<open>std::clamp\<close>, the
  conversions to integers and \<open>std::llround\<close>. A finite double is the rational it denotes, and results are
  rounded by \<open>rnd\<close>, as in \<open>Rate_Limiter\<close>.
\<close>

datatype double = Finite rat | Infinity bool | NaN

section \<open>std::stod\<close>

text \<open>
  \<open>strtod\<close> in the "C" locale: white space, a sign, then \<open>inf\<close>, \<open>nan\<close>, a hexadecimal or a decimal number; the
  longest text that has this form counts and the rest is ignored.
\<close>

definition is_xdigit :: "char \<Rightarrow> bool" where
  "is_xdigit c \<longleftrightarrow> is_digit c \<or> (65 \<le> code c \<and> code c \<le> 70) \<or> (97 \<le> code c \<and> code c \<le> 102)"

definition xdigit_value :: "char \<Rightarrow> nat" where
  "xdigit_value c = (if is_digit c then digit_value c else code (to_lower c) - 87)"

definition number_value :: "nat \<Rightarrow> string \<Rightarrow> nat" where
  "number_value base ds = foldl (\<lambda>acc c. acc * base + xdigit_value c) 0 ds"

definition split_sign :: "string \<Rightarrow> bool \<times> string" where
  "split_sign s =
     (case s of
        c # r \<Rightarrow> if c = CHR ''-'' then (True, r) else if c = CHR ''+'' then (False, r) else (False, s)
      | [] \<Rightarrow> (False, []))"

text \<open>Digits with at most one point among them: their value without the point, how many follow it, the rest.\<close>

definition scan_mantissa :: "nat \<Rightarrow> (char \<Rightarrow> bool) \<Rightarrow> string \<Rightarrow> (nat \<times> nat \<times> string) option" where
  "scan_mantissa base dig s =
     (let whole = takeWhile dig s;
          r = dropWhile dig s;
          frac = (case r of c # r' \<Rightarrow> if c = CHR ''.'' then takeWhile dig r' else [] | [] \<Rightarrow> []);
          rest = (case r of c # r' \<Rightarrow> if c = CHR ''.'' then dropWhile dig r' else r | [] \<Rightarrow> [])
      in if whole = [] \<and> frac = [] then None
         else Some (number_value base (whole @ frac), length frac, rest))"

text \<open>An exponent counts only if it has a digit.\<close>

definition scan_exponent :: "char \<Rightarrow> string \<Rightarrow> int" where
  "scan_exponent mark s =
     (case s of
        [] \<Rightarrow> 0
      | c # r \<Rightarrow>
          if to_lower c \<noteq> mark then 0
          else (let (neg, r') = split_sign r; n = int (number_value 10 (takeWhile is_digit r'))
                in if neg then - n else n))"

definition power_of :: "rat \<Rightarrow> int \<Rightarrow> rat" where
  "power_of b n = (if 0 \<le> n then b ^ nat n else 1 / b ^ nat (- n))"

definition scan_number :: "string \<Rightarrow> rat option" where
  "scan_number s =
     (let hex = (if starts_with ''0x'' (to_lower_ascii s)
                 then scan_mantissa 16 is_xdigit (drop 2 s) else None)
      in case hex of
           Some (m, k, r) \<Rightarrow> Some (of_nat m / 16 ^ k * power_of 2 (scan_exponent (CHR ''p'') r))
         | None \<Rightarrow>
             (case scan_mantissa 10 is_digit s of
                Some (m, k, r) \<Rightarrow> Some (of_nat m / 10 ^ k * power_of 10 (scan_exponent (CHR ''e'') r))
              | None \<Rightarrow> None))"

definition scan_double :: "string \<Rightarrow> double option" where
  "scan_double s =
     (let (neg, r) = split_sign (dropWhile is_cspace s); l = to_lower_ascii r in
      if starts_with ''inf'' l then Some (Infinity neg)
      else if starts_with ''nan'' l then Some NaN
      else map_option (\<lambda>x. Finite (if neg then - x else x)) (scan_number r))"

definition max_double :: rat where
  "max_double = 2 ^ 1024 - 2 ^ 971"

text \<open>
  Too large for a double, or too small to be one of the normal ones and not exact: \<open>strtod\<close> sets
  \<open>errno\<close> to \<open>ERANGE\<close>, and \<open>std::stod\<close> throws.
\<close>

definition range_error :: "(rat \<Rightarrow> rat) \<Rightarrow> rat \<Rightarrow> bool" where
  "range_error rnd x \<longleftrightarrow> \<bar>rnd x\<bar> > max_double \<or> (x \<noteq> 0 \<and> \<bar>x\<bar> < 1 / 2 ^ 1022 \<and> rnd x \<noteq> x)"

definition stod :: "(rat \<Rightarrow> rat) \<Rightarrow> string \<Rightarrow> exn + double" where
  "stod rnd s =
     (case scan_double s of
        None \<Rightarrow> Inl Std_invalid_argument
      | Some (Finite x) \<Rightarrow> if range_error rnd x then Inl Std_out_of_range else Inr (Finite (rnd x))
      | Some d \<Rightarrow> Inr d)"

section \<open>Clamping and rounding\<close>

definition clamp_rat :: "rat \<Rightarrow> rat \<Rightarrow> rat \<Rightarrow> rat" where
  "clamp_rat lo hi x = (if x < lo then lo else if hi < x then hi else x)"

definition clamp_int :: "int \<Rightarrow> int \<Rightarrow> int \<Rightarrow> int" where
  "clamp_int lo hi x = (if x < lo then lo else if hi < x then hi else x)"

text \<open>\<open>std::clamp(d, 0.0, 1.0)\<close>: every comparison with a NaN is false.\<close>

fun clamp_unit :: "double \<Rightarrow> double" where
  "clamp_unit (Finite x) = Finite (clamp_rat 0 1 x)"
| "clamp_unit (Infinity neg) = Finite (if neg then 0 else 1)"
| "clamp_unit NaN = NaN"

text \<open>Halves are rounded away from zero.\<close>

definition llround :: "rat \<Rightarrow> int" where
  "llround x = (if 0 \<le> x then \<lfloor>x + 1 / 2\<rfloor> else - \<lfloor>1 / 2 - x\<rfloor>)"

definition to_int32 :: "int \<Rightarrow> int" where
  "to_int32 n = sint (word_of_int n :: 32 word)"

lemma to_int32_id: "int32_range n \<Longrightarrow> to_int32 n = n"
  by (simp add: to_int32_def sint_sbintrunc' signed_take_bit_int_eq_self)

lemma clamp_int_bounds: "lo \<le> hi \<Longrightarrow> lo \<le> clamp_int lo hi x \<and> clamp_int lo hi x \<le> hi"
  by (simp add: clamp_int_def)

lemma clamp_int_id: "lo \<le> x \<Longrightarrow> x \<le> hi \<Longrightarrow> clamp_int lo hi x = x"
  by (simp add: clamp_int_def)

lemma clamp_rat_bounds: "lo \<le> hi \<Longrightarrow> lo \<le> clamp_rat lo hi x \<and> clamp_rat lo hi x \<le> hi"
  by (simp add: clamp_rat_def)

lemma llround_mono:
  assumes "x \<le> y"
  shows "llround x \<le> llround y"
proof -
  have m: "\<lfloor>x + 1 / 2\<rfloor> \<le> \<lfloor>y + 1 / 2\<rfloor>" "\<lfloor>1 / 2 - y\<rfloor> \<le> \<lfloor>1 / 2 - x\<rfloor>"
    using assms by (simp_all add: floor_mono)
  show ?thesis
  proof (cases "x < 0 \<and> 0 \<le> y")
    case True
    then have "0 \<le> \<lfloor>y + 1 / 2\<rfloor>" "0 \<le> \<lfloor>1 / 2 - x\<rfloor>" by simp_all
    then have "- \<lfloor>1 / 2 - x\<rfloor> \<le> \<lfloor>y + 1 / 2\<rfloor>" by linarith
    then show ?thesis using True by (simp add: llround_def)
  next
    case False
    then show ?thesis using m assms unfolding llround_def by (auto simp del: zero_le_floor)
  qed
qed

lemma llround_of_int [simp]: "llround (of_int n) = n"
proof -
  have "\<lfloor>of_int n + 1 / 2 :: rat\<rfloor> = n" "\<lfloor>1 / 2 - of_int n :: rat\<rfloor> = - n"
    by (rule floor_unique; simp)+
  then show ?thesis by (simp add: llround_def)
qed

end
