(* ===== verification/Gateway_Bench.thy ===== *)
theory Gateway_Bench
  imports Std_Double Metrics External_Apis
begin

text \<open>
  \<open>bench/gateway_http_ws_bench.cpp\<close>, the load generator: its options, the statistics it computes and
  how it divides a mixed load.
\<close>

section \<open>Options\<close>

record bench_config =
  bc_mode :: string
  bc_concurrency :: int
  bc_requests :: int
  bc_warmup :: int
  bc_io_threads :: int
  bc_mixed_http_ratio :: double
  bc_ws_read_delay_ms :: int
  bc_ws_message_interval_ms :: int
  bc_output_file :: string

definition default_bench_config :: bench_config where
  "default_bench_config =
     \<lparr>bc_mode = ''http'', bc_concurrency = 32, bc_requests = 2000, bc_warmup = 200, bc_io_threads = 4,
      bc_mixed_http_ratio = Finite (1 / 2), bc_ws_read_delay_ms = 0, bc_ws_message_interval_ms = 0,
      bc_output_file = []\<rparr>"

text \<open>What an option does with its value; \<open>None\<close> for a text that is no option with a value.\<close>

definition bench_option :: "(rat \<Rightarrow> rat) \<Rightarrow> string \<Rightarrow> (string \<Rightarrow> bench_config \<Rightarrow> exn + bench_config) option" where
  "bench_option rnd arg =
     (if arg = ''--mode'' then Some (\<lambda>v cfg. Inr (cfg\<lparr>bc_mode := v\<rparr>))
      else if arg = ''--concurrency'' then
        Some (\<lambda>v cfg. res_bind (stoi v) (\<lambda>n. Inr (cfg\<lparr>bc_concurrency := max 1 n\<rparr>)))
      else if arg = ''--requests'' then
        Some (\<lambda>v cfg. res_bind (stoi v) (\<lambda>n. Inr (cfg\<lparr>bc_requests := max 1 n\<rparr>)))
      else if arg = ''--warmup'' then
        Some (\<lambda>v cfg. res_bind (stoi v) (\<lambda>n. Inr (cfg\<lparr>bc_warmup := max 0 n\<rparr>)))
      else if arg = ''--io-threads'' then
        Some (\<lambda>v cfg. res_bind (stoi v) (\<lambda>n. Inr (cfg\<lparr>bc_io_threads := max 1 n\<rparr>)))
      else if arg = ''--mixed-http-ratio'' then
        Some (\<lambda>v cfg. res_bind (stod rnd v) (\<lambda>d. Inr (cfg\<lparr>bc_mixed_http_ratio := clamp_unit d\<rparr>)))
      else if arg = ''--ws-read-delay-ms'' then
        Some (\<lambda>v cfg. res_bind (stoi v) (\<lambda>n. Inr (cfg\<lparr>bc_ws_read_delay_ms := max 0 n\<rparr>)))
      else if arg = ''--ws-message-interval-ms'' then
        Some (\<lambda>v cfg. res_bind (stoi v) (\<lambda>n. Inr (cfg\<lparr>bc_ws_message_interval_ms := max 0 n\<rparr>)))
      else if arg = ''--output'' then Some (\<lambda>v cfg. Inr (cfg\<lparr>bc_output_file := v\<rparr>))
      else None)"

text \<open>The arguments after the program's name; the result, the configuration so far and what is written to \<open>cerr\<close>.\<close>

fun bench_ParseArgs :: "(rat \<Rightarrow> rat) \<Rightarrow> string list \<Rightarrow> bench_config \<Rightarrow> (exn + bool) \<times> bench_config \<times> string" where
  "bench_ParseArgs rnd [] cfg =
     (Inr (bc_mode cfg = ''http'' \<or> bc_mode cfg = ''ws'' \<or> bc_mode cfg = ''mixed''), cfg, [])"
| "bench_ParseArgs rnd [arg] cfg =
     (if bench_option rnd arg \<noteq> None then (Inr False, cfg, ''missing value for '' @ arg @ newline)
      else if arg = ''--help'' \<or> arg = ''-h'' then (Inr False, cfg, [])
      else (Inr False, cfg, ''unknown arg: '' @ arg @ newline))"
| "bench_ParseArgs rnd (arg # v # rest) cfg =
     (case bench_option rnd arg of
        Some put \<Rightarrow>
          (case put v cfg of
             Inl e \<Rightarrow> (Inl e, cfg, [])
           | Inr cfg' \<Rightarrow> bench_ParseArgs rnd rest cfg')
      | None \<Rightarrow>
          if arg = ''--help'' \<or> arg = ''-h'' then (Inr False, cfg, [])
          else (Inr False, cfg, ''unknown arg: '' @ arg @ newline))"

text \<open>The values a configuration can hold.\<close>

fun unit_or_nan :: "double \<Rightarrow> bool" where
  "unit_or_nan (Finite x) = (0 \<le> x \<and> x \<le> 1)"
| "unit_or_nan (Infinity neg) = False"
| "unit_or_nan NaN = True"

definition bench_config_ok :: "bench_config \<Rightarrow> bool" where
  "bench_config_ok cfg \<longleftrightarrow>
     1 \<le> bc_concurrency cfg \<and> 1 \<le> bc_requests cfg \<and> 0 \<le> bc_warmup cfg \<and> 1 \<le> bc_io_threads cfg \<and>
     int32_range (bc_concurrency cfg) \<and> int32_range (bc_requests cfg) \<and> int32_range (bc_warmup cfg) \<and>
     int32_range (bc_io_threads cfg) \<and> unit_or_nan (bc_mixed_http_ratio cfg) \<and>
     0 \<le> bc_ws_read_delay_ms cfg \<and> int32_range (bc_ws_read_delay_ms cfg) \<and>
     0 \<le> bc_ws_message_interval_ms cfg \<and> int32_range (bc_ws_message_interval_ms cfg)"

lemma clamp_unit_ok: "unit_or_nan (clamp_unit d)"
  by (cases d) (auto simp: clamp_rat_def)

lemma bench_option_ok:
  assumes "bench_option rnd arg = Some put" and "put v cfg = Inr cfg'" and "bench_config_ok cfg"
  shows "bench_config_ok cfg'"
proof (cases "stoi v")
  case (Inl e)
  then show ?thesis
    using assms by (auto simp: bench_option_def bench_config_ok_def clamp_unit_ok res_bind_eq_Inr split: if_splits)
next
  case (Inr n)
  then have "int32_range n" by (rule stoi_range)
  then show ?thesis
    using Inr assms by (auto simp: bench_option_def bench_config_ok_def clamp_unit_ok res_bind_eq_Inr split: if_splits)
qed

text \<open>
  C38: the options of the load generator are well typed. Whatever the command line, if it is accepted then the
  mode is one of the three, the numbers of workers, requests and threads are positive ints, the
  others are not negative, and the ratio lies between 0 and 1 unless it was written as a NaN.
\<close>

theorem bench_options_ok:
  assumes "bench_ParseArgs rnd args default_bench_config = (Inr True, cfg, err)"
  shows "bench_config_ok cfg \<and> bc_mode cfg \<in> {''http'', ''ws'', ''mixed''} \<and> err = []"
proof -
  have "bench_config_ok cfg \<and> bc_mode cfg \<in> {''http'', ''ws'', ''mixed''} \<and> err = []"
    if "bench_config_ok cfg0" and "bench_ParseArgs rnd args cfg0 = (Inr True, cfg, err)" for cfg0
    using that
  proof (induction rnd args cfg0 rule: bench_ParseArgs.induct)
    case (1 rnd cfg0)
    then show ?case by auto
  next
    case (2 rnd arg cfg0)
    then show ?case by (simp split: if_splits)
  next
    case (3 rnd arg v rest cfg0)
    show ?case
    proof (cases "bench_option rnd arg")
      case None
      then show ?thesis using 3(3) by (simp split: if_splits)
    next
      case (Some put)
      then obtain cfg1 where c: "put v cfg0 = Inr cfg1" using 3(3) by (cases "put v cfg0") simp_all
      then show ?thesis
        using 3(1) [OF Some c bench_option_ok [OF Some c 3(2)]] 3(3) Some by simp
    qed
  qed
  moreover have "bench_config_ok default_bench_config"
    by (simp add: bench_config_ok_def default_bench_config_def)
  ultimately show ?thesis using assms by blast
qed

theorem bench_options_ok_witness:
  "bench_config_ok (default_bench_config\<lparr>bc_mode := ''mixed'', bc_concurrency := 1, bc_requests := 8\<rparr>)"
proof -
  have n: "stoi ''0'' = Inr 0" "stoi ''8'' = Inr 8" by code_simp+
  have "bench_ParseArgs fixed20 [''--mode'', ''mixed'', ''--concurrency'', ''0'', ''--requests'', ''8''] default_bench_config =
      (Inr True, default_bench_config\<lparr>bc_mode := ''mixed'', bc_concurrency := 1, bc_requests := 8\<rparr>, [])"
    by (simp add: bench_option_def n)
  from bench_options_ok [OF this] show ?thesis by blast
qed

section \<open>Percentiles\<close>

definition Percentile :: "(rat \<Rightarrow> rat) \<Rightarrow> 64 word list \<Rightarrow> rat \<Rightarrow> 64 word" where
  "Percentile rnd vs pct =
     (if vs = [] then 0
      else sort vs ! nat \<lfloor>rnd (clamp_rat 0 1 pct * rnd (of_nat (length vs - 1)))\<rfloor>)"

definition percentile_index :: "(rat \<Rightarrow> rat) \<Rightarrow> nat \<Rightarrow> rat \<Rightarrow> nat" where
  "percentile_index rnd n pct = nat \<lfloor>rnd (clamp_rat 0 1 pct * rnd (of_nat (n - 1)))\<rfloor>"

lemma percentile_index_less:
  assumes r: "binary_rounding rnd u e" and n: "0 < n" "n \<le> 2 ^ 53"
  shows "percentile_index rnd n pct < n"
proof -
  define m :: rat where "m = of_nat (n - 1)"
  have m: "rnd m = m"
    using rounding_int [OF r, of "int (n - 1)"] n(2) unfolding m_def of_int_of_nat_eq by simp
  have c: "0 \<le> clamp_rat 0 1 pct" "clamp_rat 0 1 pct \<le> 1" using clamp_rat_bounds [of 0 1 pct] by simp_all
  then have "clamp_rat 0 1 pct * m \<le> m" by (intro mult_left_le_one_le) (simp_all add: m_def)
  then have "rnd (clamp_rat 0 1 pct * m) \<le> m" using rounding_mono [OF r] m by metis
  then have "\<lfloor>rnd (clamp_rat 0 1 pct * rnd m)\<rfloor> \<le> \<lfloor>m\<rfloor>" unfolding m by (rule floor_mono)
  moreover have "\<lfloor>m\<rfloor> = int (n - 1)" by (simp only: m_def floor_of_nat)
  ultimately have "percentile_index rnd n pct \<le> n - 1"
    unfolding percentile_index_def m_def [symmetric] by simp
  then show ?thesis using n(1) by simp
qed

lemma sorted_rank:
  assumes "sorted xs" and "k < length xs"
  shows "length (filter (\<lambda>v. v < xs ! k) xs) \<le> k" and "k < length (filter (\<lambda>v. v \<le> xs ! k) xs)"
proof -
  have "\<not> v < xs ! k" if v: "v \<in> set (drop k xs)" for v
  proof -
    obtain j where j: "j < length xs - k" "v = xs ! (k + j)" using v by (auto simp: in_set_conv_nth)
    have "xs ! k \<le> xs ! (k + j)" using assms(1) j(1) by (intro sorted_nth_mono) auto
    then show ?thesis by (simp add: j(2))
  qed
  then have "filter (\<lambda>v. v < xs ! k) (drop k xs) = []" by (simp add: filter_empty_conv)
  then have "filter (\<lambda>v. v < xs ! k) xs = filter (\<lambda>v. v < xs ! k) (take k xs)"
    by (metis append_Nil2 append_take_drop_id filter_append)
  then show "length (filter (\<lambda>v. v < xs ! k) xs) \<le> k"
    using length_filter_le [of "\<lambda>v. v < xs ! k" "take k xs"] by simp
  have "v \<le> xs ! k" if v: "v \<in> set (take (Suc k) xs)" for v
  proof -
    obtain j where j: "j \<le> k" "v = xs ! j" using v assms(2) by (auto simp: in_set_conv_nth less_Suc_eq_le)
    show ?thesis using assms j by (simp add: sorted_nth_mono)
  qed
  then have "filter (\<lambda>v. v \<le> xs ! k) (take (Suc k) xs) = take (Suc k) xs" by (simp add: filter_id_conv)
  then have "length (filter (\<lambda>v. v \<le> xs ! k) (take (Suc k) xs)) = Suc k" using assms(2) by simp
  moreover have "length (filter P xs) = length (filter P (take (Suc k) xs)) + length (filter P (drop (Suc k) xs))"
    for P by (metis append_take_drop_id filter_append length_append)
  ultimately show "k < length (filter (\<lambda>v. v \<le> xs ! k) xs)" by simp
qed

text \<open>
  \<open>Percentile\<close> is an order statistic. Of up to \<open>2^53\<close> values in any order, whatever the
  rounding and the fraction asked for, its index is within the values, the result is one of the
  values, at most so many as the index are smaller and more than that are not larger. Fractions
  below 0 and above 1 give the minimum and the maximum.
\<close>

theorem percentile_rank:
  assumes "binary_rounding rnd u e" and "vs \<noteq> []" and "length vs \<le> 2 ^ 53"
  shows "let p = Percentile rnd vs pct; k = percentile_index rnd (length vs) pct in
    k < length vs \<and> p \<in> set vs \<and>
    length (filter (\<lambda>v. v < p) vs) \<le> k \<and> k < length (filter (\<lambda>v. v \<le> p) vs) \<and>
    (pct \<le> 0 \<longrightarrow> p = Min (set vs)) \<and> (1 \<le> pct \<longrightarrow> p = Max (set vs))"
proof -
  let ?k = "percentile_index rnd (length vs) pct" and ?p = "Percentile rnd vs pct"
  let ?xs = "sort vs"
  have k: "?k < length ?xs" using percentile_index_less [OF assms(1), of "length vs" pct] assms(2,3) by simp
  have p: "?p = ?xs ! ?k" using assms(2) by (simp add: Percentile_def percentile_index_def)
  have len: "length (filter P ?xs) = length (filter P vs)" for P
    by (metis mset_filter mset_sort size_mset)
  have ranks: "length (filter (\<lambda>v. v < ?p) vs) \<le> ?k" "?k < length (filter (\<lambda>v. v \<le> ?p) vs)"
    using sorted_rank [OF sorted_sort k] unfolding p len by simp_all
  have "?p \<in> set vs" using k p by (metis nth_mem set_sort)
  moreover have "?p = Min (set vs)" if "pct \<le> 0"
  proof -
    have "?k = 0" using that assms(1) by (simp add: percentile_index_def clamp_rat_def)
    then have "filter (\<lambda>v. v < ?p) vs = []" using ranks(1) by simp
    then show ?thesis
      using \<open>?p \<in> set vs\<close> by (intro sym [OF Min_eqI]) (auto simp: filter_empty_conv not_less)
  qed
  moreover have "?p = Max (set vs)" if "1 \<le> pct"
  proof -
    have "?k = length vs - 1"
      using that rounding_int [OF assms(1), of "int (length vs - 1)"] assms(3)
      by (auto simp: percentile_index_def clamp_rat_def of_nat_diff)
    then have "length (filter (\<lambda>v. v \<le> ?p) vs) = length vs"
      using ranks(2) length_filter_le [of "\<lambda>v. v \<le> ?p" vs] by linarith
    then have "\<forall>v \<in> set vs. v \<le> ?p" by (metis length_filter_less nat_neq_iff)
    then show ?thesis
      using \<open>?p \<in> set vs\<close> by (intro sym [OF Max_eqI]) auto
  qed
  ultimately show ?thesis using k ranks by (simp add: Let_def)
qed

theorem percentile_rank_witness:
  "Percentile fixed20 [9, 1, 5] 0 = Min {9, 1, 5 :: 64 word} \<and> Percentile fixed20 [9, 1, 5] (1 / 2) \<in> {9, 1, 5 :: 64 word}"
  using percentile_rank [OF fixed20_rounding, of "[9, 1, 5]" 0] percentile_rank [OF fixed20_rounding, of "[9, 1, 5]" "1 / 2"]
  by (simp add: Let_def)

section \<open>The numbers that are reported\<close>

text \<open>
  Time is a count of nanoseconds. \<open>duration_cast\<close> to microseconds cuts off, and
  \<open>duration<double, milli>\<close> divides the count as a double.
\<close>

definition micros :: "int \<Rightarrow> int \<Rightarrow> 64 word" where
  "micros start stop = word_of_int ((stop - start) div 1000)"

record bench_stats =
  bt_success :: int
  bt_errors :: int
  bt_elapsed_ms :: rat
  bt_qps :: rat
  bt_p50_us :: "64 word"
  bt_p95_us :: "64 word"
  bt_p99_us :: "64 word"

definition no_stats :: bench_stats where
  "no_stats = \<lparr>bt_success = 0, bt_errors = 0, bt_elapsed_ms = 0, bt_qps = 0, bt_p50_us = 0, bt_p95_us = 0, bt_p99_us = 0\<rparr>"

definition elapsed_millis :: "(rat \<Rightarrow> rat) \<Rightarrow> int \<Rightarrow> int \<Rightarrow> rat" where
  "elapsed_millis rnd start stop = rnd (rnd (of_int (stop - start)) / 1000000)"

definition queries_per_second :: "(rat \<Rightarrow> rat) \<Rightarrow> int \<Rightarrow> rat \<Rightarrow> rat" where
  "queries_per_second rnd success elapsed_ms =
     (if 0 < elapsed_ms then rnd (rnd (of_int success * 1000) / elapsed_ms) else 0)"

definition bench_result :: "(rat \<Rightarrow> rat) \<Rightarrow> int \<Rightarrow> int \<Rightarrow> int \<Rightarrow> int \<Rightarrow> 64 word list \<Rightarrow> bench_stats" where
  "bench_result rnd success errors start stop latencies =
     (let elapsed_ms = elapsed_millis rnd start stop in
      \<lparr>bt_success = success, bt_errors = errors, bt_elapsed_ms = elapsed_ms,
       bt_qps = queries_per_second rnd success elapsed_ms,
       bt_p50_us = Percentile rnd latencies (rnd (50 / 100)),
       bt_p95_us = Percentile rnd latencies (rnd (95 / 100)),
       bt_p99_us = Percentile rnd latencies (rnd (99 / 100))\<rparr>)"

text \<open>The document of the statistics; \<open>number\<close> makes a JSON number of a double.\<close>

definition stats_entries :: "'j json_api \<Rightarrow> (rat \<Rightarrow> 'j) \<Rightarrow> bench_stats \<Rightarrow> (string \<times> 'j) list" where
  "stats_entries J number stats =
     [(''success'', json_int J (bt_success stats)),
      (''errors'', json_int J (bt_errors stats)),
      (''elapsed_ms'', number (bt_elapsed_ms stats)),
      (''qps'', number (bt_qps stats)),
      (''latency_us'', json_object J
         [(''p50'', json_int J (uint (bt_p50_us stats))),
          (''p95'', json_int J (uint (bt_p95_us stats))),
          (''p99'', json_int J (uint (bt_p99_us stats)))])]"

definition BenchStatsToJson :: "'j json_api \<Rightarrow> (rat \<Rightarrow> 'j) \<Rightarrow> bench_stats \<Rightarrow> 'j" where
  "BenchStatsToJson J number stats = json_object J (stats_entries J number stats)"

text \<open>What \<open>main\<close> writes after a load of one kind.\<close>

definition load_document :: "'j json_api \<Rightarrow> (rat \<Rightarrow> 'j) \<Rightarrow> bench_config \<Rightarrow> bench_stats \<Rightarrow> 'j" where
  "load_document J number cfg stats =
     json_object J
       ([(''mode'', json_string J (bc_mode cfg)),
         (''concurrency'', json_int J (bc_concurrency cfg)),
         (''requests'', json_int J (bc_requests cfg)),
         (''warmup'', json_int J (bc_warmup cfg)),
         (''io_threads'', json_int J (bc_io_threads cfg)),
         (''ws_read_delay_ms'', json_int J (bc_ws_read_delay_ms cfg)),
         (''ws_message_interval_ms'', json_int J (bc_ws_message_interval_ms cfg))] @ stats_entries J number stats)"

section \<open>A mixed load\<close>

text \<open>
  The part of \<open>n\<close> that goes to HTTP. What \<open>std::llround\<close> returns for a NaN is unspecified, and a
  parameter.
\<close>

definition bench_share :: "(rat \<Rightarrow> rat) \<Rightarrow> int \<Rightarrow> double \<Rightarrow> int \<Rightarrow> int" where
  "bench_share rnd llround_nan ratio n =
     clamp_int 0 n (to_int32 (case ratio of Finite x \<Rightarrow> llround (rnd (rnd (of_int n) * x)) | _ \<Rightarrow> llround_nan))"

text \<open>The configurations of the two parts; the warm-up requests are kept for the calls made before the parts start.\<close>

definition mixed_split :: "(rat \<Rightarrow> rat) \<Rightarrow> int \<Rightarrow> bench_config \<Rightarrow> bench_config \<times> bench_config" where
  "mixed_split rnd llround_nan cfg =
     (let share = bench_share rnd llround_nan (bc_mixed_http_ratio cfg);
          http_requests = share (bc_requests cfg);
          ws_requests = max 0 (bc_requests cfg - http_requests);
          http_concurrency = share (bc_concurrency cfg);
          ws_concurrency = max 0 (bc_concurrency cfg - http_concurrency);
          (http_concurrency, ws_concurrency) =
            (if http_requests > 0 \<and> http_concurrency = 0
             then (1, if ws_concurrency > 0 then ws_concurrency - 1 else ws_concurrency)
             else (http_concurrency, ws_concurrency));
          (http_concurrency, ws_concurrency) =
            (if ws_requests > 0 \<and> ws_concurrency = 0
             then (if http_concurrency > 0 then http_concurrency - 1 else http_concurrency, 1)
             else (http_concurrency, ws_concurrency))
      in (cfg\<lparr>bc_requests := http_requests, bc_concurrency := http_concurrency, bc_warmup := 0\<rparr>,
          cfg\<lparr>bc_requests := ws_requests, bc_concurrency := ws_concurrency, bc_warmup := 0\<rparr>))"

definition mixed_warmup :: "(rat \<Rightarrow> rat) \<Rightarrow> int \<Rightarrow> bench_config \<Rightarrow> int \<times> int" where
  "mixed_warmup rnd llround_nan cfg =
     (let http_warmup = bench_share rnd llround_nan (bc_mixed_http_ratio cfg) (bc_warmup cfg)
      in (http_warmup, max 0 (bc_warmup cfg - http_warmup)))"

text \<open>A part is run when it has requests and workers.\<close>

definition part_runs :: "bench_config \<Rightarrow> bool" where
  "part_runs cfg \<longleftrightarrow> bc_requests cfg > 0 \<and> bc_concurrency cfg > 0"

text \<open>The results of the parts that were run, put together.\<close>

record mixed_bench_stats =
  mx_http :: bench_stats
  mx_ws :: bench_stats
  mx_elapsed_ms :: rat
  mx_p50_us :: "64 word"
  mx_p95_us :: "64 word"
  mx_p99_us :: "64 word"

definition mixed_result :: "(rat \<Rightarrow> rat) \<Rightarrow> (bench_stats \<times> 64 word list) option \<Rightarrow> (bench_stats \<times> 64 word list) option \<Rightarrow>
    int \<Rightarrow> int \<Rightarrow> mixed_bench_stats" where
  "mixed_result rnd http ws start stop =
     (let (http_stats, http_latencies) = (case http of None \<Rightarrow> (no_stats, []) | Some r \<Rightarrow> r);
          (ws_stats, ws_latencies) = (case ws of None \<Rightarrow> (no_stats, []) | Some r \<Rightarrow> r);
          all_latencies = http_latencies @ ws_latencies
      in \<lparr>mx_http = http_stats, mx_ws = ws_stats, mx_elapsed_ms = elapsed_millis rnd start stop,
          mx_p50_us = Percentile rnd all_latencies (rnd (50 / 100)),
          mx_p95_us = Percentile rnd all_latencies (rnd (95 / 100)),
          mx_p99_us = Percentile rnd all_latencies (rnd (99 / 100))\<rparr>)"

text \<open>The document of a mixed load; a ratio that is no number is written as \<open>null\<close>.\<close>

definition mixed_document :: "'j json_api \<Rightarrow> (rat \<Rightarrow> 'j) \<Rightarrow> 'j \<Rightarrow> (rat \<Rightarrow> rat) \<Rightarrow> int \<Rightarrow> bench_config \<Rightarrow> mixed_bench_stats \<Rightarrow> 'j" where
  "mixed_document J number null rnd llround_nan cfg m =
     (let http_requests = bench_share rnd llround_nan (bc_mixed_http_ratio cfg) (bc_requests cfg);
          ws_requests = max 0 (bc_requests cfg - http_requests);
          total_success = to_int32 (bt_success (mx_http m) + bt_success (mx_ws m));
          total_errors = to_int32 (bt_errors (mx_http m) + bt_errors (mx_ws m))
      in json_object J
           [(''mode'', json_string J (bc_mode cfg)),
            (''concurrency'', json_int J (bc_concurrency cfg)),
            (''requests'', json_int J (bc_requests cfg)),
            (''warmup'', json_int J (bc_warmup cfg)),
            (''io_threads'', json_int J (bc_io_threads cfg)),
            (''mixed_http_ratio'', case bc_mixed_http_ratio cfg of Finite x \<Rightarrow> number x | _ \<Rightarrow> null),
            (''ws_read_delay_ms'', json_int J (bc_ws_read_delay_ms cfg)),
            (''ws_message_interval_ms'', json_int J (bc_ws_message_interval_ms cfg)),
            (''split'', json_object J
               [(''http_requests'', json_int J http_requests), (''ws_requests'', json_int J ws_requests)]),
            (''success'', json_int J total_success),
            (''errors'', json_int J total_errors),
            (''elapsed_ms'', number (mx_elapsed_ms m)),
            (''qps'', number (queries_per_second rnd total_success (mx_elapsed_ms m))),
            (''latency_us'', json_object J
               [(''p50'', json_int J (uint (mx_p50_us m))), (''p95'', json_int J (uint (mx_p95_us m))),
                (''p99'', json_int J (uint (mx_p99_us m)))]),
            (''protocols'', json_object J
               [(''http'', BenchStatsToJson J number (mx_http m)), (''ws'', BenchStatsToJson J number (mx_ws m))])])"

text \<open>
  How \<open>main\<close> ends, and what it writes to \<open>cerr\<close>: whether the embedded server started and the output
  file opens are arguments. Nothing catches what \<open>std::stoi\<close> and \<open>std::stod\<close> throw.
\<close>

definition bench_usage :: string where
  "bench_usage = ''usage: gateway_http_ws_bench --mode http|ws|mixed '' @
     ''[--concurrency N] [--requests N] [--warmup N] [--io-threads N] '' @
     ''[--mixed-http-ratio 0.0-1.0] [--ws-read-delay-ms N] [--ws-message-interval-ms N] [--output FILE]'' @ newline"

definition bench_main :: "(rat \<Rightarrow> rat) \<Rightarrow> string list \<Rightarrow> bool \<Rightarrow> (string \<Rightarrow> bool) \<Rightarrow> (exn + int) \<times> string" where
  "bench_main rnd args grpc_started opens =
     (case bench_ParseArgs rnd args default_bench_config of
        (Inl e, cfg, err) \<Rightarrow> (Inl e, err)
      | (Inr False, cfg, err) \<Rightarrow> (Inr 2, err @ bench_usage)
      | (Inr True, cfg, err) \<Rightarrow>
          if \<not> grpc_started then (Inr 1, err @ ''failed to start embedded grpc server'' @ newline)
          else if bc_output_file cfg \<noteq> [] \<and> \<not> opens (bc_output_file cfg)
          then (Inr 1, err @ ''failed to open output file: '' @ bc_output_file cfg @ newline)
          else (Inr 0, err))"

lemma bench_share_bounds: "0 \<le> n \<Longrightarrow> 0 \<le> bench_share rnd z r n \<and> bench_share rnd z r n \<le> n"
  by (simp add: bench_share_def clamp_int_bounds)

text \<open>
  How a mixed load is divided. Whatever the ratio, even a NaN, the two parts have together the
  requests, the workers and the warm-up calls of the whole, none of them a negative number. The WebSocket
  part runs whenever it has requests. So does the HTTP part, unless the load has one worker
  and both parts have requests: then the worker is taken from HTTP, and its requests are never sent.
\<close>

theorem mixed_split_runs:
  assumes "bench_config_ok cfg"
  shows "let (http, ws) = mixed_split rnd z cfg; (hw, ww) = mixed_warmup rnd z cfg in
    bc_requests http + bc_requests ws = bc_requests cfg \<and> 0 \<le> bc_requests http \<and> 0 \<le> bc_requests ws \<and>
    bc_concurrency http + bc_concurrency ws = bc_concurrency cfg \<and> 0 \<le> bc_concurrency http \<and> 0 \<le> bc_concurrency ws \<and>
    hw + ww = bc_warmup cfg \<and> 0 \<le> hw \<and> 0 \<le> ww \<and>
    (part_runs ws \<longleftrightarrow> 0 < bc_requests ws) \<and>
    (part_runs http \<longleftrightarrow> 0 < bc_requests http \<and> \<not> (bc_concurrency cfg = 1 \<and> 0 < bc_requests ws))"
proof -
  define r c w where shares: "r = bench_share rnd z (bc_mixed_http_ratio cfg) (bc_requests cfg)"
    "c = bench_share rnd z (bc_mixed_http_ratio cfg) (bc_concurrency cfg)"
    "w = bench_share rnd z (bc_mixed_http_ratio cfg) (bc_warmup cfg)"
  have "1 \<le> bc_requests cfg" "1 \<le> bc_concurrency cfg" "0 \<le> bc_warmup cfg"
    using assms by (simp_all add: bench_config_ok_def)
  moreover from this have "0 \<le> r" "r \<le> bc_requests cfg" "0 \<le> c" "c \<le> bc_concurrency cfg" "0 \<le> w" "w \<le> bc_warmup cfg"
    by (simp_all add: shares bench_share_bounds)
  ultimately show ?thesis
    unfolding mixed_split_def mixed_warmup_def part_runs_def Let_def shares [symmetric]
    by auto
qed

theorem mixed_split_runs_witness:
  "let (http, ws) = mixed_split fixed20 0
     (default_bench_config\<lparr>bc_mode := ''mixed'', bc_concurrency := 1, bc_requests := 8\<rparr>) in
   bc_requests http = 4 \<and> \<not> part_runs http \<and> part_runs ws"
proof -
  let ?cfg = "default_bench_config\<lparr>bc_mode := ''mixed'', bc_concurrency := 1, bc_requests := 8\<rparr>"
  have "bench_config_ok ?cfg" by (simp add: bench_config_ok_def default_bench_config_def)
  moreover have "bc_requests (fst (mixed_split fixed20 0 ?cfg)) = 4" "bc_requests (snd (mixed_split fixed20 0 ?cfg)) = 4"
    by code_simp+
  moreover have "bc_concurrency ?cfg = 1" by simp
  ultimately show ?thesis
    using mixed_split_runs [of ?cfg fixed20 0] by (auto simp: split_beta Let_def)
qed

end
