(* ===== verification/Bench_Workers.thy ===== *)
theory Bench_Workers
  imports Gateway_Bench Threads
begin

text \<open>
  The workers of \<open>bench/gateway_http_ws_bench.cpp\<close>: the threads of \<open>RunHttpBench\<close> and \<open>RunWsBench\<close>, action by
  action. They share a counter from which each claims the id of its next request, the two result
  counters and the vector of latencies. Both kinds are shown to implement a few abstract moves, and
  the accounts are proved of those.
\<close>

section \<open>What the workers share\<close>

record 'w bench_shared =
  bs_index :: int
  bs_success :: int
  bs_errors :: int
  bs_latencies :: "64 word list"
  bs_world :: 'w

definition bench_start :: "bench_config \<Rightarrow> 'w \<Rightarrow> 'w bench_shared" where
  "bench_start cfg w =
     \<lparr>bs_index = 0, bs_success = 0, bs_errors = 0, bs_latencies = replicate (nat (bc_requests cfg)) 0, bs_world = w\<rparr>"

text \<open>
  The JSON library, the gateway's host, and the world: the clock, a sleep, one HTTP exchange (connect, write, read; an exception or the status
  and the body), and the calls on the WebSocket of a worker, \<open>False\<close> or \<open>None\<close> where they throw.
\<close>

record ('j, 'w) bench_env =
  be_json :: "'j json_api"
  be_host :: string
  be_now :: "'w \<Rightarrow> int"
  be_sleep :: "int \<Rightarrow> 'w \<Rightarrow> 'w"
  be_http :: "string \<Rightarrow> (string \<times> string) list \<Rightarrow> string \<Rightarrow> 'w \<Rightarrow> (exn + int \<times> string) \<times> 'w"
  be_connect :: "nat \<Rightarrow> 'w \<Rightarrow> bool \<times> 'w"
  be_write :: "nat \<Rightarrow> string \<Rightarrow> 'w \<Rightarrow> bool \<times> 'w"
  be_read :: "nat \<Rightarrow> 'w \<Rightarrow> string option \<times> 'w"
  be_close :: "nat \<Rightarrow> 'w \<Rightarrow> bool \<times> 'w"

definition has_user_id :: "'j json_api \<Rightarrow> string \<Rightarrow> bool" where
  "has_user_id J body = (case json_parse J body of None \<Rightarrow> False | Some j \<Rightarrow> json_find J j ''user_id'' \<noteq> None)"

definition HttpCreateUser :: "('j, 'w) bench_env \<Rightarrow> int \<Rightarrow> 'w \<Rightarrow> bool \<times> 'w" where
  "HttpCreateUser be seq w =
     (let J = be_json be in
      case json_dump J (json_object J [(''nickname'', json_string J (''bench-http-'' @ to_string seq))]) of
        Inl e \<Rightarrow> (False, w)
      | Inr body \<Rightarrow>
          (let (r, w') = be_http be ''/user/create'' [(''Host'', be_host be), (''Authorization'', ''Bearer user:bench-user'')] body w
           in (case r of Inl e \<Rightarrow> False | Inr (st, reply) \<Rightarrow> st = 200 \<and> has_user_id J reply, w')))"

definition ws_payload :: "'j json_api \<Rightarrow> string \<Rightarrow> string \<Rightarrow> exn + string" where
  "ws_payload J nickname request_id =
     (case json_dump J (json_object J [(''nickname'', json_string J nickname)]) of
        Inl e \<Rightarrow> Inl e
      | Inr body \<Rightarrow>
          json_dump J (json_object J
            [(''path'', json_string J ''/user/create''), (''body'', json_string J body),
             (''headers'', json_object J [(''x-request-id'', json_string J request_id)])]))"

definition pause :: "('j, 'w) bench_env \<Rightarrow> int \<Rightarrow> 'w \<Rightarrow> 'w" where
  "pause be ms w = (if ms > 0 then be_sleep be ms w else w)"

subsection \<open>Warming up\<close>

primrec WarmupHttp :: "('j, 'w) bench_env \<Rightarrow> nat \<Rightarrow> 'w \<Rightarrow> 'w" where
  "WarmupHttp be 0 w = w"
| "WarmupHttp be (Suc n) w = snd (HttpCreateUser be (int n) (WarmupHttp be n w))"

text \<open>The loop of \<open>WarmupWs\<close> from message \<open>i\<close> on, on the socket \<open>k\<close>; \<open>False\<close> when a call has thrown.\<close>

fun warmup_ws_loop :: "('j, 'w) bench_env \<Rightarrow> bench_config \<Rightarrow> nat \<Rightarrow> nat \<Rightarrow> nat \<Rightarrow> 'w \<Rightarrow> bool \<times> 'w" where
  "warmup_ws_loop be cfg k i 0 w = (True, w)"
| "warmup_ws_loop be cfg k i (Suc n) w =
     (case ws_payload (be_json be) (''bench-ws-warmup-'' @ to_string (int i)) (''warmup-'' @ to_string (int i)) of
        Inl e \<Rightarrow> (False, w)
      | Inr payload \<Rightarrow>
          (let (sent, w1) = be_write be k payload (pause be (bc_ws_message_interval_ms cfg) w)
           in if \<not> sent then (False, w1)
              else (let (reply, w2) = be_read be k (pause be (bc_ws_read_delay_ms cfg) w1)
                    in if reply = None then (False, w2) else warmup_ws_loop be cfg k (Suc i) n w2)))"

definition WarmupWs :: "('j, 'w) bench_env \<Rightarrow> bench_config \<Rightarrow> nat \<Rightarrow> nat \<Rightarrow> 'w \<Rightarrow> 'w" where
  "WarmupWs be cfg k n w =
     (let (open, w1) = be_connect be k w
      in if \<not> open then w1
         else (let (fine, w2) = warmup_ws_loop be cfg k 0 n w1
               in if fine then snd (be_close be k w2) else w2))"

section \<open>The workers\<close>

text \<open>
  Where a worker is: not yet connected, about to claim an id, with the id of its request and what it
  has found so far, about to close, about to count a failure (\<open>True\<close> when it was claimed an
  id), or at its end (\<open>True\<close> when it ended with a failure that no id stands for).
\<close>

datatype bench_worker =
    Bw_connect
  | Bw_claim
  | Bw_start int
  | Bw_send int string int
  | Bw_wait int int
  | Bw_stop int int bool
  | Bw_count bool
  | Bw_close
  | Bw_fail bool
  | Bw_end bool

definition claim_id :: "bench_config \<Rightarrow> bench_worker \<Rightarrow> 'w bench_shared \<Rightarrow> bench_worker \<times> 'w bench_shared" where
  "claim_id cfg left s =
     (let req_id = bs_index s; s1 = s\<lparr>bs_index := to_int32 (req_id + 1)\<rparr>
      in (if req_id \<ge> bc_requests cfg then left else Bw_start req_id, s1))"

definition count_result :: "bool \<Rightarrow> 'w bench_shared \<Rightarrow> 'w bench_shared" where
  "count_result ok s =
     (if ok then s\<lparr>bs_success := to_int32 (bs_success s + 1)\<rparr> else s\<lparr>bs_errors := to_int32 (bs_errors s + 1)\<rparr>)"

definition note_latency :: "('j, 'w) bench_env \<Rightarrow> int \<Rightarrow> int \<Rightarrow> 'w bench_shared \<Rightarrow> 'w bench_shared" where
  "note_latency be req_id start s =
     s\<lparr>bs_latencies := (bs_latencies s)[nat req_id := micros start (be_now be (bs_world s))]\<rparr>"

fun http_worker_step :: "('j, 'w) bench_env \<Rightarrow> bench_config \<Rightarrow> bench_worker \<Rightarrow> 'w bench_shared \<Rightarrow>
    (bench_worker \<times> 'w bench_shared) option" where
  "http_worker_step be cfg Bw_claim s = Some (claim_id cfg (Bw_end False) s)"
| "http_worker_step be cfg (Bw_start req_id) s = Some (Bw_wait req_id (be_now be (bs_world s)), s)"
| "http_worker_step be cfg (Bw_wait req_id start) s =
     (let (ok, w) = HttpCreateUser be req_id (bs_world s) in Some (Bw_stop req_id start ok, s\<lparr>bs_world := w\<rparr>))"
| "http_worker_step be cfg (Bw_stop req_id start ok) s = Some (Bw_count ok, note_latency be req_id start s)"
| "http_worker_step be cfg (Bw_count ok) s = Some (Bw_claim, count_result ok s)"
| "http_worker_step be cfg _ s = None"

text \<open>A WebSocket worker has its number, which names its socket and its requests.\<close>

fun ws_worker_step :: "('j, 'w) bench_env \<Rightarrow> bench_config \<Rightarrow> nat \<times> bench_worker \<Rightarrow> 'w bench_shared \<Rightarrow>
    ((nat \<times> bench_worker) \<times> 'w bench_shared) option" where
  "ws_worker_step be cfg (k, Bw_connect) s =
     (let (open, w) = be_connect be k (bs_world s)
      in Some ((k, if open then Bw_claim else Bw_fail False), s\<lparr>bs_world := w\<rparr>))"
| "ws_worker_step be cfg (k, Bw_claim) s = (let (t, s1) = claim_id cfg Bw_close s in Some ((k, t), s1))"
| "ws_worker_step be cfg (k, Bw_start req_id) s =
     (case ws_payload (be_json be) (''bench-ws-'' @ to_string req_id)
             (''bench-ws-'' @ to_string (int k) @ ''-'' @ to_string req_id) of
        Inl e \<Rightarrow> Some ((k, Bw_fail True), s)
      | Inr payload \<Rightarrow> Some ((k, Bw_send req_id payload (be_now be (bs_world s))), s))"
| "ws_worker_step be cfg (k, Bw_send req_id payload start) s =
     (let (sent, w) = be_write be k payload (pause be (bc_ws_message_interval_ms cfg) (bs_world s))
      in Some ((k, if sent then Bw_wait req_id start else Bw_fail True), s\<lparr>bs_world := w\<rparr>))"
| "ws_worker_step be cfg (k, Bw_wait req_id start) s =
     (let (reply, w) = be_read be k (pause be (bc_ws_read_delay_ms cfg) (bs_world s))
      in Some ((k, case reply of None \<Rightarrow> Bw_fail True | Some t \<Rightarrow> Bw_stop req_id start (has_user_id (be_json be) t)),
               s\<lparr>bs_world := w\<rparr>))"
| "ws_worker_step be cfg (k, Bw_stop req_id start ok) s = Some ((k, Bw_count ok), note_latency be req_id start s)"
| "ws_worker_step be cfg (k, Bw_count ok) s = Some ((k, Bw_claim), count_result ok s)"
| "ws_worker_step be cfg (k, Bw_close) s =
     (let (fine, w) = be_close be k (bs_world s) in Some ((k, if fine then Bw_end False else Bw_fail False), s\<lparr>bs_world := w\<rparr>))"
| "ws_worker_step be cfg (k, Bw_fail claimed) s = Some ((k, Bw_end (\<not> claimed)), count_result False s)"
| "ws_worker_step be cfg (k, Bw_end b) s = None"

section \<open>The moves of a worker\<close>

text \<open>What the accounts depend on: whether a worker owes a result, which id it is working on, and so on.\<close>

fun owes :: "bench_worker \<Rightarrow> bool" where
  "owes (Bw_start req_id) = True"
| "owes (Bw_send req_id payload start) = True"
| "owes (Bw_wait req_id start) = True"
| "owes (Bw_stop req_id start ok) = True"
| "owes (Bw_count ok) = True"
| "owes (Bw_fail claimed) = claimed"
| "owes _ = False"

fun works_on :: "bench_worker \<Rightarrow> int option" where
  "works_on (Bw_start req_id) = Some req_id"
| "works_on (Bw_send req_id payload start) = Some req_id"
| "works_on (Bw_wait req_id start) = Some req_id"
| "works_on (Bw_stop req_id start ok) = Some req_id"
| "works_on _ = None"

fun out_of_loop :: "bench_worker \<Rightarrow> bool" where
  "out_of_loop Bw_close = True"
| "out_of_loop (Bw_fail claimed) = True"
| "out_of_loop (Bw_end b) = True"
| "out_of_loop _ = False"

fun stray_failure :: "bench_worker \<Rightarrow> bool" where
  "stray_failure (Bw_end b) = b"
| "stray_failure _ = False"

text \<open>\<open>gone\<close> are the states a worker is only in after it found no id left.\<close>

inductive bench_move :: "(bench_worker \<Rightarrow> bool) \<Rightarrow> int \<Rightarrow> bench_worker \<Rightarrow> int \<times> int \<times> int \<Rightarrow>
    bench_worker \<Rightarrow> int \<times> int \<times> int \<Rightarrow> bool" for gone :: "bench_worker \<Rightarrow> bool" and requests :: int where
  think: "owes t' = owes t \<Longrightarrow> works_on t' = works_on t \<or> works_on t' = None \<Longrightarrow>
    (out_of_loop t \<longrightarrow> out_of_loop t') \<Longrightarrow> stray_failure t' = stray_failure t \<Longrightarrow> (gone t' \<longrightarrow> gone t) \<Longrightarrow>
    bench_move gone requests t (i, n, e) t' (i, n, e)"
| claim: "i < requests \<Longrightarrow> \<not> gone (Bw_start i) \<Longrightarrow>
    bench_move gone requests Bw_claim (i, n, e) (Bw_start i) (to_int32 (i + 1), n, e)"
| leave: "requests \<le> i \<Longrightarrow> t' = Bw_close \<or> t' = Bw_end False \<Longrightarrow>
    bench_move gone requests Bw_claim (i, n, e) t' (to_int32 (i + 1), n, e)"
| count: "owes t \<Longrightarrow> \<not> owes t' \<Longrightarrow> works_on t' = None \<Longrightarrow> (out_of_loop t \<longrightarrow> out_of_loop t') \<Longrightarrow> \<not> stray_failure t' \<Longrightarrow>
    (gone t' \<longrightarrow> gone t) \<Longrightarrow> (n', e') = (to_int32 (n + 1), e) \<or> (n', e') = (n, to_int32 (e + 1)) \<Longrightarrow>
    bench_move gone requests t (i, n, e) t' (i, n', e')"
| stray: "\<not> gone (Bw_end True) \<Longrightarrow>
    bench_move gone requests (Bw_fail False) (i, n, e) (Bw_end True) (i, n, to_int32 (e + 1))"

abbreviation bench_counts :: "'w bench_shared \<Rightarrow> int \<times> int \<times> int" where
  "bench_counts s \<equiv> (bs_index s, bs_success s, bs_errors s)"

fun http_gone :: "bench_worker \<Rightarrow> bool" where
  "http_gone (Bw_end b) = True"
| "http_gone _ = False"

fun ws_gone :: "bench_worker \<Rightarrow> bool" where
  "ws_gone Bw_close = True"
| "ws_gone _ = False"

lemma bench_thinkI:
  assumes "bench_counts s' = bench_counts s" and "owes t' = owes t" and "works_on t' = works_on t \<or> works_on t' = None"
    and "out_of_loop t \<longrightarrow> out_of_loop t'" and "stray_failure t' = stray_failure t" and "gone t' \<longrightarrow> gone t"
  shows "bench_move gone requests t (bench_counts s) t' (bench_counts s')"
  unfolding assms(1) by (rule think) (rule assms(2-6))+

lemma bench_countI:
  assumes "owes t" and "\<not> owes t'" and "works_on t' = None" and "out_of_loop t \<longrightarrow> out_of_loop t'"
    and "\<not> stray_failure t'" and "gone t' \<longrightarrow> gone t"
  shows "bench_move gone requests t (bench_counts s) t' (bench_counts (count_result ok s))"
  using assms by (cases ok) (simp_all add: count_result_def bench_move.count)

lemma bench_claimI:
  assumes "claim_id cfg left s = (t', s')" and "left = Bw_close \<or> left = Bw_end False" and "\<not> gone (Bw_start (bs_index s))"
  shows "bench_move gone (bc_requests cfg) Bw_claim (bench_counts s) t' (bench_counts s')"
  using assms by (auto simp: claim_id_def Let_def not_le intro: bench_move.claim bench_move.leave split: if_splits)

lemma http_worker_moves:
  assumes "http_worker_step be cfg t s = Some (t', s')"
  shows "bench_move http_gone (bc_requests cfg) t (bench_counts s) t' (bench_counts s')"
proof (cases t)
  case Bw_claim
  show ?thesis using assms unfolding Bw_claim by (intro bench_claimI) auto
next
  case (Bw_count ok)
  show ?thesis using assms unfolding Bw_count by (auto intro: bench_countI)
qed (use assms in \<open>auto simp: note_latency_def split: prod.splits intro!: bench_thinkI\<close>)

lemma ws_worker_moves:
  assumes "ws_worker_step be cfg t s = Some (t', s')"
  shows "bench_move ws_gone (bc_requests cfg) (snd t) (bench_counts s) (snd t') (bench_counts s') \<and> fst t' = fst t"
proof (cases t)
  case (Pair k u)
  note step = assms [unfolded Pair]
  show ?thesis
  proof (cases u)
    case Bw_claim
    obtain v s1 where c: "claim_id cfg Bw_close s = (v, s1)" by (cases "claim_id cfg Bw_close s")
    show ?thesis using step bench_claimI [OF c, of ws_gone] unfolding Pair Bw_claim by (auto simp: c)
  next
    case (Bw_count ok)
    show ?thesis using step unfolding Pair Bw_count by (auto intro: bench_countI)
  next
    case (Bw_fail claimed)
    show ?thesis
    proof (cases claimed)
      case True
      show ?thesis using step by (auto simp: Pair Bw_fail True intro: bench_countI)
    next
      case False
      show ?thesis using step False by (auto simp: Pair Bw_fail count_result_def bench_move.stray)
    qed
  qed (use step in \<open>auto simp: Pair note_latency_def split: prod.splits sum.splits option.splits if_splits intro!: bench_thinkI\<close>)
qed

section \<open>The accounts\<close>

text \<open>
  Every id that was claimed has a result or a worker that owes one; the only results beside those are of workers
  that failed without an id. The sums do not overflow while the requests and the workers
  are together fewer than \<open>2^31\<close>.
\<close>

definition bench_accounts :: "int \<Rightarrow> bench_worker list \<Rightarrow> int \<times> int \<times> int \<Rightarrow> bool" where
  "bench_accounts requests us c \<longleftrightarrow>
     (case c of (i, n, e) \<Rightarrow>
        0 \<le> requests \<and> requests + int (length us) < 2 ^ 31 \<and> 0 \<le> i \<and> 0 \<le> n \<and> 0 \<le> e \<and>
        i \<le> requests + int (waiting out_of_loop us) \<and>
        n + e + int (waiting owes us) = min i requests + int (waiting stray_failure us))"

definition well_placed :: "(bench_worker \<Rightarrow> bool) \<Rightarrow> int \<Rightarrow> bench_worker \<Rightarrow> int \<Rightarrow> bool" where
  "well_placed gone requests u i \<longleftrightarrow>
     (\<forall>req_id. works_on u = Some req_id \<longrightarrow> 0 \<le> req_id \<and> req_id < min i requests) \<and> (gone u \<longrightarrow> requests \<le> i)"

definition work_apart :: "bench_worker \<Rightarrow> bench_worker \<Rightarrow> bool" where
  "work_apart u v \<longleftrightarrow> works_on u = None \<or> works_on u \<noteq> works_on v"

lemma owes_no_stray: "owes u \<Longrightarrow> \<not> stray_failure u"
  by (cases u) simp_all

lemma bench_accounts_move:
  assumes "bench_accounts requests us (i, n, e)" and k: "k < length us"
    and move: "bench_move gone requests (us ! k) (i, n, e) t' (i', n', e')"
  shows "bench_accounts requests (us[k := t']) (i', n', e') \<and> i \<le> i' \<and> (us ! k = Bw_claim \<longrightarrow> works_on t' \<noteq> None \<longrightarrow> i < i')"
proof -
  note w = waiting_update [OF k, of out_of_loop t'] waiting_update [OF k, of owes t'] waiting_update [OF k, of stray_failure t']
  have le: "waiting P us \<le> length us" "waiting P (us[k := t']) \<le> length us" for P
    using waiting_le [of P us] waiting_le [of P "us[k := t']"] by simp_all
  note le' = le [of out_of_loop] le [of stray_failure]
  have a: "0 \<le> requests" "requests + int (length us) < 2147483648" "0 \<le> i" "0 \<le> n" "0 \<le> e"
    "i \<le> requests + int (waiting out_of_loop us)"
    "n + e + int (waiting owes us) = min i requests + int (waiting stray_failure us)"
    using assms(1) by (simp_all add: bench_accounts_def)
  show ?thesis
    using move
  proof cases
    case think
    then show ?thesis using a w le' by (auto simp: bench_accounts_def split: if_splits)
  next
    case claim
    then have "to_int32 (i + 1) = i + 1" using a by (intro to_int32_id) simp
    then show ?thesis using claim a w le' by (auto simp: bench_accounts_def split: if_splits)
  next
    case leave
    then have out: "\<not> out_of_loop (us ! k)" "out_of_loop t'" by auto
    then have "i + 1 \<le> requests + int (length us)" using a(6) w(1) le' by simp
    then have "to_int32 (i + 1) = i + 1" using a by (intro to_int32_id) simp
    then show ?thesis using leave a w le' by (auto simp: bench_accounts_def)
  next
    case count
    then have "n + e + 1 \<le> requests + int (length us)" using a(7) w(2) le' by (auto split: if_splits)
    then have "to_int32 (n + 1) = n + 1" "to_int32 (e + 1) = e + 1"
      using a by (intro to_int32_id; simp)+
    then show ?thesis using count owes_no_stray [of "us ! k"] a w le' by (auto simp: bench_accounts_def split: if_splits)
  next
    case stray
    then have "n + e + 1 \<le> requests + int (length us)" using a(7) w(3) le' by auto
    then have "to_int32 (e + 1) = e + 1" using a by (intro to_int32_id) simp
    then show ?thesis using stray a w le' by (auto simp: bench_accounts_def split: if_splits)
  qed
qed

text \<open>
  The threads of a benchmark: each implements the moves in its \<open>view\<close>.
\<close>

locale bench_loop =
  fixes step :: "'p \<Rightarrow> 'w bench_shared \<Rightarrow> ('p \<times> 'w bench_shared) option"
    and view :: "'p \<Rightarrow> bench_worker"
    and gone :: "bench_worker \<Rightarrow> bool"
    and requests :: int
  assumes moves: "step t s = Some (t', s') \<Longrightarrow> bench_move gone requests (view t) (bench_counts s) (view t') (bench_counts s')"

context bench_loop
begin

lemma loop_step:
  assumes r: "bench_accounts requests (map view ts) (bench_counts s)" and i: "i < length ts"
    and a: "well_placed gone requests (view (ts ! i)) (bs_index s)" and m: "step (ts ! i) s = Some (t', s')"
  shows "bench_accounts requests (map view (ts[i := t'])) (bench_counts s')"
    and "well_placed gone requests (view t') (bs_index s')"
    and "well_placed gone requests (view u) (bs_index s) \<Longrightarrow> work_apart (view (ts ! i)) (view u) \<Longrightarrow>
      work_apart (view u) (view (ts ! i)) \<Longrightarrow>
      well_placed gone requests (view u) (bs_index s') \<and> work_apart (view t') (view u) \<and> work_apart (view u) (view t')"
proof -
  have mv: "bench_move gone requests (map view ts ! i) (bench_counts s) (view t') (bench_counts s')"
    using moves [OF m] i by simp
  have k: "i < length (map view ts)" using i by simp
  note up = bench_accounts_move [OF r k mv]
  show "bench_accounts requests (map view (ts[i := t'])) (bench_counts s')" using up by (simp add: map_update)
  have le: "bs_index s \<le> bs_index s'" and nonneg: "0 \<le> bs_index s" using up r by (simp_all add: bench_accounts_def)
  show "well_placed gone requests (view t') (bs_index s')"
    using mv a i le nonneg up by cases (auto simp: well_placed_def)
  show "well_placed gone requests (view u) (bs_index s') \<and> work_apart (view t') (view u) \<and> work_apart (view u) (view t')"
    if "well_placed gone requests (view u) (bs_index s)" and "work_apart (view (ts ! i)) (view u)"
      and "work_apart (view u) (view (ts ! i))"
    using mv that i le by cases (auto simp: well_placed_def work_apart_def)
qed

end

sublocale bench_loop \<subseteq> thread_invariant step "\<lambda>s. True" "\<lambda>t s. well_placed gone requests (view t) (bs_index s)"
  "\<lambda>t u. work_apart (view t) (view u)" "\<lambda>ts s. bench_accounts requests (map view ts) (bench_counts s)"
  by unfold_locales (use loop_step in blast)+

context bench_loop
begin

lemma run_accounts:
  assumes run: "interleaved step (ts, s) (ts', s')" and ts: "\<forall>t \<in> set ts. view t = u" and u: "u = Bw_claim \<or> u = Bw_connect"
    and s: "bench_counts s = (0, 0, 0)" and bound: "0 \<le> requests" "requests + int (length ts) < 2 ^ 31" and gone: "\<not> gone u"
  shows "bench_accounts requests (map view ts') (bench_counts s')"
    and "i < length ts' \<Longrightarrow> well_placed gone requests (view (ts' ! i)) (bs_index s')"
    and "i < length ts' \<Longrightarrow> j < length ts' \<Longrightarrow> i \<noteq> j \<Longrightarrow> work_apart (view (ts' ! i)) (view (ts' ! j))"
    and "bench_accounts requests (map view ts) (bench_counts s)"
proof -
  have "map view ts = replicate (length ts) u" using ts by (simp add: map_replicate_const [symmetric] cong: map_cong)
  then have r: "bench_accounts requests (map view ts) (bench_counts s)"
    using bound s u by (auto simp: bench_accounts_def waiting_def)
  then show "bench_accounts requests (map view ts) (bench_counts s)" .
  have a: "\<forall>t \<in> set ts. well_placed gone requests (view t) (bs_index s)" using ts u gone by (auto simp: well_placed_def)
  have p: "\<forall>i < length ts. \<forall>j < length ts. i \<noteq> j \<longrightarrow> work_apart (view (ts ! i)) (view (ts ! j))"
    using ts u by (auto simp: work_apart_def)
  note keeps = run_keeps [OF run r TrueI a p]
  show "bench_accounts requests (map view ts') (bench_counts s')" by (rule keeps(4))
  show "i < length ts' \<Longrightarrow> well_placed gone requests (view (ts' ! i)) (bs_index s')" by (rule keeps(2))
  show "i < length ts' \<Longrightarrow> j < length ts' \<Longrightarrow> i \<noteq> j \<Longrightarrow> work_apart (view (ts' ! i)) (view (ts' ! j))" by (rule keeps(3))
qed

lemma slack_step:
  assumes r: "bench_accounts requests (map view ts) (bench_counts s)" and i: "i < length ts"
    and m: "step (ts ! i) s = Some (t', s')"
  shows "8 * nat (requests - bs_index s') + (if view (ts ! i) = Bw_claim \<and> works_on (view t') \<noteq> None then 8 else 0)
     \<le> 8 * nat (requests - bs_index s)"
    and "bench_accounts requests (map view (ts[i := t'])) (bench_counts s')"
proof -
  have mv: "bench_move gone requests (map view ts ! i) (bench_counts s) (view t') (bench_counts s')"
    using moves [OF m] i by simp
  have "i < length (map view ts)" using i by simp
  note up = bench_accounts_move [OF r this mv]
  show "8 * nat (requests - bs_index s') + (if view (ts ! i) = Bw_claim \<and> works_on (view t') \<noteq> None then 8 else 0)
     \<le> 8 * nat (requests - bs_index s)"
    using mv up i by cases (auto split: if_splits)
  show "bench_accounts requests (map view (ts[i := t'])) (bench_counts s')" using up by (simp add: map_update)
qed

end

fun http_work :: "bench_worker \<Rightarrow> nat" where
  "http_work Bw_claim = 3"
| "http_work (Bw_start req_id) = 8"
| "http_work (Bw_wait req_id start) = 6"
| "http_work (Bw_stop req_id start ok) = 5"
| "http_work (Bw_count ok) = 4"
| "http_work _ = 0"

fun ws_work :: "bench_worker \<Rightarrow> nat" where
  "ws_work Bw_connect = 4"
| "ws_work Bw_claim = 3"
| "ws_work (Bw_start req_id) = 8"
| "ws_work (Bw_send req_id payload start) = 7"
| "ws_work (Bw_wait req_id start) = 6"
| "ws_work (Bw_stop req_id start ok) = 5"
| "ws_work (Bw_count ok) = 4"
| "ws_work Bw_close = 2"
| "ws_work (Bw_fail claimed) = 1"
| "ws_work (Bw_end b) = 0"

interpretation http_loop: bench_loop "http_worker_step be cfg" "\<lambda>t. t" http_gone "bc_requests cfg" for be cfg
  by unfold_locales (rule http_worker_moves)

interpretation ws_loop: bench_loop "ws_worker_step be cfg" snd ws_gone "bc_requests cfg" for be cfg
  by unfold_locales (use ws_worker_moves in blast)

interpretation http_runs: thread_work "http_worker_step be cfg" http_work "\<lambda>s. 8 * nat (bc_requests cfg - bs_index s)"
  "\<lambda>ts s. bench_accounts (bc_requests cfg) ts (bench_counts s)" for be cfg
proof unfold_locales
  fix ts i s t' s'
  assume r: "bench_accounts (bc_requests cfg) ts (bench_counts s)" and i: "i < length ts"
    and m: "http_worker_step be cfg (ts ! i) s = Some (t', s')"
  then show "http_work t' + 8 * nat (bc_requests cfg - bs_index s') < http_work (ts ! i) + 8 * nat (bc_requests cfg - bs_index s)"
    using http_loop.slack_step(1) [of cfg ts s i be t' s']
    by (cases "ts ! i") (auto simp: claim_id_def Let_def split: if_splits prod.splits)
  show "bench_accounts (bc_requests cfg) (ts[i := t']) (bench_counts s')"
    using bench_accounts_move [OF r i http_worker_moves [OF m]] by simp
next
  fix t s
  show "0 < http_work t \<Longrightarrow> http_worker_step be cfg t s \<noteq> None" by (cases t) (simp_all split: prod.splits)
  show "http_work t = 0 \<Longrightarrow> http_worker_step be cfg t s = None" by (cases t) simp_all
qed

interpretation ws_runs: thread_work "ws_worker_step be cfg" "\<lambda>t. ws_work (snd t)" "\<lambda>s. 8 * nat (bc_requests cfg - bs_index s)"
  "\<lambda>ts s. bench_accounts (bc_requests cfg) (map snd ts) (bench_counts s)" for be cfg
proof unfold_locales
  fix ts i s t' s'
  assume r: "bench_accounts (bc_requests cfg) (map snd ts) (bench_counts s)" and i: "i < length ts"
    and m: "ws_worker_step be cfg (ts ! i) s = Some (t', s')"
  show "ws_work (snd t') + 8 * nat (bc_requests cfg - bs_index s') < ws_work (snd (ts ! i)) + 8 * nat (bc_requests cfg - bs_index s)"
    using ws_loop.slack_step(1) [OF r i m] m
    by (cases "ts ! i"; cases "snd (ts ! i)")
      (auto simp: claim_id_def count_result_def note_latency_def Let_def split: if_splits prod.splits sum.splits option.splits)
  show "bench_accounts (bc_requests cfg) (map snd (ts[i := t'])) (bench_counts s')"
    by (rule ws_loop.slack_step(2) [OF r i m])
next
  fix t s
  show "0 < ws_work (snd t) \<Longrightarrow> ws_worker_step be cfg t s \<noteq> None"
    by (cases t; cases "snd t") (simp_all split: prod.splits sum.splits)
  show "ws_work (snd t) = 0 \<Longrightarrow> ws_worker_step be cfg t s = None"
    by (cases t; cases "snd t") simp_all
qed

section \<open>Runs of a benchmark\<close>

definition http_workers :: "bench_config \<Rightarrow> bench_worker list" where
  "http_workers cfg = replicate (nat (bc_concurrency cfg)) Bw_claim"

definition ws_workers :: "bench_config \<Rightarrow> (nat \<times> bench_worker) list" where
  "ws_workers cfg = map (\<lambda>k. (k, Bw_connect)) [0..<nat (bc_concurrency cfg)]"

text \<open>
  A run that returns: the warm-up, some interleaving of the workers until none can act, and the
  statistics of what they left. A warm-up on a WebSocket has a socket of its own, after the workers'.
\<close>

inductive RunHttpBench :: "('j, 'w) bench_env \<Rightarrow> (rat \<Rightarrow> rat) \<Rightarrow> bench_config \<Rightarrow> bool \<Rightarrow> 'w \<Rightarrow>
    bench_stats \<times> 64 word list \<times> 'w \<Rightarrow> bool" for be rnd cfg do_warmup w where
  http_run: "w0 = (if do_warmup \<and> bc_warmup cfg > 0 then WarmupHttp be (nat (bc_warmup cfg)) w else w) \<Longrightarrow>
    interleaved (http_worker_step be cfg) (http_workers cfg, bench_start cfg w0) (ts, s) \<Longrightarrow>
    \<forall>t \<in> set ts. http_worker_step be cfg t s = None \<Longrightarrow>
    RunHttpBench be rnd cfg do_warmup w
      (bench_result rnd (bs_success s) (bs_errors s) (be_now be w0) (be_now be (bs_world s)) (bs_latencies s),
       bs_latencies s, bs_world s)"

inductive RunWsBench :: "('j, 'w) bench_env \<Rightarrow> (rat \<Rightarrow> rat) \<Rightarrow> bench_config \<Rightarrow> bool \<Rightarrow> 'w \<Rightarrow>
    bench_stats \<times> 64 word list \<times> 'w \<Rightarrow> bool" for be rnd cfg do_warmup w where
  ws_run: "w0 = (if do_warmup \<and> bc_warmup cfg > 0
                 then WarmupWs be cfg (nat (bc_concurrency cfg)) (nat (bc_warmup cfg)) w else w) \<Longrightarrow>
    interleaved (ws_worker_step be cfg) (ws_workers cfg, bench_start cfg w0) (ts, s) \<Longrightarrow>
    \<forall>t \<in> set ts. ws_worker_step be cfg t s = None \<Longrightarrow>
    RunWsBench be rnd cfg do_warmup w
      (bench_result rnd (bs_success s) (bs_errors s) (be_now be w0) (be_now be (bs_world s)) (bs_latencies s),
       bs_latencies s, bs_world s)"

fun http_place :: "bench_worker \<Rightarrow> bool" where
  "http_place Bw_claim = True"
| "http_place (Bw_start req_id) = True"
| "http_place (Bw_wait req_id start) = True"
| "http_place (Bw_stop req_id start ok) = True"
| "http_place (Bw_count ok) = True"
| "http_place (Bw_end b) = (\<not> b)"
| "http_place _ = False"

lemma http_place_step: "http_worker_step be cfg t s = Some (t', s') \<Longrightarrow> http_place t'"
  by (cases t) (auto simp: claim_id_def Let_def split: if_splits prod.splits)

lemma latencies_length_step:
  "http_worker_step be cfg t s = Some (t', s') \<Longrightarrow> length (bs_latencies s') = length (bs_latencies s)"
  by (cases t)
    (auto simp: claim_id_def count_result_def note_latency_def Let_def split: if_splits prod.splits)

lemma http_run_places:
  assumes "interleaved (http_worker_step be cfg) (ts, s) (ts', s')" and "\<forall>t \<in> set ts. http_place t"
  shows "(\<forall>t \<in> set ts'. http_place t) \<and> length (bs_latencies s') = length (bs_latencies s)"
  using assms
proof (induction rule: rtranclp_induct2)
  case (step ts1 s1 ts2 s2)
  from step.hyps(2) obtain i t' where i: "ts2 = ts1[i := t']" "http_worker_step be cfg (ts1 ! i) s1 = Some (t', s2)"
    by (auto elim: interleaveE)
  show ?case
    using step http_place_step [OF i(2)] latencies_length_step [OF i(2)] set_update_subset_insert [of ts1 i t']
    by (auto simp: i(1))
qed simp

lemma http_all_places: "\<forall>t \<in> set (http_workers cfg). http_place t"
  by (simp add: http_workers_def)

lemma stray_none: "\<forall>t \<in> set ts. http_place t \<Longrightarrow> waiting stray_failure ts = 0"
  by (induction ts) (auto simp: waiting_def elim: http_place.elims)

lemma http_workers_start:
  assumes "bench_config_ok cfg" and "bc_requests cfg + bc_concurrency cfg < 2 ^ 31"
  shows "\<forall>t \<in> set (http_workers cfg). t = Bw_claim" and "bc_requests cfg + int (length (http_workers cfg)) < 2 ^ 31"
    and "0 \<le> bc_requests cfg" and "0 < bc_concurrency cfg" and "length (http_workers cfg) = nat (bc_concurrency cfg)"
  using assms by (simp_all add: http_workers_def bench_config_ok_def)

lemma ws_workers_start:
  assumes "bench_config_ok cfg" and "bc_requests cfg + bc_concurrency cfg < 2 ^ 31"
  shows "\<forall>t \<in> set (ws_workers cfg). snd t = Bw_connect" and "bc_requests cfg + int (length (ws_workers cfg)) < 2 ^ 31"
    and "length (ws_workers cfg) = nat (bc_concurrency cfg)"
  using assms by (auto simp: ws_workers_def bench_config_ok_def)

lemma bench_counts_start [simp]: "bench_counts (bench_start cfg w) = (0, 0, 0)"
  by (simp add: bench_start_def)

text \<open>
  The load generator accounts for every HTTP request. However its workers are interleaved, no two of them
  ever work on the same request, and the results counted and those owed are together the ids
  handed out, at most the number of requests. A run that returns has sent every request and
  counted exactly one result and kept one latency for each. It is assumed that requests and workers are fewer than
  \<open>2^31\<close>, where the id counter would come round.
\<close>

theorem http_bench_accounts:
  assumes "bench_config_ok cfg" and "bc_requests cfg + bc_concurrency cfg < 2 ^ 31"
  shows "(interleaved (http_worker_step be cfg) (http_workers cfg, bench_start cfg w0) (ts, s) \<longrightarrow>
      (\<forall>i < length ts. \<forall>j < length ts. i \<noteq> j \<longrightarrow> works_on (ts ! i) = None \<or> works_on (ts ! i) \<noteq> works_on (ts ! j)) \<and>
      bs_success s + bs_errors s + int (waiting owes ts) = min (bs_index s) (bc_requests cfg)) \<and>
    (RunHttpBench be rnd cfg do_warmup w (stats, latencies, w') \<longrightarrow>
      bt_success stats + bt_errors stats = bc_requests cfg \<and> int (length latencies) = bc_requests cfg)"
proof -
  note start = http_workers_start [OF assms]
  have reach: "(\<forall>i < length ts. \<forall>j < length ts. i \<noteq> j \<longrightarrow> work_apart (ts ! i) (ts ! j)) \<and>
      bs_success s + bs_errors s + int (waiting owes ts) = min (bs_index s) (bc_requests cfg) \<and>
      (\<forall>i < length ts. http_gone (ts ! i) \<longrightarrow> bc_requests cfg \<le> bs_index s) \<and>
      length ts = nat (bc_concurrency cfg) \<and> (\<forall>t \<in> set ts. http_place t) \<and>
      int (length (bs_latencies s)) = bc_requests cfg"
    if run: "interleaved (http_worker_step be cfg) (http_workers cfg, bench_start cfg w0) (ts, s)" for w0 ts s
  proof -
    note a = http_loop.run_accounts [OF run start(1) _ bench_counts_start start(3,2), simplified]
    note p = http_run_places [OF run http_all_places]
    have "bs_success s + bs_errors s + int (waiting owes ts) = min (bs_index s) (bc_requests cfg)"
      using a(1) stray_none p by (simp add: bench_accounts_def)
    moreover have "length ts = nat (bc_concurrency cfg)"
      using interleaved_length [OF run] start(5) by simp
    ultimately show ?thesis
      using a(2,3) p start(3) by (simp add: well_placed_def bench_start_def)
  qed
  have "bt_success stats + bt_errors stats = bc_requests cfg \<and> int (length latencies) = bc_requests cfg"
    if "RunHttpBench be rnd cfg do_warmup w (stats, latencies, w')"
    using that
  proof cases
    case (http_run w0 ts s)
    note r = reach [OF http_run(5)]
    have e: "t = Bw_end False" if "t \<in> set ts" for t
      using http_run(6) r that by (cases t) (auto split: prod.splits)
    then have "waiting owes ts = 0" by (fastforce simp: waiting_def filter_empty_conv)
    moreover have "0 < length ts" using r start(4) by simp
    then have "bc_requests cfg \<le> bs_index s" using r e [of "ts ! 0"] by (metis http_gone.simps(1) nth_mem)
    ultimately show ?thesis using r http_run(1,2) by (simp add: bench_result_def Let_def)
  qed
  then show ?thesis using reach [of w0 ts s] by (auto simp: work_apart_def)
qed

text \<open>A gateway that refuses every request, for the concrete runs.\<close>

definition refusing_gateway :: "(document, int) bench_env" where
  "refusing_gateway =
     \<lparr>be_json = sample_json, be_host = ''127.0.0.1'', be_now = (\<lambda>w. w), be_sleep = (\<lambda>ms w. w + ms * 1000000),
      be_http = (\<lambda>target hs body w. (Inr (503, []), w + 5000)),
      be_connect = (\<lambda>k w. (False, w)), be_write = (\<lambda>k t w. (False, w)), be_read = (\<lambda>k w. (None, w)),
      be_close = (\<lambda>k w. (False, w))\<rparr>"

definition tiny_load :: bench_config where
  "tiny_load = default_bench_config\<lparr>bc_concurrency := 1, bc_requests := 1, bc_warmup := 0\<rparr>"

lemma tiny_load_ok: "bench_config_ok tiny_load" "bc_requests tiny_load + bc_concurrency tiny_load < 2 ^ 31"
  by (simp_all add: tiny_load_def bench_config_ok_def default_bench_config_def)

text \<open>
  The runs of the load generator end. For every gateway and however the workers are interleaved, an HTTP run has at
  most three actions for each worker and eight for each request, a WebSocket run four and
  eight, and both can be completed.
\<close>

theorem bench_runs_end:
  assumes "bench_config_ok cfg" and "bc_requests cfg + bc_concurrency cfg < 2 ^ 31"
  shows "((interleave (http_worker_step be cfg) ^^ n) (http_workers cfg, bench_start cfg w) c \<longrightarrow>
      int n \<le> 3 * bc_concurrency cfg + 8 * bc_requests cfg) \<and>
    ((interleave (ws_worker_step be cfg) ^^ n) (ws_workers cfg, bench_start cfg w) c' \<longrightarrow>
      int n \<le> 4 * bc_concurrency cfg + 8 * bc_requests cfg) \<and>
    (\<exists>r. RunHttpBench be rnd cfg do_warmup w r) \<and> (\<exists>r. RunWsBench be rnd cfg do_warmup w r)"
proof -
  note hs = http_workers_start [OF assms] and ws = ws_workers_start [OF assms]
  have ok: "bench_accounts (bc_requests cfg) (http_workers cfg) (bench_counts (bench_start cfg w1))"
    "bench_accounts (bc_requests cfg) (map snd (ws_workers cfg)) (bench_counts (bench_start cfg w1))" for w1
    using http_loop.run_accounts(4) [OF rtranclp.rtrancl_refl hs(1) _ bench_counts_start hs(3,2), simplified]
      ws_loop.run_accounts(4) [OF rtranclp.rtrancl_refl ws(1) _ bench_counts_start hs(3) ws(2), simplified]
    by simp_all
  have hsum: "sum_list (map http_work (http_workers cfg)) = 3 * nat (bc_concurrency cfg)"
    by (simp add: http_workers_def sum_list_replicate)
  have wsum: "sum_list (map (\<lambda>t. ws_work (snd t)) (ws_workers cfg)) = 4 * nat (bc_concurrency cfg)"
    by (simp add: ws_workers_def sum_list_triv comp_def)
  have "int n \<le> 3 * bc_concurrency cfg + 8 * bc_requests cfg"
    if "(interleave (http_worker_step be cfg) ^^ n) (http_workers cfg, bench_start cfg w) c"
    using http_runs.steps_bounded(1) [of n be cfg "http_workers cfg" "bench_start cfg w" "fst c" "snd c"] that ok(1) hsum hs(3,4)
    by (simp add: bench_start_def)
  moreover have "int n \<le> 4 * bc_concurrency cfg + 8 * bc_requests cfg"
    if "(interleave (ws_worker_step be cfg) ^^ n) (ws_workers cfg, bench_start cfg w) c'"
    using ws_runs.steps_bounded(1) [of n be cfg "ws_workers cfg" "bench_start cfg w" "fst c'" "snd c'"] that ok(2) wsum hs(3,4)
    by (simp add: bench_start_def)
  moreover have "\<exists>r. RunHttpBench be rnd cfg do_warmup w r"
    using http_runs.run_to_end [OF ok(1)] http_runs.ended by (metis http_run)
  moreover have "\<exists>r. RunWsBench be rnd cfg do_warmup w r"
    using ws_runs.run_to_end [OF ok(2)] ws_runs.ended by (metis ws_run)
  ultimately show ?thesis by blast
qed

theorem bench_runs_end_witness:
  "(\<exists>r. RunHttpBench refusing_gateway fixed20 tiny_load False 0 r) \<and>
   (\<exists>r. RunWsBench refusing_gateway fixed20 tiny_load False 0 r)"
  using bench_runs_end [OF tiny_load_ok, where be = refusing_gateway and rnd = fixed20 and do_warmup = False and w = 0] by blast

lemma tiny_http_run:
  "\<exists>stats latencies w'. RunHttpBench refusing_gateway fixed20 tiny_load False 0 (stats, latencies, w') \<and>
     bt_errors stats = 1 \<and> latencies = [5]"
proof -
  let ?step = "http_worker_step refusing_gateway tiny_load"
  let ?last = "solo ?step 6 Bw_claim (bench_start tiny_load 0)"
  have ts: "http_workers tiny_load = [Bw_claim]"
    by (simp add: http_workers_def tiny_load_def default_bench_config_def)
  have e: "fst ?last = Bw_end False" "bs_errors (snd ?last) = 1" "bs_latencies (snd ?last) = [5]"
    by code_simp+
  have run: "interleaved ?step (http_workers tiny_load, bench_start tiny_load 0) ([fst ?last], snd ?last)"
    using solo_interleaved [of 0 "[Bw_claim]" Bw_claim ?step "bench_start tiny_load 0" 6] by (simp only: ts) simp
  let ?stats = "bench_result fixed20 (bs_success (snd ?last)) (bs_errors (snd ?last)) (be_now refusing_gateway 0)
    (be_now refusing_gateway (bs_world (snd ?last))) (bs_latencies (snd ?last))"
  from http_run [where w = 0 and do_warmup = False and rnd = fixed20, OF _ run]
  have "RunHttpBench refusing_gateway fixed20 tiny_load False 0 (?stats, bs_latencies (snd ?last), bs_world (snd ?last))"
    by (simp add: e(1))
  moreover have "bt_errors ?stats = 1" by (simp add: bench_result_def Let_def e(2))
  ultimately show ?thesis using e(3) by metis
qed

theorem http_bench_accounts_witness:
  "\<exists>stats latencies w'. RunHttpBench refusing_gateway fixed20 tiny_load False 0 (stats, latencies, w') \<and>
     bt_errors stats = 1 \<and> bt_success stats + bt_errors stats = bc_requests tiny_load"
  using tiny_http_run http_bench_accounts [OF tiny_load_ok, of refusing_gateway _ "[]" _ fixed20 False 0] by metis

section \<open>A WebSocket load without a connection\<close>

lemma unconnected_run:
  assumes "interleaved (ws_worker_step be cfg) (ts, s) (ts', s')" and "\<And>k w. \<not> fst (be_connect be k w)"
    and "\<forall>t \<in> set ts. snd t \<in> {Bw_connect, Bw_fail False, Bw_end True}"
  shows "(\<forall>t \<in> set ts'. snd t \<in> {Bw_connect, Bw_fail False, Bw_end True}) \<and> bs_index s' = bs_index s \<and>
    bs_success s' = bs_success s \<and> bs_latencies s' = bs_latencies s"
  using assms(1)
proof (induction rule: rtranclp_induct2)
  case refl
  show ?case using assms(3) by simp
next
  case (step ts1 s1 ts2 s2)
  from step.hyps(2) obtain i t' where i: "ts2 = ts1[i := t']" "i < length ts1" "ws_worker_step be cfg (ts1 ! i) s1 = Some (t', s2)"
    by (auto elim: interleaveE)
  obtain k u where u: "ts1 ! i = (k, u)" by (cases "ts1 ! i")
  have "u \<in> {Bw_connect, Bw_fail False, Bw_end True}" using step.IH i(2) u by (metis nth_mem snd_conv)
  then have "snd t' \<in> {Bw_connect, Bw_fail False, Bw_end True} \<and> bs_index s2 = bs_index s1 \<and>
      bs_success s2 = bs_success s1 \<and> bs_latencies s2 = bs_latencies s1"
    using i(3) assms(2) [of k "bs_world s1"] by (auto simp: u count_result_def split: prod.splits if_splits)
  then show ?case
    using step.IH set_update_subset_insert [of ts1 i t'] by (auto simp: i(1))
qed

text \<open>
  A WebSocket load that cannot connect reports neither its requests nor its failure to send them. If every
  connection fails, then for any load and interleaving the run counts one error for each worker, whatever
  the number of requests, and the latency of each request, and the three percentiles, are zero.
\<close>

theorem ws_bench_unconnected:
  assumes "\<And>k w. \<not> fst (be_connect be k w)" and "bench_config_ok cfg" and "bc_requests cfg + bc_concurrency cfg < 2 ^ 31"
    and "RunWsBench be rnd cfg do_warmup w (stats, latencies, w')" and "binary_rounding rnd u e"
  shows "bt_success stats = 0 \<and> bt_errors stats = bc_concurrency cfg \<and>
    latencies = replicate (nat (bc_requests cfg)) 0 \<and>
    bt_p50_us stats = 0 \<and> bt_p95_us stats = 0 \<and> bt_p99_us stats = 0"
  using assms(4)
proof cases
  case (ws_run w0 ts s)
  note start = ws_workers_start [OF assms(2,3)]
  have nonneg: "0 \<le> bc_requests cfg" "0 \<le> bc_concurrency cfg" using assms(2) by (simp_all add: bench_config_ok_def)
  have places: "\<forall>t \<in> set (ws_workers cfg). snd t \<in> {Bw_connect, Bw_fail False, Bw_end True}" using start(1) by blast
  note u = unconnected_run [OF ws_run(5) assms(1) places]
  have ended: "snd t = Bw_end True" if "t \<in> set ts" for t
    using u ws_run(6) that by (cases t) (fastforce split: prod.splits)
  note a = ws_loop.run_accounts(1) [OF ws_run(5) start(1) _ bench_counts_start nonneg(1) start(2), simplified]
  have "map snd ts = replicate (length ts) (Bw_end True)" using ended by (simp add: map_replicate_const [symmetric] cong: map_cong)
  moreover have "int (length ts) = bc_concurrency cfg"
    using interleaved_length [OF ws_run(5)] start(3) nonneg by simp
  ultimately have "bs_errors s = bc_concurrency cfg"
    using a u by (simp add: bench_accounts_def waiting_def bench_start_def)
  moreover have lat: "bs_latencies s = replicate (nat (bc_requests cfg)) 0" using u by (simp add: bench_start_def)
  moreover have "Percentile rnd (bs_latencies s) pct = 0" for pct
    using percentile_index_less [OF assms(5), of "nat (bc_requests cfg)" pct] assms(2)
    by (auto simp: Percentile_def percentile_index_def lat bench_config_ok_def sort_replicate)
  ultimately show ?thesis using u ws_run(1,2) by (simp add: bench_result_def Let_def bench_start_def)
qed

theorem ws_bench_unconnected_witness:
  "\<exists>stats latencies w'. RunWsBench refusing_gateway fixed20 tiny_load False 0 (stats, latencies, w') \<and>
     bt_errors stats = 1 \<and> latencies = [0]"
proof -
  let ?step = "ws_worker_step refusing_gateway tiny_load"
  let ?last = "solo ?step 2 (0, Bw_connect) (bench_start tiny_load 0)"
  have ts: "ws_workers tiny_load = [(0, Bw_connect)]"
    by (simp add: ws_workers_def tiny_load_def default_bench_config_def)
  have e: "?step (fst ?last) (snd ?last) = None" by code_simp
  have "interleaved ?step (ws_workers tiny_load, bench_start tiny_load 0) ([fst ?last], snd ?last)"
    using solo_interleaved [of 0 "[(0, Bw_connect)]" "(0, Bw_connect)" ?step "bench_start tiny_load 0" 2] by (simp only: ts) simp
  from ws_run [where w = 0 and do_warmup = False and rnd = fixed20, OF _ this] obtain stats latencies w' where
    run: "RunWsBench refusing_gateway fixed20 tiny_load False 0 (stats, latencies, w')"
    using e by (metis empty_iff empty_set set_ConsD)
  have "\<not> fst (be_connect refusing_gateway k w)" for k w by (simp add: refusing_gateway_def)
  from ws_bench_unconnected [OF this tiny_load_ok run fixed20_rounding] run show ?thesis
    by (auto simp: tiny_load_def default_bench_config_def)
qed

end
