(* ===== verification/Bench_Mixed.thy ===== *)
theory Bench_Mixed
  imports Bench_Workers
begin

text \<open>
  A mixed load of \<open>bench/gateway_http_ws_bench.cpp\<close>: \<open>RunMixedBench\<close>, whose two threads run an HTTP and a
  WebSocket load at the same time against the same gateway, and what \<open>main\<close> does with a load.
\<close>

section \<open>One of the two threads\<close>

text \<open>
  A part of the load: not begun, running since a time, or over, with no result where it had nothing to do. Its
  workers act on the world as the other part has left it.
\<close>

datatype ('p, 'w) bench_part =
    Bp_idle
  | Bp_running int "'p list" "'w bench_shared"
  | Bp_over "(bench_stats \<times> 64 word list) option"

inductive part_step :: "(rat \<Rightarrow> rat) \<Rightarrow> ('w \<Rightarrow> int) \<Rightarrow> ('p \<Rightarrow> 'w bench_shared \<Rightarrow> ('p \<times> 'w bench_shared) option) \<Rightarrow>
    'p list \<Rightarrow> bench_config \<Rightarrow> ('p, 'w) bench_part \<times> 'w \<Rightarrow> ('p, 'w) bench_part \<times> 'w \<Rightarrow> bool"
  for rnd :: "rat \<Rightarrow> rat" and now :: "'w \<Rightarrow> int" and step :: "'p \<Rightarrow> 'w bench_shared \<Rightarrow> ('p \<times> 'w bench_shared) option"
    and workers :: "'p list" and cfg :: bench_config where
  part_skipped: "\<not> part_runs cfg \<Longrightarrow> part_step rnd now step workers cfg (Bp_idle, w) (Bp_over None, w)"
| part_begun: "part_runs cfg \<Longrightarrow>
    part_step rnd now step workers cfg (Bp_idle, w) (Bp_running (now w) workers (bench_start cfg w), w)"
| part_acts: "interleave step (ts, s\<lparr>bs_world := w\<rparr>) (ts', s') \<Longrightarrow>
    part_step rnd now step workers cfg (Bp_running start ts s, w) (Bp_running start ts' s', bs_world s')"
| part_joined: "\<forall>t \<in> set ts. step t (s\<lparr>bs_world := w\<rparr>) = None \<Longrightarrow>
    part_step rnd now step workers cfg (Bp_running start ts s, w)
      (Bp_over (Some (bench_result rnd (bs_success s) (bs_errors s) start (now w) (bs_latencies s), bs_latencies s)), w)"

section \<open>Both\<close>

inductive mixed_step :: "('j, 'w) bench_env \<Rightarrow> (rat \<Rightarrow> rat) \<Rightarrow> bench_config \<Rightarrow> bench_config \<Rightarrow>
    (bench_worker, 'w) bench_part \<times> (nat \<times> bench_worker, 'w) bench_part \<times> 'w \<Rightarrow>
    (bench_worker, 'w) bench_part \<times> (nat \<times> bench_worker, 'w) bench_part \<times> 'w \<Rightarrow> bool"
  for be :: "('j, 'w) bench_env" and rnd :: "rat \<Rightarrow> rat" and http_cfg ws_cfg :: bench_config where
  http_thread: "part_step rnd (be_now be) (http_worker_step be http_cfg) (http_workers http_cfg) http_cfg (h, w) (h', w') \<Longrightarrow>
    mixed_step be rnd http_cfg ws_cfg (h, q, w) (h', q, w')"
| ws_thread: "part_step rnd (be_now be) (ws_worker_step be ws_cfg) (ws_workers ws_cfg) ws_cfg (q, w) (q', w') \<Longrightarrow>
    mixed_step be rnd http_cfg ws_cfg (h, q, w) (h, q', w')"

inductive_cases mixed_stepE: "mixed_step be rnd hc wc (h, q, w) c"

definition mixed_warm_world :: "('j, 'w) bench_env \<Rightarrow> (rat \<Rightarrow> rat) \<Rightarrow> int \<Rightarrow> bench_config \<Rightarrow> 'w \<Rightarrow> 'w" where
  "mixed_warm_world be rnd llround_nan cfg w =
     (let (http_warmup, ws_warmup) = mixed_warmup rnd llround_nan cfg;
          w1 = (if http_warmup > 0 then WarmupHttp be (nat http_warmup) w else w)
      in if ws_warmup > 0 then WarmupWs be cfg (nat (bc_concurrency cfg)) (nat ws_warmup) w1 else w1)"

inductive RunMixedBench :: "('j, 'w) bench_env \<Rightarrow> (rat \<Rightarrow> rat) \<Rightarrow> int \<Rightarrow> bench_config \<Rightarrow> 'w \<Rightarrow>
    mixed_bench_stats \<times> 'w \<Rightarrow> bool" for be rnd llround_nan cfg w where
  mixed_run: "mixed_split rnd llround_nan cfg = (http_cfg, ws_cfg) \<Longrightarrow> w0 = mixed_warm_world be rnd llround_nan cfg w \<Longrightarrow>
    (mixed_step be rnd http_cfg ws_cfg)\<^sup>*\<^sup>* (Bp_idle, Bp_idle, w0) (Bp_over http, Bp_over ws, w') \<Longrightarrow>
    RunMixedBench be rnd llround_nan cfg w (mixed_result rnd http ws (be_now be w0) (be_now be w'), w')"

section \<open>What \<open>main\<close> does with a load\<close>

text \<open>
  The document of the load that the options ask for, from the gateway that \<open>main\<close> has started
  (\<open>w\<close> is the world after the 100 ms it waits for it).
\<close>

inductive bench_load :: "('j, 'w) bench_env \<Rightarrow> (rat \<Rightarrow> 'j) \<Rightarrow> 'j \<Rightarrow> (rat \<Rightarrow> rat) \<Rightarrow> int \<Rightarrow> bench_config \<Rightarrow> 'w \<Rightarrow> 'j \<Rightarrow> bool"
  for be number null rnd llround_nan cfg w where
  http_load: "bc_mode cfg = ''http'' \<Longrightarrow> RunHttpBench be rnd cfg True w (stats, latencies, w') \<Longrightarrow>
    bench_load be number null rnd llround_nan cfg w (load_document (be_json be) number cfg stats)"
| ws_load: "bc_mode cfg = ''ws'' \<Longrightarrow> RunWsBench be rnd cfg True w (stats, latencies, w') \<Longrightarrow>
    bench_load be number null rnd llround_nan cfg w (load_document (be_json be) number cfg stats)"
| mixed_load: "bc_mode cfg \<noteq> ''http'' \<Longrightarrow> bc_mode cfg \<noteq> ''ws'' \<Longrightarrow> RunMixedBench be rnd llround_nan cfg w (m, w') \<Longrightarrow>
    bench_load be number null rnd llround_nan cfg w (mixed_document (be_json be) number null rnd llround_nan cfg m)"

text \<open>
  What a run of \<open>main\<close> leaves: what it returns (or throws), its output on \<open>cout\<close> and \<open>cerr\<close>, and the text
  it wrote to the output file. The embedded server starts or does not, the file opens or does not;
  \<open>dump\<close> is \<open>dump(2)\<close> of a document without invalid text.
\<close>

record bench_exit =
  bx_code :: "exn + int"
  bx_cout :: string
  bx_cerr :: string
  bx_file :: "(string \<times> string) option"

inductive bench_main_run :: "('j, 'w) bench_env \<Rightarrow> (rat \<Rightarrow> 'j) \<Rightarrow> 'j \<Rightarrow> ('j \<Rightarrow> string) \<Rightarrow> (rat \<Rightarrow> rat) \<Rightarrow> int \<Rightarrow>
    string list \<Rightarrow> bool \<Rightarrow> (string \<Rightarrow> bool) \<Rightarrow> 'w \<Rightarrow> bench_exit \<Rightarrow> bool"
  for be number null dump rnd llround_nan args grpc_started opens w where
  main_stops: "bench_main rnd args grpc_started (\<lambda>f. True) = (code', err) \<Longrightarrow> code' \<noteq> Inr 0 \<Longrightarrow>
    bench_main_run be number null dump rnd llround_nan args grpc_started opens w
      \<lparr>bx_code = code', bx_cout = [], bx_cerr = err, bx_file = None\<rparr>"
| main_measures: "bench_main rnd args grpc_started (\<lambda>f. True) = (Inr 0, err) \<Longrightarrow>
    bench_ParseArgs rnd args default_bench_config = (Inr True, cfg, err) \<Longrightarrow>
    bench_load be number null rnd llround_nan cfg w document \<Longrightarrow>
    bench_main rnd args grpc_started opens = (code', err') \<Longrightarrow>
    bench_main_run be number null dump rnd llround_nan args grpc_started opens w
      \<lparr>bx_code = code', bx_cout = (if code' = Inr 0 then dump document @ newline else []), bx_cerr = err',
       bx_file = (if code' = Inr 0 \<and> bc_output_file cfg \<noteq> [] then Some (bc_output_file cfg, dump document @ newline) else None)\<rparr>"

section \<open>A part alone and beside the other\<close>

text \<open>
  What the two kinds of workers have in common, as far as a part is concerned: their measure and what
  they keep do not depend on the world, which the other part may change between two actions.
\<close>

fun part_ok :: "('p list \<Rightarrow> 'w bench_shared \<Rightarrow> bool) \<Rightarrow> ('p, 'w) bench_part \<Rightarrow> bool" where
  "part_ok ok (Bp_running start ts s) = ok ts s"
| "part_ok ok _ = True"

fun part_work :: "('p \<Rightarrow> nat) \<Rightarrow> ('w bench_shared \<Rightarrow> nat) \<Rightarrow> nat \<Rightarrow> ('p, 'w) bench_part \<Rightarrow> nat" where
  "part_work work slack budget Bp_idle = budget + 2"
| "part_work work slack budget (Bp_running start ts s) = sum_list (map work ts) + slack s + 1"
| "part_work work slack budget (Bp_over r) = 0"

locale bench_group = thread_work step work slack ok
  for step :: "'p \<Rightarrow> 'w bench_shared \<Rightarrow> ('p \<times> 'w bench_shared) option" and work :: "'p \<Rightarrow> nat"
    and slack :: "'w bench_shared \<Rightarrow> nat" and ok :: "'p list \<Rightarrow> 'w bench_shared \<Rightarrow> bool" +
  fixes workers :: "'p list" and cfg :: bench_config and budget :: nat
  assumes ok_world: "ok ts s \<Longrightarrow> ok ts (s\<lparr>bs_world := w\<rparr>)"
    and slack_world: "slack (s\<lparr>bs_world := w\<rparr>) = slack s"
    and ok_start: "part_runs cfg \<Longrightarrow> bc_requests cfg + bc_concurrency cfg < 2 ^ 31 \<Longrightarrow> ok workers (bench_start cfg w)"
    and work_start: "sum_list (map work workers) + slack (bench_start cfg w) \<le> budget"
begin

lemma part_progress:
  assumes "part_step rnd now step workers cfg (p, w) (p', w')" and "part_ok ok p"
    and bound: "bc_requests cfg + bc_concurrency cfg < 2 ^ 31"
  shows "part_ok ok p'" and "part_work work slack budget p' < part_work work slack budget p"
proof -
  have "part_ok ok p' \<and> part_work work slack budget p' < part_work work slack budget p"
    using assms(1)
  proof cases
    case part_begun
    then show ?thesis using ok_start [OF _ bound] work_start [of w] by (simp add: le_imp_less_Suc)
  next
    case (part_acts ts s ts' s' start)
    have "ok ts (s\<lparr>bs_world := w\<rparr>)" using assms(2) part_acts(1) by (simp add: ok_world)
    then show ?thesis using sum_less [OF part_acts(4)] part_acts(1,2) by (simp add: slack_world)
  qed simp_all
  then show "part_ok ok p'" and "part_work work slack budget p' < part_work work slack budget p" by simp_all
qed

lemma part_busy:
  assumes "0 < part_work work slack budget p"
  shows "\<exists>p' w'. part_step rnd now step workers cfg (p, w) (p', w')"
proof (cases p)
  case Bp_idle
  then show ?thesis by (cases "part_runs cfg") (blast intro: part_skipped part_begun)+
next
  case (Bp_running start ts s)
  show ?thesis
  proof (cases "\<exists>c. interleave step (ts, s\<lparr>bs_world := w\<rparr>) c")
    case True
    then show ?thesis unfolding Bp_running by (metis part_acts surj_pair)
  next
    case False
    then have "\<forall>t \<in> set ts. work t = 0" using stuck_iff_done by blast
    then show ?thesis unfolding Bp_running using ended by (blast intro: part_joined)
  qed
qed (use assms in simp)

end

text \<open>What each kind keeps.\<close>

definition http_group_ok :: "bench_config \<Rightarrow> bench_worker list \<Rightarrow> 'w bench_shared \<Rightarrow> bool" where
  "http_group_ok cfg ts s \<longleftrightarrow>
     bench_accounts (bc_requests cfg) ts (bench_counts s) \<and> ts \<noteq> [] \<and>
     (\<forall>t \<in> set ts. http_place t \<and> (http_gone t \<longrightarrow> bc_requests cfg \<le> bs_index s)) \<and>
     int (length (bs_latencies s)) = bc_requests cfg"

definition ws_group_ok :: "bench_config \<Rightarrow> (nat \<times> bench_worker) list \<Rightarrow> 'w bench_shared \<Rightarrow> bool" where
  "ws_group_ok cfg ts s \<longleftrightarrow>
     bench_accounts (bc_requests cfg) (map snd ts) (bench_counts s) \<and> int (length ts) = bc_concurrency cfg \<and>
     int (length (bs_latencies s)) = bc_requests cfg"

lemma bench_move_gone:
  "bench_move gone requests t (i, n, e) t' (i', n', e') \<Longrightarrow> i \<le> i' \<Longrightarrow> gone t' \<Longrightarrow> gone t \<or> requests \<le> i'"
  by (erule bench_move.cases) auto

lemma http_group_step:
  assumes ok: "http_group_ok cfg ts s" and i: "i < length ts" and m: "http_worker_step be cfg (ts ! i) s = Some (t', s')"
  shows "http_group_ok cfg (ts[i := t']) s'"
proof -
  have a: "bench_accounts (bc_requests cfg) ts (bench_counts s)" using ok by (simp add: http_group_ok_def)
  note mv = http_worker_moves [OF m]
  note acc = bench_accounts_move [OF a i mv]
  then have le: "bs_index s \<le> bs_index s'" by simp
  have "http_gone t' \<longrightarrow> bc_requests cfg \<le> bs_index s'"
    using bench_move_gone [OF mv le] ok i le by (fastforce simp: http_group_ok_def)
  then show ?thesis
    using acc ok le http_place_step [OF m] latencies_length_step [OF m] set_update_subset_insert [of ts i t']
    by (fastforce simp: http_group_ok_def)
qed

lemma ws_latencies_length:
  "ws_worker_step be cfg t s = Some (t', s') \<Longrightarrow> length (bs_latencies s') = length (bs_latencies s)"
  by (cases t; cases "snd t")
    (auto simp: claim_id_def count_result_def note_latency_def Let_def split: if_splits prod.splits sum.splits option.splits)

lemma ws_group_step:
  assumes ok: "ws_group_ok cfg ts s" and i: "i < length ts" and m: "ws_worker_step be cfg (ts ! i) s = Some (t', s')"
  shows "ws_group_ok cfg (ts[i := t']) s'"
  using ok ws_loop.slack_step(2) [OF _ i m] ws_latencies_length [OF m] by (simp add: ws_group_ok_def)

interpretation http_group: bench_group "http_worker_step be cfg" http_work "\<lambda>s. 8 * nat (bc_requests cfg - bs_index s)"
  "http_group_ok cfg" "http_workers cfg" cfg "3 * nat (bc_concurrency cfg) + 8 * nat (bc_requests cfg)" for be cfg
proof unfold_locales
  fix ts i t' and s s' :: "'b bench_shared"
  assume r: "http_group_ok cfg ts s" and i: "i < length ts" and m: "http_worker_step be cfg (ts ! i) s = Some (t', s')"
  then show "http_work t' + 8 * nat (bc_requests cfg - bs_index s') < http_work (ts ! i) + 8 * nat (bc_requests cfg - bs_index s)"
    by (intro http_runs.progress) (simp_all add: http_group_ok_def)
  show "http_group_ok cfg (ts[i := t']) s'" by (rule http_group_step [OF r i m])
next
  fix w :: 'b
  assume "part_runs cfg" and "bc_requests cfg + bc_concurrency cfg < 2 ^ 31"
  then show "http_group_ok cfg (http_workers cfg) (bench_start cfg w)"
    by (auto simp: http_group_ok_def part_runs_def http_workers_def bench_accounts_def bench_start_def waiting_def)
qed (use http_runs.busy http_runs.ended in \<open>simp_all add: http_group_ok_def bench_start_def http_workers_def sum_list_replicate\<close>)

interpretation ws_group: bench_group "ws_worker_step be cfg" "\<lambda>t. ws_work (snd t)" "\<lambda>s. 8 * nat (bc_requests cfg - bs_index s)"
  "ws_group_ok cfg" "ws_workers cfg" cfg "4 * nat (bc_concurrency cfg) + 8 * nat (bc_requests cfg)" for be cfg
proof unfold_locales
  fix ts i t' and s s' :: "'b bench_shared"
  assume r: "ws_group_ok cfg ts s" and i: "i < length ts" and m: "ws_worker_step be cfg (ts ! i) s = Some (t', s')"
  then show "ws_work (snd t') + 8 * nat (bc_requests cfg - bs_index s') < ws_work (snd (ts ! i)) + 8 * nat (bc_requests cfg - bs_index s)"
    by (intro ws_runs.progress) (simp_all add: ws_group_ok_def)
  show "ws_group_ok cfg (ts[i := t']) s'" by (rule ws_group_step [OF r i m])
next
  fix w :: 'b
  assume "part_runs cfg" and "bc_requests cfg + bc_concurrency cfg < 2 ^ 31"
  then show "ws_group_ok cfg (ws_workers cfg) (bench_start cfg w)"
    by (auto simp: ws_group_ok_def part_runs_def ws_workers_def bench_accounts_def bench_start_def waiting_def comp_def
        map_replicate_const)
qed (use ws_runs.busy ws_runs.ended in \<open>simp_all add: ws_group_ok_def bench_start_def ws_workers_def sum_list_triv comp_def\<close>)

section \<open>The accounts of a mixed load\<close>

text \<open>
  A part with its result: \<open>fine n e\<close> is what the two counters of a part that has run satisfy.
\<close>

definition part_fine :: "('p list \<Rightarrow> 'w bench_shared \<Rightarrow> bool) \<Rightarrow> (int \<Rightarrow> int \<Rightarrow> bool) \<Rightarrow> bench_config \<Rightarrow> ('p, 'w) bench_part \<Rightarrow> bool" where
  "part_fine ok fine cfg p \<longleftrightarrow> part_ok ok p \<and>
     (case p of
        Bp_idle \<Rightarrow> True
      | Bp_running start ts s \<Rightarrow> part_runs cfg
      | Bp_over None \<Rightarrow> \<not> part_runs cfg
      | Bp_over (Some (stats, latencies)) \<Rightarrow> part_runs cfg \<and> fine (bt_success stats) (bt_errors stats))"

context bench_group
begin

lemma part_fine_step:
  assumes "part_step rnd now step workers cfg (p, w) (p', w')" and "part_fine ok fine cfg p"
    and bound: "bc_requests cfg + bc_concurrency cfg < 2 ^ 31"
    and outcome: "\<And>ts s. ok ts s \<Longrightarrow> \<forall>t \<in> set ts. work t = 0 \<Longrightarrow> fine (bs_success s) (bs_errors s)"
  shows "part_fine ok fine cfg p'"
proof -
  have o: "part_ok ok p'" using part_progress(1) [OF assms(1) _ bound] assms(2) by (simp add: part_fine_def)
  show ?thesis
    using assms(1)
  proof cases
    case (part_joined ts s start)
    have "ok ts s" and "part_runs cfg" using assms(2) by (simp_all add: part_fine_def part_joined(1))
    moreover have "\<forall>t \<in> set ts. work t = 0" using part_joined(4) busy by blast
    ultimately show ?thesis using outcome by (simp add: part_fine_def part_joined(2) bench_result_def Let_def)
  qed (use o assms(2) in \<open>simp_all add: part_fine_def\<close>)
qed

end

definition http_fine :: "bench_config \<Rightarrow> int \<Rightarrow> int \<Rightarrow> bool" where
  "http_fine cfg n e \<longleftrightarrow> n + e = bc_requests cfg \<and> 0 \<le> n \<and> 0 \<le> e"

definition ws_fine :: "bench_config \<Rightarrow> int \<Rightarrow> int \<Rightarrow> bool" where
  "ws_fine cfg n e \<longleftrightarrow> n + e \<le> bc_requests cfg + bc_concurrency cfg \<and> 0 \<le> n \<and> 0 \<le> e"

lemma http_group_done:
  assumes "http_group_ok cfg ts s" and "\<forall>t \<in> set ts. http_work t = 0"
  shows "http_fine cfg (bs_success s) (bs_errors s)"
proof -
  have e: "t = Bw_end False" if "t \<in> set ts" for t
    using assms that by (cases t) (auto simp: http_group_ok_def)
  then have "waiting owes ts = 0" "waiting stray_failure ts = 0" by (fastforce simp: waiting_def filter_empty_conv)+
  moreover have "bc_requests cfg \<le> bs_index s"
    using assms(1) e [of "hd ts"] by (auto simp: http_group_ok_def dest: hd_in_set)
  ultimately show ?thesis using assms(1) by (simp add: http_group_ok_def bench_accounts_def http_fine_def)
qed

lemma ws_group_done:
  assumes "ws_group_ok cfg ts s" and "\<forall>t \<in> set ts. ws_work (snd t) = 0"
  shows "ws_fine cfg (bs_success s) (bs_errors s)"
  using assms(1) waiting_le [of stray_failure "map snd ts"]
  by (auto simp: ws_group_ok_def bench_accounts_def ws_fine_def)

lemma mixed_keeps:
  assumes "(mixed_step be rnd hc wc)\<^sup>*\<^sup>* (h, q, w) (h', q', w')"
    and "bc_requests hc + bc_concurrency hc < 2 ^ 31" and "bc_requests wc + bc_concurrency wc < 2 ^ 31"
    and "part_fine (http_group_ok hc) (http_fine hc) hc h"
    and "part_fine (ws_group_ok wc) (ws_fine wc) wc q"
  shows "part_fine (http_group_ok hc) (http_fine hc) hc h' \<and>
    part_fine (ws_group_ok wc) (ws_fine wc) wc q'"
  using assms(1)
proof (induction "(h', q', w')" arbitrary: h' q' w' rule: rtranclp_induct)
  case base
  then show ?case using assms by simp
next
  case (step c)
  obtain h1 q1 w1 where c: "c = (h1, q1, w1)" by (cases c) auto
  note IH = step.hyps(3) [OF c]
  from step.hyps(2) [unfolded c] show ?case
  proof cases
    case http_thread
    then show ?thesis using IH http_group.part_fine_step [where fine = "http_fine hc", OF http_thread(2) _ assms(2)] http_group_done by blast
  next
    case ws_thread
    then show ?thesis using IH ws_group.part_fine_step [where fine = "ws_fine wc", OF ws_thread(2) _ assms(3)] ws_group_done by blast
  qed
qed

lemma mixed_ends:
  assumes "bc_requests hc + bc_concurrency hc < 2 ^ 31" and "bc_requests wc + bc_concurrency wc < 2 ^ 31"
    and "part_ok (http_group_ok hc) h" and "part_ok (ws_group_ok wc) q"
  shows "\<exists>r1 r2 w'. (mixed_step be rnd hc wc)\<^sup>*\<^sup>* (h, q, w) (Bp_over r1, Bp_over r2, w')"
  using assms(3,4)
proof (induction "part_work http_work (\<lambda>s. 8 * nat (bc_requests hc - bs_index s)) (3 * nat (bc_concurrency hc) + 8 * nat (bc_requests hc)) h +
    part_work (\<lambda>t. ws_work (snd t)) (\<lambda>s. 8 * nat (bc_requests wc - bs_index s)) (4 * nat (bc_concurrency wc) + 8 * nat (bc_requests wc)) q"
    arbitrary: h q w rule: less_induct)
  case less
  show ?case
  proof (cases "\<exists>r1 r2. h = Bp_over r1 \<and> q = Bp_over r2")
    case True
    then show ?thesis by blast
  next
    case False
    then consider "\<forall>r. h \<noteq> Bp_over r" | "\<forall>r. q \<noteq> Bp_over r" by blast
    then show ?thesis
    proof cases
      case 1
      then have "0 < part_work http_work (\<lambda>s. 8 * nat (bc_requests hc - bs_index s)) (3 * nat (bc_concurrency hc) + 8 * nat (bc_requests hc)) h"
        by (cases h) simp_all
      from http_group.part_busy [OF this] obtain h1 w1 where
        m: "part_step rnd (be_now be) (http_worker_step be hc) (http_workers hc) hc (h, w) (h1, w1)" by blast
      note p = http_group.part_progress [OF m less.prems(1) assms(1)]
      show ?thesis using less.hyps [of h1 q w1] p less.prems(2) http_thread [OF m] by (meson add_less_cancel_right converse_rtranclp_into_rtranclp)
    next
      case 2
      then have "0 < part_work (\<lambda>t. ws_work (snd t)) (\<lambda>s. 8 * nat (bc_requests wc - bs_index s)) (4 * nat (bc_concurrency wc) + 8 * nat (bc_requests wc)) q"
        by (cases q) simp_all
      from ws_group.part_busy [OF this] obtain q1 w1 where
        m: "part_step rnd (be_now be) (ws_worker_step be wc) (ws_workers wc) wc (q, w) (q1, w1)" by blast
      note p = ws_group.part_progress [OF m less.prems(2) assms(2)]
      show ?thesis using less.hyps [of h q1 w1] p less.prems(1) ws_thread [OF m] by (meson add_less_cancel_left converse_rtranclp_into_rtranclp)
    qed
  qed
qed

text \<open>
  C39: a mixed load ends and accounts for the requests of its HTTP part. Whatever the gateway and however the two
  parts and their workers are interleaved: a run can be completed; every run that returns has exactly one HTTP
  result for each HTTP request, unless that part has no worker, when none is sent and all its numbers are zero; and no more
  WebSocket results than requests and workers together, since a worker that fails counts an error of its own. The sums that
  \<open>main\<close> reports do not overflow.
\<close>

theorem mixed_bench_accounts:
  assumes "bench_config_ok cfg" and "bc_requests cfg + bc_concurrency cfg < 2 ^ 31"
  shows "(\<exists>m w'. RunMixedBench be rnd z cfg w (m, w')) \<and>
    (RunMixedBench be rnd z cfg w (m, w') \<longrightarrow>
      (let (http, ws) = mixed_split rnd z cfg; h = mx_http m; q = mx_ws m in
        (if part_runs http then bt_success h + bt_errors h = bc_requests http else h = no_stats) \<and>
        (if part_runs ws then bt_success q + bt_errors q \<le> bc_requests ws + bc_concurrency ws else q = no_stats) \<and>
        0 \<le> bt_success h \<and> 0 \<le> bt_errors h \<and> 0 \<le> bt_success q \<and> 0 \<le> bt_errors q \<and>
        to_int32 (bt_success h + bt_success q) = bt_success h + bt_success q \<and>
        to_int32 (bt_errors h + bt_errors q) = bt_errors h + bt_errors q))"
proof -
  obtain http ws where split: "mixed_split rnd z cfg = (http, ws)" by (cases "mixed_split rnd z cfg")
  have parts: "bc_requests http + bc_requests ws = bc_requests cfg" "0 \<le> bc_requests http" "0 \<le> bc_requests ws"
    "bc_concurrency http + bc_concurrency ws = bc_concurrency cfg" "0 \<le> bc_concurrency http" "0 \<le> bc_concurrency ws"
    using mixed_split_runs [OF assms(1), of rnd z] by (simp_all add: split Let_def split_beta)
  have bounds: "bc_requests http + bc_concurrency http < 2 ^ 31" "bc_requests ws + bc_concurrency ws < 2 ^ 31"
    using parts assms(2) by linarith+
  have "\<exists>m w'. RunMixedBench be rnd z cfg w (m, w')"
    using mixed_ends [OF bounds, of Bp_idle Bp_idle be rnd "mixed_warm_world be rnd z cfg w"] mixed_run [OF split refl, of be] by fastforce
  moreover have "(if part_runs http then bt_success (mx_http m) + bt_errors (mx_http m) = bc_requests http else mx_http m = no_stats) \<and>
        (if part_runs ws then bt_success (mx_ws m) + bt_errors (mx_ws m) \<le> bc_requests ws + bc_concurrency ws else mx_ws m = no_stats) \<and>
        0 \<le> bt_success (mx_http m) \<and> 0 \<le> bt_errors (mx_http m) \<and> 0 \<le> bt_success (mx_ws m) \<and> 0 \<le> bt_errors (mx_ws m) \<and>
        to_int32 (bt_success (mx_http m) + bt_success (mx_ws m)) = bt_success (mx_http m) + bt_success (mx_ws m) \<and>
        to_int32 (bt_errors (mx_http m) + bt_errors (mx_ws m)) = bt_errors (mx_http m) + bt_errors (mx_ws m)"
    if "RunMixedBench be rnd z cfg w (m, w')"
    using that
  proof cases
    case (mixed_run hc wc w0 r q)
    then have hc: "hc = http" "wc = ws" by (simp_all add: split)
    note mixed_keeps [OF mixed_run(4) [unfolded hc] bounds]
    then have acc: "(if part_runs http then bt_success (mx_http m) + bt_errors (mx_http m) = bc_requests http else mx_http m = no_stats) \<and>
        (if part_runs ws then bt_success (mx_ws m) + bt_errors (mx_ws m) \<le> bc_requests ws + bc_concurrency ws else mx_ws m = no_stats) \<and>
        0 \<le> bt_success (mx_http m) \<and> 0 \<le> bt_errors (mx_http m) \<and> 0 \<le> bt_success (mx_ws m) \<and> 0 \<le> bt_errors (mx_ws m)"
      unfolding mixed_run(1) mixed_result_def
      by (auto simp: part_fine_def Let_def no_stats_def http_fine_def ws_fine_def split: option.splits prod.splits)
    moreover have "bt_success (mx_http m) + bt_success (mx_ws m) \<le> bc_requests cfg + bc_concurrency cfg \<and>
        bt_errors (mx_http m) + bt_errors (mx_ws m) \<le> bc_requests cfg + bc_concurrency cfg"
      using acc parts by (auto simp: no_stats_def split: if_splits)
    then have "to_int32 (bt_success (mx_http m) + bt_success (mx_ws m)) = bt_success (mx_http m) + bt_success (mx_ws m) \<and>
        to_int32 (bt_errors (mx_http m) + bt_errors (mx_ws m)) = bt_errors (mx_http m) + bt_errors (mx_ws m)"
      using acc assms(2) by (intro conjI to_int32_id) simp_all
    ultimately show ?thesis by blast
  qed
  ultimately show ?thesis by (simp add: split Let_def)
qed

theorem mixed_bench_accounts_witness:
  "(\<exists>m w'. RunMixedBench refusing_gateway fixed20 0 (default_bench_config\<lparr>bc_concurrency := 2, bc_requests := 8\<rparr>) 0 (m, w') \<and>
      bt_success (mx_http m) + bt_errors (mx_http m) = 4) \<and>
   (\<exists>m w'. RunMixedBench refusing_gateway fixed20 0 (default_bench_config\<lparr>bc_concurrency := 1, bc_requests := 8\<rparr>) 0 (m, w') \<and>
      mx_http m = no_stats)"
proof -
  let ?two = "default_bench_config\<lparr>bc_concurrency := 2, bc_requests := 8\<rparr>"
  let ?one = "default_bench_config\<lparr>bc_concurrency := 1, bc_requests := 8\<rparr>"
  have ok: "bench_config_ok ?two" "bench_config_ok ?one" "bc_requests ?two + bc_concurrency ?two < 2 ^ 31"
    "bc_requests ?one + bc_concurrency ?one < 2 ^ 31"
    by (simp_all add: bench_config_ok_def default_bench_config_def)
  have split: "part_runs (fst (mixed_split fixed20 0 ?two)) \<and> bc_requests (fst (mixed_split fixed20 0 ?two)) = 4"
    "\<not> part_runs (fst (mixed_split fixed20 0 ?one))"
    by code_simp+
  note two = mixed_bench_accounts [OF ok(1,3), of refusing_gateway fixed20 0 0]
    and one = mixed_bench_accounts [OF ok(2,4), of refusing_gateway fixed20 0 0]
  obtain m w' where m: "RunMixedBench refusing_gateway fixed20 0 ?two 0 (m, w')" using two by blast
  moreover have "bt_success (mx_http m) + bt_errors (mx_http m) = 4" using two [of m w'] m split by (simp add: split_beta Let_def)
  moreover obtain m1 w1 where m1: "RunMixedBench refusing_gateway fixed20 0 ?one 0 (m1, w1)" using one by blast
  moreover have "mx_http m1 = no_stats" using one [of m1 w1] m1 split by (simp add: split_beta Let_def)
  ultimately show ?thesis by blast
qed

end
