(* ===== verification/Telemetry.thy ===== *)
theory Telemetry
  imports Logger
begin

text \<open>
  \<open>infrastructure/observability/telemetry.cpp\<close>: a span writes a debug line when it begins and another when it ends.
  The tracer has no state of its own. Spans are owned by a \<open>unique_ptr\<close> of the block that starts them, so
  they nest as the blocks do.
\<close>

record span =
  span_name :: string

definition Span :: "(string \<Rightarrow> bool) \<Rightarrow> string \<Rightarrow> log_process \<times> (log_level \<times> string) list \<Rightarrow>
    span \<times> log_process \<times> (log_level \<times> string) list" where
  "Span mkdir_ok name st = (\<lparr>span_name = name\<rparr>, log_line mkdir_ok Debug (''span start: '' @ name) st)"

definition Span_destroy :: "(string \<Rightarrow> bool) \<Rightarrow> span \<Rightarrow> log_process \<times> (log_level \<times> string) list \<Rightarrow>
    log_process \<times> (log_level \<times> string) list" where
  "Span_destroy mkdir_ok s st = log_line mkdir_ok Debug (''span end: '' @ span_name s) st"

definition StartSpan :: "(string \<Rightarrow> bool) \<Rightarrow> string \<Rightarrow> log_process \<times> (log_level \<times> string) list \<Rightarrow>
    span \<times> log_process \<times> (log_level \<times> string) list" where
  "StartSpan mkdir_ok name st = Span mkdir_ok name st"

text \<open>Blocks that each start a span, run the blocks within and let the span go.\<close>

datatype block = Block string "block list"

fun run_block :: "(string \<Rightarrow> bool) \<Rightarrow> block \<Rightarrow> log_process \<times> (log_level \<times> string) list \<Rightarrow>
    log_process \<times> (log_level \<times> string) list" where
  "run_block ok (Block name bs) st =
     (let (s, st1) = StartSpan ok name st; st2 = fold (run_block ok) bs st1 in Span_destroy ok s st2)"

fun block_lines :: "block \<Rightarrow> (log_level \<times> string) list" where
  "block_lines (Block name bs) =
     (Debug, ''span start: '' @ name) # concat (map block_lines bs) @ [(Debug, ''span end: '' @ name)]"

lemma log_line_ready:
  assumes "g_default_logger p = Some lg"
  shows "log_line ok lvl message (p, out) =
    (p, if severity (lg_level lg) \<le> severity lvl then out @ [(lvl, message)] else out)"
  using assms by (simp add: log_line_def Raw_def)

text \<open>
  With a logger in place the lines of the spans are bracketed as the blocks are when its level is debug or
  lower, and there are none otherwise; the logger stays as it is.
\<close>

theorem spans_nest:
  assumes "g_default_logger p = Some lg"
  shows "run_block ok b (p, out) = (p, if severity (lg_level lg) \<le> 1 then out @ block_lines b else out)"
proof (induction b arbitrary: out)
  case (Block name bs)
  have "fold (run_block ok) bs (p, out) =
      (p, if severity (lg_level lg) \<le> 1 then out @ concat (map block_lines bs) else out)" for out
    using Block.IH
  proof (induction bs arbitrary: out)
    case (Cons b bs)
    show ?case using Cons.IH [OF Cons.prems] Cons.prems [of b] by simp
  qed simp
  then show ?case
    by (simp add: StartSpan_def Span_def Span_destroy_def log_line_ready [OF assms])
qed

end
