(* ===== verification/Spec2Isabelle.thy ===== *)
theory Spec2Isabelle
  imports Governance Rate_Limiter Request_Context Redis_Client Mysql_Pool Message_Queue Etcd_Coordination
    User_Service Config_Service Game_Service Auth_Middleware Http_Server Config_Loader Application Grpc_Cli
    Config_Threads User_Threads Game_Threads Resilience_Threads Live_Gateway Bus_Threads Bench_Mixed Telemetry
begin

text \<open>
  kd39: a gateway that takes HTTP and WebSocket requests and turns them into gRPC calls, three
  services (configuration, users, games), and the framework and infrastructure libraries they share.

  \<^bold>\<open>The parts and how they meet.\<close> A request enters \<open>HttpServer::HandleSession\<close> (\<open>gateways/access_gateway/http\<close>),
  is authenticated by \<open>AuthMiddleware::Authenticate\<close> (\<open>auth\<close>), and is handed to
  \<open>GrpcRouter::RouteWithStatusAsync\<close> (\<open>routing\<close>), which resolves a target through etcd, asks a rate
  limiter and a circuit breaker (\<open>framework/governance\<close>), calls the service with retries and turns the
  gRPC status back into HTTP. A service answers from a Redis cache, a MySQL table or its own memory
  (\<open>infrastructure/storage\<close>), and the configuration service announces what it publishes over etcd and
  the message queue. Each process reads a configuration file, starts a logger and runs until a signal.

  \<^bold>\<open>Theories and code.\<close>

  \<^item> \<open>Kd39_Prelude\<close>: exceptions as values (\<open>exn + 'a\<close>), 64-bit time, the standard containers.
    \<open>Std_Text\<close>: \<open>std::tolower\<close>, \<open>std::to_string\<close>, \<open>std::stoi\<close> and \<open>std::stoll\<close>.
    \<open>External_Apis\<close>: nlohmann::json and gRPC statuses, libraries that are not part of the sources: the
    JSON library is an argument \<open>J\<close> with the laws \<open>json_laws\<close>, which \<open>sample_json\<close> satisfies.
  \<^item> \<open>Store_Interfaces\<close>: the locales of a cache with expiry and of a stream. \<open>Redis_Client\<close> and
    \<open>Message_Queue\<close> interpret them on the code's operations, and the services' proofs use them.
  \<^item> \<open>Governance\<close> (circuit breaker, retry policy, traffic router), \<open>Rate_Limiter\<close> (token bucket on
    doubles), \<open>Request_Context\<close> (error codes, the thread's context, the rpc interceptors), \<open>Application\<close>
    (the process skeleton: signal, wait, shutdown hooks): \<open>common\<close> and \<open>framework\<close>.
    \<open>Config_Loader\<close>: \<open>common/config/app_config.cpp\<close>. \<open>Log_Sink\<close>, \<open>Logger\<close>: \<open>common/log/logger.cpp\<close>, the daily
    file sink and the logger.
  \<^item> \<open>Shared_State\<close> (the weak-pointer tables behind the backends), \<open>Redis_Client\<close>, \<open>Mysql_Pool\<close>,
    \<open>Message_Queue\<close>, \<open>Etcd_Coordination\<close>, \<open>Metrics\<close>, \<open>Telemetry\<close>: \<open>infrastructure\<close>.
  \<^item> \<open>User_Service\<close>, \<open>Config_Service\<close>, \<open>Game_Service\<close>: the RPC handlers of \<open>services\<close>.
  \<^item> \<open>Base64_Url\<close>, \<open>Auth_Middleware\<close>, \<open>Grpc_Router\<close>, \<open>Http_Server\<close>: \<open>gateways/access_gateway\<close>.
  \<^item> \<open>Grpc_Cli\<close>: \<open>tools/grpc_cli/main.cpp\<close>.
  \<^item> \<open>Threads\<close>: threads as sequences of atomic actions on a shared state, and the locales of their
    invariants, their counters and their termination. \<open>Config_Threads\<close>, \<open>User_Threads\<close>, \<open>Game_Threads\<close>: the
    handlers of the services taken apart into such actions, and their concurrent calls. \<open>Resilience_Threads\<close>: the
    same for the gateway's calls of one service, which share a rate limiter and a circuit breaker.
    \<open>Gateway_Threads\<close>: the same for whole requests and WebSocket messages on their way through the gateway, from
    the token to the answer; \<open>Gateway_Identities\<close>: their request numbers, users and contexts.
    \<open>Bus_Threads\<close>: the same for the message bus, its publishers, the worker of a consumer, and \<open>Start\<close> and \<open>Stop\<close>.
  \<^item> \<open>Gateway_Bench\<close>, \<open>Bench_Workers\<close>, \<open>Bench_Mixed\<close>: \<open>bench/gateway_http_ws_bench.cpp\<close>, the load generator, its
    options and statistics, its worker threads, and two loads at once. \<open>Std_Double\<close>: \<open>std::stod\<close>, \<open>std::llround\<close>, \<open>std::clamp\<close>.
  \<^item> \<open>Deployment\<close>: the four \<open>main\<close> functions, and the processes connected: \<open>net_env\<close> is a gRPC
    world in which a stub reaches the service listening at its address. \<open>Delivery\<close>: a request that finds the
    gateway in working order and the service willing is answered, for the three services at once (\<open>stub_getter\<close>).
    \<open>Journeys\<close> and this theory: what follows for a user, a room and a configuration entry.
  \<^item> \<open>Late_Answers\<close>: the same processes where calls take their time (\<open>timed_env\<close>), deadlines pass and the router tries
    again: how often a request is carried out, and what its HTTP status says of it. \<open>Live_Gateway\<close>: the concurrent
    requests of \<open>Gateway_Threads\<close> in front of these services, and what their answers say of the services' state.

  A class is a \<open>record\<close> of its fields and a method a function that takes the state and returns it
  changed, by the method's name (with a prefix where two classes share one: \<open>user_FromMysqlRow\<close>). In the
  theories of the services a call is one step. gRPC runs the calls of a service on several
  threads, and the code locks for parts of a call only: the theories of threads have a step for each
  operation on an atomic, each critical section and each call of a backend. A handler left alone
  computes the function of its service's theory (\<open>config_calls_alone\<close>, \<open>CreateUser_alone\<close>, \<open>JoinRoom_alone\<close>, \<open>Invoke_alone\<close>,
  \<open>http_alone\<close>, \<open>ws_alone\<close>, \<open>worker_pass_alone\<close>), and the
  properties of concurrent calls hold for every interleaving of every list of calls. A route of the
  gateway (\<open>RouteWithStatusAsync\<close>) is one step from its first to its last effect, with the waiting
  for gRPC and for the timer inside the world argument (\<open>grpc_env\<close>); in \<open>Resilience_Threads\<close> a coroutine gives way
  at every use of the limiter and the breaker, every call and every wait, and in \<open>Gateway_Threads\<close> a whole request
  does so too at the request counter, the runtime configuration, the resolver, the stub tables and each counter.

  \<^bold>\<open>What the lemmas show.\<close> In each theory first the operations, then one lemma for each operation and
  the invariant it keeps, then the properties over runs: reads return the last write whatever
  backend is there (\<open>redis_read_your_writes\<close>, \<open>user_service_refines_map\<close>, \<open>config_get_latest\<close>), the
  governance decisions against their specification on the history (\<open>breaker_refuses_iff\<close>,
  \<open>Run_first_success\<close>), also for concurrent calls (\<open>concurrent_rate_limit\<close>, \<open>open_breaker_shields\<close>,
  \<open>half_open_floods\<close>), that concurrent requests through the gateway all end, with an answer or what a library threw, and are counted and
  keep their numbers, users and contexts (\<open>concurrent_requests_counted\<close>, \<open>concurrent_requests_identified\<close>), what a
  WebSocket session answers (\<open>ws_session_replies\<close>), which tokens are accepted (\<open>authenticate_iff_signed\<close>) and
  what a request without one changes (\<open>unauthorized_no_effect\<close>), the agreement of the synchronous
  and asynchronous handlers (\<open>sync_async_agree\<close>), the round trips (\<open>base64url_roundtrip\<close>,
  \<open>context_crosses_call\<close>, \<open>config_file_roundtrip\<close>, \<open>cli_options_read\<close>), the life cycle of a process
  (\<open>shutdown_hooks_reversed\<close>), what concurrent calls can and cannot do to each other
  (\<open>concurrent_reads_published\<close>, \<open>concurrent_versions_distinct\<close>, \<open>older_publication_can_win\<close>, \<open>concurrent_create_found\<close>,
  \<open>concurrent_rooms\<close>) and that they all end (\<open>config_calls_end\<close>), that the bus loses and repeats nothing and
  its consumer can be stopped (\<open>concurrent_bus_delivery\<close>, \<open>consumer_stop_returns\<close>), where a log message goes
  (\<open>daily_sink_files\<close>), the accounts of the load generator
  (\<open>http_bench_accounts\<close>, \<open>ws_bench_unconnected\<close>, \<open>mixed_bench_accounts\<close>), and what two requests through a started gateway
  to a started service bring about (\<open>published_config_is_served\<close>, \<open>created_user_is_served\<close>, \<open>joined_room_is_served\<close>),
  how the HTTP status of a request bounds the number of its executions when answers are late
  (\<open>status_tells_executions\<close>, \<open>late_create_repeats\<close>, \<open>late_join_refused\<close>), and that what concurrent clients are told of
  users and rooms is true and stays true (\<open>concurrent_answers_hold\<close>; of configuration entries it need not, by
  \<open>older_publication_can_win\<close>).

  \<^bold>\<open>Arguments of the model.\<close> The JSON library; gRPC, as what a call comes to (\<open>grpc_env\<close>) and, for metadata, as what its transport
  delivers (\<open>transports_context\<close>: legal keys, printable ASCII without blanks at the ends, within the size limit); HMAC-SHA256; the rounding of doubles to 53 bits (a
  function with a relative error, \<open>binary_rounding\<close>); the local time of the host; the iteration orders of the hash maps (\<open>ord\<close>,
  \<open>scan_order\<close>); the clocks, as times passed in; what \<open>create_directories\<close>, \<open>bind\<close> and
  \<open>BuildAndStart\<close> answer; the contents of a configuration file, as lines.

  \<^bold>\<open>Bounds.\<close> Widths are the code's: versions, counters and the shared clocks are 64-bit words and
  wrap, ports 16-bit, sizes of the logger 64-bit. \<open>XRead\<close> and \<open>Pop\<close> return at most 32 messages (so that a pass of the worker has a bound), a
  target's limiter holds 1000 tokens and its breaker opens after 5 failures, as the sources set them.
  No model of the code has fuel: the loops are structural or end by a measure; the worker of a consumer is
  the list of its passes, and the loop of a worker thread a state machine whose runs are shown to be
  finite. (\<open>solo\<close> takes the number of a thread's actions: six are enough for any call of the configuration
  service, and the lemmas say how many for the others.) The counters of the load generator are ints;
  its properties assume that requests and workers together are fewer than \<open>2^31\<close>. How long a request can take depends on
  the attempts configured while it is on its way: \<open>concurrent_requests_counted\<close> and \<open>concurrent_answers_hold\<close> have a bound \<open>B\<close> for what the JSON
  library reads as an \<open>int\<close>, \<open>2^31 - 1\<close> in the code. The failure count of a breaker, an \<open>int\<close>, is unbounded here: it would take
  \<open>2^31\<close> failures without a success in between to overflow it.

  \<^bold>\<open>Scenarios.\<close> Two worlds are not what gRPC promises but cases the properties are stated for: in \<open>net_env\<close> and \<open>timed_env\<close> a call
  reaches the service at its address and is executed exactly once and at once, also where its answer comes after the
  deadline, and no transport fails after an execution. \<open>published_config_is_served\<close>, \<open>created_user_is_served\<close>, \<open>joined_room_is_served\<close>,
  \<open>status_tells_executions\<close>, \<open>late_join_refused\<close> and \<open>concurrent_answers_hold\<close> speak of these; the other properties of the gateway of any \<open>grpc_env\<close>.

  \<^bold>\<open>Not modelled.\<close> The
  generated protobuf and gRPC classes, whose messages are records here; the text of most log lines, spdlog's
  formatting and the writing and rotating of files (a message is followed to the rotating sink it is handed to); sockets and
  Beast's stream operations, of which \<open>HandleSession\<close> has the outcome of every read, handshake and write; the
  tests and the deployment files.
\<close>

section \<open>The whole system\<close>

lemma accepted_documents:
  assumes J: "json_laws J" and q: "publish_ok J q" "\<not> rejected q"
  obtains out out' where "json_dump J (json_object J [(''version'', json_int J (cversion (accepted q n)))]) = Inr out"
    "json_dump J (json_object J (entry_response J (accepted q n))) = Inr out'"
proof -
  have "entry_ok J (accepted q n)" by (rule accepted_ok [OF J q])
  then have flat: "flat_document J (entry_document J (accepted q n))" and v: "int64_range (cversion (accepted q n))"
    using entry_flat [OF J] by (simp_all add: entry_ok_def)
  show ?thesis
    using that json_laws_document [OF J version_flat [OF J v]] json_laws_document [OF J flat] unfolding entry_response_document by metis
qed

text \<open>
  C3: An entry of the environment dev that is published through the gateway can be retrieved through it. Take a gateway that its
  \<open>main\<close> function has just started, in front of a configuration service as its \<open>main\<close> function starts it, the gateway's target being the
  service's address, with calls that are answered promptly (within 100 ms), and any history of publications and
  retrievals with plain names that the service has answered. An authorised
  \<open>/config/publish\<close> of a plain namespace and key (not empty, no bar and no colon, UTF-8) to no environment or to dev, as the
  first request of the gateway, followed by an authorised \<open>/config/get\<close> of the same, is answered with 200 both times: the first body holds the version that was
  next, the second the published value with that version, through token check, routing, resolver, rate
  limiter, breaker, call, table and cache.
\<close>

theorem published_config_is_served:
  fixes he :: "('j, deployment) http_env"
  assumes J: "json_laws (he_json he)" and env: "prompt (he_route he)"
    and started: "config_main mk sc True file = Inr (Serving p)"
      "gateway_main mk' hc now d (Listening bound) file' = Inr gp"
    and target: "LoadGatewayConfig file' = Inr cfg" "gc_config_service_target cfg = dp_config_at d" "now \<le> dp_time d"
    and before: "dp_config d = config_run (he_json he) reqs (sp_service p)"
      "\<forall>req \<in> set reqs. config_request_ok (he_json he) req"
    and token: "\<forall>g. gt_auth g = gt_auth (gp_gateway gp) \<longrightarrow> check_token he token g = Inr (Some c)"
    and publish: "parse_body (he_json he) body = Some jp"
      "config_publish_request (he_json he) jp =
         Inr (RpcPublishConfig \<lparr>namespace_name = ns, ckey = k, cvalue = v, cversion = 0, environment = env\<rparr>)"
      "env = [] \<or> env = ''dev''" "ns \<noteq> []" "k \<noteq> []" "plain_name ns" "plain_name k"
      "json_utf8 (he_json he) ns" "json_utf8 (he_json he) k" "json_utf8 (he_json he) v"
    and get: "parse_body (he_json he) body' = Some jg" "config_get_request (he_json he) jg = Inr (RpcGetConfig ns k)"
  shows "let (published, g1) = HandleRequestAsync he m ''/config/publish'' body token hs (gp_gateway gp);
             (got, g2) = HandleRequestAsync he m' ''/config/get'' body' token hs' g1;
             e = \<lparr>namespace_name = ns, ckey = k, cvalue = v,
                  cversion = sint (next_version (dp_config d)), environment = ''dev''\<rparr>
         in \<exists>out out'.
              json_dump (he_json he) (json_object (he_json he) [(''version'', json_int (he_json he) (cversion e))]) = Inr out \<and>
              published = Inr (json_response 200 out) \<and>
              json_dump (he_json he) (json_object (he_json he) (entry_response (he_json he) e)) = Inr out' \<and>
              got = Inr (json_response 200 out')"
proof -
  let ?J = "he_json he" and ?ge = "he_route he" and ?g = "gp_gateway gp"
  obtain ord latency u e where ge: "ge_grpc ?ge = net_env ?J (ge_scan ?ge) ord latency"
      "0 \<le> latency" "latency \<le> milliseconds 100" "scan_ok (ge_scan ?ge)" "binary_rounding (ge_round ?ge) u e"
    and ord: "traversal ord"
    using prompt_env [OF env] by metis
  obtain r where r: "gt_router ?g = Some r" "service_ready ''config_service'' (ge_round ?ge) (Suc (Suc 0)) r (gt_world ?g)"
    and d: "gw_outside (gt_world ?g) = d"
    using gateway_main_ready [OF started(2) target(1,3) ge(5), of "Suc (Suc 0)"] target(2) by auto
  obtain pr where "sp_service p = ConfigServiceImpl (Some mysql_empty) (Some redis_empty) pr (Some empty_bus)"
    by (rule config_main_service [OF started(1)])
  then have inv: "config_inv ?J (dp_config d)"
    using fresh_config_run(1) [OF J before(2)] before(1) by (simp add: fresh_backends_def)
  let ?q = "\<lparr>namespace_name = ns, ckey = k, cvalue = v, cversion = 0, environment = env\<rparr>"
  define x where "x = accepted ?q (next_version (dp_config d))"
  have dev: "json_utf8 ?J ''dev''" "json_utf8 ?J []" by (simp_all add: json_laws_ascii [OF J])
  have ok: "publish_ok ?J ?q" "\<not> rejected ?q"
    using publish(3-10) dev by (auto simp: publish_ok_def rejected_def plain_name_def)
  have x: "x = \<lparr>namespace_name = ns, ckey = k, cvalue = v, cversion = sint (next_version (dp_config d)), environment = ''dev''\<rparr>"
    using publish(3) by (auto simp: x_def accepted_def DefaultEnv_def)
  note pub = PublishConfig_accepts [OF J inv ok, of "ge_scan ?ge", folded x_def]
  let ?s1 = "snd (PublishConfig ?J (ge_scan ?ge) ?q (dp_config d))"
  let ?d1 = "d\<lparr>dp_config := ?s1\<rparr>"
  have made: "serve ?J (ge_scan ?ge) ord (RpcPublishConfig ?q) (gw_outside (gt_world ?g)) = ((status_ok, VersionReply (cversion x)), ?d1)"
    using pub(1) by (simp add: d split_beta Let_def grpc_reply_def)
  let ?w = "?d1\<lparr>dp_time := dp_time (gw_outside (gt_world ?g)) + latency\<rparr>"
  have "entry_triple x = (ns, k, ''dev'')" by (simp add: x entry_triple_def)
  then have "fst (GetConfig ?J ord (dp_time ?w) ns k (dp_config ?w)) = Inr (status_ok, Some x)"
    using GetConfig_reads_table(1) [OF J ord pub(2) publish(6,7,4), of "dp_time ?w"] pub(3) by simp
  then have got: "serve ?J (ge_scan ?ge) ord (RpcGetConfig ns k) ?w =
      ((status_ok, EntryReply x), ?w\<lparr>dp_config := snd (GetConfig ?J ord (dp_time ?w) ns k (dp_config ?w))\<rparr>)"
    by (simp add: split_beta Let_def grpc_reply_def)
  note two = config_stubs.two_delivered [OF ge r _ token config_publish_routes [OF publish(1,2)]
      config_get_routes [OF get] made _ got, of m hs m' hs']
  obtain out out' where out: "json_dump ?J (json_object ?J [(''version'', json_int ?J (cversion x))]) = Inr out"
    and out': "json_dump ?J (json_object ?J (entry_response ?J x)) = Inr out'"
    unfolding x_def by (rule accepted_documents [OF J ok])
  show ?thesis
    using two by (auto simp: is_ok_def status_ok_def answered_ok out out' simp flip: x)
qed

theorem published_config_is_served_witness:
  "let (published, g1) = HandleRequestAsync demo_env ''POST'' ''/config/publish''
         (demo_body [(''namespace_name'', ''game''), (''key'', ''rate''), (''value'', ''5'')])
         ''user:ann'' (\<lambda>_. None) (gp_gateway demo_gateway);
       (got, g2) = HandleRequestAsync demo_env ''POST'' ''/config/get''
         (demo_body [(''namespace_name'', ''game''), (''key'', ''rate'')]) ''user:ann'' (\<lambda>_. None) g1
   in \<exists>out. got = Inr (json_response 200 out) \<and>
        json_dump sample_json (json_object sample_json (entry_response sample_json
          \<lparr>namespace_name = ''game'', ckey = ''rate'', cvalue = ''5'', cversion = 1, environment = ''dev''\<rparr>)) = Inr out"
proof -
  have j: "he_json demo_env = sample_json" by (simp add: demo_env_def)
  have n: "next_version (dp_config demo_deployment) = 1"
    by (rule config_main_service [OF demo_config_started]) (simp add: demo_deployment_def)
  obtain cfg where cfg: "LoadGatewayConfig None = Inr cfg" "gc_config_service_target cfg = dp_config_at demo_deployment"
    using demo_gateway_file by (auto simp: demo_deployment_def)
  let ?pub = "[(''namespace_name'', ''game''), (''key'', ''rate''), (''value'', ''5'')]"
  let ?get = "[(''namespace_name'', ''game''), (''key'', ''rate'')]"
  note served = published_config_is_served [where he = demo_env and reqs = "[]" and env = "''dev''" and v = "''5''"
      and c = "empty_context\<lparr>user_id := ''ann''\<rparr>" and token = "''user:ann''" and ns = "''game''" and k = "''rate''"
      and body = "demo_body ?pub" and body' = "demo_body ?get"
      and m = "''POST''" and hs = "\<lambda>_. None" and m' = "''POST''" and hs' = "\<lambda>_. None",
      unfolded j, OF sample_json_laws demo_prompt demo_config_started demo_gateway_started cfg _ _ _
        _ demo_body_parse _ _ _ _ _ _ _ _ _ demo_body_parse]
  have start: "dp_config demo_deployment = config_run sample_json [] (sp_service demo_config)" "0 \<le> dp_time demo_deployment"
    by (simp_all add: demo_deployment_def)
  have req: "config_publish_request sample_json (DObject (map (\<lambda>(k, v). (k, DText v)) ?pub)) =
      Inr (RpcPublishConfig \<lparr>namespace_name = ''game'', ckey = ''rate'', cvalue = ''5'', cversion = 0, environment = ''dev''\<rparr>)"
    "config_get_request sample_json (DObject (map (\<lambda>(k, v). (k, DText v)) ?get)) = Inr (RpcGetConfig ''game'' ''rate'')"
    by (simp_all add: config_publish_request_def config_get_request_def sample_json_def)
  have utf: "json_utf8 sample_json s" for s by (simp add: sample_json_def)
  have plain: "plain_name ''game''" "plain_name ''rate''" by (simp_all add: plain_name_def)
  show ?thesis
    using served [OF start(2,1) _ _ req(1) _ _ _ plain utf utf utf req(2)] demo_token
    by (auto simp: n split_beta Let_def)
qed

end
